(* ===== verification/Prelude.thy ===== *)
theory Prelude
  imports Main "HOL-Library.AList" "HOL-Library.Char_ord" "HOL-Library.List_Lexorder"
    "HOL-Library.Sublist" "HOL-Library.Multiset"
begin

text \<open>
  What the components of cfunc share. Go strings and byte slices are \<^typ>\<open>string\<close>
  (lists of 8-bit characters, compared bytewise by the lexicographic order of
  \<^theory_text>\<open>List_Lexorder\<close>); a Go map is an association list whose order is the order in
  which a \<open>range\<close> loop happens to visit it, so a fact proved for every association list
  holds for every iteration order; a \<open>time.Time\<close> is an integer number of nanoseconds
  since Go's zero time; an \<open>int64\<close> is an \<^typ>\<open>int\<close> with the wrap-around written out.
  The functions of the packages \<open>strings\<close> and \<open>time\<close> that the program calls are
  defined here, with the lemmas the components use.
\<close>

named_theorems go_string "definitions of the string functions"

section \<open>Definitions\<close>

subsection \<open>Strings\<close>

definition has_prefix :: "string \<Rightarrow> string \<Rightarrow> bool" where
  "has_prefix s p \<longleftrightarrow> take (length p) s = p"

definition has_suffix :: "string \<Rightarrow> string \<Rightarrow> bool" where
  "has_suffix s p \<longleftrightarrow> length p \<le> length s \<and> drop (length s - length p) s = p"

definition trim_prefix :: "string \<Rightarrow> string \<Rightarrow> string" where
  "trim_prefix s p = (if has_prefix s p then drop (length p) s else s)"

text \<open>\<open>strings.Cut\<close> and \<open>strings.Split\<close> for a separator of one byte.\<close>

definition cut :: "string \<Rightarrow> char \<Rightarrow> string \<times> string \<times> bool" where
  "cut s c = (if c \<in> set s
     then (takeWhile (\<lambda>x. x \<noteq> c) s, tl (dropWhile (\<lambda>x. x \<noteq> c) s), True)
     else (s, [], False))"

fun split_on :: "char \<Rightarrow> string \<Rightarrow> string list" where
  "split_on c [] = [[]]"
| "split_on c (x # xs) =
     (if x = c then [] # split_on c xs
      else (case split_on c xs of
              [] \<Rightarrow> [[x]]
            | y # ys \<Rightarrow> (x # y) # ys))"

fun join_with :: "string \<Rightarrow> string list \<Rightarrow> string" where
  "join_with sep [] = []"
| "join_with sep [x] = x"
| "join_with sep (x # y # ys) = x @ sep @ join_with sep (y # ys)"

text \<open>\<open>strings.LastIndex\<close> for a separator of one byte: \<open>None\<close> for -1.\<close>

fun last_index :: "string \<Rightarrow> char \<Rightarrow> nat option" where
  "last_index [] c = None"
| "last_index (x # xs) c =
     (case last_index xs c of
        Some i \<Rightarrow> Some (Suc i)
      | None \<Rightarrow> if x = c then Some 0 else None)"

text \<open>
  \<open>strings.TrimSpace\<close> removes leading and trailing white space as \<open>unicode.IsSpace\<close>
  defines it; these are the UTF-8 encodings of those code points.
\<close>

definition space_encodings :: "string list" where
  "space_encodings =
     [[CHR 0x09], [CHR 0x0A], [CHR 0x0B], [CHR 0x0C], [CHR 0x0D], [CHR 0x20],
      [CHR 0xC2, CHR 0x85], [CHR 0xC2, CHR 0xA0],
      [CHR 0xE1, CHR 0x9A, CHR 0x80],
      [CHR 0xE2, CHR 0x80, CHR 0x80], [CHR 0xE2, CHR 0x80, CHR 0x81],
      [CHR 0xE2, CHR 0x80, CHR 0x82], [CHR 0xE2, CHR 0x80, CHR 0x83],
      [CHR 0xE2, CHR 0x80, CHR 0x84], [CHR 0xE2, CHR 0x80, CHR 0x85],
      [CHR 0xE2, CHR 0x80, CHR 0x86], [CHR 0xE2, CHR 0x80, CHR 0x87],
      [CHR 0xE2, CHR 0x80, CHR 0x88], [CHR 0xE2, CHR 0x80, CHR 0x89],
      [CHR 0xE2, CHR 0x80, CHR 0x8A],
      [CHR 0xE2, CHR 0x80, CHR 0xA8], [CHR 0xE2, CHR 0x80, CHR 0xA9],
      [CHR 0xE2, CHR 0x80, CHR 0xAF], [CHR 0xE2, CHR 0x81, CHR 0x9F],
      [CHR 0xE3, CHR 0x80, CHR 0x80]]"

function trim_left :: "string list \<Rightarrow> string \<Rightarrow> string" where
  "trim_left es s =
     (case find (\<lambda>e. e \<noteq> [] \<and> has_prefix s e) es of
        None \<Rightarrow> s
      | Some e \<Rightarrow> trim_left es (drop (length e) s))"
  by pat_completeness auto
termination
proof (relation "measure (\<lambda>(es, s). length s)")
  fix es s e
  assume "find (\<lambda>e. e \<noteq> [] \<and> has_prefix s e) es = Some e"
  then have "e \<noteq> []" and "take (length e) s = e"
    by (auto simp: find_Some_iff has_prefix_def)
  then have "0 < length e" and "s \<noteq> []" by auto
  then show "((es, drop (length e) s), es, s) \<in> measure (\<lambda>(es, s). length s)" by simp
qed simp

definition trim_space :: "string \<Rightarrow> string" where
  "trim_space s = rev (trim_left (map rev space_encodings) (rev (trim_left space_encodings s)))"

definition to_lower_ascii :: "char \<Rightarrow> char" where
  "to_lower_ascii c =
     (if CHR ''A'' \<le> c \<and> c \<le> CHR ''Z'' then char_of (of_char c + 32 :: nat) else c)"

definition is_lower :: "char \<Rightarrow> bool" where
  "is_lower c \<longleftrightarrow> CHR ''a'' \<le> c \<and> c \<le> CHR ''z''"

definition is_upper :: "char \<Rightarrow> bool" where
  "is_upper c \<longleftrightarrow> CHR ''A'' \<le> c \<and> c \<le> CHR ''Z''"

definition is_digit :: "char \<Rightarrow> bool" where
  "is_digit c \<longleftrightarrow> CHR ''0'' \<le> c \<and> c \<le> CHR ''9''"

subsection \<open>Decimal numbers\<close>

definition digit_char :: "nat \<Rightarrow> char" where
  "digit_char n = char_of (48 + n mod 10)"

fun decimal :: "nat \<Rightarrow> string" where
  "decimal n =
     (if 10 \<le> n then decimal (n div 10) else []) @ [digit_char n]"

definition format_int :: "int \<Rightarrow> string" where
  "format_int i = (if 0 \<le> i then decimal (nat i) else CHR ''-'' # decimal (nat (- i)))"

subsection \<open>Machine integers and time\<close>

definition wrap64 :: "int \<Rightarrow> int" where
  "wrap64 x = (x + 2 ^ 63) mod 2 ^ 64 - 2 ^ 63"

abbreviation int64 :: "int \<Rightarrow> bool" where
  "int64 x \<equiv> - (2 ^ 63) \<le> x \<and> x < 2 ^ 63"

type_synonym time = int
type_synonym duration = int

abbreviation Millisecond :: duration where "Millisecond \<equiv> 1000000"
abbreviation Second :: duration where "Second \<equiv> 1000000000"
abbreviation Minute :: duration where "Minute \<equiv> 60000000000"

text \<open>The zero \<open>time.Time\<close> is 0; the Unix epoch is 1970-01-01 on the same scale.\<close>

definition unix_epoch :: time where
  "unix_epoch = 62135596800 * Second"

definition time_truncate :: "time \<Rightarrow> duration \<Rightarrow> time" where
  "time_truncate t d = (if d \<le> 0 then t else t - t mod d)"

text \<open>\<open>t.Sub(u)\<close> saturates at the ends of the \<open>int64\<close> range.\<close>

definition time_sub :: "time \<Rightarrow> time \<Rightarrow> duration" where
  "time_sub t u = max (- (2 ^ 63)) (min (2 ^ 63 - 1) (t - u))"

subsection \<open>Maps\<close>

type_synonym ('k, 'v) gomap = "('k \<times> 'v) list"

abbreviation map_put :: "'k \<Rightarrow> 'v \<Rightarrow> ('k, 'v) gomap \<Rightarrow> ('k, 'v) gomap" where
  "map_put \<equiv> AList.update"

abbreviation map_del :: "'k \<Rightarrow> ('k, 'v) gomap \<Rightarrow> ('k, 'v) gomap" where
  "map_del \<equiv> AList.delete"

abbreviation map_wf :: "('k, 'v) gomap \<Rightarrow> bool" where
  "map_wf m \<equiv> distinct (map fst m)"

text \<open>\<open>m[k]\<close> without the \<open>ok\<close> result: the zero value for a missing key.\<close>

definition map_get :: "'v \<Rightarrow> ('k, 'v) gomap \<Rightarrow> 'k \<Rightarrow> 'v" where
  "map_get z m k = (case map_of m k of None \<Rightarrow> z | Some v \<Rightarrow> v)"

section \<open>Lemmas\<close>

subsection \<open>Maps\<close>

text \<open>Lookups stay lookups: they are not turned into membership in the association list.\<close>

declare map_of_eq_Some_iff [simp del] Some_eq_map_of_iff [simp del]

lemma map_of_put [simp]: "map_of (map_put k v m) = (map_of m)(k \<mapsto> v)"
  by (rule update_conv')

lemma map_of_del [simp]: "map_of (map_del k m) = (map_of m)(k := None)"
  by (rule delete_conv')

lemma map_wf_put [simp, intro]: "map_wf m \<Longrightarrow> map_wf (map_put k v m)"
  by (rule distinct_update)

lemma map_wf_del [simp, intro]: "map_wf m \<Longrightarrow> map_wf (map_del k m)"
  by (rule distinct_delete)

lemma set_map_put: "p \<in> set (map_put k v m) \<Longrightarrow> p = (k, v) \<or> p \<in> set m"
  by (induction m) (auto split: if_splits)

lemma set_map_del: "p \<in> set (map_del k m) \<longleftrightarrow> p \<in> set m \<and> fst p \<noteq> k"
  by (auto simp: AList.delete_eq)

lemma map_get_put [simp]: "map_get z (map_put k v m) k' = (if k' = k then v else map_get z m k')"
  by (simp add: map_get_def)

lemma map_get_del [simp]: "map_get z (map_del k m) k' = (if k' = k then z else map_get z m k')"
  by (simp add: map_get_def)

lemma map_get_Nil [simp]: "map_get z [] k = z"
  by (simp add: map_get_def)

lemma map_wf_set_eq_mset_eq:
  assumes "map_wf m" and "map_wf m'" and "map_of m = map_of m'"
  shows "mset m = mset m'"
proof -
  have "set m = set m'"
    using assms by (metis map_of_SomeD map_of_is_SomeI subsetI subset_antisym surj_pair)
  moreover have "distinct m" and "distinct m'"
    using assms by (simp_all add: distinct_map)
  ultimately show ?thesis by (simp add: set_eq_iff_mset_eq_distinct)
qed

subsection \<open>Strings\<close>

declare trim_left.simps [simp del] decimal.simps [simp del]

lemma of_digit_char: "(of_char (digit_char n) :: nat) = 48 + n mod 10"
proof -
  have "n mod 10 < 10" by simp
  then show ?thesis unfolding digit_char_def by (simp del: mod_less_divisor)
qed

lemma is_digit_iff: "is_digit c \<longleftrightarrow> 48 \<le> (of_char c :: nat) \<and> (of_char c :: nat) \<le> 57"
  by (simp add: is_digit_def less_eq_char_def)

lemma is_digit_digit_char [simp]: "is_digit (digit_char n)"
  unfolding is_digit_iff of_digit_char using mod_less_divisor [of 10 n] by linarith

lemma decimal_digits: "decimal n \<noteq> [] \<and> list_all is_digit (decimal n)"
proof (induction n rule: decimal.induct)
  case (1 n)
  then show ?case by (simp add: decimal.simps [of n])
qed

lemma has_prefix_iff: "has_prefix s p \<longleftrightarrow> (\<exists>t. s = p @ t)"
  by (auto simp: has_prefix_def) (metis append_take_drop_id)

lemma has_prefix_append [simp]: "has_prefix (p @ s) p"
  by (simp add: has_prefix_def)

lemma has_prefix_Nil [simp]: "has_prefix s []"
  by (simp add: has_prefix_def)

lemma has_prefix_trans: "has_prefix s p \<Longrightarrow> has_prefix p q \<Longrightarrow> has_prefix s q"
  by (auto simp: has_prefix_iff)

lemma trim_prefix_append [simp]: "trim_prefix (p @ s) p = s"
  by (simp add: trim_prefix_def)

lemma trim_prefix_inverse: "has_prefix s p \<Longrightarrow> p @ trim_prefix s p = s"
  by (auto simp: has_prefix_iff)

lemma has_suffix_iff: "has_suffix s p \<longleftrightarrow> (\<exists>t. s = t @ p)"
  by (auto simp: has_suffix_def) (metis append_take_drop_id)

lemma cut_append: "c \<notin> set a \<Longrightarrow> cut (a @ c # b) c = (a, b, True)"
  by (induction a) (auto simp: cut_def)

lemma cut_TrueD: "cut s c = (a, b, True) \<Longrightarrow> s = a @ c # b \<and> c \<notin> set a"
proof -
  assume h: "cut s c = (a, b, True)"
  then have "c \<in> set s" by (auto simp: cut_def split: if_splits)
  then obtain a' b' where s: "s = a' @ c # b'" and n: "c \<notin> set a'"
    by (auto dest: split_list_first)
  with h show ?thesis by (simp add: cut_append)
qed

lemma cut_FalseD: "cut s c = (a, b, False) \<Longrightarrow> c \<notin> set s"
  by (auto simp: cut_def split: if_splits)

lemma split_on_not_Nil [simp]: "split_on c s \<noteq> []"
  by (induction s) (auto split: list.splits)

lemma join_with_head: "join_with sep ((x # y) # ys) = x # join_with sep (y # ys)"
  by (cases ys) auto

lemma join_with_Cons: "ys \<noteq> [] \<Longrightarrow> join_with sep (y # ys) = y @ sep @ join_with sep ys"
  by (cases ys) auto

lemma join_split [simp]: "join_with [c] (split_on c s) = s"
proof (induction s)
  case (Cons x s)
  obtain y ys where "split_on c s = y # ys"
    by (cases "split_on c s") auto
  with Cons show ?case by (auto simp: join_with_head)
qed simp

lemma split_on_no_sep: "x \<in> set (split_on c s) \<Longrightarrow> c \<notin> set x"
proof (induction s arbitrary: x)
  case (Cons y s)
  then show ?case
    by (cases "split_on c s") (auto split: if_splits)
qed simp

lemma split_on_atom: "c \<notin> set s \<Longrightarrow> split_on c s = [s]"
  by (induction s) auto

lemma split_on_append: "c \<notin> set a \<Longrightarrow> split_on c (a @ c # b) = a # split_on c b"
  by (induction a) auto

lemma split_join: "xs \<noteq> [] \<Longrightarrow> (\<And>x. x \<in> set xs \<Longrightarrow> c \<notin> set x) \<Longrightarrow> split_on c (join_with [c] xs) = xs"
  by (induction "[c]" xs rule: join_with.induct) (auto simp: split_on_atom split_on_append)

lemma join_with_append:
  "xs \<noteq> [] \<Longrightarrow> ys \<noteq> [] \<Longrightarrow> join_with sep (xs @ ys) = join_with sep xs @ sep @ join_with sep ys"
proof (induction sep xs rule: join_with.induct)
  case (2 sep x)
  then show ?case by (cases ys) auto
qed auto

lemma last_index_None [simp]: "last_index s c = None \<longleftrightarrow> c \<notin> set s"
  by (induction s) (auto split: option.splits)

lemma last_index_append: "c \<notin> set b \<Longrightarrow> last_index (a @ c # b) c = Some (length a)"
  by (induction a) (auto split: option.splits)

lemma last_index_SomeD:
  "last_index s c = Some i \<Longrightarrow>
     s = take i s @ c # drop (Suc i) s \<and> i < length s \<and> c \<notin> set (drop (Suc i) s)"
proof -
  assume h: "last_index s c = Some i"
  then have "c \<in> set s" using last_index_None [of s c] by auto
  then obtain a b where s: "s = a @ c # b" and n: "c \<notin> set b"
    by (auto dest: split_list_last)
  with h show ?thesis by (simp add: last_index_append)
qed

subsection \<open>Machine integers and time\<close>

lemma wrap64_id: "int64 x \<Longrightarrow> wrap64 x = x"
  by (simp add: wrap64_def)

lemma wrap64_range [simp]: "int64 (wrap64 x)"
proof -
  have "0 \<le> (x + 2 ^ 63) mod 2 ^ 64" and "(x + 2 ^ 63) mod 2 ^ 64 < (2 :: int) ^ 64"
    by (rule pos_mod_sign, simp) (rule pos_mod_bound, simp)
  then show ?thesis by (simp add: wrap64_def)
qed

lemma time_truncate_le: "time_truncate t d \<le> t"
  by (simp add: time_truncate_def)

lemma time_truncate_gt: "0 < d \<Longrightarrow> t < time_truncate t d + d"
  by (simp add: time_truncate_def)

lemma time_truncate_idem [simp]: "time_truncate (time_truncate t d) d = time_truncate t d"
  by (simp add: time_truncate_def mod_diff_eq flip: mod_diff_left_eq)

lemma time_truncate_mono: "t \<le> u \<Longrightarrow> time_truncate t d \<le> time_truncate u d"
proof (cases "d \<le> 0")
  case False
  assume "t \<le> u"
  with False have "t div d \<le> u div d" by (simp add: zdiv_mono1)
  moreover have "time_truncate t d = d * (t div d)" and "time_truncate u d = d * (u div d)"
    using False by (simp_all add: time_truncate_def minus_mod_eq_mult_div)
  ultimately show ?thesis using False by simp
qed (simp add: time_truncate_def)

lemma wrap64_eq_iff: "wrap64 x = wrap64 y \<longleftrightarrow> x mod 2 ^ 64 = y mod 2 ^ 64"
proof -
  have "wrap64 x = wrap64 y \<longleftrightarrow> (x + 2 ^ 63) mod 2 ^ 64 = (y + 2 ^ 63) mod 2 ^ 64"
    by (simp add: wrap64_def)
  also have "\<dots> \<longleftrightarrow> x mod 2 ^ 64 = y mod 2 ^ 64"
    by (simp add: mod_eq_dvd_iff)
  finally show ?thesis .
qed

lemma wrap64_mod: "wrap64 x mod 2 ^ 64 = x mod 2 ^ 64"
  unfolding wrap64_def by (metis add_diff_cancel_right' mod_diff_left_eq)

lemma wrap64_add [simp]:
  "wrap64 (wrap64 x + y) = wrap64 (x + y)" "wrap64 (x + wrap64 y) = wrap64 (x + y)"
  unfolding wrap64_eq_iff by (metis mod_add_left_eq wrap64_mod, metis mod_add_right_eq wrap64_mod)

lemma wrap64_diff [simp]: "wrap64 (wrap64 x - y) = wrap64 (x - y)"
  using wrap64_add (1) [of x "- y"] by simp

lemma wrap64_idem [simp]: "wrap64 (wrap64 x) = wrap64 x"
  by (rule wrap64_id) (rule wrap64_range)

text \<open>What a put changes in a sum over the values of a map.\<close>

lemma sum_values_put:
  "map_wf m \<Longrightarrow>
     sum_list (map snd (filter (\<lambda>(k, _). P k) (map_put b v m))) =
       sum_list (map snd (filter (\<lambda>(k, _). P k) m)) + (if P b then v - map_get 0 m b else (0 :: int))"
proof (induction m)
  case (Cons p m)
  have "map_get 0 m (fst p) = 0" if "fst p \<notin> fst ` set m"
    using that by (simp add: map_get_def map_of_eq_None_iff [THEN iffD2])
  with Cons show ?case by (cases p) (auto simp: map_get_def)
qed (simp add: map_get_def)

end
