(* ===== verification/Json.thy ===== *)
theory Json
  imports Prelude
begin

text \<open>
  The part of \<open>encoding/json\<close> the program calls, as the byte automaton that package is:
  the scanner (\<open>json.Valid\<close>, and the check \<open>json.Unmarshal\<close> starts with), compaction of a
  \<open>json.RawMessage\<close>, quoting and unquoting of strings, and the member list of an object,
  from which the components decode their structs. Raw messages stay texts, so numbers and
  escapes of a payload are never reinterpreted on the way through.
\<close>

section \<open>Definitions\<close>

subsection \<open>The scanner\<close>

definition json_space :: "char \<Rightarrow> bool" where
  "json_space c \<longleftrightarrow> c = CHR '' '' \<or> c = CHR 0x09 \<or> c = CHR 0x0D \<or> c = CHR 0x0A"

definition is_hex :: "char \<Rightarrow> bool" where
  "is_hex c \<longleftrightarrow> is_digit c \<or> (CHR ''a'' \<le> c \<and> c \<le> CHR ''f'') \<or> (CHR ''A'' \<le> c \<and> c \<le> CHR ''F'')"

datatype scan_mode =
    BeginValue | BeginValueOrEmpty | BeginString | BeginStringOrEmpty | EndValue | EndTop
  | InString | InStringEsc | InStringEscU nat
  | Neg | Num0 | Num1 | Dot | Dot0 | NumE | NumESign | NumE0
  | Literal string

datatype parse_state = ParseObjectKey | ParseObjectValue | ParseArrayValue

type_synonym scanner = "scan_mode \<times> parse_state list"

abbreviation max_nesting_depth :: nat where
  "max_nesting_depth \<equiv> 10000"

definition scan_push :: "scan_mode \<Rightarrow> parse_state \<Rightarrow> parse_state list \<Rightarrow> scanner option" where
  "scan_push m p st = (if Suc (length st) \<le> max_nesting_depth then Some (m, p # st) else None)"

definition scan_pop :: "parse_state list \<Rightarrow> scanner" where
  "scan_pop st = (if st = [] then (EndTop, []) else (EndValue, st))"

definition scan_end_value :: "char \<Rightarrow> parse_state list \<Rightarrow> scanner option" where
  "scan_end_value c st =
     (case st of
        [] \<Rightarrow> if json_space c then Some (EndTop, []) else None
      | p # ps \<Rightarrow>
          if json_space c then Some (EndValue, st)
          else (case p of
              ParseObjectKey \<Rightarrow> if c = CHR '':'' then Some (BeginValue, ParseObjectValue # ps) else None
            | ParseObjectValue \<Rightarrow>
                if c = CHR '','' then Some (BeginString, ParseObjectKey # ps)
                else if c = CHR ''}'' then Some (scan_pop ps) else None
            | ParseArrayValue \<Rightarrow>
                if c = CHR '','' then Some (BeginValue, ParseArrayValue # ps)
                else if c = CHR '']'' then Some (scan_pop ps) else None))"

definition begin_mode :: "char \<Rightarrow> (scan_mode \<times> parse_state option) option" where
  "begin_mode c =
     (if json_space c then Some (BeginValue, None)
      else if c = CHR ''{'' then Some (BeginStringOrEmpty, Some ParseObjectKey)
      else if c = CHR ''['' then Some (BeginValueOrEmpty, Some ParseArrayValue)
      else if c = CHR 0x22 then Some (InString, None)
      else if c = CHR ''-'' then Some (Neg, None)
      else if c = CHR ''0'' then Some (Num0, None)
      else if c = CHR ''t'' then Some (Literal ''rue'', None)
      else if c = CHR ''f'' then Some (Literal ''alse'', None)
      else if c = CHR ''n'' then Some (Literal ''ull'', None)
      else if is_digit c then Some (Num1, None)
      else None)"

definition scan_begin_value :: "char \<Rightarrow> parse_state list \<Rightarrow> scanner option" where
  "scan_begin_value c st =
     (case begin_mode c of
        None \<Rightarrow> None
      | Some (m, None) \<Rightarrow> Some (m, st)
      | Some (m, Some p) \<Rightarrow> scan_push m p st)"

definition scan_begin_string :: "char \<Rightarrow> scan_mode \<Rightarrow> parse_state list \<Rightarrow> scanner option" where
  "scan_begin_string c m st =
     (if json_space c then Some (m, st) else if c = CHR 0x22 then Some (InString, st) else None)"

definition scan_num0 :: "char \<Rightarrow> parse_state list \<Rightarrow> scanner option" where
  "scan_num0 c st =
     (if c = CHR ''.'' then Some (Dot, st)
      else if c = CHR ''e'' \<or> c = CHR ''E'' then Some (NumE, st)
      else scan_end_value c st)"

fun scan_step :: "char \<Rightarrow> scanner \<Rightarrow> scanner option" where
  "scan_step c (BeginValue, st) = scan_begin_value c st"
| "scan_step c (BeginValueOrEmpty, st) =
     (if json_space c then Some (BeginValueOrEmpty, st)
      else if c = CHR '']'' then scan_end_value c st
      else scan_begin_value c st)"
| "scan_step c (BeginStringOrEmpty, st) =
     (if c = CHR ''}'' then scan_end_value c (ParseObjectValue # tl st)
      else scan_begin_string c BeginStringOrEmpty st)"
| "scan_step c (BeginString, st) = scan_begin_string c BeginString st"
| "scan_step c (EndValue, st) = scan_end_value c st"
| "scan_step c (EndTop, st) = (if json_space c then Some (EndTop, st) else None)"
| "scan_step c (InString, st) =
     (if c = CHR 0x22 then Some (EndValue, st)
      else if c = CHR 0x5C then Some (InStringEsc, st)
      else if of_char c < (0x20 :: nat) then None
      else Some (InString, st))"
| "scan_step c (InStringEsc, st) =
     (if c = CHR ''u'' then Some (InStringEscU 4, st)
      else if c \<in> {CHR ''b'', CHR ''f'', CHR ''n'', CHR ''r'', CHR ''t'', CHR 0x5C, CHR ''/'', CHR 0x22}
      then Some (InString, st) else None)"
| "scan_step c (InStringEscU n, st) =
     (if is_hex c then Some (if n \<le> 1 then InString else InStringEscU (n - 1), st) else None)"
| "scan_step c (Neg, st) =
     (if c = CHR ''0'' then Some (Num0, st) else if is_digit c then Some (Num1, st) else None)"
| "scan_step c (Num1, st) = (if is_digit c then Some (Num1, st) else scan_num0 c st)"
| "scan_step c (Num0, st) = scan_num0 c st"
| "scan_step c (Dot, st) = (if is_digit c then Some (Dot0, st) else None)"
| "scan_step c (Dot0, st) =
     (if is_digit c then Some (Dot0, st)
      else if c = CHR ''e'' \<or> c = CHR ''E'' then Some (NumE, st)
      else scan_end_value c st)"
| "scan_step c (NumE, st) =
     (if c = CHR ''+'' \<or> c = CHR ''-'' then Some (NumESign, st)
      else if is_digit c then Some (NumE0, st) else None)"
| "scan_step c (NumESign, st) = (if is_digit c then Some (NumE0, st) else None)"
| "scan_step c (NumE0, st) = (if is_digit c then Some (NumE0, st) else scan_end_value c st)"
| "scan_step c (Literal l, st) =
     (case l of
        [] \<Rightarrow> scan_end_value c st
      | x # xs \<Rightarrow> if c = x then Some (if xs = [] then EndValue else Literal xs, st) else None)"

fun scan_run :: "string \<Rightarrow> scanner \<Rightarrow> scanner option" where
  "scan_run [] p = Some p"
| "scan_run (c # cs) p = (case scan_step c p of None \<Rightarrow> None | Some p' \<Rightarrow> scan_run cs p')"

text \<open>\<open>eof\<close>: the value is complete, if need be after one more space.\<close>

definition scan_eof :: "scanner \<Rightarrow> bool" where
  "scan_eof p \<longleftrightarrow> fst p = EndTop \<or> (case scan_step (CHR '' '') p of
     Some (m, _) \<Rightarrow> m = EndTop | None \<Rightarrow> False)"

definition json_valid :: "string \<Rightarrow> bool" where
  "json_valid s \<longleftrightarrow> (case scan_run s (BeginValue, []) of None \<Rightarrow> False | Some p \<Rightarrow> scan_eof p)"

subsection \<open>Strings\<close>

definition hex_digit :: "nat \<Rightarrow> char" where
  "hex_digit n = (if n < 10 then char_of (48 + n) else char_of (87 + n))"

definition hex_value :: "char \<Rightarrow> nat" where
  "hex_value c =
     (if is_digit c then of_char c - 48
      else if c < CHR ''a'' then of_char c - 55 else of_char c - 87)"

text \<open>The length of the UTF-8 sequence at the head of a text, if it is a valid one.\<close>

definition cont_byte :: "nat \<Rightarrow> bool" where
  "cont_byte b \<longleftrightarrow> 0x80 \<le> b \<and> b \<le> 0xBF"

fun utf8_seq :: "nat list \<Rightarrow> nat option" where
  "utf8_seq [] = None"
| "utf8_seq (b # bs) =
     (if b < 0x80 then Some 1
      else if 0xC2 \<le> b \<and> b \<le> 0xDF then
        (case bs of b1 # _ \<Rightarrow> if cont_byte b1 then Some 2 else None | [] \<Rightarrow> None)
      else if 0xE0 \<le> b \<and> b \<le> 0xEF then
        (case bs of
           b1 # b2 # _ \<Rightarrow>
             if cont_byte b1 \<and> cont_byte b2 \<and> (b = 0xE0 \<longrightarrow> 0xA0 \<le> b1) \<and> (b = 0xED \<longrightarrow> b1 \<le> 0x9F)
             then Some 3 else None
         | _ \<Rightarrow> None)
      else if 0xF0 \<le> b \<and> b \<le> 0xF4 then
        (case bs of
           b1 # b2 # b3 # _ \<Rightarrow>
             if cont_byte b1 \<and> cont_byte b2 \<and> cont_byte b3 \<and>
                (b = 0xF0 \<longrightarrow> 0x90 \<le> b1) \<and> (b = 0xF4 \<longrightarrow> b1 \<le> 0x8F)
             then Some 4 else None
         | _ \<Rightarrow> None)
      else None)"

definition utf8_len :: "string \<Rightarrow> nat option" where
  "utf8_len s = utf8_seq (map of_char (take 4 s))"

definition replacement_char :: string where
  "replacement_char = [CHR 0xEF, CHR 0xBF, CHR 0xBD]"

text \<open>The UTF-8 encoding of a code point (\<open>utf8.EncodeRune\<close>); surrogates are replaced.\<close>

definition encode_rune :: "nat \<Rightarrow> string" where
  "encode_rune r =
     (if r < 0x80 then [char_of r]
      else if r < 0x800 then [char_of (0xC0 + r div 64), char_of (0x80 + r mod 64)]
      else if 0xD800 \<le> r \<and> r \<le> 0xDFFF \<or> 0x10FFFF < r then replacement_char
      else if r < 0x10000 then
        [char_of (0xE0 + r div 4096), char_of (0x80 + r div 64 mod 64), char_of (0x80 + r mod 64)]
      else
        [char_of (0xF0 + r div 262144), char_of (0x80 + r div 4096 mod 64),
         char_of (0x80 + r div 64 mod 64), char_of (0x80 + r mod 64)])"

text \<open>How \<open>json.Marshal\<close> writes one ASCII byte of a string, HTML characters escaped.\<close>

definition quote_ascii :: "char \<Rightarrow> string" where
  "quote_ascii c =
     (if c = CHR 0x22 \<or> c = CHR 0x5C then [CHR 0x5C, c]
      else if c = CHR 0x08 then [CHR 0x5C, CHR ''b'']
      else if c = CHR 0x0C then [CHR 0x5C, CHR ''f'']
      else if c = CHR 0x0A then [CHR 0x5C, CHR ''n'']
      else if c = CHR 0x0D then [CHR 0x5C, CHR ''r'']
      else if c = CHR 0x09 then [CHR 0x5C, CHR ''t'']
      else if of_char c < (0x20 :: nat) \<or> c = CHR ''<'' \<or> c = CHR ''>'' \<or> c = CHR ''&''
      then [CHR 0x5C, CHR ''u'', CHR ''0'', CHR ''0'', hex_digit (of_char c div 16), hex_digit (of_char c mod 16)]
      else [c])"

definition line_separator :: "string \<Rightarrow> bool" where
  "line_separator s \<longleftrightarrow> take 3 s = [CHR 0xE2, CHR 0x80, CHR 0xA8] \<or> take 3 s = [CHR 0xE2, CHR 0x80, CHR 0xA9]"

definition quote_separator :: "string \<Rightarrow> string" where
  "quote_separator s = [CHR 0x5C, CHR ''u'', CHR ''2'', CHR ''0'', CHR ''2'',
     if take 3 s = [CHR 0xE2, CHR 0x80, CHR 0xA8] then CHR ''8'' else CHR ''9'']"

function quote_body :: "string \<Rightarrow> string" where
  "quote_body s =
     (if s = [] then []
      else (case utf8_len s of
          None \<Rightarrow> [CHR 0x5C] @ ''ufffd'' @ quote_body (drop 1 s)
        | Some n \<Rightarrow>
            if n \<le> 1 then quote_ascii (hd s) @ quote_body (drop 1 s)
            else if line_separator s then quote_separator s @ quote_body (drop n s)
            else take n s @ quote_body (drop n s)))"
  by pat_completeness auto
termination
  by (relation "measure length") auto

definition json_quote :: "string \<Rightarrow> string" where
  "json_quote s = [CHR 0x22] @ quote_body s @ [CHR 0x22]"


definition hex4 :: "string \<Rightarrow> nat option" where
  "hex4 s = (if 4 \<le> length s \<and> list_all is_hex (take 4 s)
     then Some (foldl (\<lambda>a c. 16 * a + hex_value c) 0 (take 4 s)) else None)"

text \<open>\<open>getu4\<close>: the code unit of a backslash-u escape at the head of the text.\<close>

definition getu4 :: "string \<Rightarrow> nat option" where
  "getu4 s = (if take 2 s = [CHR 0x5C, CHR ''u''] then hex4 (drop 2 s) else None)"

definition simple_escape :: "char \<Rightarrow> char option" where
  "simple_escape c =
     (if c = CHR 0x22 \<or> c = CHR 0x5C \<or> c = CHR ''/'' \<or> c = CHR 0x27 then Some c
      else if c = CHR ''b'' then Some (CHR 0x08)
      else if c = CHR ''f'' then Some (CHR 0x0C)
      else if c = CHR ''n'' then Some (CHR 0x0A)
      else if c = CHR ''r'' then Some (CHR 0x0D)
      else if c = CHR ''t'' then Some (CHR 0x09)
      else None)"

text \<open>One escape: the bytes it stands for and how many bytes of the text it takes.\<close>

definition unquote_escape :: "string \<Rightarrow> (string \<times> nat) option" where
  "unquote_escape s =
     (case getu4 s of
        Some rr \<Rightarrow>
          if 0xD800 \<le> rr \<and> rr \<le> 0xDFFF then
            (case getu4 (drop 6 s) of
               Some rr1 \<Rightarrow>
                 if rr \<le> 0xDBFF \<and> 0xDC00 \<le> rr1 \<and> rr1 \<le> 0xDFFF
                 then Some (encode_rune (0x10000 + (rr - 0xD800) * 0x400 + (rr1 - 0xDC00)), 12)
                 else Some (replacement_char, 6)
             | None \<Rightarrow> Some (replacement_char, 6))
          else Some (encode_rune rr, 6)
      | None \<Rightarrow>
          (case s of
             _ # e # _ \<Rightarrow> map_option (\<lambda>c. ([c], 2)) (simple_escape e)
           | _ \<Rightarrow> None))"

text \<open>
  Unquoting: the text between the quotes, escapes decoded and bytes that are not valid UTF-8
  replaced. The number of bytes an escape takes is positive.
\<close>

function unquote_body :: "string \<Rightarrow> string option" where
  "unquote_body s =
     (if s = [] then Some []
      else if hd s = CHR 0x5C then
        (case unquote_escape s of
           None \<Rightarrow> None
         | Some (out, n) \<Rightarrow> map_option ((@) out) (unquote_body (drop (max 1 n) s)))
      else if hd s = CHR 0x22 \<or> of_char (hd s) < (0x20 :: nat) then None
      else (case utf8_len s of
          None \<Rightarrow> map_option ((@) replacement_char) (unquote_body (drop 1 s))
        | Some n \<Rightarrow> map_option ((@) (take (max 1 n) s)) (unquote_body (drop (max 1 n) s))))"
  by pat_completeness auto
termination
  by (relation "measure length") auto

definition json_unquote :: "string \<Rightarrow> string option" where
  "json_unquote s =
     (if 2 \<le> length s \<and> hd s = CHR 0x22 \<and> last s = CHR 0x22
      then unquote_body (butlast (tl s)) else None)"

subsection \<open>Raw values\<close>

definition skip_space :: "string \<Rightarrow> string" where
  "skip_space s = dropWhile json_space s"

definition value_done :: "scanner \<Rightarrow> bool" where
  "value_done p \<longleftrightarrow> snd p = [] \<and> (fst p = EndValue \<or> fst p = EndTop)"

text \<open>The text of the value at the head of \<open>s\<close>, and what follows it.\<close>

fun take_value :: "scanner \<Rightarrow> string \<Rightarrow> string \<times> string" where
  "take_value p [] = ([], [])"
| "take_value p (c # cs) =
     (if value_done p then ([], c # cs)
      else (case scan_step c p of
          None \<Rightarrow> ([], c # cs)
        | Some p' \<Rightarrow>
            if value_done p' \<and> json_space c then ([], c # cs)
            else (let (v, r) = take_value p' cs in (c # v, r))))"

text \<open>
  The members of an object text, after its opening brace: keys unquoted, values raw. The first
  argument bounds the number of members; an object text has fewer of them than bytes.
\<close>

fun raw_members :: "nat \<Rightarrow> string \<Rightarrow> (string \<times> string) list option" where
  "raw_members 0 s = None"
| "raw_members (Suc n) s =
     (let (k, s1) = take_value (BeginValue, []) (skip_space s)
      in case json_unquote k of
           None \<Rightarrow> None
         | Some key \<Rightarrow>
             (case skip_space s1 of
                [] \<Rightarrow> None
              | c # s2 \<Rightarrow>
                  if c \<noteq> CHR '':'' then None
                  else
                   (let (v, s3) = take_value (BeginValue, []) (skip_space s2)
                    in case skip_space s3 of
                         [] \<Rightarrow> None
                       | d # s4 \<Rightarrow>
                           if d = CHR '','' then map_option (Cons (key, v)) (raw_members n s4)
                           else if d = CHR ''}'' then Some [(key, v)]
                           else None)))"

definition json_members :: "string \<Rightarrow> (string \<times> string) list option" where
  "json_members s =
     (case skip_space s of
        [] \<Rightarrow> None
      | c # s1 \<Rightarrow>
          if c \<noteq> CHR ''{'' then None
          else if take 1 (skip_space s1) = [CHR ''}''] then Some []
          else raw_members (length s) s1)"

subsection \<open>Typed decoding\<close>

text \<open>
  What a raw value is for a field of a given type: its value, null (which leaves the field as
  it is), or a mismatch (which leaves the field as it is and makes \<open>Unmarshal\<close> fail).
\<close>

datatype 'a decoded = DValue 'a | DNull | DMismatch

definition json_null :: "string \<Rightarrow> bool" where
  "json_null raw \<longleftrightarrow> raw = ''null''"

definition decode_string :: "string \<Rightarrow> string decoded" where
  "decode_string raw =
     (if json_null raw then DNull
      else (case json_unquote raw of None \<Rightarrow> DMismatch | Some s \<Rightarrow> DValue s))"

definition digits_value :: "string \<Rightarrow> int" where
  "digits_value ds = foldl (\<lambda>a c. 10 * a + (int (of_char c) - 48)) 0 ds"

definition decode_int64 :: "string \<Rightarrow> int decoded" where
  "decode_int64 raw =
     (if json_null raw then DNull
      else
       (let neg = (take 1 raw = ''-''); ds = (if neg then drop 1 raw else raw);
            v = (if neg then - digits_value ds else digits_value ds)
        in if ds \<noteq> [] \<and> list_all is_digit ds \<and> int64 v then DValue v else DMismatch))"

text \<open>The elements of a \<open>map[string]string\<close>: a null element is the empty string.\<close>

fun decode_entries :: "(string \<times> string) list \<Rightarrow> (string, string) gomap \<Rightarrow> (string, string) gomap \<times> bool" where
  "decode_entries [] m = (m, True)"
| "decode_entries ((k, raw) # kvs) m =
     (case decode_string raw of
        DValue v \<Rightarrow> decode_entries kvs (map_put k v m)
      | DNull \<Rightarrow> decode_entries kvs (map_put k [] m)
      | DMismatch \<Rightarrow> (fst (decode_entries kvs (map_put k [] m)), False))"

definition decode_string_map :: "(string, string) gomap \<Rightarrow> string \<Rightarrow> (string, string) gomap \<times> bool" where
  "decode_string_map old raw =
     (if json_null raw then ([], True)
      else (case json_members raw of None \<Rightarrow> (old, False) | Some kvs \<Rightarrow> decode_entries kvs old))"

text \<open>
  The name of a struct field matches a key exactly or under \<open>foldName\<close>: ASCII letters in upper
  case, the long s and the Kelvin sign folded to the ASCII letters of their orbit.
\<close>

function fold_name :: "string \<Rightarrow> string" where
  "fold_name s =
     (if s = [] then []
      else if take 2 s = [CHR 0xC5, CHR 0xBF] then CHR ''S'' # fold_name (drop 2 s)
      else if take 3 s = [CHR 0xE2, CHR 0x84, CHR 0xAA] then CHR ''K'' # fold_name (drop 3 s)
      else (if is_lower (hd s) then char_of (of_char (hd s) - 32 :: nat) else hd s) # fold_name (drop 1 s))"
  by pat_completeness auto
termination
  by (relation "measure length") auto

definition field_matches :: "string \<Rightarrow> string \<Rightarrow> bool" where
  "field_matches name key \<longleftrightarrow> key = name \<or> fold_name key = fold_name name"

subsection \<open>Encoding\<close>

fun encode_members :: "(string \<times> string) list \<Rightarrow> string" where
  "encode_members [] = []"
| "encode_members [(k, v)] = json_quote k @ '':'' @ v"
| "encode_members ((k, v) # kv # kvs) = json_quote k @ '':'' @ v @ '','' @ encode_members (kv # kvs)"

text \<open>An object whose member values are already encoded.\<close>

definition encode_object :: "(string \<times> string) list \<Rightarrow> string" where
  "encode_object kvs = ''{'' @ encode_members kvs @ ''}''"

definition encode_string_map :: "(string, string) gomap \<Rightarrow> string" where
  "encode_string_map m = encode_object (map (\<lambda>(k, v). (k, json_quote v)) (sort_key fst m))"

text \<open>
  \<open>appendCompact\<close>: a raw message is checked by the scanner and copied without the white space
  between tokens, HTML characters and line separators escaped. \<open>skip\<close> counts the bytes of a
  separator that its escape already stands for.
\<close>

fun compact_from :: "scanner \<Rightarrow> nat \<Rightarrow> string \<Rightarrow> string option" where
  "compact_from p skip [] = (if scan_eof p then Some [] else None)"
| "compact_from p skip (c # cs) =
     (case scan_step c p of
        None \<Rightarrow> None
      | Some p' \<Rightarrow>
          if 0 < skip then compact_from p' (skip - 1) cs
          else if line_separator (c # cs)
          then map_option ((@) (quote_separator (c # cs))) (compact_from p' 2 cs)
          else if c = CHR ''<'' \<or> c = CHR ''>'' \<or> c = CHR ''&''
          then map_option ((@) (quote_ascii c)) (compact_from p' 0 cs)
          else if json_space c \<and> fst p \<noteq> InString then compact_from p' 0 cs
          else map_option (Cons c) (compact_from p' 0 cs))"

definition compact_raw :: "string \<Rightarrow> string option" where
  "compact_raw s = compact_from (BeginValue, []) 0 s"

subsection \<open>Valid texts\<close>

function utf8_valid :: "string \<Rightarrow> bool" where
  "utf8_valid s \<longleftrightarrow>
     (if s = [] then True
      else (case utf8_len s of None \<Rightarrow> False | Some n \<Rightarrow> utf8_valid (drop (max 1 n) s)))"
  by pat_completeness auto
termination
  by (relation "measure length") auto

text \<open>The deepest nesting a scan reaches.\<close>

fun scan_depth :: "string \<Rightarrow> scanner \<Rightarrow> nat" where
  "scan_depth [] p = length (snd p)"
| "scan_depth (c # cs) p =
     max (length (snd p)) (case scan_step c p of None \<Rightarrow> 0 | Some p' \<Rightarrow> scan_depth cs p')"

text \<open>
  A raw value as \<open>json.Marshal\<close> leaves it: valid, without white space around it, and shallow
  enough to be a member of an object.
\<close>

definition raw_ok :: "string \<Rightarrow> bool" where
  "raw_ok r \<longleftrightarrow>
     json_valid r \<and> \<not> json_space (hd r) \<and> \<not> json_space (last r) \<and>
     scan_depth r (BeginValue, []) < max_nesting_depth"

text \<open>A text that can stand inside a string literal and leaves the scanner inside it.\<close>

definition string_text :: "string \<Rightarrow> bool" where
  "string_text s \<longleftrightarrow>
     (\<forall>st. scan_run s (InString, st) = Some (InString, st) \<and> scan_depth s (InString, st) = length st)"

text \<open>A scanner with more enclosing values below its own.\<close>

definition scan_under :: "parse_state list \<Rightarrow> scanner \<Rightarrow> scanner" where
  "scan_under ext p = (if fst p = EndTop then (EndValue, ext) else (fst p, snd p @ ext))"

text \<open>Texts that quoting leaves as they are.\<close>

definition plain_text :: "string \<Rightarrow> bool" where
  "plain_text s \<longleftrightarrow> list_all (\<lambda>c. 0x20 \<le> (of_char c :: nat) \<and> (of_char c :: nat) < 0x80 \<and>
     c \<notin> {CHR 0x22, CHR 0x5C, CHR ''<'', CHR ''>'', CHR ''&''}) s"

section \<open>Lemmas\<close>

declare quote_body.simps [simp del] unquote_body.simps [simp del] fold_name.simps [simp del]
  utf8_valid.simps [simp del]

subsection \<open>Bytes\<close>

lemma is_hex_digit: "n < 16 \<Longrightarrow> is_hex (hex_digit n)"
  by (auto simp: is_hex_def hex_digit_def is_digit_def less_eq_char_def)

lemma of_char_digit: "is_digit c \<Longrightarrow> 48 \<le> (of_char c :: nat) \<and> (of_char c :: nat) \<le> 57"
  by (simp add: is_digit_def less_eq_char_def)

lemma hex_value_digit: "n < 16 \<Longrightarrow> hex_value (hex_digit n) = n"
  by (auto simp: hex_value_def hex_digit_def is_digit_def less_eq_char_def less_char_def)

lemma utf8_seq_cases:
  assumes "utf8_seq bs = Some n"
  obtains (one) b r where "bs = b # r" "b < 0x80" "n = 1"
  | (two) b b1 r where "bs = b # b1 # r" "0xC2 \<le> b \<and> b \<le> 0xDF" "cont_byte b1" "n = 2"
  | (three) b b1 b2 r where "bs = b # b1 # b2 # r" "0xE0 \<le> b \<and> b \<le> 0xEF" "cont_byte b1" "cont_byte b2"
      "b = 0xE0 \<longrightarrow> 0xA0 \<le> b1" "b = 0xED \<longrightarrow> b1 \<le> 0x9F" "n = 3"
  | (four) b b1 b2 b3 r where "bs = b # b1 # b2 # b3 # r" "0xF0 \<le> b \<and> b \<le> 0xF4"
      "cont_byte b1" "cont_byte b2" "cont_byte b3" "b = 0xF0 \<longrightarrow> 0x90 \<le> b1" "b = 0xF4 \<longrightarrow> b1 \<le> 0x8F" "n = 4"
  using assms by (cases bs) (auto split: if_splits list.splits)

lemma utf8_seq_multi:
  assumes "utf8_seq bs = Some n" and "1 < n"
  shows "n \<le> length bs" and "\<And>b. b \<in> set (take n bs) \<Longrightarrow> 0x80 \<le> b"
    and "utf8_seq (take n bs @ r) = Some n" and "n \<le> 4"
  using assms by (cases rule: utf8_seq_cases [OF assms(1)]; auto simp: cont_byte_def)+

lemma utf8_multi:
  assumes "utf8_len s = Some n" and "1 < n"
  shows "length (take n s) = n" and "\<And>c. c \<in> set (take n s) \<Longrightarrow> 0x80 \<le> (of_char c :: nat)"
    and "utf8_len (take n s @ t) = Some n"
proof -
  let ?bs = "map of_char (take 4 s) :: nat list"
  have u: "utf8_seq ?bs = Some n" using assms(1) by (simp add: utf8_len_def)
  note m = utf8_seq_multi [OF u assms(2)]
  have t: "take n ?bs = map of_char (take n s)"
    using m(4) by (simp add: take_map min_def)
  show l: "length (take n s) = n" using m(1) by simp
  show "0x80 \<le> (of_char c :: nat)" if "c \<in> set (take n s)" for c
    using m(2) [of "of_char c"] that unfolding t by auto
  have "take 4 (take n s @ t) = take n s @ take (4 - n) t" using m(4) l by (simp add: min_def)
  then show "utf8_len (take n s @ t) = Some n"
    using m(3) [of "map of_char (take (4 - n) t)"] unfolding t by (simp add: utf8_len_def)
qed

lemma utf8_ascii:
  assumes "utf8_len s = Some n" and "n \<le> 1"
  shows "s \<noteq> [] \<and> n = 1 \<and> (of_char (hd s) :: nat) < 0x80"
  using assms unfolding utf8_len_def
  by (cases rule: utf8_seq_cases [OF assms(1) [unfolded utf8_len_def]]; cases s; simp)

lemma utf8_len_ascii: "(of_char c :: nat) < 0x80 \<Longrightarrow> utf8_len (c # s) = Some 1"
  by (simp add: utf8_len_def)

subsection \<open>Quoting\<close>

lemma scan_run_append:
  "scan_run (a @ b) p = (case scan_run a p of None \<Rightarrow> None | Some p' \<Rightarrow> scan_run b p')"
  by (induction a arbitrary: p) (auto split: option.splits)

lemma scan_depth_ge: "length (snd p) \<le> scan_depth s p"
  by (cases s) auto

lemma scan_depth_append:
  "scan_run a p = Some q \<Longrightarrow> scan_depth (a @ b) p = max (scan_depth a p) (scan_depth b q)"
proof (induction a arbitrary: p)
  case Nil
  then show ?case using scan_depth_ge [of q b] by simp
next
  case (Cons c a)
  then show ?case by (auto split: option.splits)
qed

lemma string_text_append: "string_text a \<Longrightarrow> string_text b \<Longrightarrow> string_text (a @ b)"
  by (simp add: string_text_def scan_run_append scan_depth_append)

lemma quote_ascii_text:
  assumes "(of_char c :: nat) < 0x80"
  shows "string_text (quote_ascii c)"
proof -
  have "(of_char c :: nat) div 16 < 16" and "(of_char c :: nat) mod 16 < 16"
    using assms by simp_all
  then show ?thesis
    using assms is_hex_digit [of "of_char c div 16"] is_hex_digit [of "of_char c mod 16"]
    by (auto simp: string_text_def quote_ascii_def is_hex_def [of "CHR ''0''"] is_digit_def)
qed

lemma high_bytes_text: "(\<And>c. c \<in> set s \<Longrightarrow> 0x80 \<le> (of_char c :: nat)) \<Longrightarrow> string_text s"
proof (induction s)
  case (Cons c s)
  have "0x80 \<le> (of_char c :: nat)" using Cons.prems by simp
  then have "c \<noteq> CHR 0x22" and "c \<noteq> CHR 0x5C" and "\<not> (of_char c :: nat) < 0x20" by auto
  moreover have "string_text s" using Cons by simp
  ultimately show ?case by (simp add: string_text_def)
qed (simp add: string_text_def)

lemma quote_separator_text: "string_text (quote_separator s)"
  by (simp add: string_text_def quote_separator_def is_hex_def is_digit_def)

lemma quote_replacement_text: "string_text ([CHR 0x5C] @ ''ufffd'')"
  by (simp add: string_text_def is_hex_def is_digit_def)

lemma quote_body_text: "string_text (quote_body s)"
proof (induction s rule: quote_body.induct)
  case (1 s)
  note step = quote_body.simps [of s]
  consider "s = []" | "s \<noteq> []" "utf8_len s = None"
    | n where "s \<noteq> []" "utf8_len s = Some n" "n \<le> 1"
    | n where "s \<noteq> []" "utf8_len s = Some n" "1 < n" "line_separator s"
    | n where "s \<noteq> []" "utf8_len s = Some n" "1 < n" "\<not> line_separator s"
    by (cases "utf8_len s") (auto, metis not_le)
  then show ?case
  proof cases
    case 1
    then have "quote_body s = []" using step by simp
    then show ?thesis by (simp add: string_text_def)
  next
    case 2
    then have "string_text (([CHR 0x5C] @ ''ufffd'') @ quote_body (drop 1 s))"
      by (intro string_text_append quote_replacement_text) (rule "1.IH"(1))
    then show ?thesis using 2 by (simp add: step)
  next
    case (3 n)
    then have "string_text (quote_ascii (hd s) @ quote_body (drop 1 s))"
      using utf8_ascii [OF 3(2,3)] by (intro string_text_append quote_ascii_text "1.IH"(2)) auto
    then show ?thesis using 3 by (simp add: step)
  next
    case (4 n)
    then have "string_text (quote_separator s @ quote_body (drop n s))"
      by (intro string_text_append quote_separator_text "1.IH"(3)) auto
    then show ?thesis using 4 by (simp add: step)
  next
    case (5 n)
    then have "string_text (take n s @ quote_body (drop n s))"
      using utf8_multi(2) [OF 5(2,3)] by (intro string_text_append high_bytes_text "1.IH"(4)) auto
    then show ?thesis using 5 by (simp add: step)
  qed
qed

lemma json_quote_scan:
  assumes "m \<in> {BeginValue, BeginString, BeginStringOrEmpty}"
  shows "scan_run (json_quote s) (m, st) = Some (EndValue, st)"
    and "scan_depth (json_quote s) (m, st) = length st"
proof -
  have b: "scan_run (quote_body s) (InString, st) = Some (InString, st)"
      "scan_depth (quote_body s) (InString, st) = length st"
    using quote_body_text [of s] by (simp_all add: string_text_def)
  have q: "scan_step (CHR 0x22) (m, st) = Some (InString, st)"
    using assms by (auto simp: scan_begin_value_def begin_mode_def scan_begin_string_def json_space_def)
  show "scan_run (json_quote s) (m, st) = Some (EndValue, st)"
    using q b by (simp add: json_quote_def scan_run_append)
  show "scan_depth (json_quote s) (m, st) = length st"
    using q b by (simp add: json_quote_def scan_depth_append [OF b(1)])
qed

lemma append_single [simp]: "(@) [c] = (#) c"
  by (simp add: fun_eq_iff)

lemma unquote_plain:
  "(of_char c :: nat) < 0x80 \<Longrightarrow> c \<noteq> CHR 0x5C \<Longrightarrow> c \<noteq> CHR 0x22 \<Longrightarrow> \<not> (of_char c :: nat) < 0x20 \<Longrightarrow>
     unquote_body (c # t) = map_option (Cons c) (unquote_body t)"
  by (simp add: unquote_body.simps [of "c # t"] utf8_len_ascii)

lemma unquote_simple:
  "simple_escape e = Some c \<Longrightarrow>
     unquote_body (CHR 0x5C # e # t) = map_option (Cons c) (unquote_body t)"
  by (auto simp: unquote_body.simps [of "CHR 0x5C # e # t"] unquote_escape_def getu4_def simple_escape_def
      numeral_2_eq_2 split: if_splits)

lemma unquote_hex:
  assumes "list_all is_hex hs" and "length hs = 4"
    and "r = foldl (\<lambda>a c. 16 * a + hex_value c) 0 hs" and "\<not> (0xD800 \<le> r \<and> r \<le> 0xDFFF)"
  shows "unquote_body (CHR 0x5C # CHR ''u'' # hs @ t) = map_option ((@) (encode_rune r)) (unquote_body t)"
proof -
  have "take 4 (hs @ t) = hs" and "drop 4 (hs @ t) = t" using assms(2) by simp_all
  then have "getu4 (CHR 0x5C # CHR ''u'' # hs @ t) = Some r"
    using assms(1-3) by (simp add: getu4_def hex4_def)
  then have "unquote_escape (CHR 0x5C # CHR ''u'' # hs @ t) = Some (encode_rune r, 6)"
    using assms(4) by (auto simp: unquote_escape_def)
  then show ?thesis
    using \<open>drop 4 (hs @ t) = t\<close> by (simp add: unquote_body.simps [of "CHR 0x5C # CHR ''u'' # hs @ t"])
qed

lemma unquote_quote_ascii:
  assumes c: "(of_char c :: nat) < 0x80"
  shows "unquote_body (quote_ascii c @ t) = map_option (Cons c) (unquote_body t)"
proof -
  let ?h = "[CHR ''0'', CHR ''0'', hex_digit (of_char c div 16), hex_digit (of_char c mod 16)]"
  have b: "(of_char c :: nat) div 16 < 16" "(of_char c :: nat) mod 16 < 16" using c by simp_all
  have h: "list_all is_hex ?h"
    using is_hex_digit [OF b(1)] is_hex_digit [OF b(2)] by (simp add: is_hex_def is_digit_def)
  have v: "foldl (\<lambda>a c. 16 * a + hex_value c) 0 ?h = of_char c"
    using hex_value_digit [OF b(1)] hex_value_digit [OF b(2)] by (simp add: hex_value_def is_digit_def)
  have "unquote_body (CHR 0x5C # CHR ''u'' # ?h @ t) = map_option ((@) (encode_rune (of_char c))) (unquote_body t)"
    by (rule unquote_hex [OF h]) (use v c in auto)
  moreover have "encode_rune (of_char c) = [c]" using c by (simp add: encode_rune_def)
  ultimately have u: "unquote_body (CHR 0x5C # CHR ''u'' # ?h @ t) = map_option (Cons c) (unquote_body t)"
    by simp
  then show ?thesis
    using c by (auto simp: quote_ascii_def unquote_plain unquote_simple simple_escape_def)
qed

lemma encode_separators:
  "encode_rune 0x2028 = [CHR 0xE2, CHR 0x80, CHR 0xA8]" "encode_rune 0x2029 = [CHR 0xE2, CHR 0x80, CHR 0xA9]"
  by (simp_all add: encode_rune_def char_of_eq_iff take_bit_eq_mod)

lemma unquote_separator:
  "line_separator s \<Longrightarrow> unquote_body (quote_separator s @ t) = map_option ((@) (take 3 s)) (unquote_body t)"
proof -
  assume l: "line_separator s"
  define d where "d = (if take 3 s = [CHR 0xE2, CHR 0x80, CHR 0xA8] then CHR ''8'' else CHR ''9'')"
  let ?h = "[CHR ''2'', CHR ''0'', CHR ''2'', d]"
  have h: "list_all is_hex ?h" by (simp add: d_def is_hex_def is_digit_def)
  have v: "foldl (\<lambda>a c. 16 * a + hex_value c) 0 ?h = (if d = CHR ''8'' then 0x2028 else 0x2029)"
    by (simp add: d_def hex_value_def is_digit_def)
  have "encode_rune (foldl (\<lambda>a c. 16 * a + hex_value c) 0 ?h) = take 3 s"
    using l unfolding v line_separator_def by (auto simp: d_def encode_separators)
  moreover have "quote_separator s @ t = CHR 0x5C # CHR ''u'' # ?h @ t"
    by (simp add: quote_separator_def d_def)
  ultimately show ?thesis
    using unquote_hex [OF h _ refl, of t] v by (simp split: if_splits)
qed

lemma line_separator_len: "line_separator s \<Longrightarrow> utf8_len s = Some n \<Longrightarrow> n = 3"
proof -
  assume l: "line_separator s" and u: "utf8_len s = Some n"
  have s: "s = take 3 s @ drop 3 s" by simp
  from l have "utf8_len (take 3 s @ drop 3 s) = Some 3"
    unfolding line_separator_def by (elim disjE; simp only:) (simp_all add: utf8_len_def cont_byte_def)
  with u show ?thesis using s by simp
qed

text \<open>Unquoting undoes quoting for every text that is valid UTF-8.\<close>

lemma unquote_quote_body: "utf8_valid s \<Longrightarrow> unquote_body (quote_body s) = Some s"
proof (induction s rule: quote_body.induct)
  case (1 s)
  show ?case
  proof (cases "s = []")
    case False
    note step = quote_body.simps [of s]
    obtain n where n: "utf8_len s = Some n" and v: "utf8_valid (drop (max 1 n) s)"
      using 1(5) False by (auto simp: utf8_valid.simps [of s] split: option.splits)
    consider "n \<le> 1" | "1 < n" "line_separator s" | "1 < n" "\<not> line_separator s" by linarith
    then show ?thesis
    proof cases
      case 1
      note a = utf8_ascii [OF n 1]
      then have "unquote_body (quote_body (drop 1 s)) = Some (drop 1 s)"
        using "1.IH"(2) [OF False n] v 1 by simp
      then have "unquote_body (quote_ascii (hd s) @ quote_body (drop 1 s)) = Some (hd s # drop 1 s)"
        using a by (simp add: unquote_quote_ascii)
      moreover have "quote_body s = quote_ascii (hd s) @ quote_body (drop 1 s)"
        using False n 1 by (simp add: step)
      ultimately show ?thesis using False by (simp add: drop_Suc)
    next
      case 2
      have "n = 3" by (rule line_separator_len [OF 2(2) n])
      moreover have "unquote_body (quote_body (drop n s)) = Some (drop n s)"
        using "1.IH"(3) [OF False n] v 2 by (simp add: max_def)
      ultimately show ?thesis
        using 2 False n unquote_separator [OF 2(2)] by (simp add: step)
    next
      case 3
      note m = utf8_multi [OF n 3(1)]
      have ih: "unquote_body (quote_body (drop n s)) = Some (drop n s)"
        using "1.IH"(4) [OF False n] v 3 by (simp add: max_def)
      let ?t = "take n s @ quote_body (drop n s)"
      have ne: "take n s \<noteq> []" using m(1) 3(1) by auto
      have "hd ?t = hd (take n s)" by (simp only: hd_append2 [OF ne])
      then have "hd ?t \<in> set (take n s)" using hd_in_set [OF ne] by (simp only:)
      then have "0x80 \<le> (of_char (hd ?t) :: nat)" by (rule m(2))
      then have h: "hd ?t \<noteq> CHR 0x5C" "hd ?t \<noteq> CHR 0x22" "\<not> (of_char (hd ?t) :: nat) < 0x20" by auto
      have mx: "max 1 n = n" using 3(1) by simp
      have "unquote_body ?t = map_option ((@) (take n ?t)) (unquote_body (drop n ?t))"
        using h ne m(3) mx by (simp add: unquote_body.simps [of ?t])
      also have "\<dots> = Some s" using m(1) ih by simp
      finally show ?thesis using 3 False n by (simp add: step)
    qed
  qed (simp add: quote_body.simps unquote_body.simps)
qed

lemma unquote_quote: "utf8_valid s \<Longrightarrow> json_unquote (json_quote s) = Some s"
  by (simp add: json_unquote_def json_quote_def unquote_quote_body)

subsection \<open>Scanning a value inside another\<close>

lemma scan_end_under:
  "scan_end_value c st = Some p \<Longrightarrow> ext \<noteq> [] \<Longrightarrow> st \<noteq> [] \<or> json_space c \<Longrightarrow>
     scan_end_value c (st @ ext) = Some (scan_under ext p)"
  by (cases st) (auto simp: scan_end_value_def scan_under_def scan_pop_def split: parse_state.splits if_splits list.splits)

lemma scan_push_under:
  "scan_push m p st = Some q \<Longrightarrow> m \<noteq> EndTop \<Longrightarrow> length (snd q) + length ext \<le> max_nesting_depth \<Longrightarrow>
     scan_push m p (st @ ext) = Some (scan_under ext q)"
  by (auto simp: scan_push_def scan_under_def split: if_splits)

lemma begin_mode_top: "begin_mode c = Some (m, k) \<Longrightarrow> m \<noteq> EndTop"
  by (auto simp: begin_mode_def split: if_splits)

lemma scan_begin_under:
  "scan_begin_value c st = Some q \<Longrightarrow> length (snd q) + length ext \<le> max_nesting_depth \<Longrightarrow>
     scan_begin_value c (st @ ext) = Some (scan_under ext q)"
  by (auto simp: scan_begin_value_def scan_push_under begin_mode_top split: option.splits)
    (auto simp: scan_under_def dest: begin_mode_top)

lemma scan_string_under:
  "scan_begin_string c m st = Some q \<Longrightarrow> m \<noteq> EndTop \<Longrightarrow>
     scan_begin_string c m (st @ ext) = Some (scan_under ext q)"
  by (auto simp: scan_begin_string_def scan_under_def split: if_splits)

lemma scan_end_space: "scan_end_value c [] = Some p \<Longrightarrow> json_space c"
  by (simp add: scan_end_value_def split: if_splits)

lemma scan_end_under':
  "scan_end_value c st = Some p \<Longrightarrow> ext \<noteq> [] \<Longrightarrow> scan_end_value c (st @ ext) = Some (scan_under ext p)"
  by (rule scan_end_under) (auto dest: scan_end_space)

lemma scan_num0_under:
  "scan_num0 c st = Some p \<Longrightarrow> ext \<noteq> [] \<Longrightarrow> scan_num0 c (st @ ext) = Some (scan_under ext p)"
  by (auto simp: scan_num0_def scan_end_under' split: if_splits) (auto simp: scan_under_def)

lemma scan_step_under:
  assumes "scan_step c p = Some q" and "ext \<noteq> []" and "length (snd q) + length ext \<le> max_nesting_depth"
    and "fst p = BeginStringOrEmpty \<longrightarrow> snd p \<noteq> []"
  shows "scan_step c (scan_under ext p) = Some (scan_under ext q)"
proof -
  obtain m st where p: "p = (m, st)" by (cases p)
  consider "m = EndTop" | "m = BeginStringOrEmpty" | "m \<noteq> EndTop" "m \<noteq> BeginStringOrEmpty" by blast
  then show ?thesis
  proof cases
    case 1
    then show ?thesis
      using assms unfolding p
      by (cases ext) (auto simp: scan_under_def scan_end_value_def split: if_splits)
  next
    case 2
    then obtain x xs where st: "st = x # xs" using assms(4) p by (cases st) auto
    show ?thesis
    proof (cases "c = CHR ''}''")
      case True
      then show ?thesis
        using assms(1,2) scan_end_under' [of c "ParseObjectValue # xs" q ext]
        unfolding p 2 st by (simp add: scan_under_def [of ext "(BeginStringOrEmpty, _)"])
    next
      case False
      then show ?thesis
        using assms(1) scan_string_under [of c BeginStringOrEmpty st q ext]
        unfolding p 2 by (simp add: scan_under_def [of ext "(BeginStringOrEmpty, _)"])
    qed
  next
    case 3
    then have u: "scan_under ext (m, st) = (m, st @ ext)" by (simp add: scan_under_def)
    show ?thesis
      using assms(1-3) 3 unfolding p u
      by (cases m)
        (simp_all add: scan_begin_under scan_end_under' scan_num0_under scan_string_under split: if_splits list.splits,
         auto simp: scan_under_def)
  qed
qed

lemma begin_mode_push: "begin_mode c = Some (BeginStringOrEmpty, k) \<Longrightarrow> k \<noteq> None"
  by (auto simp: begin_mode_def split: if_splits)

lemma begin_value_ok: "scan_begin_value c st = Some (BeginStringOrEmpty, st') \<Longrightarrow> st' \<noteq> []"
  by (auto simp: scan_begin_value_def scan_push_def dest: begin_mode_push split: option.splits if_splits)

lemma end_value_mode: "scan_end_value c st = Some q \<Longrightarrow> fst q \<noteq> BeginStringOrEmpty"
  by (auto simp: scan_end_value_def scan_pop_def split: list.splits if_splits parse_state.splits)

lemma scan_step_ok:
  assumes "scan_step c p = Some q" and "fst p = BeginStringOrEmpty \<longrightarrow> snd p \<noteq> []"
  shows "fst q = BeginStringOrEmpty \<longrightarrow> snd q \<noteq> []"
proof (cases p)
  case (Pair m st)
  obtain m' st' where q: "q = (m', st')" by (cases q)
  show ?thesis
    using assms begin_value_ok [of c st st'] end_value_mode [of c _ q] unfolding Pair q
    by (cases m) (auto simp: scan_begin_string_def scan_num0_def split: if_splits list.splits)
qed

lemma scan_run_under:
  "scan_run s p = Some q \<Longrightarrow> ext \<noteq> [] \<Longrightarrow> scan_depth s p + length ext \<le> max_nesting_depth \<Longrightarrow>
   fst p = BeginStringOrEmpty \<longrightarrow> snd p \<noteq> [] \<Longrightarrow>
   scan_run s (scan_under ext p) = Some (scan_under ext q)"
proof (induction s arbitrary: p)
  case (Cons c s)
  then obtain p' where p': "scan_step c p = Some p'" and r: "scan_run s p' = Some q"
    by (auto split: option.splits)
  have d: "scan_depth s p' + length ext \<le> max_nesting_depth" using Cons.prems(3) p' by simp
  then have "length (snd p') + length ext \<le> max_nesting_depth"
    using scan_depth_ge [of p' s] by linarith
  then have "scan_step c (scan_under ext p) = Some (scan_under ext p')"
    by (rule scan_step_under [OF p' Cons.prems(2) _ Cons.prems(4)])
  moreover have "scan_run s (scan_under ext p') = Some (scan_under ext q)"
    by (rule Cons.IH [OF r Cons.prems(2) d scan_step_ok [OF p' Cons.prems(4)]])
  ultimately show ?case by simp
qed simp

text \<open>A separator ends a complete value, whatever follows it.\<close>

lemma end_value_top: "scan_end_value c st = Some (EndTop, st') \<Longrightarrow> json_space c \<Longrightarrow> st = []"
  by (auto simp: scan_end_value_def split: list.splits if_splits)

lemma begin_value_top: "scan_begin_value c st \<noteq> Some (EndTop, st')"
  by (auto simp: scan_begin_value_def scan_push_def dest: begin_mode_top split: option.splits if_splits)

lemma eof_mode:
  assumes "scan_eof (m, st)" and "m \<noteq> EndTop"
  shows "st = [] \<and> m \<in> {EndValue, Num0, Num1, Dot0, NumE0, Literal []}"
proof -
  have sp: "json_space (CHR '' '')" by (simp add: json_space_def)
  obtain st' where "scan_step (CHR '' '') (m, st) = Some (EndTop, st')"
    using assms by (auto simp: scan_eof_def split: option.splits)
  then show ?thesis
    using assms(2) end_value_top [OF _ sp, of st st'] begin_value_top [of "CHR '' ''" st st'] sp
    by (cases m) (auto simp: scan_begin_string_def scan_num0_def is_digit_def is_hex_def split: if_splits list.splits)
qed

lemma separator_ends:
  assumes "scan_eof p" and "c \<in> {CHR '','', CHR ''}'', CHR '':'', CHR '']''}" and "ext \<noteq> []"
  shows "scan_step c (scan_under ext p) = scan_end_value c ext"
proof (cases p)
  case (Pair m st)
  then show ?thesis
    using assms eof_mode [of m st]
    by (cases "m = EndTop") (auto simp: scan_under_def scan_num0_def is_digit_def)
qed

subsection \<open>Members of an object\<close>

lemma done_only_space: "value_done p \<Longrightarrow> scan_run s p = Some q \<Longrightarrow> list_all json_space s"
proof (induction s arbitrary: p)
  case (Cons c s)
  then obtain p' where p': "scan_step c p = Some p'" and r: "scan_run s p' = Some q"
    by (auto split: option.splits)
  obtain m where p: "p = (m, [])" "m = EndValue \<or> m = EndTop" using Cons.prems(1) by (cases p) (auto simp: value_done_def)
  then have "json_space c" and "p' = (EndTop, [])"
    using p' by (auto simp: scan_end_value_def split: if_splits)
  then show ?case using Cons.IH [OF _ r] by (simp add: value_done_def)
qed simp

lemma step_done_space:
  "value_done p' \<Longrightarrow> scan_run s p' = Some q \<Longrightarrow> json_space c \<Longrightarrow> json_space (last (c # s))"
  using done_only_space [of p' s q] by (cases s) (auto simp: list_all_iff)

lemma take_value_raw:
  "scan_run r p = Some q \<Longrightarrow> scan_eof q \<Longrightarrow> r \<noteq> [] \<longrightarrow> \<not> json_space (last r) \<and> \<not> value_done p \<Longrightarrow>
   c \<in> {CHR '','', CHR ''}'', CHR '':'', CHR '']''} \<Longrightarrow> take_value p (r @ c # rest) = (r, c # rest)"
proof (induction r arbitrary: p)
  case Nil
  obtain m st where p: "p = (m, st)" by (cases p)
  have "\<not> json_space c" using Nil(4) by (auto simp: json_space_def)
  then show ?case
    using Nil eof_mode [of m st] p
    by (cases "m = EndTop") (auto simp: value_done_def scan_num0_def is_digit_def scan_end_value_def)
next
  case (Cons x r)
  then obtain p' where p': "scan_step x p = Some p'" and run: "scan_run r p' = Some q"
    by (auto split: option.splits)
  have nd: "\<not> value_done p" and last: "\<not> json_space (last (x # r))" using Cons.prems(3) by auto
  have "\<not> (value_done p' \<and> json_space x)" using step_done_space [OF _ run] last by blast
  moreover have "r \<noteq> [] \<longrightarrow> \<not> json_space (last r) \<and> \<not> value_done p'"
  proof
    assume "r \<noteq> []"
    moreover have "\<not> value_done p'"
      using done_only_space [OF _ run] last \<open>r \<noteq> []\<close> by (auto simp: list_all_iff)
    ultimately show "\<not> json_space (last r) \<and> \<not> value_done p'" using last by simp
  qed
  then have "take_value p' (r @ c # rest) = (r, c # rest)"
    using Cons.IH [OF run Cons.prems(2) _ Cons.prems(4)] by blast
  ultimately show ?case using nd p' by simp
qed

lemma raw_ok_run:
  assumes "raw_ok r"
  obtains q where "scan_run r (BeginValue, []) = Some q" "scan_eof q" "r \<noteq> []"
proof -
  from assms obtain q where "scan_run r (BeginValue, []) = Some q" "scan_eof q"
    by (auto simp: raw_ok_def json_valid_def split: option.splits)
  moreover from this have "r \<noteq> []"
    using eof_mode [of BeginValue "[]"] by (cases r) auto
  ultimately show ?thesis by (rule that)
qed

lemma take_raw:
  assumes "raw_ok r" and "c \<in> {CHR '','', CHR ''}'', CHR '':'', CHR '']''}"
  shows "take_value (BeginValue, []) (r @ c # rest) = (r, c # rest)"
proof -
  obtain q where q: "scan_run r (BeginValue, []) = Some q" "scan_eof q" "r \<noteq> []" by (rule raw_ok_run [OF assms(1)])
  then show ?thesis
    using assms by (intro take_value_raw [OF q(1,2)]) (simp_all add: raw_ok_def value_done_def)
qed

lemma raw_skip_space: "raw_ok r \<Longrightarrow> skip_space (r @ s) = r @ s"
  by (cases r) (auto simp: skip_space_def raw_ok_def json_valid_def scan_eof_def scan_begin_value_def begin_mode_def json_space_def)

lemma json_quote_hd [simp]: "hd (json_quote s) = CHR 0x22" "last (json_quote s) = CHR 0x22" "json_quote s \<noteq> []"
  by (simp_all add: json_quote_def)

lemma quote_raw_ok: "raw_ok (json_quote s)"
  using json_quote_scan [of BeginValue s "[]"]
  by (simp add: raw_ok_def json_valid_def scan_eof_def scan_end_value_def json_space_def)

text \<open>One member, and a list of members, scanned inside an object.\<close>

lemma raw_scan_member:
  assumes "raw_ok v" and "c \<in> {CHR '','', CHR ''}'', CHR '']''}"
  shows "scan_run (v @ c # s) (BeginValue, [k]) =
    (case scan_end_value c [k] of None \<Rightarrow> None | Some p \<Rightarrow> scan_run s p)"
proof -
  obtain q where q: "scan_run v (BeginValue, []) = Some q" "scan_eof q" by (rule raw_ok_run [OF assms(1)])
  have "scan_depth v (BeginValue, []) + length [k] \<le> max_nesting_depth"
    using assms(1) by (simp add: raw_ok_def)
  then have "scan_run v (scan_under [k] (BeginValue, [])) = Some (scan_under [k] q)"
    by (intro scan_run_under [OF q(1)]) simp_all
  moreover have "scan_step c (scan_under [k] q) = scan_end_value c [k]"
    by (rule separator_ends [OF q(2)]) (use assms(2) in auto)
  ultimately show ?thesis by (simp add: scan_run_append scan_under_def [of _ "(BeginValue, [])"])
qed

lemma scan_key:
  "m \<in> {BeginString, BeginStringOrEmpty} \<Longrightarrow>
     scan_run (json_quote k @ CHR '':'' # s) (m, [ParseObjectKey]) = scan_run s (BeginValue, [ParseObjectValue])"
  using json_quote_scan(1) [of m k "[ParseObjectKey]"]
  by (auto simp: scan_run_append scan_end_value_def json_space_def)

lemma scan_members:
  "kvs \<noteq> [] \<Longrightarrow> \<forall>kv \<in> set kvs. raw_ok (snd kv) \<Longrightarrow> m \<in> {BeginString, BeginStringOrEmpty} \<Longrightarrow>
   scan_run (encode_members kvs @ [CHR ''}'']) (m, [ParseObjectKey]) = Some (EndTop, [])"
proof (induction kvs arbitrary: m rule: encode_members.induct)
  case (2 k v)
  have "scan_run (v @ [CHR ''}'']) (BeginValue, [ParseObjectValue]) = Some (EndTop, [])"
    using raw_scan_member [of v "CHR ''}''" "[]"] 2
    by (simp add: scan_end_value_def scan_pop_def json_space_def)
  then show ?case using scan_key [OF 2(3), of k] by simp
next
  case (3 k v kv kvs)
  let ?rest = "encode_members (kv # kvs) @ [CHR ''}'']"
  have "scan_run (v @ CHR '','' # ?rest) (BeginValue, [ParseObjectValue]) = scan_run ?rest (BeginString, [ParseObjectKey])"
    using raw_scan_member [of v "CHR '',''" ?rest] 3(3)
    by (simp add: scan_end_value_def json_space_def)
  then show ?case using scan_key [OF 3(4), of k] 3(1) [of BeginString] 3(3) by simp
qed simp

lemma object_valid: "\<forall>kv \<in> set kvs. raw_ok (snd kv) \<Longrightarrow> json_valid (encode_object kvs)"
proof -
  assume ok: "\<forall>kv \<in> set kvs. raw_ok (snd kv)"
  have o: "scan_step (CHR ''{'') (BeginValue, []) = Some (BeginStringOrEmpty, [ParseObjectKey])"
    by (simp add: scan_begin_value_def begin_mode_def scan_push_def json_space_def)
  have "scan_run (encode_members kvs @ [CHR ''}'']) (BeginStringOrEmpty, [ParseObjectKey]) = Some (EndTop, [])"
  proof (cases "kvs = []")
    case True
    then show ?thesis by (simp add: scan_end_value_def scan_pop_def json_space_def)
  next
    case False
    then show ?thesis using scan_members [OF _ ok, of BeginStringOrEmpty] by simp
  qed
  then show ?thesis
    using o by (simp add: json_valid_def encode_object_def scan_eof_def)
qed

lemma skip_space_sep [simp]:
  "skip_space (CHR '','' # s) = CHR '','' # s" "skip_space (CHR ''}'' # s) = CHR ''}'' # s"
  "skip_space (CHR '':'' # s) = CHR '':'' # s" "skip_space (CHR ''{'' # s) = CHR ''{'' # s"
  by (simp_all add: skip_space_def json_space_def)

lemma key_ok: "utf8_valid k \<Longrightarrow>
    take_value (BeginValue, []) (skip_space (json_quote k @ CHR '':'' # s)) = (json_quote k, CHR '':'' # s)"
  using raw_skip_space [OF quote_raw_ok] take_raw [OF quote_raw_ok, of "CHR '':''"] by simp

lemma raw_members_encode:
  "kvs \<noteq> [] \<Longrightarrow> \<forall>kv \<in> set kvs. utf8_valid (fst kv) \<and> raw_ok (snd kv) \<Longrightarrow> length kvs \<le> n \<Longrightarrow>
   raw_members n (encode_members kvs @ [CHR ''}'']) = Some kvs"
proof (induction kvs arbitrary: n rule: encode_members.induct)
  case (2 k v)
  then obtain n' where n: "n = Suc n'" by (cases n) auto
  show ?case
    using 2 key_ok [of k] raw_skip_space [of v] take_raw [of v "CHR ''}''" "[]"] unquote_quote [of k]
    by (simp add: n)
next
  case (3 k v kv kvs)
  then obtain n' where n: "n = Suc n'" by (cases n) auto
  show ?case
    using 3 key_ok [of k] raw_skip_space [of v] take_raw [of v "CHR '',''"] unquote_quote [of k]
    by (simp add: n)
qed simp

lemma length_encode_members: "length kvs \<le> length (encode_members kvs)"
  by (induction kvs rule: encode_members.induct) auto

text \<open>The members of an encoded object are the members it was encoded from.\<close>

lemma members_encode_object:
  assumes "\<forall>kv \<in> set kvs. utf8_valid (fst kv) \<and> raw_ok (snd kv)"
  shows "json_members (encode_object kvs) = Some kvs"
proof (cases "kvs = []")
  case True
  then show ?thesis by (simp add: json_members_def encode_object_def skip_space_def json_space_def)
next
  case False
  then obtain k v r where e: "encode_members kvs = json_quote k @ r"
    by (cases kvs rule: encode_members.cases) auto
  have "skip_space (encode_members kvs @ [CHR ''}'']) = encode_members kvs @ [CHR ''}'']"
    unfolding e using raw_skip_space [OF quote_raw_ok] by simp
  moreover have "take 1 (encode_members kvs @ [CHR ''}'']) = [CHR 0x22]"
    unfolding e by (simp add: json_quote_def)
  moreover have "raw_members (length (encode_object kvs)) (encode_members kvs @ [CHR ''}'']) = Some kvs"
    using length_encode_members [of kvs] by (intro raw_members_encode False assms) (simp add: encode_object_def)
  ultimately show ?thesis
    by (simp add: json_members_def encode_object_def)
qed

subsection \<open>Nesting depth of an object\<close>

lemma scan_depth_under:
  "scan_run s p = Some q \<Longrightarrow> ext \<noteq> [] \<Longrightarrow> scan_depth s p + length ext \<le> max_nesting_depth \<Longrightarrow>
   fst p = BeginStringOrEmpty \<longrightarrow> snd p \<noteq> [] \<Longrightarrow>
   scan_depth s (scan_under ext p) \<le> scan_depth s p + length ext"
proof (induction s arbitrary: p)
  case (Cons c s)
  then obtain p' where p': "scan_step c p = Some p'" and r: "scan_run s p' = Some q"
    by (auto split: option.splits)
  have d: "scan_depth s p' + length ext \<le> max_nesting_depth" using Cons.prems(3) p' by simp
  then have "length (snd p') + length ext \<le> max_nesting_depth"
    using scan_depth_ge [of p' s] by linarith
  then have "scan_step c (scan_under ext p) = Some (scan_under ext p')"
    by (rule scan_step_under [OF p' Cons.prems(2) _ Cons.prems(4)])
  moreover have "scan_depth s (scan_under ext p') \<le> scan_depth s p' + length ext"
    by (rule Cons.IH [OF r Cons.prems(2) d scan_step_ok [OF p' Cons.prems(4)]])
  moreover have "length (snd (scan_under ext p)) \<le> length (snd p) + length ext"
    by (simp add: scan_under_def)
  ultimately show ?case using p' by (auto simp: max_def)
qed (simp add: scan_under_def)

lemma member_depth:
  assumes "raw_ok v" and "c \<in> {CHR '','', CHR ''}''}"
    and "scan_end_value c [ParseObjectValue] = Some p"
  shows "scan_depth (v @ c # s) (BeginValue, [ParseObjectValue]) \<le>
    max (Suc (scan_depth v (BeginValue, []))) (scan_depth s p)"
proof -
  let ?e = "[ParseObjectValue]"
  obtain q where q: "scan_run v (BeginValue, []) = Some q" "scan_eof q" by (rule raw_ok_run [OF assms(1)])
  have d: "scan_depth v (BeginValue, []) + length ?e \<le> max_nesting_depth"
    using assms(1) by (simp add: raw_ok_def)
  have r: "scan_run v (BeginValue, ?e) = Some (scan_under ?e q)"
    using scan_run_under [OF q(1) _ d] by (simp add: scan_under_def)
  have "scan_depth v (BeginValue, ?e) \<le> Suc (scan_depth v (BeginValue, []))"
    using scan_depth_under [OF q(1) _ d] by (simp add: scan_under_def)
  moreover have "scan_step c (scan_under ?e q) = Some p"
    using separator_ends [OF q(2), of c ?e] assms(2,3) by auto
  moreover have "length (snd (scan_under ?e q)) \<le> scan_depth v (BeginValue, ?e)"
    using scan_depth_append [OF r, of "[]"] by simp
  ultimately show ?thesis by (auto simp: scan_depth_append [OF r] max_def)
qed

lemma members_depth:
  "kvs \<noteq> [] \<Longrightarrow> \<forall>kv \<in> set kvs. raw_ok (snd kv) \<and> Suc (scan_depth (snd kv) (BeginValue, [])) \<le> d \<Longrightarrow>
   m \<in> {BeginString, BeginStringOrEmpty} \<Longrightarrow> 1 \<le> d \<Longrightarrow>
   scan_depth (encode_members kvs @ [CHR ''}'']) (m, [ParseObjectKey]) \<le> d"
proof (induction kvs arbitrary: m rule: encode_members.induct)
  case (2 k v)
  have "scan_depth (v @ [CHR ''}'']) (BeginValue, [ParseObjectValue]) \<le> d"
    using member_depth [of v "CHR ''}''" "(EndTop, [])" "[]"] 2
    by (simp add: scan_end_value_def scan_pop_def json_space_def)
  then show ?case
    using scan_depth_append [OF json_quote_scan(1)] json_quote_scan(2) [of m k "[ParseObjectKey]"] 2
    by (auto simp: scan_end_value_def json_space_def)
next
  case (3 k v kv kvs)
  let ?rest = "encode_members (kv # kvs) @ [CHR ''}'']"
  have "scan_depth ?rest (BeginString, [ParseObjectKey]) \<le> d" using 3 by simp
  then have "scan_depth (v @ CHR '','' # ?rest) (BeginValue, [ParseObjectValue]) \<le> d"
    using member_depth [of v "CHR '',''" "(BeginString, [ParseObjectKey])" ?rest] 3(3)
    by (auto simp: scan_end_value_def json_space_def max_def split: if_splits)
  then show ?case
    using scan_depth_append [OF json_quote_scan(1)] json_quote_scan(2) [of m k "[ParseObjectKey]"] 3
    by (auto simp: scan_end_value_def json_space_def)
qed simp

lemma object_depth:
  assumes "\<forall>kv \<in> set kvs. raw_ok (snd kv) \<and> Suc (scan_depth (snd kv) (BeginValue, [])) \<le> d" and "1 \<le> d"
  shows "scan_depth (encode_object kvs) (BeginValue, []) \<le> d"
proof -
  have o: "scan_step (CHR ''{'') (BeginValue, []) = Some (BeginStringOrEmpty, [ParseObjectKey])"
    by (simp add: scan_begin_value_def begin_mode_def scan_push_def json_space_def)
  have "scan_depth (encode_members kvs @ [CHR ''}'']) (BeginStringOrEmpty, [ParseObjectKey]) \<le> d"
    using members_depth [of kvs d BeginStringOrEmpty] assms
    by (cases "kvs = []") (auto simp: scan_end_value_def scan_pop_def json_space_def)
  then show ?thesis using o by (simp add: encode_object_def)
qed

lemma object_raw_ok:
  assumes "\<forall>kv \<in> set kvs. raw_ok (snd kv) \<and> Suc (scan_depth (snd kv) (BeginValue, [])) < max_nesting_depth"
  shows "raw_ok (encode_object kvs)"
  using object_valid [of kvs] object_depth [of kvs "max_nesting_depth - 1"] assms
  by (fastforce simp: raw_ok_def encode_object_def json_space_def)

lemma quote_depth: "scan_depth (json_quote s) (BeginValue, []) = 0"
  using json_quote_scan(2) [of BeginValue s "[]"] by simp

subsection \<open>A whole text\<close>

lemma take_value_whole:
  "scan_run r p = Some q \<Longrightarrow> r \<noteq> [] \<longrightarrow> \<not> json_space (last r) \<and> \<not> value_done p \<Longrightarrow> take_value p r = (r, [])"
proof (induction r arbitrary: p)
  case (Cons x r)
  then obtain p' where p': "scan_step x p = Some p'" and run: "scan_run r p' = Some q"
    by (auto split: option.splits)
  have nd: "\<not> value_done p" and last: "\<not> json_space (last (x # r))" using Cons.prems(2) by auto
  have "\<not> (value_done p' \<and> json_space x)" using step_done_space [OF _ run] last by blast
  moreover have "r \<noteq> [] \<longrightarrow> \<not> json_space (last r) \<and> \<not> value_done p'"
    using done_only_space [OF _ run] last by (auto simp: list_all_iff)
  then have "take_value p' r = (r, [])" by (rule Cons.IH [OF run])
  ultimately show ?case using nd p' by simp
qed simp

lemma top_raw: "raw_ok r \<Longrightarrow> take_value (BeginValue, []) (skip_space r) = (r, [])"
proof -
  assume ok: "raw_ok r"
  obtain q where q: "scan_run r (BeginValue, []) = Some q" "r \<noteq> []" by (rule raw_ok_run [OF ok])
  have "take_value (BeginValue, []) r = (r, [])"
    using ok by (intro take_value_whole [OF q(1)]) (simp add: raw_ok_def value_done_def)
  then show ?thesis using raw_skip_space [OF ok, of "[]"] by simp
qed

lemma utf8_valid_ascii: "list_all (\<lambda>c. (of_char c :: nat) < 0x80) s \<Longrightarrow> utf8_valid s"
  by (induction s) (simp_all add: utf8_valid.simps utf8_len_ascii)

lemma quote_body_plain: "plain_text s \<Longrightarrow> quote_body s = s"
proof (induction s)
  case (Cons c s)
  then have c: "0x20 \<le> (of_char c :: nat)" "(of_char c :: nat) < 0x80"
      "c \<notin> {CHR 0x22, CHR 0x5C, CHR ''<'', CHR ''>'', CHR ''&''}" and s: "quote_body s = s"
    by (simp_all add: plain_text_def)
  have "c \<notin> {CHR 0x08, CHR 0x0C, CHR 0x0A, CHR 0x0D, CHR 0x09}" using c(1) by auto
  then have "quote_ascii c = [c]" using c by (simp add: quote_ascii_def)
  then show ?case using s utf8_len_ascii [OF c(2), of s] by (simp add: quote_body.simps [of "c # s"])
qed (simp add: quote_body.simps [of "[]"])

end
