(* ===== verification/Wire.thy ===== *)
theory Wire
  imports Json
begin

text \<open>
  Package \<open>internal/wire\<close> (length-prefixed JSON frames), the Go SDK's frame loop
  (\<open>sdks/go/cfunc.go\<close>) and \<open>Instance.Invoke\<close> of \<open>internal/spawn\<close>, which talks to it. A
  connection is a parameter: reading and writing are functions of its state, so that failures
  and partial reads of a socket are all covered; a byte list instantiates both.
  The lemmas show that reading undoes writing, that the loop answers every invoke frame once
  and in order, and what an invocation through the wire returns.
\<close>

section \<open>Definitions\<close>

subsection \<open>Frames\<close>

record ErrorPayload =
  ep_Type :: string
  ep_Message :: string
  ep_Stack :: string

record Frame =
  fr_Type :: string
  fr_ID :: string
  fr_Event :: string
  fr_Ctx :: string
  fr_Config :: string
  fr_Result :: string
  fr_Error :: "ErrorPayload option"

definition TypeInit :: string where "TypeInit = ''init''"
definition TypeInitOK :: string where "TypeInitOK = ''init_ok''"
definition TypeInvoke :: string where "TypeInvoke = ''invoke''"
definition TypeResult :: string where "TypeResult = ''result''"
definition TypeError :: string where "TypeError = ''error''"
definition TypeShutdown :: string where "TypeShutdown = ''shutdown''"
definition TypeShutdownOK :: string where "TypeShutdownOK = ''shutdown_ok''"

definition MaxFrameSize :: nat where
  "MaxFrameSize = 16 * 1024 * 1024"

definition no_error :: ErrorPayload where
  "no_error = \<lparr>ep_Type = [], ep_Message = [], ep_Stack = []\<rparr>"

text \<open>A frame with only its type and id.\<close>

definition bare_frame :: "string \<Rightarrow> string \<Rightarrow> Frame" where
  "bare_frame t i =
     \<lparr>fr_Type = t, fr_ID = i, fr_Event = [], fr_Ctx = [], fr_Config = [], fr_Result = [], fr_Error = None\<rparr>"

subsection \<open>JSON form of a frame\<close>

text \<open>A raw field with \<open>omitempty\<close>: left out when empty, compacted otherwise.\<close>

definition raw_member :: "string \<Rightarrow> string \<Rightarrow> (string \<times> string) list option" where
  "raw_member name raw =
     (if raw = [] then Some [] else map_option (\<lambda>c. [(name, c)]) (compact_raw raw))"

definition string_member :: "string \<Rightarrow> string \<Rightarrow> (string \<times> string) list" where
  "string_member name v = (if v = [] then [] else [(name, json_quote v)])"

definition marshal_error :: "ErrorPayload \<Rightarrow> string" where
  "marshal_error e = encode_object
     ([(''type'', json_quote (ep_Type e)), (''message'', json_quote (ep_Message e))] @
      string_member ''stack'' (ep_Stack e))"

definition marshal_frame :: "Frame \<Rightarrow> string option" where
  "marshal_frame f =
     (case (raw_member ''event'' (fr_Event f), raw_member ''ctx'' (fr_Ctx f),
            raw_member ''config'' (fr_Config f), raw_member ''result'' (fr_Result f)) of
        (Some ev, Some cx, Some cf, Some rs) \<Rightarrow>
          Some (encode_object
            ([(''type'', json_quote (fr_Type f)), (''id'', json_quote (fr_ID f))] @ ev @ cx @ cf @ rs @
             (case fr_Error f of None \<Rightarrow> [] | Some e \<Rightarrow> [(''error'', marshal_error e)])))
      | _ \<Rightarrow> None)"

text \<open>Assigning a raw value to a string field: the new value, and whether it had the right type.\<close>

definition assign_string :: "string \<Rightarrow> string \<Rightarrow> string \<times> bool" where
  "assign_string old raw =
     (case decode_string raw of DValue v \<Rightarrow> (v, True) | DNull \<Rightarrow> (old, True) | DMismatch \<Rightarrow> (old, False))"

text \<open>
  \<open>json.Unmarshal\<close> into a struct: \<open>assign\<close> sets one member; the object is decoded to the end,
  and the first mismatch makes the call fail. A null leaves the struct as it is.
\<close>

fun decode_struct :: "(string \<Rightarrow> string \<Rightarrow> 'a \<Rightarrow> 'a \<times> bool) \<Rightarrow> (string \<times> string) list \<Rightarrow> 'a \<Rightarrow> 'a \<times> bool" where
  "decode_struct assign [] x = (x, True)"
| "decode_struct assign ((k, raw) # kvs) x =
     (let (x1, ok1) = assign k raw x; (x2, ok2) = decode_struct assign kvs x1 in (x2, ok1 \<and> ok2))"

definition decode_object :: "(string \<Rightarrow> string \<Rightarrow> 'a \<Rightarrow> 'a \<times> bool) \<Rightarrow> string \<Rightarrow> 'a \<Rightarrow> 'a \<times> bool" where
  "decode_object assign raw x =
     (if json_null raw then (x, True)
      else (case json_members raw of None \<Rightarrow> (x, False) | Some kvs \<Rightarrow> decode_struct assign kvs x))"

definition error_field :: "string \<Rightarrow> string \<Rightarrow> ErrorPayload \<Rightarrow> ErrorPayload \<times> bool" where
  "error_field k raw e =
     (if field_matches ''type'' k then
        (let (v, ok) = assign_string (ep_Type e) raw in (e\<lparr>ep_Type := v\<rparr>, ok))
      else if field_matches ''message'' k then
        (let (v, ok) = assign_string (ep_Message e) raw in (e\<lparr>ep_Message := v\<rparr>, ok))
      else if field_matches ''stack'' k then
        (let (v, ok) = assign_string (ep_Stack e) raw in (e\<lparr>ep_Stack := v\<rparr>, ok))
      else (e, True))"

definition frame_field :: "string \<Rightarrow> string \<Rightarrow> Frame \<Rightarrow> Frame \<times> bool" where
  "frame_field k raw f =
     (if field_matches ''type'' k then
        (let (v, ok) = assign_string (fr_Type f) raw in (f\<lparr>fr_Type := v\<rparr>, ok))
      else if field_matches ''id'' k then
        (let (v, ok) = assign_string (fr_ID f) raw in (f\<lparr>fr_ID := v\<rparr>, ok))
      else if field_matches ''event'' k then (f\<lparr>fr_Event := raw\<rparr>, True)
      else if field_matches ''ctx'' k then (f\<lparr>fr_Ctx := raw\<rparr>, True)
      else if field_matches ''config'' k then (f\<lparr>fr_Config := raw\<rparr>, True)
      else if field_matches ''result'' k then (f\<lparr>fr_Result := raw\<rparr>, True)
      else if field_matches ''error'' k then
        (if json_null raw then (f\<lparr>fr_Error := None\<rparr>, True)
         else
          (let (e, ok) = decode_object error_field raw
                 (case fr_Error f of None \<Rightarrow> no_error | Some e \<Rightarrow> e)
           in (f\<lparr>fr_Error := Some e\<rparr>, ok)))
      else (f, True))"

text \<open>The top-level value without the white space around it.\<close>

definition top_value :: "string \<Rightarrow> string" where
  "top_value s = fst (take_value (BeginValue, []) (skip_space s))"

definition unmarshal :: "(string \<Rightarrow> string \<Rightarrow> 'a \<Rightarrow> 'a \<times> bool) \<Rightarrow> string \<Rightarrow> 'a \<Rightarrow> 'a \<times> bool" where
  "unmarshal assign s x = (if json_valid s then decode_object assign (top_value s) x else (x, False))"

definition unmarshal_frame :: "string \<Rightarrow> Frame option" where
  "unmarshal_frame s =
     (let (f, ok) = unmarshal frame_field s (bare_frame [] []) in if ok then Some f else None)"

subsection \<open>Reading and writing\<close>

datatype wire_error =
    EOF
  | UnexpectedEOF
  | ConnError string
  | MarshalFailed
  | FrameTooLarge nat
  | WriteHeader
  | WritePayload
  | ZeroLength
  | ReadPayload wire_error
  | UnmarshalFailed

definition put_uint32 :: "nat \<Rightarrow> string" where
  "put_uint32 n = [char_of (n div 2 ^ 24 mod 256), char_of (n div 2 ^ 16 mod 256),
     char_of (n div 2 ^ 8 mod 256), char_of (n mod 256)]"

fun get_uint32 :: "string \<Rightarrow> nat" where
  "get_uint32 [a, b, c, d] =
     of_char a * 2 ^ 24 + of_char b * 2 ^ 16 + of_char c * 2 ^ 8 + of_char d"
| "get_uint32 _ = 0"

type_synonym 'w write_op = "string \<Rightarrow> 'w \<Rightarrow> bool \<times> 'w"
type_synonym 'r read_op = "nat \<Rightarrow> 'r \<Rightarrow> (wire_error + string) \<times> 'r"

definition WriteFrame :: "'w write_op \<Rightarrow> 'w \<Rightarrow> Frame \<Rightarrow> wire_error option \<times> 'w" where
  "WriteFrame wr w f =
     (case marshal_frame f of
        None \<Rightarrow> (Some MarshalFailed, w)
      | Some payload \<Rightarrow>
          if MaxFrameSize < length payload then (Some (FrameTooLarge (length payload)), w)
          else
           (case wr (put_uint32 (length payload)) w of
              (False, w1) \<Rightarrow> (Some WriteHeader, w1)
            | (True, w1) \<Rightarrow>
                (case wr payload w1 of
                   (False, w2) \<Rightarrow> (Some WritePayload, w2)
                 | (True, w2) \<Rightarrow> (None, w2))))"

definition ReadFrame :: "'r read_op \<Rightarrow> 'r \<Rightarrow> (wire_error + Frame) \<times> 'r" where
  "ReadFrame rd r =
     (case rd 4 r of
        (Inl e, r1) \<Rightarrow> (Inl e, r1)
      | (Inr hdr, r1) \<Rightarrow>
          (let n = get_uint32 hdr
           in if n = 0 then (Inl ZeroLength, r1)
              else if MaxFrameSize < n then (Inl (FrameTooLarge n), r1)
              else
               (case rd n r1 of
                  (Inl e, r2) \<Rightarrow> (Inl (ReadPayload e), r2)
                | (Inr buf, r2) \<Rightarrow>
                    (case unmarshal_frame buf of
                       None \<Rightarrow> (Inl UnmarshalFailed, r2)
                     | Some f \<Rightarrow> (Inr f, r2)))))"

text \<open>\<open>io.ReadFull\<close> and \<open>Write\<close> on a byte list.\<close>

definition stream_read :: "string read_op" where
  "stream_read n s =
     (if n \<le> length s then (Inr (take n s), drop n s)
      else (Inl (if s = [] then EOF else UnexpectedEOF), []))"

definition buffer_write :: "string write_op" where
  "buffer_write bs out = (True, out @ bs)"

subsection \<open>The SDK's loop\<close>

record sdk_Event =
  se_Method :: string
  se_Path :: string
  se_Headers :: "(string, string) gomap"
  se_Body :: string

record Response =
  rs_Status :: int
  rs_Headers :: "(string, string) gomap"
  rs_Body :: string

text \<open>What a handler does: return a response or an error, or panic (the panic value and the stack).\<close>

datatype handler_result =
    Returned Response
  | Failed string
  | Panicked string string

type_synonym handler = "duration option \<Rightarrow> sdk_Event \<Rightarrow> handler_result"

definition event_field :: "string \<Rightarrow> string \<Rightarrow> sdk_Event \<Rightarrow> sdk_Event \<times> bool" where
  "event_field k raw e =
     (if field_matches ''method'' k then
        (let (v, ok) = assign_string (se_Method e) raw in (e\<lparr>se_Method := v\<rparr>, ok))
      else if field_matches ''path'' k then
        (let (v, ok) = assign_string (se_Path e) raw in (e\<lparr>se_Path := v\<rparr>, ok))
      else if field_matches ''headers'' k then
        (let (m, ok) = decode_string_map (se_Headers e) raw in (e\<lparr>se_Headers := m\<rparr>, ok))
      else if field_matches ''body'' k then (e\<lparr>se_Body := raw\<rparr>, True)
      else (e, True))"

definition zero_event :: sdk_Event where
  "zero_event = \<lparr>se_Method = [], se_Path = [], se_Headers = [], se_Body = []\<rparr>"

definition deadline_field :: "string \<Rightarrow> string \<Rightarrow> int \<Rightarrow> int \<times> bool" where
  "deadline_field k raw d =
     (if field_matches ''deadline_ms'' k then
        (case decode_int64 raw of DValue v \<Rightarrow> (v, True) | DNull \<Rightarrow> (d, True) | DMismatch \<Rightarrow> (d, False))
      else (d, True))"

text \<open>The timeout \<open>contextFor\<close> sets, if any; a context it cannot read sets none.\<close>

definition contextFor :: "string \<Rightarrow> duration option" where
  "contextFor raw =
     (if raw = [] then None
      else
       (let (d, _) = unmarshal deadline_field raw 0
        in if 0 < d then Some (wrap64 (d * Millisecond)) else None))"

definition marshal_response :: "Response \<Rightarrow> string option" where
  "marshal_response r =
     map_option
       (\<lambda>body. encode_object
          ([(''status'', format_int (rs_Status r))] @
           (if rs_Headers r = [] then [] else [(''headers'', encode_string_map (rs_Headers r))]) @
           body))
       (raw_member ''body'' (rs_Body r))"

definition safeCall :: "handler \<Rightarrow> duration option \<Rightarrow> sdk_Event \<Rightarrow> string + Response" where
  "safeCall h ctx e =
     (case h ctx e of
        Returned r \<Rightarrow> Inr r
      | Failed msg \<Rightarrow> Inl msg
      | Panicked v stack \<Rightarrow> Inl (''panic: '' @ v @ [CHR 0x0A] @ stack))"

definition writeErr :: "'w write_op \<Rightarrow> 'w \<Rightarrow> string \<Rightarrow> string \<Rightarrow> string \<Rightarrow> string \<Rightarrow> 'w" where
  "writeErr wr w i typ msg stack =
     snd (WriteFrame wr w ((bare_frame TypeError i)\<lparr>fr_Error :=
       Some \<lparr>ep_Type = typ, ep_Message = msg, ep_Stack = stack\<rparr>\<rparr>))"

text \<open>The texts of the errors of \<open>encoding/json\<close> are arguments: \<open>bad\<close> and \<open>unencodable\<close>.\<close>

definition handleInvoke ::
  "(string \<Rightarrow> string) \<Rightarrow> (string \<Rightarrow> string) \<Rightarrow> 'w write_op \<Rightarrow> handler \<Rightarrow> 'w \<Rightarrow> Frame \<Rightarrow> 'w" where
  "handleInvoke bad unencodable wr h w f =
     (let ctx = contextFor (fr_Ctx f);
          (event, ok) = (if fr_Event f = [] then (zero_event, True)
                         else unmarshal event_field (fr_Event f) zero_event)
      in if \<not> ok then writeErr wr w (fr_ID f) ''BadEvent'' (bad (fr_Event f)) []
         else (case safeCall h ctx event of
             Inl msg \<Rightarrow> writeErr wr w (fr_ID f) ''HandlerError'' msg []
           | Inr resp \<Rightarrow>
               (case marshal_response resp of
                  None \<Rightarrow> writeErr wr w (fr_ID f) ''MarshalError'' (unencodable (rs_Body resp)) []
                | Some body \<Rightarrow>
                    snd (WriteFrame wr w ((bare_frame TypeResult (fr_ID f))\<lparr>fr_Result := body\<rparr>)))))"

text \<open>\<open>errors.Is(err, io.EOF)\<close>: the payload error wraps the error of the read.\<close>

fun is_eof :: "wire_error \<Rightarrow> bool" where
  "is_eof EOF = True"
| "is_eof (ReadPayload e) = is_eof e"
| "is_eof _ = False"

text \<open>One turn of \<open>Serve\<close>'s loop: the new output, or the end of the loop with its error.\<close>

datatype 'w serve_turn = Continue 'w | Return "wire_error option" 'w

definition serve_frame ::
  "(string \<Rightarrow> string) \<Rightarrow> (string \<Rightarrow> string) \<Rightarrow> 'w write_op \<Rightarrow> handler \<Rightarrow> 'w \<Rightarrow> Frame \<Rightarrow> 'w serve_turn" where
  "serve_frame bad unencodable wr h w f =
     (if fr_Type f = TypeInvoke then Continue (handleInvoke bad unencodable wr h w f)
      else if fr_Type f = TypeShutdown then
        Return None (snd (WriteFrame wr w (bare_frame TypeShutdownOK (fr_ID f))))
      else if fr_Type f = TypeInit then
        Continue (snd (WriteFrame wr w (bare_frame TypeInitOK (fr_ID f))))
      else
        Continue (snd (WriteFrame wr w ((bare_frame TypeError (fr_ID f))\<lparr>fr_Error :=
          Some \<lparr>ep_Type = ''ProtocolError'', ep_Message = ''unknown frame type: '' @ fr_Type f, ep_Stack = []\<rparr>\<rparr>))))"

text \<open>
  \<open>Serve\<close> on a byte stream that ends. Every turn that continues has read at least one byte, so
  the length of the stream bounds the number of turns; \<open>serve_enough\<close> shows that the bound is
  never reached.
\<close>

fun Serve_turns ::
  "nat \<Rightarrow> (string \<Rightarrow> string) \<Rightarrow> (string \<Rightarrow> string) \<Rightarrow> handler \<Rightarrow> string \<Rightarrow> string \<Rightarrow>
   (wire_error option \<times> string) option" where
  "Serve_turns 0 bad unencodable h inp out = None"
| "Serve_turns (Suc n) bad unencodable h inp out =
     (case ReadFrame stream_read inp of
        (Inl e, _) \<Rightarrow> Some (if is_eof e then None else Some e, out)
      | (Inr f, inp') \<Rightarrow>
          (case serve_frame bad unencodable buffer_write h out f of
             Return e out' \<Rightarrow> Some (e, out')
           | Continue out' \<Rightarrow> Serve_turns n bad unencodable h inp' out'))"

definition Serve ::
  "(string \<Rightarrow> string) \<Rightarrow> (string \<Rightarrow> string) \<Rightarrow> handler \<Rightarrow> string \<Rightarrow> (wire_error option \<times> string) option" where
  "Serve bad unencodable h inp = Serve_turns (Suc (length inp)) bad unencodable h inp []"

subsection \<open>Invoking an instance\<close>

definition Invoke :: "'c write_op \<Rightarrow> 'c read_op \<Rightarrow> 'c \<Rightarrow> Frame \<Rightarrow> (wire_error + Frame) \<times> 'c" where
  "Invoke wr rd c f =
     (case WriteFrame wr c f of
        (Some e, c1) \<Rightarrow> (Inl e, c1)
      | (None, c1) \<Rightarrow> ReadFrame rd c1)"

text \<open>
  The gateway's end of a connection to a process that runs the SDK: what was written and not
  yet served, and what the process wrote and was not yet read. A read serves pending frames.
\<close>

record sdk_conn =
  sc_in :: string
  sc_out :: string

definition conn_write :: "sdk_conn write_op" where
  "conn_write bs c = (True, c\<lparr>sc_in := sc_in c @ bs\<rparr>)"

definition conn_serve :: "(string \<Rightarrow> string) \<Rightarrow> (string \<Rightarrow> string) \<Rightarrow> handler \<Rightarrow> sdk_conn \<Rightarrow> sdk_conn" where
  "conn_serve bad unencodable h c =
     (case ReadFrame stream_read (sc_in c) of
        (Inl e, _) \<Rightarrow> c
      | (Inr f, inp') \<Rightarrow>
          (case serve_frame bad unencodable buffer_write h (sc_out c) f of
             Continue out' \<Rightarrow> \<lparr>sc_in = inp', sc_out = out'\<rparr>
           | Return e out' \<Rightarrow> \<lparr>sc_in = [], sc_out = out'\<rparr>))"

definition conn_read :: "(string \<Rightarrow> string) \<Rightarrow> (string \<Rightarrow> string) \<Rightarrow> handler \<Rightarrow> sdk_conn read_op" where
  "conn_read bad unencodable h n c =
     (let c = (if length (sc_out c) < n then conn_serve bad unencodable h c else c);
          (r, out) = stream_read n (sc_out c)
      in (r, c\<lparr>sc_out := out\<rparr>))"

subsection \<open>Well-formed frames\<close>

text \<open>
  A raw field as the program fills it: empty, or a text \<open>json.Marshal\<close> would not change that
  can be a member of the frame.
\<close>

definition raw_field_ok :: "string \<Rightarrow> bool" where
  "raw_field_ok raw \<longleftrightarrow> raw = [] \<or> raw_ok raw \<and> compact_raw raw = Some raw"

definition error_ok :: "ErrorPayload \<Rightarrow> bool" where
  "error_ok e \<longleftrightarrow> utf8_valid (ep_Type e) \<and> utf8_valid (ep_Message e) \<and> utf8_valid (ep_Stack e)"

definition frame_ok :: "Frame \<Rightarrow> bool" where
  "frame_ok f \<longleftrightarrow>
     utf8_valid (fr_Type f) \<and> utf8_valid (fr_ID f) \<and>
     raw_field_ok (fr_Event f) \<and> raw_field_ok (fr_Ctx f) \<and> raw_field_ok (fr_Config f) \<and>
     raw_field_ok (fr_Result f) \<and> (case fr_Error f of None \<Rightarrow> True | Some e \<Rightarrow> error_ok e)"


definition frame_members :: "Frame \<Rightarrow> (string \<times> string) list" where
  "frame_members f =
     [(''type'', json_quote (fr_Type f)), (''id'', json_quote (fr_ID f))] @
     (if fr_Event f = [] then [] else [(''event'', fr_Event f)]) @
     (if fr_Ctx f = [] then [] else [(''ctx'', fr_Ctx f)]) @
     (if fr_Config f = [] then [] else [(''config'', fr_Config f)]) @
     (if fr_Result f = [] then [] else [(''result'', fr_Result f)]) @
     (case fr_Error f of None \<Rightarrow> [] | Some e \<Rightarrow> [(''error'', marshal_error e)])"

text \<open>The bytes of a well-formed frame that fits.\<close>

definition frame_bytes :: "Frame \<Rightarrow> string" where
  "frame_bytes f = (let p = encode_object (frame_members f) in put_uint32 (length p) @ p)"

definition frame_fits :: "Frame \<Rightarrow> bool" where
  "frame_fits f \<longleftrightarrow> frame_ok f \<and> length (encode_object (frame_members f)) \<le> MaxFrameSize"

text \<open>The frame the SDK answers an invoke frame with.\<close>

definition reply_frame ::
  "(string \<Rightarrow> string) \<Rightarrow> (string \<Rightarrow> string) \<Rightarrow> handler \<Rightarrow> Frame \<Rightarrow> Frame" where
  "reply_frame bad unencodable h f =
     (let err = (\<lambda>typ msg. (bare_frame TypeError (fr_ID f))\<lparr>fr_Error :=
            Some \<lparr>ep_Type = typ, ep_Message = msg, ep_Stack = []\<rparr>\<rparr>);
          (event, ok) = (if fr_Event f = [] then (zero_event, True)
                         else unmarshal event_field (fr_Event f) zero_event)
      in if \<not> ok then err ''BadEvent'' (bad (fr_Event f))
         else (case h (contextFor (fr_Ctx f)) event of
             Failed msg \<Rightarrow> err ''HandlerError'' msg
           | Panicked v stack \<Rightarrow> err ''HandlerError'' (''panic: '' @ v @ [CHR 0x0A] @ stack)
           | Returned resp \<Rightarrow>
               (case marshal_response resp of
                  None \<Rightarrow> err ''MarshalError'' (unencodable (rs_Body resp))
                | Some body \<Rightarrow> (bare_frame TypeResult (fr_ID f))\<lparr>fr_Result := body\<rparr>)))"

text \<open>The struct \<open>ServeHTTP\<close> of the gateway decodes a result into.\<close>

definition response_field :: "string \<Rightarrow> string \<Rightarrow> Response \<Rightarrow> Response \<times> bool" where
  "response_field k raw r =
     (if field_matches ''status'' k then
        (case decode_int64 raw of
           DValue v \<Rightarrow> (r\<lparr>rs_Status := v\<rparr>, True) | DNull \<Rightarrow> (r, True) | DMismatch \<Rightarrow> (r, False))
      else if field_matches ''headers'' k then
        (let (m, ok) = decode_string_map (rs_Headers r) raw in (r\<lparr>rs_Headers := m\<rparr>, ok))
      else if field_matches ''body'' k then (r\<lparr>rs_Body := raw\<rparr>, True)
      else (r, True))"

definition zero_response :: Response where
  "zero_response = \<lparr>rs_Status = 0, rs_Headers = [], rs_Body = []\<rparr>"

definition unmarshal_response :: "string \<Rightarrow> Response option" where
  "unmarshal_response s =
     (let (r, ok) = unmarshal response_field s zero_response in if ok then Some r else None)"

definition response_ok :: "Response \<Rightarrow> bool" where
  "response_ok r \<longleftrightarrow>
     int64 (rs_Status r) \<and> map_wf (rs_Headers r) \<and>
     (\<forall>(k, v) \<in> set (rs_Headers r). utf8_valid k \<and> utf8_valid v) \<and> raw_field_ok (rs_Body r)"

definition response_members :: "Response \<Rightarrow> (string \<times> string) list" where
  "response_members r =
     [(''status'', format_int (rs_Status r))] @
     (if rs_Headers r = [] then [] else [(''headers'', encode_string_map (rs_Headers r))]) @
     (if rs_Body r = [] then [] else [(''body'', rs_Body r)])"

definition demo_result :: Frame where
  "demo_result = (bare_frame TypeResult ''r1'')\<lparr>fr_Result := ''[1,2]''\<rparr>"

definition demo_invoke :: Frame where
  "demo_invoke = bare_frame TypeInvoke ''r7''"

definition demo_response :: Response where
  "demo_response = \<lparr>rs_Status = 200, rs_Headers = [], rs_Body = []\<rparr>"

definition demo_handler :: handler where
  "demo_handler ctx e = Returned demo_response"

section \<open>Lemmas\<close>

subsection \<open>Headers\<close>

lemma of_char_mod: "(of_char (char_of (n mod 256)) :: nat) = n mod 256"
  by simp

lemma get_put_uint32:
  assumes "n < 2 ^ 32"
  shows "get_uint32 (put_uint32 n) = n"
proof -
  define a b c where "a = n div 256" and "b = a div 256" and "c = b div 256"
  have d: "n div 2 ^ 8 = a" "n div 2 ^ 16 = b" "n div 2 ^ 24 = c"
    by (simp_all add: a_def b_def c_def div_mult2_eq [symmetric])
  have "c < 256" unfolding d(3) [symmetric] using assms by (simp add: less_mult_imp_div_less)
  moreover have "n = a * 256 + n mod 256" and "a = b * 256 + a mod 256" and "b = c * 256 + b mod 256"
    unfolding a_def b_def c_def by simp_all
  ultimately have "c mod 256 * 2 ^ 24 + b mod 256 * 2 ^ 16 + a mod 256 * 2 ^ 8 + n mod 256 = n"
    by simp
  then show ?thesis by (simp only: put_uint32_def get_uint32.simps d of_char_mod)
qed

subsection \<open>Names of fields\<close>

lemma field_names [simp]:
  "fold_name ''type'' = ''TYPE''" "fold_name ''id'' = ''ID''" "fold_name ''event'' = ''EVENT''"
  "fold_name ''ctx'' = ''CTX''" "fold_name ''config'' = ''CONFIG''" "fold_name ''result'' = ''RESULT''"
  "fold_name ''error'' = ''ERROR''" "fold_name ''message'' = ''MESSAGE''" "fold_name ''stack'' = ''STACK''"
  "fold_name ''status'' = ''STATUS''" "fold_name ''headers'' = ''HEADERS''" "fold_name ''body'' = ''BODY''"
  "fold_name ''method'' = ''METHOD''" "fold_name ''path'' = ''PATH''"
  by code_simp+

lemma name_valid:
  "k \<in> {''type'', ''id'', ''event'', ''ctx'', ''config'', ''result'', ''error'', ''message'', ''stack'',
     ''status'', ''headers'', ''body'', ''method'', ''path''} \<Longrightarrow> utf8_valid k"
  by (rule utf8_valid_ascii) auto

subsection \<open>Decoding an encoded struct\<close>

lemma decode_struct_append:
  "decode_struct assign (a @ b) x =
     (let (x1, ok1) = decode_struct assign a x; (x2, ok2) = decode_struct assign b x1 in (x2, ok1 \<and> ok2))"
  by (induction a arbitrary: x) (auto simp: case_prod_unfold Let_def)

lemma quote_not_null: "\<not> json_null (json_quote s)"
  by (simp add: json_null_def json_quote_def)

lemma object_not_null: "\<not> json_null (encode_object kvs)"
  by (simp add: json_null_def encode_object_def)

lemma assign_quote [simp]: "utf8_valid v \<Longrightarrow> assign_string old (json_quote v) = (v, True)"
  by (simp add: assign_string_def decode_string_def quote_not_null unquote_quote)

lemma decode_encoded:
  assumes "\<forall>kv \<in> set kvs. utf8_valid (fst kv) \<and> raw_ok (snd kv)"
  shows "decode_object assign (encode_object kvs) x = decode_struct assign kvs x"
  by (simp add: decode_object_def object_not_null members_encode_object [OF assms])

lemma unmarshal_top:
  assumes "\<forall>kv \<in> set kvs. utf8_valid (fst kv) \<and> raw_ok (snd kv)"
  shows "unmarshal assign (encode_object kvs) x = decode_struct assign kvs x"
proof -
  have v: "json_valid (encode_object kvs)" using object_valid assms by blast
  then obtain q where q: "scan_run (encode_object kvs) (BeginValue, []) = Some q"
    by (auto simp: json_valid_def split: option.splits)
  have "take_value (BeginValue, []) (encode_object kvs) = (encode_object kvs, [])"
    by (rule take_value_whole [OF q]) (simp add: encode_object_def value_done_def json_space_def)
  then have "top_value (encode_object kvs) = encode_object kvs"
    by (simp add: top_value_def encode_object_def)
  then show ?thesis using v decode_encoded [OF assms] by (simp add: unmarshal_def)
qed

subsection \<open>Frames\<close>

lemma error_members_ok:
  "error_ok e \<Longrightarrow> kv \<in> set ([(''type'', json_quote (ep_Type e)), (''message'', json_quote (ep_Message e))] @
      string_member ''stack'' (ep_Stack e)) \<Longrightarrow>
   utf8_valid (fst kv) \<and> raw_ok (snd kv) \<and> scan_depth (snd kv) (BeginValue, []) = 0"
  by (auto simp: string_member_def name_valid quote_raw_ok quote_depth split: if_splits)

lemma decode_marshal_error: "error_ok e \<Longrightarrow> decode_object error_field (marshal_error e) no_error = (e, True)"
proof -
  assume ok: "error_ok e"
  show ?thesis
    unfolding marshal_error_def
    by (subst decode_encoded)
      (use error_members_ok [OF ok] ok in \<open>auto simp: error_ok_def string_member_def error_field_def field_matches_def no_error_def\<close>)
qed

lemma marshal_error_raw: "error_ok e \<Longrightarrow> raw_ok (marshal_error e)"
  unfolding marshal_error_def by (rule object_raw_ok) (use error_members_ok in fastforce)

lemma raw_member_ok: "raw_field_ok r \<Longrightarrow> raw_member k r = Some (if r = [] then [] else [(k, r)])"
  by (auto simp: raw_field_ok_def raw_member_def)

lemma marshal_members: "frame_ok f \<Longrightarrow> marshal_frame f = Some (encode_object (frame_members f))"
  by (simp add: marshal_frame_def frame_members_def frame_ok_def raw_member_ok)

lemma frame_members_ok:
  "frame_ok f \<Longrightarrow> kv \<in> set (frame_members f) \<Longrightarrow> utf8_valid (fst kv) \<and> raw_ok (snd kv)"
proof -
  assume ok: "frame_ok f"
  have raw: "list_all (\<lambda>kv. utf8_valid (fst kv) \<and> raw_ok (snd kv)) (if r = [] then [] else [(k, r)])"
    if "raw_field_ok r" "utf8_valid k" for k r using that by (auto simp: raw_field_ok_def)
  have err: "list_all (\<lambda>kv. utf8_valid (fst kv) \<and> raw_ok (snd kv)) (case fr_Error f of None \<Rightarrow> [] | Some e \<Rightarrow> [(''error'', marshal_error e)])"
    using ok by (auto simp: frame_ok_def name_valid marshal_error_raw split: option.splits)
  have "list_all (\<lambda>kv. utf8_valid (fst kv) \<and> raw_ok (snd kv)) (frame_members f)"
    unfolding frame_members_def list_all_append
    using ok err by (intro conjI raw) (simp_all add: frame_ok_def name_valid quote_raw_ok)
  then show "kv \<in> set (frame_members f) \<Longrightarrow> utf8_valid (fst kv) \<and> raw_ok (snd kv)" by (simp add: list_all_iff)
qed

lemma marshal_error_not_null: "\<not> json_null (marshal_error e)"
  unfolding marshal_error_def by (rule object_not_null)

lemma decode_frame_members:
  "frame_ok f \<Longrightarrow> decode_struct frame_field (frame_members f) (bare_frame [] []) = (f, True)"
  by (cases f)
    (auto simp: frame_members_def frame_ok_def decode_struct_append frame_field_def field_matches_def
      bare_frame_def decode_marshal_error marshal_error_not_null split: option.splits)

lemma unmarshal_marshal: "frame_ok f \<Longrightarrow> unmarshal_frame (encode_object (frame_members f)) = Some f"
  using unmarshal_top [of "frame_members f" frame_field] frame_members_ok [of f] decode_frame_members [of f]
  by (simp add: unmarshal_frame_def)

lemma write_frame_buffer:
  "frame_fits f \<Longrightarrow> WriteFrame buffer_write out f = (None, out @ frame_bytes f)"
  by (simp add: WriteFrame_def marshal_members frame_fits_def buffer_write_def frame_bytes_def Let_def)

lemma length_put_uint32 [simp]: "length (put_uint32 n) = 4"
  by (simp add: put_uint32_def)

lemma read_frame_stream:
  assumes "frame_fits f"
  shows "ReadFrame stream_read (frame_bytes f @ rest) = (Inr f, rest)"
proof -
  let ?p = "encode_object (frame_members f)"
  have l: "length ?p \<le> MaxFrameSize" "frame_ok f" using assms by (simp_all add: frame_fits_def)
  then have g: "get_uint32 (put_uint32 (length ?p)) = length ?p"
    by (intro get_put_uint32) (simp add: MaxFrameSize_def)
  have n: "length ?p \<noteq> 0" by (simp add: encode_object_def)
  have "stream_read 4 (frame_bytes f @ rest) = (Inr (put_uint32 (length ?p)), ?p @ rest)"
    by (simp add: stream_read_def frame_bytes_def Let_def)
  moreover have "stream_read (length ?p) (?p @ rest) = (Inr ?p, rest)"
    by (simp add: stream_read_def)
  ultimately show ?thesis
    using l n by (simp add: ReadFrame_def g unmarshal_marshal Let_def)
qed

subsection \<open>The loop\<close>

lemma read_frame_shorter:
  "ReadFrame stream_read s = (Inr f, s') \<Longrightarrow> length s' < length s"
  by (auto simp: ReadFrame_def stream_read_def Let_def split: prod.splits sum.splits if_splits option.splits)

lemma serve_enough: "length inp < n \<Longrightarrow> Serve_turns n bad unencodable h inp out \<noteq> None"
proof (induction n arbitrary: inp out)
  case (Suc n)
  show ?case
  proof (cases "ReadFrame stream_read inp")
    case (Pair r inp')
    then show ?thesis
      using Suc.IH [of inp'] Suc.prems read_frame_shorter [of inp _ inp']
      by (auto split: sum.splits serve_turn.splits)
  qed
qed simp

lemma handle_invoke_reply:
  "handleInvoke bad unencodable wr h w f = snd (WriteFrame wr w (reply_frame bad unencodable h f))"
  by (simp add: handleInvoke_def reply_frame_def writeErr_def safeCall_def Let_def case_prod_unfold
      split: handler_result.splits option.splits)

lemma reply_frame_id: "fr_ID (reply_frame bad unencodable h f) = fr_ID f"
  by (simp add: reply_frame_def bare_frame_def Let_def case_prod_unfold split: handler_result.splits option.splits)

lemma reply_frame_type:
  "fr_Type (reply_frame bad unencodable h f) \<in> {TypeResult, TypeError} \<and>
   (fr_Type (reply_frame bad unencodable h f) = TypeError \<longrightarrow> fr_Error (reply_frame bad unencodable h f) \<noteq> None)"
  by (simp add: reply_frame_def bare_frame_def Let_def case_prod_unfold TypeResult_def TypeError_def
      split: handler_result.splits option.splits)

lemma serve_invoke:
  assumes "fr_Type f = TypeInvoke" and "frame_fits (reply_frame bad unencodable h f)"
  shows "serve_frame bad unencodable buffer_write h out f = Continue (out @ frame_bytes (reply_frame bad unencodable h f))"
  using assms by (simp add: serve_frame_def handle_invoke_reply write_frame_buffer)

lemma serve_invokes:
  "\<forall>f \<in> set fs. fr_Type f = TypeInvoke \<and> frame_fits f \<and> frame_fits (reply_frame bad unencodable h f) \<Longrightarrow>
   length fs < n \<Longrightarrow>
   Serve_turns n bad unencodable h (concat (map frame_bytes fs)) out =
     Some (None, out @ concat (map (\<lambda>f. frame_bytes (reply_frame bad unencodable h f)) fs))"
proof (induction fs arbitrary: n out)
  case Nil
  then show ?case by (cases n) (simp_all add: ReadFrame_def stream_read_def)
next
  case (Cons f fs)
  then obtain n' where n: "n = Suc n'" by (cases n) auto
  show ?case
    using Cons by (simp add: n read_frame_stream serve_invoke)
qed

lemma frame_bytes_not_Nil: "frame_bytes f \<noteq> []"
  by (simp add: frame_bytes_def Let_def put_uint32_def)

lemma length_frames: "length fs \<le> length (concat (map frame_bytes fs))"
proof (induction fs)
  case (Cons f fs)
  then show ?case using frame_bytes_not_Nil [of f] by (cases "frame_bytes f") auto
qed simp

subsection \<open>Through the connection\<close>

lemma write_frame_conn:
  "frame_fits f \<Longrightarrow> WriteFrame conn_write c f = (None, c\<lparr>sc_in := sc_in c @ frame_bytes f\<rparr>)"
  by (simp add: WriteFrame_def marshal_members frame_fits_def conn_write_def frame_bytes_def Let_def)

lemma conn_serve_invoke:
  assumes "sc_in c = frame_bytes f" "sc_out c = []" "fr_Type f = TypeInvoke"
    and "frame_fits f" "frame_fits (reply_frame bad unencodable h f)"
  shows "conn_serve bad unencodable h c = \<lparr>sc_in = [], sc_out = frame_bytes (reply_frame bad unencodable h f)\<rparr>"
  using assms read_frame_stream [of f "[]"] by (simp add: conn_serve_def serve_invoke)

lemma read_frame_conn:
  assumes "frame_fits g" and "sc_out (conn_serve bad unencodable h c) = frame_bytes g" and "sc_out c = []"
  shows "ReadFrame (conn_read bad unencodable h) c =
    (Inr g, (conn_serve bad unencodable h c)\<lparr>sc_out := []\<rparr>)"
proof -
  let ?p = "encode_object (frame_members g)" and ?c = "conn_serve bad unencodable h c"
  have l: "length ?p \<le> MaxFrameSize" "frame_ok g" using assms by (simp_all add: frame_fits_def)
  then have g: "get_uint32 (put_uint32 (length ?p)) = length ?p"
    by (intro get_put_uint32) (simp add: MaxFrameSize_def)
  have n: "?p \<noteq> []" by (simp add: encode_object_def)
  have b: "frame_bytes g = put_uint32 (length ?p) @ ?p" by (simp add: frame_bytes_def Let_def)
  have "conn_read bad unencodable h 4 c = (Inr (put_uint32 (length ?p)), ?c\<lparr>sc_out := ?p\<rparr>)"
    using assms(2,3) by (simp add: conn_read_def b stream_read_def Let_def)
  moreover have "conn_read bad unencodable h (length ?p) (?c\<lparr>sc_out := ?p\<rparr>) = (Inr ?p, ?c\<lparr>sc_out := []\<rparr>)"
    by (simp add: conn_read_def stream_read_def Let_def)
  ultimately show ?thesis
    using l n by (simp add: ReadFrame_def g unmarshal_marshal Let_def)
qed

subsection \<open>Responses\<close>

lemma digits_scan:
  "list_all is_digit ds \<Longrightarrow> scan_run ds (Num1, st) = Some (Num1, st) \<and> scan_depth ds (Num1, st) = length st"
  by (induction ds) auto

lemma digits_value_append: "digits_value (ds @ [c]) = 10 * digits_value ds + (int (of_char c) - 48)"
  by (simp add: digits_value_def)

lemma digits_value_nat: "digits_value (decimal n) = int n"
proof (induction n rule: decimal.induct)
  case (1 n)
  have "int (of_char (digit_char n)) - 48 = int (n mod 10)"
    using of_digit_char [of n] by (metis add_diff_cancel_left' of_nat_add of_nat_numeral of_char_of of_nat_of_char)
  moreover have "10 * int (n div 10) + int (n mod 10) = int n"
    unfolding of_nat_div of_nat_mod by simp
  ultimately show ?case
    using 1 by (cases "n < 10") (simp_all add: decimal.simps [of n] digits_value_append, simp add: digits_value_def)
qed

lemma decimal_head: "decimal n = d # ds \<Longrightarrow> d = CHR ''0'' \<Longrightarrow> ds = []"
proof (induction n arbitrary: d ds rule: decimal.induct)
  case (1 n)
  show ?case
  proof (cases "n < 10")
    case True
    then show ?thesis using 1 by (simp add: decimal.simps [of n])
  next
    case False
    obtain e es where e: "decimal (n div 10) = e # es"
      using decimal_digits [of "n div 10"] by (cases "decimal (n div 10)") auto
    then have "d = e" using 1(2) False by (simp add: decimal.simps [of n])
    with 1(1) [OF linorder_not_less [THEN iffD1, OF False] e] 1(3) have "es = []" by simp
    with e \<open>d = e\<close> 1(3) have "decimal (n div 10) = [CHR ''0'']" by simp
    then have "digits_value [CHR ''0''] = int (n div 10)" using digits_value_nat [of "n div 10"] by simp
    then have "n div 10 = 0" by (simp add: digits_value_def)
    with False show ?thesis by simp
  qed
qed

lemma number_raw:
  assumes "decimal n = d # ds"
  shows "scan_run (d # ds) (BeginValue, st) = Some (if d = CHR ''0'' then Num0 else Num1, st)"
    and "scan_run (d # ds) (Neg, st) = Some (if d = CHR ''0'' then Num0 else Num1, st)"
    and "scan_depth (d # ds) (BeginValue, st) = length st"
    and "scan_depth (d # ds) (Neg, st) = length st"
proof -
  have dig: "is_digit d" "list_all is_digit ds" using decimal_digits [of n] assms by auto
  have z: "d = CHR ''0'' \<Longrightarrow> ds = []" using decimal_head [OF assms] .
  have "\<not> json_space d" "d \<noteq> CHR ''{''" "d \<noteq> CHR ''[''" "d \<noteq> CHR 0x22" "d \<noteq> CHR ''-''"
      "d \<noteq> CHR ''t''" "d \<noteq> CHR ''f''" "d \<noteq> CHR ''n''"
    using dig(1) by (auto simp: is_digit_def json_space_def)
  then have s: "scan_step d (BeginValue, st) = Some (if d = CHR ''0'' then Num0 else Num1, st)"
    using dig(1) by (simp add: scan_begin_value_def begin_mode_def)
  show "scan_run (d # ds) (BeginValue, st) = Some (if d = CHR ''0'' then Num0 else Num1, st)"
    and "scan_depth (d # ds) (BeginValue, st) = length st"
    using s z digits_scan [OF dig(2), of st] by (cases "d = CHR ''0''"; simp)+
  show "scan_run (d # ds) (Neg, st) = Some (if d = CHR ''0'' then Num0 else Num1, st)"
    and "scan_depth (d # ds) (Neg, st) = length st"
    using dig z digits_scan [OF dig(2), of st] by (cases "d = CHR ''0''"; simp)+
qed

lemma number_eof: "scan_eof (if b then Num0 else Num1, [])"
  by (simp add: scan_eof_def scan_num0_def scan_end_value_def json_space_def is_digit_def)

lemma digit_not_space: "is_digit c \<Longrightarrow> \<not> json_space c"
  by (auto simp: is_digit_def json_space_def)

lemma int_raw_ok: "raw_ok (format_int i)" and int_depth: "scan_depth (format_int i) (BeginValue, []) = 0"
proof -
  obtain d ds where n: "decimal (nat \<bar>i\<bar>) = d # ds"
    using decimal_digits [of "nat \<bar>i\<bar>"] by (cases "decimal (nat \<bar>i\<bar>)") auto
  have "list_all is_digit (d # ds)" using decimal_digits [of "nat \<bar>i\<bar>"] n by simp
  then have sp: "\<not> json_space d" "\<not> json_space (last (d # ds))"
    by (auto simp: list_all_iff dest: digit_not_space)
  have m: "scan_step (CHR ''-'') (BeginValue, []) = Some (Neg, [])"
    by (simp add: scan_begin_value_def begin_mode_def json_space_def)
  have s: "format_int i = (if i < 0 then CHR ''-'' # d # ds else d # ds)"
    using n by (cases "i < 0") (simp_all add: format_int_def)
  show d: "scan_depth (format_int i) (BeginValue, []) = 0"
    using number_raw(3,4) [OF n, of "[]"] m unfolding s by (cases "i < 0") (simp_all del: scan_step.simps)
  show "raw_ok (format_int i)"
    using number_raw(1,2) [OF n, of "[]"] m sp d number_eof
    unfolding s raw_ok_def json_valid_def
    by (cases "i < 0") (simp_all del: scan_step.simps add: json_space_def [of "CHR ''-''"])
qed

lemma decode_format_int:
  assumes "int64 i"
  shows "decode_int64 (format_int i) = DValue i"
proof -
  have d: "decimal n \<noteq> []" "list_all is_digit (decimal n)" for n
    using decimal_digits by auto
  then have "take 1 (decimal n) \<noteq> ''-''" "\<not> json_null (decimal n)" for n
    using d(2) [of n] by (cases "decimal n"; auto simp: is_digit_def json_null_def)+
  then show ?thesis
    using assms d digits_value_nat
    by (auto simp: decode_int64_def format_int_def json_null_def [of "_ # _"] Let_def)
qed

lemma decode_entries_quoted:
  "\<forall>(k, v) \<in> set kvs. utf8_valid v \<Longrightarrow> map_wf (m @ kvs) \<Longrightarrow>
   decode_entries (map (\<lambda>(k, v). (k, json_quote v)) kvs) m = (m @ kvs, True)"
proof (induction kvs arbitrary: m)
  case (Cons kv kvs)
  obtain k v where kv: "kv = (k, v)" by (cases kv)
  have "k \<notin> fst ` set m" using Cons.prems(2) kv by auto
  then have "map_put k v m = m @ [(k, v)]" by (induction m) auto
  moreover have "decode_entries (map (\<lambda>(k, v). (k, json_quote v)) kvs) (m @ [(k, v)]) = ((m @ [(k, v)]) @ kvs, True)"
    by (rule Cons.IH) (use Cons.prems kv in auto)
  ultimately show ?case
    using Cons.prems(1) kv by (simp add: decode_string_def quote_not_null unquote_quote)
qed simp

lemma headers_members:
  assumes "map_wf m" and "\<forall>(k, v) \<in> set m. utf8_valid k \<and> utf8_valid v"
  shows "decode_string_map [] (encode_string_map m) = (sort_key fst m, True)"
    and "raw_ok (encode_string_map m)"
proof -
  let ?kvs = "map (\<lambda>(k, v). (k, json_quote v)) (sort_key fst m)"
  have "\<forall>kv \<in> set ?kvs. utf8_valid (fst kv) \<and> raw_ok (snd kv)"
    using assms(2) by (auto simp: quote_raw_ok)
  note e = members_encode_object [OF this]
  have "mset (map fst (sort_key fst m)) = mset (map fst m)" by (simp add: mset_map)
  then have "map_wf ([] @ sort_key fst m)" using assms(1) by (metis append_Nil mset_eq_imp_distinct_iff)
  then have "decode_entries ?kvs [] = (sort_key fst m, True)"
    using decode_entries_quoted [of "sort_key fst m" "[]"] assms(2) by auto
  then show "decode_string_map [] (encode_string_map m) = (sort_key fst m, True)"
    using e by (simp add: decode_string_map_def encode_string_map_def object_not_null)
  show "raw_ok (encode_string_map m)"
    unfolding encode_string_map_def
    by (rule object_raw_ok) (auto simp: quote_raw_ok quote_depth)
qed

lemma marshal_response_members:
  "response_ok r \<Longrightarrow> marshal_response r = Some (encode_object (response_members r))"
  by (simp add: marshal_response_def response_members_def response_ok_def raw_member_ok)

lemma response_members_ok:
  "response_ok r \<Longrightarrow> kv \<in> set (response_members r) \<Longrightarrow> utf8_valid (fst kv) \<and> raw_ok (snd kv)"
  by (auto simp: response_members_def response_ok_def raw_field_ok_def name_valid int_raw_ok headers_members
      split: if_splits)

lemma unmarshal_marshal_response:
  assumes "response_ok r"
  shows "unmarshal_response (encode_object (response_members r)) = Some (r\<lparr>rs_Headers := sort_key fst (rs_Headers r)\<rparr>)"
proof -
  have "decode_struct response_field (response_members r) zero_response =
      (r\<lparr>rs_Headers := sort_key fst (rs_Headers r)\<rparr>, True)"
    using assms
    by (auto simp: response_members_def response_ok_def decode_struct_append response_field_def field_matches_def
        decode_format_int headers_members zero_response_def)
  then show ?thesis
    using unmarshal_top [of "response_members r" response_field] response_members_ok [OF assms]
    by (simp add: unmarshal_response_def)
qed

subsection \<open>Sample frames\<close>

lemma demo_result_fits: "frame_fits demo_result"
proof -
  have "raw_field_ok ''[1,2]''"
    by (simp add: raw_field_ok_def raw_ok_def json_valid_def compact_raw_def scan_begin_value_def begin_mode_def
        scan_push_def scan_num0_def scan_end_value_def scan_pop_def scan_eof_def json_space_def is_digit_def
        line_separator_def)
  then have "frame_ok demo_result"
    by (simp add: frame_ok_def demo_result_def bare_frame_def TypeResult_def name_valid raw_field_ok_def [of "[]"]
        utf8_valid_ascii)
  moreover have "length (encode_object (frame_members demo_result)) \<le> MaxFrameSize"
    by (simp add: demo_result_def bare_frame_def frame_members_def encode_object_def json_quote_def
        quote_body_plain plain_text_def TypeResult_def MaxFrameSize_def)
  ultimately show ?thesis by (simp add: frame_fits_def)
qed

lemma demo_invoke_fits: "frame_fits demo_invoke"
  by (simp add: frame_fits_def frame_ok_def demo_invoke_def bare_frame_def TypeInvoke_def raw_field_ok_def
      utf8_valid_ascii frame_members_def encode_object_def json_quote_def quote_body_plain plain_text_def
      MaxFrameSize_def)

lemma demo_reply:
  "reply_frame id id demo_handler demo_invoke =
     (bare_frame TypeResult ''r7'')\<lparr>fr_Result := encode_object [(''status'', format_int 200)]\<rparr>"
  by (simp add: reply_frame_def demo_invoke_def bare_frame_def demo_handler_def marshal_response_def
      demo_response_def raw_member_def)

lemma demo_reply_fits: "frame_fits (reply_frame id id demo_handler demo_invoke)"
proof -
  have n: "format_int 200 = ''200''"
    by (simp add: format_int_def decimal.simps digit_char_def char_of_eq_iff take_bit_eq_mod)
  let ?r = "encode_object [(''status'', ''200'')]"
  have r: "?r = ''{'' @ [CHR 0x22] @ ''status'' @ [CHR 0x22] @ '':200}''"
    by (simp add: encode_object_def json_quote_def quote_body_plain plain_text_def)
  have "raw_ok ?r"
    by (rule object_raw_ok) (use int_raw_ok [of 200] int_depth [of 200] in \<open>simp add: n\<close>)
  moreover have "compact_raw ?r = Some ?r"
    unfolding r
    by (simp add: compact_raw_def scan_begin_value_def begin_mode_def scan_begin_string_def
        scan_push_def scan_num0_def scan_end_value_def scan_pop_def scan_eof_def json_space_def is_digit_def
        line_separator_def)
  ultimately have "frame_ok ((bare_frame TypeResult ''r7'')\<lparr>fr_Result := ?r\<rparr>)"
    by (simp add: frame_ok_def bare_frame_def raw_field_ok_def TypeResult_def name_valid utf8_valid_ascii)
  moreover have "length (encode_object (frame_members ((bare_frame TypeResult ''r7'')\<lparr>fr_Result := ?r\<rparr>))) \<le> MaxFrameSize"
    unfolding r by (simp add: bare_frame_def frame_members_def encode_object_def json_quote_def
        quote_body_plain plain_text_def TypeResult_def MaxFrameSize_def)
  ultimately show ?thesis by (simp add: demo_reply n frame_fits_def)
qed

section \<open>Properties\<close>

text \<open>
  (C9) Round trip of the wire protocol: a frame whose strings are UTF-8, whose raw fields are
  values as \<open>json.Marshal\<close> writes them and whose encoding is at most 16 MiB is written without
  error as some bytes, and reading those bytes gives back the same frame and leaves exactly
  what followed them.
\<close>

theorem frame_roundtrip:
  assumes "frame_fits f"
  shows "\<exists>bytes. WriteFrame buffer_write out f = (None, out @ bytes) \<and>
    ReadFrame stream_read (bytes @ rest) = (Inr f, rest)"
  using write_frame_buffer [OF assms] read_frame_stream [OF assms] by blast

theorem frame_roundtrip_witness:
  "\<exists>bytes. WriteFrame buffer_write [] demo_result = (None, [] @ bytes) \<and>
    ReadFrame stream_read (bytes @ ''tail'') = (Inr demo_result, ''tail'')"
  by (rule frame_roundtrip [OF demo_result_fits])

text \<open>
  (C10) Frame limits: whatever the connection, \<open>WriteFrame\<close> hands it nothing when the encoding
  exceeds 16 MiB or cannot be encoded, and \<open>ReadFrame\<close> never asks for more than 16 MiB, whatever
  length the peer announces: two readers that agree on reads of that size are not told apart.
\<close>

theorem frame_limits:
  assumes "\<And>n r. n \<le> MaxFrameSize \<Longrightarrow> rd n r = rd' n r"
  shows "ReadFrame rd r = ReadFrame rd' r \<and>
    (case marshal_frame f of
       None \<Rightarrow> WriteFrame wr w f = (Some MarshalFailed, w)
     | Some p \<Rightarrow> MaxFrameSize < length p \<longrightarrow> WriteFrame wr w f = (Some (FrameTooLarge (length p)), w))"
proof -
  have h: "rd 4 r = rd' 4 r" by (rule assms) (simp add: MaxFrameSize_def)
  have "ReadFrame rd r = ReadFrame rd' r"
  proof (cases "rd 4 r")
    case (Pair a r1)
    then show ?thesis
      using h by (cases a) (auto simp: ReadFrame_def Let_def assms)
  qed
  then show ?thesis by (simp add: WriteFrame_def split: option.split)
qed

theorem frame_limits_witness:
  "ReadFrame stream_read ''ab'' = ReadFrame (\<lambda>n s. if n \<le> MaxFrameSize then stream_read n s else (Inl EOF, s)) ''ab'' \<and>
   (case marshal_frame ((bare_frame TypeResult [])\<lparr>fr_Result := ''{''\<rparr>) of
      None \<Rightarrow> WriteFrame buffer_write [] ((bare_frame TypeResult [])\<lparr>fr_Result := ''{''\<rparr>) = (Some MarshalFailed, [])
    | Some p \<Rightarrow> MaxFrameSize < length p \<longrightarrow>
        WriteFrame buffer_write [] ((bare_frame TypeResult [])\<lparr>fr_Result := ''{''\<rparr>) = (Some (FrameTooLarge (length p)), []))"
  by (rule frame_limits) simp



lemma invoke_reply:
  assumes "fr_Type f = TypeInvoke" and "frame_fits f" and "frame_fits (reply_frame bad unencodable h f)"
    and "sc_in c = []" and "sc_out c = []"
  shows "Invoke conn_write (conn_read bad unencodable h) c f = (Inr (reply_frame bad unencodable h f), c)"
proof -
  let ?c = "c\<lparr>sc_in := frame_bytes f\<rparr>" and ?g = "reply_frame bad unencodable h f"
  have "WriteFrame conn_write c f = (None, ?c)" using write_frame_conn [OF assms(2), of c] assms(4) by simp
  moreover have s: "conn_serve bad unencodable h ?c = \<lparr>sc_in = [], sc_out = frame_bytes ?g\<rparr>"
    by (rule conn_serve_invoke) (simp_all add: assms)
  then have "ReadFrame (conn_read bad unencodable h) ?c = (Inr ?g, c)"
    using read_frame_conn [OF assms(3), of bad unencodable h ?c] assms(4,5) by (cases c) simp
  ultimately show ?thesis by (simp add: Invoke_def)
qed

lemma reply_result:
  assumes "(if fr_Event f = [] then (zero_event, True) else unmarshal event_field (fr_Event f) zero_event) = (e, True)"
    and "h (contextFor (fr_Ctx f)) e = Returned resp" and "response_ok resp"
  shows "reply_frame bad unencodable h f =
      (bare_frame TypeResult (fr_ID f))\<lparr>fr_Result := encode_object (response_members resp)\<rparr>"
    and "unmarshal_response (fr_Result (reply_frame bad unencodable h f)) =
      Some (resp\<lparr>rs_Headers := sort_key fst (rs_Headers resp)\<rparr>)"
  using assms unmarshal_marshal_response [OF assms(3)]
  by (simp_all add: reply_frame_def marshal_response_members)

text \<open>
  An invocation end to end: \<open>Instance.Invoke\<close> on an idle connection to a process that runs
  the SDK's loop returns the reply frame of that invocation, with the same id, and leaves the
  connection idle again; when the handler returned a response, decoding the result gives the
  response back with its headers in key order.
\<close>

theorem invoke_end_to_end:
  assumes "fr_Type f = TypeInvoke" and "frame_fits f" and "frame_fits (reply_frame bad unencodable h f)"
    and "sc_in c = []" and "sc_out c = []"
  shows "Invoke conn_write (conn_read bad unencodable h) c f = (Inr (reply_frame bad unencodable h f), c) \<and>
    fr_ID (reply_frame bad unencodable h f) = fr_ID f \<and>
    (\<forall>e resp. (if fr_Event f = [] then (zero_event, True)
         else unmarshal event_field (fr_Event f) zero_event) = (e, True) \<and>
       h (contextFor (fr_Ctx f)) e = Returned resp \<and> response_ok resp \<longrightarrow>
       unmarshal_response (fr_Result (reply_frame bad unencodable h f)) =
         Some (resp\<lparr>rs_Headers := sort_key fst (rs_Headers resp)\<rparr>))"
  using invoke_reply [OF assms] reply_result(2) [of f _ h _ bad unencodable] by (auto simp: reply_frame_id)

theorem invoke_end_to_end_witness:
  "Invoke conn_write (conn_read id id demo_handler) \<lparr>sc_in = [], sc_out = []\<rparr> demo_invoke =
     (Inr (reply_frame id id demo_handler demo_invoke), \<lparr>sc_in = [], sc_out = []\<rparr>)"
proof -
  have "fr_Type demo_invoke = TypeInvoke" by (simp add: demo_invoke_def bare_frame_def)
  then show ?thesis
    using invoke_end_to_end [OF _ demo_invoke_fits demo_reply_fits, of "\<lparr>sc_in = [], sc_out = []\<rparr>"] by simp
qed

end
