(* ===== verification/State_Store.thy ===== *)
theory State_Store
  imports Prelude
begin

text \<open>
  Package \<open>internal/state\<close>, first half: the persistent shapes of functions and cron jobs,
  the watch events, and the function and cron operations of \<open>InMemStore\<close> with its
  subscribers (\<open>state.go\<close>, \<open>inmem.go\<close>). Every operation takes the store and returns
  the new one; \<open>time.Now()\<close> is an argument. The interface the gateway and the scheduler
  rely on is the locale \<open>kv_store\<close>, interpreted once for functions and once for cron jobs.
\<close>

named_theorems store_defs "definitions of the store operations"

section \<open>Definitions\<close>

subsection \<open>Data\<close>

record state_LayerMount =
  slm_Name :: string
  slm_HostPath :: string
  slm_MountPath :: string
  slm_Digest :: string

record state_FunctionDef =
  sf_Name :: string
  sf_Binary :: string
  sf_Env :: "string list"
  sf_Layers :: "state_LayerMount list"
  sf_MaxConcurrency :: int
  sf_Project :: string
  sf_UpdatedAt :: time

record CronJob =
  cj_ID :: string
  cj_Schedule :: string
  cj_Function :: string
  cj_Method :: string
  cj_Body :: string
  cj_Headers :: "(string, string) gomap"
  cj_Project :: string
  cj_UpdatedAt :: time

datatype EventKind = EventFunctionPut | EventFunctionDelete | EventCronPut | EventCronDelete

record Event =
  ev_Kind :: EventKind
  ev_Name :: string

datatype store_error =
    ErrNotFound
  | ProjectExists string
  | ReservedProject
  | APIKeyExists string
  | NegativeDelta

record Project =
  pr_Name :: string
  pr_Description :: string
  pr_CreatedAt :: time

record APIKey =
  ak_ID :: string
  ak_Project :: string
  ak_Description :: string
  ak_TokenSHA256 :: string
  ak_Scopes :: "string list"
  ak_CreatedAt :: time
  ak_LastUsedAt :: "time option"

record Quota =
  qt_Project :: string
  qt_Kind :: string
  qt_Value :: int
  qt_UpdatedAt :: time

record AuditEntry =
  ae_ID :: int
  ae_TS :: time
  ae_Project :: string
  ae_Actor :: string
  ae_Action :: string
  ae_Target :: string
  ae_Metadata :: "(string, string) gomap"

text \<open>A buffered channel of events; \<open>make(chan Event, 16)\<close> holds 16 of them.\<close>

record event_chan =
  ch_buf :: "Event list"
  ch_closed :: bool

text \<open>
  \<open>st_projects\<close> is nil (\<open>None\<close>) until \<open>ensureTenancyMaps\<close> runs. Channels are
  addresses: \<open>chans\<close> is the heap of the channels \<open>Watch\<close> made, \<open>subs\<close> the set of
  those still subscribed, \<open>next_chan\<close> the next free address.
\<close>

record InMemStore =
  st_functions :: "(string, state_FunctionDef) gomap"
  st_crons :: "(string, CronJob) gomap"
  st_projects :: "(string, Project) gomap option"
  st_apiKeys :: "(string, APIKey) gomap"
  st_quotas :: "(string, (string, Quota) gomap) gomap"
  st_usage :: "(string, (string, (time, int) gomap) gomap) gomap"
  st_audit :: "AuditEntry list"
  nextAuditID :: int
  chans :: "(nat, event_chan) gomap"
  subs :: "nat list"
  next_chan :: nat

definition watch_capacity :: nat where
  "watch_capacity = 16"

definition NewInMemStore :: InMemStore where
  "NewInMemStore =
     \<lparr>st_functions = [], st_crons = [], st_projects = None, st_apiKeys = [], st_quotas = [], st_usage = [],
      st_audit = [], nextAuditID = 0, chans = [], subs = [], next_chan = 0\<rparr>"

subsection \<open>Subscribers\<close>

text \<open>A non-blocking send: a full channel drops the event.\<close>

definition chan_offer :: "Event \<Rightarrow> event_chan \<Rightarrow> event_chan" where
  "chan_offer ev ch =
     (if length (ch_buf ch) < watch_capacity then ch\<lparr>ch_buf := ch_buf ch @ [ev]\<rparr> else ch)"

fun send_all :: "Event \<Rightarrow> nat list \<Rightarrow> (nat, event_chan) gomap \<Rightarrow> (nat, event_chan) gomap" where
  "send_all ev [] h = h"
| "send_all ev (c # cs) h =
     send_all ev cs (case map_of h c of
        None \<Rightarrow> h
      | Some ch \<Rightarrow> map_put c (chan_offer ev ch) h)"

definition broadcast :: "Event \<Rightarrow> InMemStore \<Rightarrow> InMemStore" where
  "broadcast ev s = s\<lparr>chans := send_all ev (subs s) (chans s)\<rparr>"

definition Watch :: "InMemStore \<Rightarrow> nat \<times> InMemStore" where
  "Watch s =
     (let c = next_chan s
      in (c, s\<lparr>chans := map_put c \<lparr>ch_buf = [], ch_closed = False\<rparr> (chans s),
               subs := subs s @ [c], next_chan := Suc c\<rparr>))"

text \<open>The goroutine \<open>Watch\<close> starts, once its context is cancelled.\<close>

definition watch_cancelled :: "nat \<Rightarrow> InMemStore \<Rightarrow> InMemStore" where
  "watch_cancelled c s =
     s\<lparr>subs := removeAll c (subs s),
       chans := (case map_of (chans s) c of
          None \<Rightarrow> chans s
        | Some ch \<Rightarrow> map_put c (ch\<lparr>ch_closed := True\<rparr>) (chans s))\<rparr>"

text \<open>A receive on the channel: \<open>None\<close> when the receiver would block.\<close>

definition chan_recv :: "nat \<Rightarrow> InMemStore \<Rightarrow> (Event \<times> InMemStore) option" where
  "chan_recv c s =
     (case map_of (chans s) c of
        None \<Rightarrow> None
      | Some ch \<Rightarrow> (case ch_buf ch of
            [] \<Rightarrow> None
          | ev # evs \<Rightarrow> Some (ev, s\<lparr>chans := map_put c (ch\<lparr>ch_buf := evs\<rparr>) (chans s)\<rparr>)))"

text \<open>\<open>Close\<close> takes at most one event out of every subscribed channel and drops the set.\<close>

fun drain_one :: "nat list \<Rightarrow> (nat, event_chan) gomap \<Rightarrow> (nat, event_chan) gomap" where
  "drain_one [] h = h"
| "drain_one (c # cs) h =
     drain_one cs (case map_of h c of
        None \<Rightarrow> h
      | Some ch \<Rightarrow> map_put c (ch\<lparr>ch_buf := tl (ch_buf ch)\<rparr>) h)"

definition Close_store :: "InMemStore \<Rightarrow> InMemStore" where
  "Close_store s = s\<lparr>chans := drain_one (subs s) (chans s), subs := []\<rparr>"

subsection \<open>Functions\<close>

text \<open>
  Values are immutable in HOL, so the deep copies \<open>cloneFunc\<close> and \<open>cloneCron\<close> make are
  identities; they are kept as the places where the code copies.
\<close>

definition cloneFunc :: "state_FunctionDef \<Rightarrow> state_FunctionDef" where
  "cloneFunc d = d\<lparr>sf_Env := sf_Env d, sf_Layers := sf_Layers d\<rparr>"

definition GetFunction :: "InMemStore \<Rightarrow> string \<Rightarrow> store_error + state_FunctionDef" where
  "GetFunction s name =
     (case map_of (st_functions s) name of
        None \<Rightarrow> Inl ErrNotFound
      | Some d \<Rightarrow> Inr (cloneFunc d))"

definition ListFunctions :: "InMemStore \<Rightarrow> state_FunctionDef list" where
  "ListFunctions s = map (\<lambda>(_, d). cloneFunc d) (st_functions s)"

definition PutFunction :: "time \<Rightarrow> state_FunctionDef \<Rightarrow> InMemStore \<Rightarrow> InMemStore" where
  "PutFunction now def s =
     (let def = def\<lparr>sf_UpdatedAt := now\<rparr>;
          def = (if sf_Project def = '''' then def\<lparr>sf_Project := ''default''\<rparr> else def);
          s = s\<lparr>st_functions := map_put (sf_Name def) (cloneFunc def) (st_functions s)\<rparr>
      in broadcast \<lparr>ev_Kind = EventFunctionPut, ev_Name = sf_Name def\<rparr> s)"

definition DeleteFunction :: "string \<Rightarrow> InMemStore \<Rightarrow> InMemStore" where
  "DeleteFunction name s =
     broadcast \<lparr>ev_Kind = EventFunctionDelete, ev_Name = name\<rparr>
       (s\<lparr>st_functions := map_del name (st_functions s)\<rparr>)"

subsection \<open>Cron jobs\<close>

definition cloneCron :: "CronJob \<Rightarrow> CronJob" where
  "cloneCron j = j\<lparr>cj_Headers := cj_Headers j\<rparr>"

definition GetCronJob :: "InMemStore \<Rightarrow> string \<Rightarrow> store_error + CronJob" where
  "GetCronJob s jid =
     (case map_of (st_crons s) jid of
        None \<Rightarrow> Inl ErrNotFound
      | Some j \<Rightarrow> Inr (cloneCron j))"

definition ListCronJobs :: "InMemStore \<Rightarrow> CronJob list" where
  "ListCronJobs s = map (\<lambda>(_, j). cloneCron j) (st_crons s)"

definition PutCronJob :: "time \<Rightarrow> CronJob \<Rightarrow> InMemStore \<Rightarrow> InMemStore" where
  "PutCronJob now j s =
     (let j = j\<lparr>cj_UpdatedAt := now\<rparr>;
          j = (if cj_Project j = '''' then j\<lparr>cj_Project := ''default''\<rparr> else j);
          s = s\<lparr>st_crons := map_put (cj_ID j) (cloneCron j) (st_crons s)\<rparr>
      in broadcast \<lparr>ev_Kind = EventCronPut, ev_Name = cj_ID j\<rparr> s)"

definition DeleteCronJob :: "string \<Rightarrow> InMemStore \<Rightarrow> InMemStore" where
  "DeleteCronJob jid s =
     broadcast \<lparr>ev_Kind = EventCronDelete, ev_Name = jid\<rparr>
       (s\<lparr>st_crons := map_del jid (st_crons s)\<rparr>)"

subsection \<open>Well-formed stores\<close>

definition functions_wf :: "InMemStore \<Rightarrow> bool" where
  "functions_wf s \<longleftrightarrow> map_wf (st_functions s) \<and> (\<forall>p \<in> set (st_functions s). sf_Name (snd p) = fst p)"

definition crons_wf :: "InMemStore \<Rightarrow> bool" where
  "crons_wf s \<longleftrightarrow> map_wf (st_crons s) \<and> (\<forall>p \<in> set (st_crons s). cj_ID (snd p) = fst p)"

definition chans_wf :: "InMemStore \<Rightarrow> bool" where
  "chans_wf s \<longleftrightarrow>
     map_wf (chans s) \<and> distinct (subs s) \<and>
     (\<forall>c \<in> set (subs s). \<exists>ch. map_of (chans s) c = Some ch \<and> \<not> ch_closed ch) \<and>
     (\<forall>c ch. map_of (chans s) c = Some ch \<longrightarrow>
        c < next_chan s \<and> length (ch_buf ch) \<le> watch_capacity)"

text \<open>What the store writes for a function or a cron job put at a time.\<close>

definition stamp_function :: "time \<Rightarrow> state_FunctionDef \<Rightarrow> state_FunctionDef" where
  "stamp_function now d =
     d\<lparr>sf_UpdatedAt := now,
       sf_Project := (if sf_Project d = '''' then ''default'' else sf_Project d)\<rparr>"

definition stamp_cron :: "time \<Rightarrow> CronJob \<Rightarrow> CronJob" where
  "stamp_cron now j =
     j\<lparr>cj_UpdatedAt := now,
       cj_Project := (if cj_Project j = '''' then ''default'' else cj_Project j)\<rparr>"

text \<open>The abstract specification: a finite map changed by puts and deletes.\<close>

datatype 'v kv_op = KPut time 'v | KDel string

fun kv_spec :: "('v \<Rightarrow> string) \<Rightarrow> (time \<Rightarrow> 'v \<Rightarrow> 'v) \<Rightarrow> 'v kv_op list \<Rightarrow> (string \<rightharpoonup> 'v) \<Rightarrow> (string \<rightharpoonup> 'v)" where
  "kv_spec key stamp [] m = m"
| "kv_spec key stamp (KPut t v # ops) m = kv_spec key stamp ops (m(key v \<mapsto> stamp t v))"
| "kv_spec key stamp (KDel k # ops) m = kv_spec key stamp ops (m(k := None))"

fun kv_run :: "(time \<Rightarrow> 'v \<Rightarrow> 's \<Rightarrow> 's) \<Rightarrow> (string \<Rightarrow> 's \<Rightarrow> 's) \<Rightarrow> 'v kv_op list \<Rightarrow> 's \<Rightarrow> 's" where
  "kv_run put del [] s = s"
| "kv_run put del (KPut t v # ops) s = kv_run put del ops (put t v s)"
| "kv_run put del (KDel k # ops) s = kv_run put del ops (del k s)"

definition found :: "'v option \<Rightarrow> store_error + 'v" where
  "found r = (case r of None \<Rightarrow> Inl ErrNotFound | Some v \<Rightarrow> Inr v)"

section \<open>The store interface\<close>

locale kv_store =
  fixes get :: "'s \<Rightarrow> string \<Rightarrow> store_error + 'v"
    and put :: "time \<Rightarrow> 'v \<Rightarrow> 's \<Rightarrow> 's"
    and del :: "string \<Rightarrow> 's \<Rightarrow> 's"
    and list :: "'s \<Rightarrow> 'v list"
    and key :: "'v \<Rightarrow> string"
    and stamp :: "time \<Rightarrow> 'v \<Rightarrow> 'v"
    and inv :: "'s \<Rightarrow> bool"
    and abs :: "'s \<Rightarrow> string \<rightharpoonup> 'v"
  assumes get_abs: "get s k = found (abs s k)"
    and abs_put: "abs (put t v s) = (abs s)(key v \<mapsto> stamp t v)"
    and abs_del: "abs (del k s) = (abs s)(k := None)"
    and abs_key: "inv s \<Longrightarrow> abs s k = Some v \<Longrightarrow> key v = k"
    and set_list: "inv s \<Longrightarrow> set (list s) = ran (abs s)"
    and distinct_list: "inv s \<Longrightarrow> distinct (map key (list s))"
    and key_stamp: "key (stamp t v) = key v"
    and inv_put: "inv s \<Longrightarrow> inv (put t v s)"
    and inv_del: "inv s \<Longrightarrow> inv (del k s)"
begin

lemma get_put: "get (put t v s) k = (if k = key v then Inr (stamp t v) else get s k)"
  by (simp add: get_abs abs_put found_def)

lemma get_del: "get (del k s) k' = (if k' = k then Inl ErrNotFound else get s k')"
  by (simp add: get_abs abs_del found_def)

lemma abs_run: "abs (kv_run put del ops s) = kv_spec key stamp ops (abs s)"
proof (induction ops arbitrary: s)
  case (Cons op ops)
  then show ?case by (cases op) (simp_all add: abs_put abs_del fun_upd_def)
qed simp

lemma inv_run: "inv s \<Longrightarrow> inv (kv_run put del ops s)"
proof (induction ops arbitrary: s)
  case (Cons op ops)
  then show ?case by (cases op) (simp_all add: inv_put inv_del)
qed simp

lemma get_run: "get (kv_run put del ops s) k = found (kv_spec key stamp ops (abs s) k)"
  by (simp add: get_abs abs_run)

lemma list_get: "inv s \<Longrightarrow> v \<in> set (list s) \<longleftrightarrow> get s (key v) = Inr v"
  by (auto simp: set_list get_abs found_def ran_def dest: abs_key split: option.splits)

lemma list_run: "inv s \<Longrightarrow> set (list (kv_run put del ops s)) = ran (kv_spec key stamp ops (abs s))"
  by (simp add: set_list inv_run abs_run)

lemma length_list: "inv s \<Longrightarrow> length (list s) = card (dom (abs s))"
proof -
  assume i: "inv s"
  have "key ` set (list s) = dom (abs s)"
    using i by (force simp: set_list ran_def dom_def dest: abs_key)
  moreover have "card (key ` set (list s)) = length (list s)"
    using distinct_list [OF i] by (metis distinct_card length_map list.set_map)
  ultimately show ?thesis by simp
qed

end

section \<open>Lemmas\<close>

lemmas [store_defs] =
  GetFunction_def ListFunctions_def PutFunction_def DeleteFunction_def
  GetCronJob_def ListCronJobs_def PutCronJob_def DeleteCronJob_def broadcast_def

lemma clone_id [simp]: "cloneFunc d = d" "cloneCron j = j"
  by (simp_all add: cloneFunc_def cloneCron_def)

lemma put_function_frame:
  "st_functions (PutFunction t d s) = map_put (sf_Name d) (stamp_function t d) (st_functions s)"
  "st_crons (PutFunction t d s) = st_crons s"
  by (simp_all add: store_defs stamp_function_def Let_def)

lemma delete_function_frame:
  "st_functions (DeleteFunction k s) = map_del k (st_functions s)"
  "st_crons (DeleteFunction k s) = st_crons s"
  by (simp_all add: store_defs)

lemma put_cron_frame:
  "st_crons (PutCronJob t j s) = map_put (cj_ID j) (stamp_cron t j) (st_crons s)"
  "st_functions (PutCronJob t j s) = st_functions s"
  by (simp_all add: store_defs stamp_cron_def Let_def)

lemma delete_cron_frame:
  "st_crons (DeleteCronJob k s) = map_del k (st_crons s)"
  "st_functions (DeleteCronJob k s) = st_functions s"
  by (simp_all add: store_defs)

lemmas store_frame = put_function_frame delete_function_frame put_cron_frame delete_cron_frame

lemma stamp_key [simp]: "sf_Name (stamp_function t d) = sf_Name d" "cj_ID (stamp_cron t j) = cj_ID j"
  by (simp_all add: stamp_function_def stamp_cron_def)

text \<open>A map whose entries carry their own key keeps doing so under put and delete.\<close>

lemma keyed_put:
  "(\<forall>p \<in> set m. key (snd p) = fst p) \<Longrightarrow> \<forall>p \<in> set (map_put (key v) v m). key (snd p) = fst p"
  by (induction m) (auto split: if_splits)

lemma keyed_del:
  "(\<forall>p \<in> set m. key (snd p) = fst p) \<Longrightarrow> \<forall>p \<in> set (map_del k' m). key (snd p) = fst p"
  by (auto simp: AList.delete_eq)

lemma keyed_lookup:
  "(\<forall>p \<in> set m. key (snd p) = fst p) \<Longrightarrow> map_of m k = Some v \<Longrightarrow> key v = k"
  by (force dest: map_of_SomeD)

lemma keyed_distinct:
  "(\<forall>p \<in> set m. key (snd p) = fst p) \<Longrightarrow> map_wf m \<Longrightarrow> distinct (map (\<lambda>p. key (snd p)) m)"
  by (rule subst [of "map fst m" "map (\<lambda>p. key (snd p)) m"]) auto

lemma set_values: "map_wf m \<Longrightarrow> snd ` set m = ran (map_of m)"
  by (rule ran_distinct [symmetric])

interpretation fn: kv_store GetFunction PutFunction DeleteFunction ListFunctions
  sf_Name stamp_function functions_wf "\<lambda>s. map_of (st_functions s)"
proof unfold_locales
  fix s k v
  show "GetFunction s k = found (map_of (st_functions s) k)"
    by (simp add: store_defs found_def split: option.split)
  show "functions_wf s \<Longrightarrow> map_of (st_functions s) k = Some v \<Longrightarrow> sf_Name v = k"
    by (auto simp: functions_wf_def dest: keyed_lookup)
next
  fix s :: InMemStore and t v
  assume "functions_wf s"
  then show "functions_wf (PutFunction t v s)"
    using keyed_put [of "st_functions s" sf_Name "stamp_function t v"]
    by (simp add: functions_wf_def store_frame)
next
  fix s
  assume "functions_wf s"
  then show "distinct (map sf_Name (ListFunctions s))"
    by (simp add: functions_wf_def ListFunctions_def comp_def case_prod_unfold keyed_distinct)
next
  fix s k
  assume "functions_wf s"
  then show "functions_wf (DeleteFunction k s)"
    by (auto simp: functions_wf_def store_frame dest: keyed_del)
qed (simp_all add: functions_wf_def store_frame ListFunctions_def set_values [symmetric] case_prod_unfold)

interpretation cr: kv_store GetCronJob PutCronJob DeleteCronJob ListCronJobs
  cj_ID stamp_cron crons_wf "\<lambda>s. map_of (st_crons s)"
proof unfold_locales
  fix s k v
  show "GetCronJob s k = found (map_of (st_crons s) k)"
    by (simp add: store_defs found_def split: option.split)
  show "crons_wf s \<Longrightarrow> map_of (st_crons s) k = Some v \<Longrightarrow> cj_ID v = k"
    by (auto simp: crons_wf_def dest: keyed_lookup)
next
  fix s :: InMemStore and t v
  assume "crons_wf s"
  then show "crons_wf (PutCronJob t v s)"
    using keyed_put [of "st_crons s" cj_ID "stamp_cron t v"]
    by (simp add: crons_wf_def store_frame)
next
  fix s
  assume "crons_wf s"
  then show "distinct (map cj_ID (ListCronJobs s))"
    by (simp add: crons_wf_def ListCronJobs_def comp_def case_prod_unfold keyed_distinct)
next
  fix s k
  assume "crons_wf s"
  then show "crons_wf (DeleteCronJob k s)"
    by (auto simp: crons_wf_def store_frame dest: keyed_del)
qed (simp_all add: crons_wf_def store_frame ListCronJobs_def set_values [symmetric] case_prod_unfold)

subsection \<open>Subscribers\<close>

lemma map_of_send_all:
  "distinct cs \<Longrightarrow>
     map_of (send_all ev cs h) c =
       (if c \<in> set cs then map_option (chan_offer ev) (map_of h c) else map_of h c)"
  by (induction ev cs h rule: send_all.induct) (auto split: option.splits)

lemma map_wf_send_all: "map_wf h \<Longrightarrow> map_wf (send_all ev cs h)"
  by (induction ev cs h rule: send_all.induct) (auto split: option.splits)

lemma chan_offer_closed [simp]: "ch_closed (chan_offer ev ch) = ch_closed ch"
  by (simp add: chan_offer_def)

lemma chan_offer_bounded:
  "length (ch_buf ch) \<le> watch_capacity \<Longrightarrow> length (ch_buf (chan_offer ev ch)) \<le> watch_capacity"
  by (simp add: chan_offer_def)

lemma broadcast_chan:
  "chans_wf s \<Longrightarrow>
     map_of (chans (broadcast ev s)) c =
       (if c \<in> set (subs s) then map_option (chan_offer ev) (map_of (chans s) c)
        else map_of (chans s) c)"
  by (simp add: broadcast_def chans_wf_def map_of_send_all)

lemma chans_wf_broadcast [intro]: "chans_wf s \<Longrightarrow> chans_wf (broadcast ev s)"
  by (fastforce simp: chans_wf_def broadcast_def map_of_send_all map_wf_send_all chan_offer_bounded
      split: if_splits)

lemma chans_wf_update [simp]:
  "chans_wf (s\<lparr>st_functions := f\<rparr>) = chans_wf s" "chans_wf (s\<lparr>st_crons := c\<rparr>) = chans_wf s"
  by (simp_all add: chans_wf_def)

lemma chans_wf_new: "chans_wf NewInMemStore"
  by (simp add: chans_wf_def NewInMemStore_def)

lemma chans_wf_ops:
  assumes "chans_wf s"
  shows "chans_wf (PutFunction t d s)" and "chans_wf (DeleteFunction k s)"
    and "chans_wf (PutCronJob t j s)" and "chans_wf (DeleteCronJob k s)"
  using assms
  by (auto simp: PutFunction_def DeleteFunction_def PutCronJob_def DeleteCronJob_def Let_def)

lemma chans_wf_watch: "chans_wf s \<Longrightarrow> chans_wf (snd (Watch s))"
  by (auto simp: chans_wf_def Watch_def Let_def less_Suc_eq)

lemma chans_wf_put:
  assumes "chans_wf s" and "map_of (chans s) c = Some ch"
    and "length (ch_buf ch') \<le> watch_capacity" and "ch_closed ch' = ch_closed ch"
  shows "chans_wf (s\<lparr>chans := map_put c ch' (chans s)\<rparr>)"
  using assms unfolding chans_wf_def
  by auto

lemma chans_wf_cancelled: "chans_wf s \<Longrightarrow> chans_wf (watch_cancelled c s)"
  unfolding chans_wf_def watch_cancelled_def
  by (cases "map_of (chans s) c") (auto simp: distinct_removeAll)

lemma chans_wf_recv: "chans_wf s \<Longrightarrow> chan_recv c s = Some (ev, s') \<Longrightarrow> chans_wf s'"
proof -
  assume wf: "chans_wf s" and r: "chan_recv c s = Some (ev, s')"
  from r obtain ch evs where ch: "map_of (chans s) c = Some ch" and b: "ch_buf ch = ev # evs"
    and s': "s' = s\<lparr>chans := map_put c (ch\<lparr>ch_buf := evs\<rparr>) (chans s)\<rparr>"
    by (auto simp: chan_recv_def split: option.splits list.splits)
  have "length (ch_buf ch) \<le> watch_capacity"
    using wf ch by (simp add: chans_wf_def)
  then show ?thesis
    unfolding s' using b by (intro chans_wf_put [OF wf ch]) simp_all
qed

lemma drain_one_shrinks:
  "map_of (drain_one cs h) c = Some ch \<Longrightarrow>
     \<exists>ch'. map_of h c = Some ch' \<and> length (ch_buf ch) \<le> length (ch_buf ch')"
proof (induction cs h rule: drain_one.induct)
  case (2 c' cs h)
  then show ?case
    by (cases "map_of h c'") (fastforce split: if_splits)+
qed simp

lemma map_wf_drain_one: "map_wf h \<Longrightarrow> map_wf (drain_one cs h)"
  by (induction cs h rule: drain_one.induct) (auto split: option.splits)

lemma chans_wf_close: "chans_wf s \<Longrightarrow> chans_wf (Close_store s)"
  unfolding chans_wf_def Close_store_def
  by (fastforce simp: map_wf_drain_one dest: drain_one_shrinks)


section \<open>Properties\<close>

lemma new_store_wf: "functions_wf NewInMemStore" "crons_wf NewInMemStore"
  "map_of (st_functions NewInMemStore) = Map.empty" "map_of (st_crons NewInMemStore) = Map.empty"
  by (simp_all add: functions_wf_def crons_wf_def NewInMemStore_def)

text \<open>
  (C7) The function table refines a finite map: after any sequence of \<open>PutFunction\<close> and
  \<open>DeleteFunction\<close> on a fresh store, \<open>GetFunction\<close> answers as the map those puts and deletes
  describe (each put stamped with its time and the default project), and \<open>ListFunctions\<close>
  returns each entry of that map exactly once.
\<close>

theorem function_store_refines_map:
  "let s = kv_run PutFunction DeleteFunction ops NewInMemStore;
       m = kv_spec sf_Name stamp_function ops Map.empty
   in GetFunction s name = found (m name) \<and>
      set (ListFunctions s) = ran m \<and> distinct (map sf_Name (ListFunctions s))"
  using fn.get_run [of ops NewInMemStore name] fn.list_run [OF new_store_wf(1), of ops]
    fn.distinct_list [OF fn.inv_run [OF new_store_wf(1), of ops]]
  by (simp add: new_store_wf(3))

text \<open>
  The cron table refines a finite map in the same way, for \<open>PutCronJob\<close>,
  \<open>DeleteCronJob\<close>, \<open>GetCronJob\<close> and \<open>ListCronJobs\<close>.
\<close>

theorem cron_store_refines_map:
  "let s = kv_run PutCronJob DeleteCronJob ops NewInMemStore;
       m = kv_spec cj_ID stamp_cron ops Map.empty
   in GetCronJob s jid = found (m jid) \<and>
      set (ListCronJobs s) = ran m \<and> distinct (map cj_ID (ListCronJobs s))"
  using cr.get_run [of ops NewInMemStore jid] cr.list_run [OF new_store_wf(2), of ops]
    cr.distinct_list [OF cr.inv_run [OF new_store_wf(2), of ops]]
  by (simp add: new_store_wf(4))

end
