(* ===== verification/Tenancy.thy ===== *)
theory Tenancy
  imports State_Store "HOL-Library.Product_Lexorder"
begin

text \<open>
  Package \<open>internal/state\<close>, second half: projects, API keys, quotas, quota usage and the
  audit log of \<open>InMemStore\<close> (\<open>inmem_tenancy.go\<close>, \<open>tenancy.go\<close>). The lemmas show that
  the reserved project name never enters the key table, that a key lookup returns exactly
  the key with the presented hash and changes nothing but its last-use stamp, that usage is
  accounted per project, kind and minute, and that the audit log only grows, with ids that
  count up from 1.
\<close>

section \<open>Definitions\<close>

definition ensureTenancyMaps :: "InMemStore \<Rightarrow> InMemStore" where
  "ensureTenancyMaps s =
     (case st_projects s of
        Some _ \<Rightarrow> s
      | None \<Rightarrow> s\<lparr>st_projects := Some [], st_apiKeys := [], st_quotas := [], st_usage := [],
                   st_audit := [], nextAuditID := 1\<rparr>)"

text \<open>Reading a nil map reads an empty one.\<close>

definition projects_of :: "InMemStore \<Rightarrow> (string, Project) gomap" where
  "projects_of s = (case st_projects s of None \<Rightarrow> [] | Some m \<Rightarrow> m)"

subsection \<open>Projects\<close>

definition CreateProject :: "time \<Rightarrow> Project \<Rightarrow> InMemStore \<Rightarrow> store_error option \<times> InMemStore" where
  "CreateProject now p s =
     (let s = ensureTenancyMaps s
      in case map_of (projects_of s) (pr_Name p) of
           Some _ \<Rightarrow> (Some (ProjectExists (pr_Name p)), s)
         | None \<Rightarrow>
             (let p = (if pr_CreatedAt p = 0 then p\<lparr>pr_CreatedAt := now\<rparr> else p)
              in (None, s\<lparr>st_projects := Some (map_put (pr_Name p) p (projects_of s))\<rparr>)))"

definition GetProject :: "InMemStore \<Rightarrow> string \<Rightarrow> store_error + Project" where
  "GetProject s name =
     (case map_of (projects_of s) name of
        None \<Rightarrow> Inl ErrNotFound
      | Some p \<Rightarrow> Inr p)"

definition ListProjects :: "InMemStore \<Rightarrow> Project list" where
  "ListProjects s = sort_key pr_Name (map snd (projects_of s))"

definition DeleteProject :: "string \<Rightarrow> InMemStore \<Rightarrow> InMemStore" where
  "DeleteProject name s = s\<lparr>st_projects := map_option (map_del name) (st_projects s)\<rparr>"

subsection \<open>API keys\<close>

definition CreateAPIKey :: "time \<Rightarrow> APIKey \<Rightarrow> InMemStore \<Rightarrow> store_error option \<times> InMemStore" where
  "CreateAPIKey now k s =
     (if ak_Project k = ''*'' then (Some ReservedProject, s)
      else
       (let s = ensureTenancyMaps s
        in case map_of (st_apiKeys s) (ak_ID k) of
             Some _ \<Rightarrow> (Some (APIKeyExists (ak_ID k)), s)
           | None \<Rightarrow>
               (let k = (if ak_CreatedAt k = 0 then k\<lparr>ak_CreatedAt := now\<rparr> else k)
                in (None, s\<lparr>st_apiKeys := map_put (ak_ID k) k (st_apiKeys s)\<rparr>))))"

definition LookupAPIKey :: "time \<Rightarrow> string \<Rightarrow> InMemStore \<Rightarrow> (store_error + APIKey) \<times> InMemStore" where
  "LookupAPIKey now tokenSHA256 s =
     (case find (\<lambda>(kid, k). ak_TokenSHA256 k = tokenSHA256) (st_apiKeys s) of
        None \<Rightarrow> (Inl ErrNotFound, s)
      | Some (kid, k) \<Rightarrow>
          (let k = k\<lparr>ak_LastUsedAt := Some now\<rparr>
           in (Inr k, s\<lparr>st_apiKeys := map_put kid k (st_apiKeys s)\<rparr>)))"

definition ListAPIKeys :: "InMemStore \<Rightarrow> string \<Rightarrow> APIKey list" where
  "ListAPIKeys s project =
     sort_key ak_ID (filter (\<lambda>k. ak_Project k = project) (map snd (st_apiKeys s)))"

definition DeleteAPIKey :: "string \<Rightarrow> InMemStore \<Rightarrow> InMemStore" where
  "DeleteAPIKey kid s = s\<lparr>st_apiKeys := map_del kid (st_apiKeys s)\<rparr>"

subsection \<open>Quotas and usage\<close>

definition SetQuota :: "time \<Rightarrow> string \<Rightarrow> string \<Rightarrow> int \<Rightarrow> InMemStore \<Rightarrow> InMemStore" where
  "SetQuota now project kind value s =
     (let s = ensureTenancyMaps s;
          q = \<lparr>qt_Project = project, qt_Kind = kind, qt_Value = value, qt_UpdatedAt = now\<rparr>
      in s\<lparr>st_quotas := map_put project
             (map_put kind q (map_get [] (st_quotas s) project)) (st_quotas s)\<rparr>)"

definition GetQuota :: "InMemStore \<Rightarrow> string \<Rightarrow> string \<Rightarrow> int" where
  "GetQuota s project kind =
     (case map_of (st_quotas s) project of
        None \<Rightarrow> 0
      | Some byKind \<Rightarrow> (case map_of byKind kind of None \<Rightarrow> 0 | Some q \<Rightarrow> qt_Value q))"

definition ListQuotas :: "InMemStore \<Rightarrow> string \<Rightarrow> Quota list" where
  "ListQuotas s project = sort_key qt_Kind (map snd (map_get [] (st_quotas s) project))"

definition AddQuotaUsage ::
  "string \<Rightarrow> string \<Rightarrow> time \<Rightarrow> int \<Rightarrow> InMemStore \<Rightarrow> store_error option \<times> InMemStore" where
  "AddQuotaUsage project kind bucket delta s =
     (if delta < 0 then (Some NegativeDelta, s)
      else
       (let s = ensureTenancyMaps s;
            bucket = time_truncate bucket Minute;
            byKind = map_get [] (st_usage s) project;
            buckets = map_get [] byKind kind
        in (None, s\<lparr>st_usage := map_put project
              (map_put kind
                (map_put bucket (wrap64 (map_get 0 buckets bucket + delta)) buckets) byKind)
              (st_usage s)\<rparr>)))"

fun sum64 :: "int list \<Rightarrow> int \<Rightarrow> int" where
  "sum64 [] acc = acc"
| "sum64 (v # vs) acc = sum64 vs (wrap64 (acc + v))"

definition GetQuotaUsage :: "InMemStore \<Rightarrow> string \<Rightarrow> string \<Rightarrow> time \<Rightarrow> int" where
  "GetQuotaUsage s project kind since =
     (let since = time_truncate since Minute
      in case map_of (st_usage s) project of
           None \<Rightarrow> 0
         | Some byKind \<Rightarrow>
             (case map_of byKind kind of
                None \<Rightarrow> 0
              | Some buckets \<Rightarrow>
                  sum64 (map snd (filter (\<lambda>(ts, v). \<not> ts < since) buckets)) 0))"

subsection \<open>Audit log\<close>

definition AppendAudit :: "time \<Rightarrow> AuditEntry \<Rightarrow> InMemStore \<Rightarrow> InMemStore" where
  "AppendAudit now e s =
     (let s = ensureTenancyMaps s;
          e = (if ae_TS e = 0 then e\<lparr>ae_TS := now\<rparr> else e);
          e = e\<lparr>ae_ID := nextAuditID s\<rparr>
      in s\<lparr>nextAuditID := wrap64 (nextAuditID s + 1), st_audit := st_audit s @ [e]\<rparr>)"

definition ListAudit :: "InMemStore \<Rightarrow> string \<Rightarrow> time \<Rightarrow> int \<Rightarrow> AuditEntry list" where
  "ListAudit s project since limit =
     (let out = filter (\<lambda>e. ae_Project e = project \<and> (since = 0 \<or> \<not> ae_TS e < since)) (st_audit s);
          out = sort_key (\<lambda>e. (- ae_TS e, - ae_ID e)) out
      in if 0 < limit \<and> limit < int (length out) then take (nat limit) out else out)"

subsection \<open>Well-formed tenancy state\<close>

definition tenancy_wf :: "InMemStore \<Rightarrow> bool" where
  "tenancy_wf s \<longleftrightarrow>
     map_wf (projects_of s) \<and> (\<forall>p \<in> set (projects_of s). pr_Name (snd p) = fst p) \<and>
     map_wf (st_apiKeys s) \<and> (\<forall>p \<in> set (st_apiKeys s). ak_ID (snd p) = fst p) \<and>
     (\<forall>p \<in> set (st_apiKeys s). ak_Project (snd p) \<noteq> ''*'') \<and>
     (st_projects s = None \<longrightarrow>
        st_apiKeys s = [] \<and> st_quotas s = [] \<and> st_usage s = [] \<and> st_audit s = [])"

definition audit_wf :: "InMemStore \<Rightarrow> bool" where
  "audit_wf s \<longleftrightarrow>
     map ae_ID (st_audit s) = map int [1 ..< Suc (length (st_audit s))] \<and>
     (if st_projects s = None then st_audit s = []
      else nextAuditID s = int (length (st_audit s)) + 1)"

definition quotas_of :: "InMemStore \<Rightarrow> string \<Rightarrow> (string, Quota) gomap" where
  "quotas_of s project = map_get [] (st_quotas s) project"

definition quotas_wf :: "InMemStore \<Rightarrow> bool" where
  "quotas_wf s \<longleftrightarrow>
     (\<forall>project. map_wf (quotas_of s project) \<and>
        (\<forall>q \<in> set (quotas_of s project). qt_Kind (snd q) = fst q \<and> qt_Project (snd q) = project))"

definition usage_wf :: "InMemStore \<Rightarrow> bool" where
  "usage_wf s \<longleftrightarrow>
     (\<forall>project byKind kind buckets.
        map_of (st_usage s) project = Some byKind \<longrightarrow> map_of byKind kind = Some buckets \<longrightarrow>
        map_wf buckets \<and> (\<forall>p \<in> set buckets. time_truncate (fst p) Minute = fst p))"

text \<open>The usage buckets of a project and kind; none recorded is an empty map.\<close>

definition buckets_of :: "InMemStore \<Rightarrow> string \<Rightarrow> string \<Rightarrow> (time, int) gomap" where
  "buckets_of s project kind = map_get [] (map_get [] (st_usage s) project) kind"

text \<open>
  Every operation of the store that changes it, in any order: the mutex makes each of them
  one step. A failed operation is a step too.
\<close>

inductive store_step :: "InMemStore \<Rightarrow> InMemStore \<Rightarrow> bool" where
  put_function: "store_step s (PutFunction now d s)"
| delete_function: "store_step s (DeleteFunction name s)"
| put_cron: "store_step s (PutCronJob now j s)"
| delete_cron: "store_step s (DeleteCronJob jid s)"
| watch: "store_step s (snd (Watch s))"
| cancelled: "store_step s (watch_cancelled c s)"
| recv: "chan_recv c s = Some (ev, s') \<Longrightarrow> store_step s s'"
| close: "store_step s (Close_store s)"
| create_project: "store_step s (snd (CreateProject now p s))"
| delete_project: "store_step s (DeleteProject name s)"
| create_key: "store_step s (snd (CreateAPIKey now k s))"
| lookup_key: "store_step s (snd (LookupAPIKey now h s))"
| delete_key: "store_step s (DeleteAPIKey kid s)"
| set_quota: "store_step s (SetQuota now project kind value s)"
| add_usage: "store_step s (snd (AddQuotaUsage project kind bucket delta s))"
| append_audit: "store_step s (AppendAudit now e s)"

inductive store_reachable :: "InMemStore \<Rightarrow> bool" where
  new: "store_reachable NewInMemStore"
| step: "store_reachable s \<Longrightarrow> store_step s s' \<Longrightarrow> store_reachable s'"

inductive_cases store_stepE: "store_step s s'"

definition store_wf :: "InMemStore \<Rightarrow> bool" where
  "store_wf s \<longleftrightarrow> functions_wf s \<and> crons_wf s \<and> chans_wf s \<and> tenancy_wf s \<and> usage_wf s \<and> quotas_wf s"

definition demo_key :: APIKey where
  "demo_key = \<lparr>ak_ID = ''k1'', ak_Project = ''acme'', ak_Description = '''', ak_TokenSHA256 = ''h1'',
     ak_Scopes = [''invoke''], ak_CreatedAt = 0, ak_LastUsedAt = None\<rparr>"

definition demo_store :: InMemStore where
  "demo_store = snd (CreateAPIKey 7 demo_key NewInMemStore)"

fun append_audits :: "(time \<times> AuditEntry) list \<Rightarrow> InMemStore \<Rightarrow> InMemStore" where
  "append_audits [] s = s"
| "append_audits ((now, e) # es) s = append_audits es (AppendAudit now e s)"

definition demo_entry :: AuditEntry where
  "demo_entry = \<lparr>ae_ID = 0, ae_TS = 0, ae_Project = ''acme'', ae_Actor = ''k1'', ae_Action = ''invoke'',
     ae_Target = ''hello'', ae_Metadata = []\<rparr>"

section \<open>Lemmas\<close>

subsection \<open>Lazy initialisation\<close>

lemma projects_ensure [simp]: "st_projects (ensureTenancyMaps s) = Some (projects_of s)"
  by (simp add: ensureTenancyMaps_def projects_of_def split: option.split)

lemma projects_of_ensure [simp]: "projects_of (ensureTenancyMaps s) = projects_of s"
  by (simp add: ensureTenancyMaps_def projects_of_def split: option.split)

lemma ensure_id:
  "tenancy_wf s \<Longrightarrow> st_apiKeys (ensureTenancyMaps s) = st_apiKeys s"
  "tenancy_wf s \<Longrightarrow> st_quotas (ensureTenancyMaps s) = st_quotas s"
  "tenancy_wf s \<Longrightarrow> st_usage (ensureTenancyMaps s) = st_usage s"
  "tenancy_wf s \<Longrightarrow> st_audit (ensureTenancyMaps s) = st_audit s"
  by (auto simp: ensureTenancyMaps_def tenancy_wf_def split: option.split)

lemma ensure_frame [simp]:
  "st_functions (ensureTenancyMaps s) = st_functions s"
  "st_crons (ensureTenancyMaps s) = st_crons s"
  "chans (ensureTenancyMaps s) = chans s"
  "subs (ensureTenancyMaps s) = subs s"
  "next_chan (ensureTenancyMaps s) = next_chan s"
  by (auto simp: ensureTenancyMaps_def split: option.split)

lemma tenancy_wf_new: "tenancy_wf NewInMemStore" "audit_wf NewInMemStore"
  "usage_wf NewInMemStore" "quotas_wf NewInMemStore"
  by (simp_all add: tenancy_wf_def audit_wf_def usage_wf_def NewInMemStore_def
      projects_of_def quotas_wf_def quotas_of_def)

lemma tenancy_wf_ensure [simp]: "tenancy_wf s \<Longrightarrow> tenancy_wf (ensureTenancyMaps s)"
  by (auto simp: tenancy_wf_def ensureTenancyMaps_def projects_of_def split: option.splits)

subsection \<open>Projects\<close>

lemma tenancy_wf_put_project:
  assumes "tenancy_wf s"
  shows "tenancy_wf (ensureTenancyMaps s\<lparr>st_projects := Some (map_put (pr_Name p) p (projects_of s))\<rparr>)"
proof -
  have "tenancy_wf (ensureTenancyMaps s)" using assms by simp
  moreover have "\<forall>q \<in> set (map_put (pr_Name p) p (projects_of s)). pr_Name (snd q) = fst q"
    using assms by (intro keyed_put) (simp add: tenancy_wf_def)
  moreover have "map_wf (map_put (pr_Name p) p (projects_of s))"
    using assms by (simp add: tenancy_wf_def)
  ultimately show ?thesis by (simp add: tenancy_wf_def projects_of_def)
qed

lemma tenancy_wf_create_project: "tenancy_wf s \<Longrightarrow> tenancy_wf (snd (CreateProject now p s))"
  using tenancy_wf_put_project [of s p] tenancy_wf_put_project [of s "p\<lparr>pr_CreatedAt := now\<rparr>"]
  by (cases "pr_CreatedAt p = 0") (simp_all add: CreateProject_def Let_def split: option.split)

lemma tenancy_wf_delete_project: "tenancy_wf s \<Longrightarrow> tenancy_wf (DeleteProject name s)"
  by (cases "st_projects s") (simp_all add: tenancy_wf_def DeleteProject_def projects_of_def set_map_del)

lemma get_create_project:
  assumes "CreateProject now p s = (None, s')"
  shows "GetProject s' name =
    (if name = pr_Name p
     then Inr (if pr_CreatedAt p = 0 then p\<lparr>pr_CreatedAt := now\<rparr> else p)
     else GetProject s name)"
  using assms
  by (auto simp: CreateProject_def GetProject_def Let_def projects_of_def
      split: option.splits if_splits)

subsection \<open>API keys\<close>

lemma tenancy_wf_put_key:
  assumes "tenancy_wf s" and "st_projects s \<noteq> None" and "ak_Project k \<noteq> ''*''"
  shows "tenancy_wf (s\<lparr>st_apiKeys := map_put (ak_ID k) k (st_apiKeys s)\<rparr>)"
  using assms keyed_put [of "st_apiKeys s" ak_ID k]
  by (auto simp: tenancy_wf_def projects_of_def dest: set_map_put)

lemma tenancy_wf_create_key: "tenancy_wf s \<Longrightarrow> tenancy_wf (snd (CreateAPIKey now k s))"
proof -
  assume wf: "tenancy_wf s"
  let ?k = "if ak_CreatedAt k = 0 then k\<lparr>ak_CreatedAt := now\<rparr> else k"
  have "ak_Project k \<noteq> ''*'' \<Longrightarrow> tenancy_wf (ensureTenancyMaps s\<lparr>st_apiKeys :=
      map_put (ak_ID ?k) ?k (st_apiKeys (ensureTenancyMaps s))\<rparr>)"
    by (rule tenancy_wf_put_key) (simp_all add: wf)
  then show ?thesis
    using wf
    by (cases "ak_Project k = ''*''"; cases "ak_CreatedAt k = 0")
      (simp_all add: CreateAPIKey_def Let_def split: option.split)
qed

lemma find_key:
  "find (\<lambda>(kid, k). ak_TokenSHA256 k = h) m = Some (kid, k) \<Longrightarrow> map_wf m \<Longrightarrow>
     map_of m kid = Some k \<and> ak_TokenSHA256 k = h"
proof -
  assume f: "find (\<lambda>(kid, k). ak_TokenSHA256 k = h) m = Some (kid, k)" and "map_wf m"
  from f have "(kid, k) \<in> set m" and "ak_TokenSHA256 k = h"
    by (auto simp: find_Some_iff) (metis nth_mem)
  with \<open>map_wf m\<close> show ?thesis by simp
qed

lemma lookup_key_found:
  assumes wf: "tenancy_wf s" and r: "LookupAPIKey now h s = (Inr k, s')"
  shows "\<exists>k0. map_of (st_apiKeys s) (ak_ID k) = Some k0 \<and> ak_TokenSHA256 k0 = h \<and>
    k = k0\<lparr>ak_LastUsedAt := Some now\<rparr> \<and>
    s' = s\<lparr>st_apiKeys := map_put (ak_ID k) k (st_apiKeys s)\<rparr>"
proof -
  from r obtain kid k0
    where f: "find (\<lambda>(kid, k). ak_TokenSHA256 k = h) (st_apiKeys s) = Some (kid, k0)"
      and k: "k = k0\<lparr>ak_LastUsedAt := Some now\<rparr>"
      and s': "s' = s\<lparr>st_apiKeys := map_put kid k (st_apiKeys s)\<rparr>"
    by (auto simp: LookupAPIKey_def Let_def split: option.splits)
  have wf': "map_wf (st_apiKeys s)" "\<forall>p \<in> set (st_apiKeys s). ak_ID (snd p) = fst p"
    using wf by (simp_all add: tenancy_wf_def)
  from find_key [OF f wf'(1)] have l: "map_of (st_apiKeys s) kid = Some k0" "ak_TokenSHA256 k0 = h"
    by simp_all
  then have "ak_ID k = kid" using keyed_lookup [OF wf'(2), of kid] k by simp
  with l k s' show ?thesis by auto
qed

lemma lookup_key_missing:
  assumes "LookupAPIKey now h s = (Inl e, s')"
  shows "e = ErrNotFound \<and> s' = s \<and> (\<forall>kid k. map_of (st_apiKeys s) kid = Some k \<longrightarrow> ak_TokenSHA256 k \<noteq> h)"
proof -
  have "find (\<lambda>(kid, k). ak_TokenSHA256 k = h) (st_apiKeys s) = None" and "e = ErrNotFound" and "s' = s"
    using assms by (auto simp: LookupAPIKey_def Let_def split: option.splits)
  then show ?thesis by (auto simp: find_None_iff dest: map_of_SomeD)
qed

lemma tenancy_wf_lookup: "tenancy_wf s \<Longrightarrow> tenancy_wf (snd (LookupAPIKey now h s))"
proof (cases "LookupAPIKey now h s")
  case (Pair r s')
  assume wf: "tenancy_wf s"
  show ?thesis
  proof (cases r)
    case (Inl e)
    with Pair wf show ?thesis by (auto dest: lookup_key_missing)
  next
    case (Inr k)
    with Pair wf obtain k0 where k0: "map_of (st_apiKeys s) (ak_ID k) = Some k0"
        "k = k0\<lparr>ak_LastUsedAt := Some now\<rparr>" "s' = s\<lparr>st_apiKeys := map_put (ak_ID k) k (st_apiKeys s)\<rparr>"
      using lookup_key_found [of s now h k s'] by auto
    have "(ak_ID k, k0) \<in> set (st_apiKeys s)" using k0(1) by (rule map_of_SomeD)
    then have "ak_Project k \<noteq> ''*''" and "st_projects s \<noteq> None"
      using wf k0(2) by (auto simp: tenancy_wf_def)
    then have "tenancy_wf s'"
      unfolding k0(3) by (intro tenancy_wf_put_key wf)
    with Pair show ?thesis by simp
  qed
qed

lemma tenancy_wf_delete_key: "tenancy_wf s \<Longrightarrow> tenancy_wf (DeleteAPIKey kid s)"
  by (auto simp: tenancy_wf_def DeleteAPIKey_def projects_of_def set_map_del)

subsection \<open>Quotas and usage\<close>

lemma get_set_quota:
  assumes "tenancy_wf s"
  shows "GetQuota (SetQuota now p k v s) p' k' = (if p' = p \<and> k' = k then v else GetQuota s p' k')"
  using ensure_id [OF assms]
  by (simp add: SetQuota_def GetQuota_def Let_def map_get_def split: option.split)

lemma sum64_eq: "sum64 vs acc = (if vs = [] then acc else wrap64 (acc + sum_list vs))"
proof (induction vs acc rule: sum64.induct)
  case (2 v vs acc)
  then show ?case by (cases "vs = []") (simp_all add: add.assoc)
qed simp

lemma usage_eq:
  "GetQuotaUsage s p k since =
     wrap64 (sum_list (map snd (filter (\<lambda>(ts, _). time_truncate since Minute \<le> ts) (buckets_of s p k))))"
proof -
  have z: "wrap64 0 = 0" by (rule wrap64_id) simp
  have "GetQuotaUsage s p k since =
      sum64 (map snd (filter (\<lambda>(ts, _). time_truncate since Minute \<le> ts) (buckets_of s p k))) 0"
    by (simp add: GetQuotaUsage_def buckets_of_def map_get_def Let_def not_less case_prod_unfold
        split: option.split)
  then show ?thesis by (simp add: sum64_eq z)
qed

lemma buckets_wf:
  "usage_wf s \<Longrightarrow> map_wf (buckets_of s p k) \<and>
     (\<forall>q \<in> set (buckets_of s p k). time_truncate (fst q) Minute = fst q)"
  by (cases "map_of (st_usage s) p"; cases "map_of (the (map_of (st_usage s) p)) k")
    (simp_all add: usage_wf_def buckets_of_def map_get_def)

lemma buckets_add:
  assumes "tenancy_wf s" and "0 \<le> d"
  shows "buckets_of (snd (AddQuotaUsage p k b d s)) p' k' =
    (let bs = buckets_of s p' k'; t = time_truncate b Minute
     in if p' = p \<and> k' = k then map_put t (wrap64 (map_get 0 bs t + d)) bs else bs)"
  using assms ensure_id [OF assms(1)]
  by (auto simp: AddQuotaUsage_def buckets_of_def Let_def)

lemma usage_wf_buckets:
  "usage_wf s \<longleftrightarrow> (\<forall>p k. map_wf (buckets_of s p k) \<and>
     (\<forall>q \<in> set (buckets_of s p k). time_truncate (fst q) Minute = fst q))"
proof
  assume "usage_wf s"
  then show "\<forall>p k. map_wf (buckets_of s p k) \<and>
     (\<forall>q \<in> set (buckets_of s p k). time_truncate (fst q) Minute = fst q)" using buckets_wf by blast
next
  assume h: "\<forall>p k. map_wf (buckets_of s p k) \<and>
     (\<forall>q \<in> set (buckets_of s p k). time_truncate (fst q) Minute = fst q)"
  show "usage_wf s"
    unfolding usage_wf_def
  proof (intro allI impI)
    fix p byKind k bs
    assume "map_of (st_usage s) p = Some byKind" and "map_of byKind k = Some bs"
    then have "buckets_of s p k = bs" by (simp add: buckets_of_def map_get_def)
    with h show "map_wf bs \<and> (\<forall>q \<in> set bs. time_truncate (fst q) Minute = fst q)" by metis
  qed
qed

lemma usage_wf_add:
  assumes "tenancy_wf s" and "usage_wf s"
  shows "usage_wf (snd (AddQuotaUsage p k b d s))"
proof (cases "d < 0")
  case True
  then show ?thesis using assms by (simp add: AddQuotaUsage_def)
next
  case False
  have "time_truncate (fst q) Minute = fst q"
    if "q \<in> set (map_put (time_truncate b Minute) v bs)" and "\<forall>q \<in> set bs. time_truncate (fst q) Minute = fst q"
    for q v and bs :: "(time, int) gomap"
    using set_map_put [OF that(1)] that(2) by auto
  then show ?thesis
    using buckets_wf [OF assms(2)] False assms(1)
    unfolding usage_wf_buckets by (simp add: buckets_add Let_def)
qed

lemma tenancy_wf_set_quota: "tenancy_wf s \<Longrightarrow> tenancy_wf (SetQuota now p k v s)"
  using tenancy_wf_ensure [of s]
  by (simp add: tenancy_wf_def SetQuota_def projects_of_def Let_def)

lemma tenancy_wf_add_usage: "tenancy_wf s \<Longrightarrow> tenancy_wf (snd (AddQuotaUsage p k b d s))"
  using tenancy_wf_ensure [of s]
  by (simp add: tenancy_wf_def AddQuotaUsage_def projects_of_def Let_def)

lemma tenancy_wf_append_audit: "tenancy_wf s \<Longrightarrow> tenancy_wf (AppendAudit now e s)"
  using tenancy_wf_ensure [of s]
  by (simp add: tenancy_wf_def AppendAudit_def projects_of_def Let_def)

subsection \<open>Audit log\<close>

lemma audit_append:
  assumes "tenancy_wf s"
  shows "st_audit (AppendAudit now e s) =
    st_audit s @ [e\<lparr>ae_TS := (if ae_TS e = 0 then now else ae_TS e),
                    ae_ID := nextAuditID (ensureTenancyMaps s)\<rparr>]"
  using ensure_id(4) [OF assms] by (simp add: AppendAudit_def Let_def)

lemma audit_wf_append:
  assumes "tenancy_wf s" and "audit_wf s" and "length (st_audit s) < 2 ^ 63 - 2"
  shows "audit_wf (AppendAudit now e s)"
proof -
  have n: "nextAuditID (ensureTenancyMaps s) = int (length (st_audit s)) + 1"
    using assms(1,2)
    by (auto simp: audit_wf_def tenancy_wf_def ensureTenancyMaps_def split: option.splits)
  have w: "wrap64 (int (length (st_audit s)) + 2) = int (length (st_audit s)) + 2"
    by (rule wrap64_id) (use assms(3) in simp)
  have "nextAuditID (AppendAudit now e s) = int (length (st_audit s)) + 2"
    using n w by (simp add: AppendAudit_def Let_def add.assoc)
  moreover have "st_projects (AppendAudit now e s) \<noteq> None"
    by (simp add: AppendAudit_def Let_def)
  ultimately show ?thesis
    using audit_append [OF assms(1), of now e] assms(2) n
    by (simp add: audit_wf_def)
qed

lemma list_audit_set:
  "set (ListAudit s project since limit) \<subseteq>
     {e \<in> set (st_audit s). ae_Project e = project \<and> (since = 0 \<or> since \<le> ae_TS e)}"
  by (auto simp: ListAudit_def Let_def not_less dest: in_set_takeD)

lemma sorted_key_take: "sorted (map f xs) \<Longrightarrow> sorted (map f (take n xs))"
  by (metis sorted_wrt_take take_map)

lemma list_audit_sorted:
  "sorted_wrt (\<lambda>a b. ae_TS b < ae_TS a \<or> (ae_TS b = ae_TS a \<and> ae_ID b \<le> ae_ID a))
     (ListAudit s project since limit)"
proof -
  let ?key = "\<lambda>e. (- ae_TS e, - ae_ID e)"
  have "sorted (map ?key (ListAudit s project since limit))"
    by (simp add: ListAudit_def Let_def sorted_key_take)
  then show ?thesis
    by (simp add: sorted_wrt_map less_eq_prod_simp)
      (erule sorted_wrt_mono_rel [rotated], auto)
qed

section \<open>Reachable stores\<close>

text \<open>The fields of the store each part of the invariant reads.\<close>

lemma wf_cong:
  "st_functions s' = st_functions s \<Longrightarrow> functions_wf s' = functions_wf s"
  "st_crons s' = st_crons s \<Longrightarrow> crons_wf s' = crons_wf s"
  "chans s' = chans s \<Longrightarrow> subs s' = subs s \<Longrightarrow> next_chan s' = next_chan s \<Longrightarrow> chans_wf s' = chans_wf s"
  "st_usage s' = st_usage s \<Longrightarrow> usage_wf s' = usage_wf s"
  "st_quotas s' = st_quotas s \<Longrightarrow> quotas_wf s' = quotas_wf s"
  by (simp_all add: functions_wf_def crons_wf_def chans_wf_def usage_wf_def quotas_wf_def quotas_of_def)

lemma tenancy_wf_cong:
  "st_projects s' = st_projects s \<Longrightarrow> st_apiKeys s' = st_apiKeys s \<Longrightarrow> st_quotas s' = st_quotas s \<Longrightarrow>
   st_usage s' = st_usage s \<Longrightarrow> st_audit s' = st_audit s \<Longrightarrow> tenancy_wf s' = tenancy_wf s"
  by (simp add: tenancy_wf_def projects_of_def)

lemma ops_frame:
  "st_projects (broadcast ev s) = st_projects s" "st_apiKeys (broadcast ev s) = st_apiKeys s"
  "st_quotas (broadcast ev s) = st_quotas s" "st_usage (broadcast ev s) = st_usage s"
  "st_audit (broadcast ev s) = st_audit s"
  by (simp_all add: broadcast_def)

lemma store_wf_frame:
  assumes "store_wf s" and "functions_wf s'" and "crons_wf s'" and "chans_wf s'"
    and "st_projects s' = st_projects s" "st_apiKeys s' = st_apiKeys s" "st_quotas s' = st_quotas s"
    and "st_usage s' = st_usage s" "st_audit s' = st_audit s"
  shows "store_wf s'"
  using assms wf_cong(4,5) [of s' s] tenancy_wf_cong [of s' s] by (simp add: store_wf_def)

lemma store_wf_function_ops:
  assumes "store_wf s"
  shows "store_wf (PutFunction now d s)" and "store_wf (DeleteFunction name s)"
proof -
  have wf: "functions_wf s" "crons_wf s" "chans_wf s" using assms by (simp_all add: store_wf_def)
  show "store_wf (PutFunction now d s)"
    by (rule store_wf_frame [OF assms fn.inv_put [OF wf(1)] _ chans_wf_ops(1) [OF wf(3)]])
      (simp_all add: wf_cong(2) [OF store_frame(2)] wf(2), simp_all add: PutFunction_def Let_def ops_frame)
  show "store_wf (DeleteFunction name s)"
    by (rule store_wf_frame [OF assms fn.inv_del [OF wf(1)] _ chans_wf_ops(2) [OF wf(3)]])
      (simp_all add: wf_cong(2) [OF store_frame(4)] wf(2), simp_all add: DeleteFunction_def ops_frame)
qed

lemma store_wf_cron_ops:
  assumes "store_wf s"
  shows "store_wf (PutCronJob now j s)" and "store_wf (DeleteCronJob jid s)"
proof -
  have wf: "functions_wf s" "crons_wf s" "chans_wf s" using assms by (simp_all add: store_wf_def)
  show "store_wf (PutCronJob now j s)"
    by (rule store_wf_frame [OF assms _ cr.inv_put [OF wf(2)] chans_wf_ops(3) [OF wf(3)]])
      (simp_all add: wf_cong(1) [OF store_frame(6)] wf(1), simp_all add: PutCronJob_def Let_def ops_frame)
  show "store_wf (DeleteCronJob jid s)"
    by (rule store_wf_frame [OF assms _ cr.inv_del [OF wf(2)] chans_wf_ops(4) [OF wf(3)]])
      (simp_all add: wf_cong(1) [OF store_frame(8)] wf(1), simp_all add: DeleteCronJob_def ops_frame)
qed

text \<open>A step that only touches channels, and one that touches neither channels nor the two maps.\<close>

lemma store_wf_channels:
  assumes "store_wf s" and "chans_wf s'"
    and "st_functions s' = st_functions s" "st_crons s' = st_crons s"
    and "st_projects s' = st_projects s" "st_apiKeys s' = st_apiKeys s" "st_quotas s' = st_quotas s"
    and "st_usage s' = st_usage s" "st_audit s' = st_audit s"
  shows "store_wf s'"
  using assms wf_cong(1,2,4,5) [of s' s] tenancy_wf_cong [of s' s] by (simp add: store_wf_def)

lemma store_wf_tenancy:
  assumes "store_wf s" and "tenancy_wf s'" and "usage_wf s'" and "quotas_wf s'"
    and "st_functions s' = st_functions s" "st_crons s' = st_crons s"
    and "chans s' = chans s" "subs s' = subs s" "next_chan s' = next_chan s"
  shows "store_wf s'"
  using assms wf_cong(1,2,3) [of s' s] by (simp add: store_wf_def)

lemma recv_frame:
  assumes "chan_recv c s = Some (ev, s')"
  shows "\<exists>h. s' = s\<lparr>chans := h\<rparr>"
  using assms by (auto simp: chan_recv_def split: option.splits list.splits)

lemma store_wf_channel_ops:
  assumes wf: "store_wf s"
  shows "store_wf (snd (Watch s))" and "store_wf (watch_cancelled c s)" and "store_wf (Close_store s)"
    and "chan_recv c s = Some (ev, s') \<Longrightarrow> store_wf s'"
proof -
  have c: "chans_wf s" using wf by (simp add: store_wf_def)
  show "store_wf (snd (Watch s))"
    by (rule store_wf_channels [OF wf chans_wf_watch [OF c]]) (simp_all add: Watch_def Let_def)
  show "store_wf (watch_cancelled c s)"
    by (rule store_wf_channels [OF wf chans_wf_cancelled [OF c]]) (simp_all add: watch_cancelled_def)
  show "store_wf (Close_store s)"
    by (rule store_wf_channels [OF wf chans_wf_close [OF c]]) (simp_all add: Close_store_def)
  assume r: "chan_recv c s = Some (ev, s')"
  then show "store_wf s'"
    using recv_frame [OF r] by (intro store_wf_channels [OF wf chans_wf_recv [OF c r]]) auto
qed

lemma store_wf_admin:
  assumes "store_wf s" and "tenancy_wf s'"
    and "st_usage s' = st_usage s" "st_quotas s' = st_quotas s"
    and "st_functions s' = st_functions s" "st_crons s' = st_crons s"
    and "chans s' = chans s" "subs s' = subs s" "next_chan s' = next_chan s"
  shows "store_wf s'"
  by (rule store_wf_tenancy) (use assms wf_cong(4,5) [of s' s] in \<open>simp_all add: store_wf_def\<close>)

lemma store_wf_project_ops:
  assumes wf: "store_wf s"
  shows "store_wf (snd (CreateProject now p s))" and "store_wf (DeleteProject name s)"
proof -
  have t: "tenancy_wf s" using wf by (simp add: store_wf_def)
  show "store_wf (snd (CreateProject now p s))"
    by (rule store_wf_admin [OF wf tenancy_wf_create_project [OF t]])
      (simp_all add: CreateProject_def Let_def ensure_id [OF t] split: option.split)
  show "store_wf (DeleteProject name s)"
    by (rule store_wf_admin [OF wf tenancy_wf_delete_project [OF t]]) (simp_all add: DeleteProject_def)
qed

lemma store_wf_key_ops:
  assumes wf: "store_wf s"
  shows "store_wf (snd (CreateAPIKey now k s))" and "store_wf (snd (LookupAPIKey now h s))"
    and "store_wf (DeleteAPIKey kid s)" and "store_wf (AppendAudit now e s)"
proof -
  have t: "tenancy_wf s" using wf by (simp add: store_wf_def)
  show "store_wf (snd (CreateAPIKey now k s))"
    by (rule store_wf_admin [OF wf tenancy_wf_create_key [OF t]])
      (simp_all add: CreateAPIKey_def Let_def ensure_id [OF t] split: option.split)
  show "store_wf (snd (LookupAPIKey now h s))"
    by (rule store_wf_admin [OF wf tenancy_wf_lookup [OF t]])
      (simp_all add: LookupAPIKey_def Let_def split: option.split)
  show "store_wf (DeleteAPIKey kid s)"
    by (rule store_wf_admin [OF wf tenancy_wf_delete_key [OF t]]) (simp_all add: DeleteAPIKey_def)
  show "store_wf (AppendAudit now e s)"
    by (rule store_wf_admin [OF wf tenancy_wf_append_audit [OF t]])
      (simp_all add: AppendAudit_def Let_def ensure_id [OF t])
qed

lemma quotas_of_set:
  assumes "tenancy_wf s"
  shows "quotas_of (SetQuota now p k v s) p' =
    (if p' = p then map_put k \<lparr>qt_Project = p, qt_Kind = k, qt_Value = v, qt_UpdatedAt = now\<rparr> (quotas_of s p)
     else quotas_of s p')"
  using ensure_id(2) [OF assms] by (simp add: quotas_of_def SetQuota_def Let_def)

lemma quotas_wf_set: "tenancy_wf s \<Longrightarrow> quotas_wf s \<Longrightarrow> quotas_wf (SetQuota now p k v s)"
  by (fastforce simp: quotas_wf_def quotas_of_set dest: set_map_put)

lemma store_wf_quota_ops:
  assumes wf: "store_wf s"
  shows "store_wf (SetQuota now project kind value s)"
    and "store_wf (snd (AddQuotaUsage project kind bucket delta s))"
proof -
  have t: "tenancy_wf s" "usage_wf s" "quotas_wf s" using wf by (simp_all add: store_wf_def)
  have "st_usage (SetQuota now project kind value s) = st_usage s"
    by (simp add: SetQuota_def Let_def ensure_id [OF t(1)])
  from wf_cong(4) [OF this] show "store_wf (SetQuota now project kind value s)"
    by (intro store_wf_tenancy [OF wf tenancy_wf_set_quota [OF t(1)] _ quotas_wf_set [OF t(1,3)]])
      (simp_all add: t(2), simp_all add: SetQuota_def Let_def)
  let ?s = "snd (AddQuotaUsage project kind bucket delta s)"
  have "st_quotas ?s = st_quotas s"
    by (simp add: AddQuotaUsage_def Let_def ensure_id [OF t(1)])
  from wf_cong(5) [OF this] show "store_wf ?s"
    by (intro store_wf_tenancy [OF wf tenancy_wf_add_usage [OF t(1)] usage_wf_add [OF t(1,2)]])
      (simp_all add: t(3), simp_all add: AddQuotaUsage_def Let_def)
qed

lemma store_wf_step: "store_step s s' \<Longrightarrow> store_wf s \<Longrightarrow> store_wf s'"
  by (erule store_stepE)
    (simp_all add: store_wf_function_ops store_wf_cron_ops store_wf_channel_ops store_wf_project_ops
      store_wf_key_ops store_wf_quota_ops)

lemma store_reachable_wf: "store_reachable s \<Longrightarrow> store_wf s"
proof (induction rule: store_reachable.induct)
  case new
  then show ?case
    using tenancy_wf_new chans_wf_new
    by (simp add: store_wf_def functions_wf_def crons_wf_def NewInMemStore_def)
next
  case (step s s')
  then show ?case by (blast intro: store_wf_step)
qed

lemma reachable_wf:
  assumes "store_reachable s"
  shows "functions_wf s" "crons_wf s" "chans_wf s" "tenancy_wf s" "usage_wf s" "quotas_wf s"
  using store_reachable_wf [OF assms] by (simp_all add: store_wf_def)

text \<open>How an addition changes what a usage query sees.\<close>

lemma usage_after_add:
  assumes "store_wf s" and "0 \<le> d"
  shows "GetQuotaUsage (snd (AddQuotaUsage p k b d s)) p' k' since =
    wrap64 (GetQuotaUsage s p' k' since +
      (if p' = p \<and> k' = k \<and> time_truncate since Minute \<le> time_truncate b Minute then d else 0))"
proof -
  let ?t = "time_truncate b Minute" and ?f = "\<lambda>ts. time_truncate since Minute \<le> ts"
  have wf: "tenancy_wf s" "usage_wf s" using assms(1) by (simp_all add: store_wf_def)
  have bw: "map_wf (buckets_of s p k)" using buckets_wf [OF wf(2)] by blast
  have "wrap64 (x + (wrap64 (y + d) - y)) = wrap64 (x + d)" for x y
  proof -
    have "wrap64 (wrap64 (y + d) + (x - y)) = wrap64 (y + d + (x - y))" by simp
    then show ?thesis by (simp add: algebra_simps)
  qed
  then show ?thesis
    using assms(2) buckets_add [OF wf(1), of d p k b p' k']
      sum_values_put [OF bw, of ?f ?t "wrap64 (map_get 0 (buckets_of s p k) ?t + d)"]
    by (auto simp: usage_eq Let_def)
qed

section \<open>Properties\<close>

text \<open>
  (C8) The invariant of the in-memory store: in every store reachable from \<open>NewInMemStore\<close>
  by its operations, keys agree with the entries they name, no API key carries the reserved
  project, every subscribed channel is open and holds at most 16 events, and usage buckets
  are whole minutes.
\<close>

theorem store_invariant:
  assumes "store_reachable s"
  shows "functions_wf s \<and> crons_wf s \<and> chans_wf s \<and> tenancy_wf s \<and> usage_wf s \<and> quotas_wf s"
  using store_reachable_wf [OF assms] by (simp add: store_wf_def)

lemma demo_store_reachable: "store_reachable demo_store"
  unfolding demo_store_def by (rule store_reachable.step [OF store_reachable.new store_step.create_key])

theorem store_invariant_witness:
  "functions_wf demo_store \<and> crons_wf demo_store \<and> chans_wf demo_store \<and> tenancy_wf demo_store \<and>
   usage_wf demo_store \<and> quotas_wf demo_store"
  by (rule store_invariant [OF demo_store_reachable])

text \<open>
  Token lookup: a successful \<open>LookupAPIKey\<close> returns a stored key whose hash is the
  presented one and whose project is not the reserved one, stamps its last use and changes
  nothing else; a failed one changes nothing and means that no key has this hash.
\<close>

theorem lookup_api_key:
  assumes "store_reachable s"
  shows "case LookupAPIKey now h s of
     (Inr k, s') \<Rightarrow>
        (\<exists>k0. map_of (st_apiKeys s) (ak_ID k) = Some k0 \<and> ak_TokenSHA256 k0 = h \<and>
           k = k0\<lparr>ak_LastUsedAt := Some now\<rparr>) \<and> ak_Project k \<noteq> ''*'' \<and>
        (\<forall>kid. map_of (st_apiKeys s') kid =
           (if kid = ak_ID k then Some k else map_of (st_apiKeys s) kid)) \<and>
        s'\<lparr>st_apiKeys := st_apiKeys s\<rparr> = s
   | (Inl e, s') \<Rightarrow> e = ErrNotFound \<and> s' = s \<and>
        (\<forall>k \<in> ran (map_of (st_apiKeys s)). ak_TokenSHA256 k \<noteq> h)"
proof (cases "LookupAPIKey now h s")
  case (Pair r s')
  have wf: "tenancy_wf s" and wf': "tenancy_wf s'"
    using tenancy_wf_lookup [of s now h] reachable_wf(4) [OF assms] Pair by simp_all
  show ?thesis
  proof (cases r)
    case (Inl e)
    then show ?thesis using Pair lookup_key_missing [of now h s e s'] by (auto simp: ran_def)
  next
    case (Inr k)
    with Pair obtain k0 where k0: "map_of (st_apiKeys s) (ak_ID k) = Some k0" "ak_TokenSHA256 k0 = h"
        "k = k0\<lparr>ak_LastUsedAt := Some now\<rparr>" "s' = s\<lparr>st_apiKeys := map_put (ak_ID k) k (st_apiKeys s)\<rparr>"
      using lookup_key_found [OF wf, of now h k s'] by auto
    then have "(ak_ID k, k) \<in> set (st_apiKeys s')" by (simp add: map_of_SomeD)
    then have "ak_Project k \<noteq> ''*''" using wf' unfolding tenancy_wf_def by fastforce
    then show ?thesis unfolding Pair Inr using k0(1-3) by (simp add: k0(4))
  qed
qed

theorem lookup_api_key_witness:
  "fst (LookupAPIKey 9 ''h1'' demo_store) = Inr (demo_key\<lparr>ak_CreatedAt := 7, ak_LastUsedAt := Some 9\<rparr>) \<and>
   ak_Project (demo_key\<lparr>ak_CreatedAt := 7, ak_LastUsedAt := Some 9\<rparr>) \<noteq> ''*'' \<and>
   snd (LookupAPIKey 9 ''h1'' demo_store)\<lparr>st_apiKeys := st_apiKeys demo_store\<rparr> = demo_store"
proof -
  have r: "fst (LookupAPIKey 9 ''h1'' demo_store) = Inr (demo_key\<lparr>ak_CreatedAt := 7, ak_LastUsedAt := Some 9\<rparr>)"
    by code_simp
  show ?thesis
    using lookup_api_key [OF demo_store_reachable, where now = 9 and h = "''h1''"] r
    by (cases "LookupAPIKey 9 ''h1'' demo_store") auto
qed

text \<open>
  Revocation: once \<open>DeleteAPIKey\<close> has run, no lookup returns the key, whatever token
  is presented, until a key of that ID is created again; every other key is still found by
  the hash it was found by before.
\<close>

theorem revoked_key_rejected:
  assumes "store_reachable s"
  shows "case fst (LookupAPIKey now h (DeleteAPIKey kid s)) of
     Inr k \<Rightarrow> ak_ID k \<noteq> kid \<and> (\<exists>k0. map_of (st_apiKeys s) (ak_ID k) = Some k0 \<and> ak_TokenSHA256 k0 = h)
   | Inl e \<Rightarrow> e = ErrNotFound \<and>
       (\<forall>kid' k. map_of (st_apiKeys s) kid' = Some k \<and> kid' \<noteq> kid \<longrightarrow> ak_TokenSHA256 k \<noteq> h)"
proof -
  let ?s = "DeleteAPIKey kid s"
  have wf: "tenancy_wf ?s" using tenancy_wf_delete_key [OF reachable_wf(4) [OF assms]] .
  have m: "map_of (st_apiKeys ?s) = (map_of (st_apiKeys s))(kid := None)"
    by (simp add: DeleteAPIKey_def)
  obtain r s' where p: "LookupAPIKey now h ?s = (r, s')" by fastforce
  show ?thesis
  proof (cases r)
    case (Inl e)
    then show ?thesis using lookup_key_missing [of now h ?s e s'] p m by (auto split: if_splits)
  next
    case (Inr k)
    then show ?thesis using lookup_key_found [OF wf, of now h k s'] p m by (auto split: if_splits)
  qed
qed

theorem revoked_key_rejected_witness:
  "fst (LookupAPIKey 9 ''h1'' (DeleteAPIKey ''k1'' demo_store)) = Inl ErrNotFound"
proof -
  have "map_of (st_apiKeys demo_store) = [''k1'' \<mapsto> demo_key\<lparr>ak_CreatedAt := 7\<rparr>]"
    by (simp add: demo_store_def CreateAPIKey_def demo_key_def NewInMemStore_def ensureTenancyMaps_def)
  then show ?thesis
    using revoked_key_rejected [OF demo_store_reachable, where now = 9 and h = "''h1''" and kid = "''k1''"]
    by (cases "fst (LookupAPIKey 9 ''h1'' (DeleteAPIKey ''k1'' demo_store))") (auto split: if_splits)
qed

text \<open>
  Usage accounting: \<open>AddQuotaUsage\<close> refuses a negative delta and changes nothing; otherwise
  \<open>GetQuotaUsage\<close> grows by exactly the delta (modulo \<open>2^64\<close>) for the same project and kind
  when the bucket's minute is not before the minute of \<open>since\<close>, and is unchanged for every
  other project, kind and window.
\<close>

theorem usage_accounting:
  assumes "store_reachable s"
  shows "if d < 0 then AddQuotaUsage p k b d s = (Some NegativeDelta, s)
    else fst (AddQuotaUsage p k b d s) = None \<and>
      GetQuotaUsage (snd (AddQuotaUsage p k b d s)) p' k' since =
        wrap64 (GetQuotaUsage s p' k' since +
          (if p' = p \<and> k' = k \<and> time_truncate since Minute \<le> time_truncate b Minute then d else 0))"
  using usage_after_add [OF store_reachable_wf [OF assms], of d p k b p' k' since]
  by (simp add: AddQuotaUsage_def Let_def)

theorem usage_accounting_witness:
  "GetQuotaUsage (snd (AddQuotaUsage ''acme'' ''requests'' 61000000000 5 demo_store)) ''acme'' ''requests'' 60000000000 = 5"
proof -
  have "GetQuotaUsage demo_store ''acme'' ''requests'' 60000000000 = 0" by code_simp
  moreover have "wrap64 5 = 5" by (simp add: wrap64_def)
  ultimately show ?thesis
    using usage_accounting [OF demo_store_reachable, of 5 "''acme''" "''requests''" 61000000000 "''acme''" "''requests''" 60000000000]
    by (simp add: time_truncate_def)
qed

lemma audit_ids:
  "tenancy_wf s \<Longrightarrow> audit_wf s \<Longrightarrow> int (length (st_audit s)) + int (length es) < 2 ^ 63 - 2 \<Longrightarrow>
   audit_wf (append_audits es s) \<and>
   (\<exists>new. st_audit (append_audits es s) = st_audit s @ new \<and>
      map (\<lambda>e. (ae_Project e, ae_Actor e, ae_Action e, ae_Target e)) new =
      map (\<lambda>(_, e). (ae_Project e, ae_Actor e, ae_Action e, ae_Target e)) es)"
proof (induction es s rule: append_audits.induct)
  case (2 now e es s)
  let ?s = "AppendAudit now e s"
  have "length (st_audit s) < 2 ^ 63 - 2" using 2(4) by simp
  moreover have "length (st_audit ?s) = Suc (length (st_audit s))"
    using audit_append [OF 2(2)] by simp
  ultimately have "audit_wf (append_audits es ?s) \<and>
    (\<exists>new. st_audit (append_audits es ?s) = st_audit ?s @ new \<and>
      map (\<lambda>e. (ae_Project e, ae_Actor e, ae_Action e, ae_Target e)) new =
      map (\<lambda>(_, e). (ae_Project e, ae_Actor e, ae_Action e, ae_Target e)) es)"
    using 2 by (intro 2(1) tenancy_wf_append_audit audit_wf_append) simp_all
  then show ?case using audit_append [OF 2(2), of now e] by auto
qed simp

text \<open>
  The audit log is append-only with ids 1, 2, 3, ... (as long as fewer than \<open>2^63 - 2\<close>
  entries exist): after any number of appends to a fresh store the log holds one entry per
  append, in order, numbered from 1, with only its timestamp and id filled in.
\<close>

theorem audit_append_only:
  assumes "int (length es) < 2 ^ 63 - 2"
  shows "let log = st_audit (append_audits es NewInMemStore) in
    map ae_ID log = map int [1 ..< Suc (length es)] \<and>
    map (\<lambda>e. (ae_Project e, ae_Actor e, ae_Action e, ae_Target e)) log =
    map (\<lambda>(_, e). (ae_Project e, ae_Actor e, ae_Action e, ae_Target e)) es"
proof -
  let ?s = "append_audits es NewInMemStore"
  have z: "st_audit NewInMemStore = []" by (simp add: NewInMemStore_def)
  have "int (length (st_audit NewInMemStore)) + int (length es) < 2 ^ 63 - 2"
    using assms by (simp add: z)
  note ids = audit_ids [OF tenancy_wf_new(1,2) this]
  have m: "map (\<lambda>e. (ae_Project e, ae_Actor e, ae_Action e, ae_Target e)) (st_audit ?s) =
      map (\<lambda>(_, e). (ae_Project e, ae_Actor e, ae_Action e, ae_Target e)) es"
    using conjunct2 [OF ids] unfolding z by (elim exE conjE) simp
  have "length (st_audit ?s) = length es" using arg_cong [OF m, of length] by simp
  then show ?thesis using m conjunct1 [OF ids] by (simp add: audit_wf_def Let_def)
qed

theorem audit_append_only_witness:
  "map ae_ID (st_audit (append_audits [(5, demo_entry), (6, demo_entry)] NewInMemStore)) = [1, 2]"
  using audit_append_only [of "[(5, demo_entry), (6, demo_entry)]"] by (simp add: Let_def upt_rec)

text \<open>
  \<open>ListAudit\<close> answers a query: every entry it returns belongs to the project and is not
  older than \<open>since\<close>, entries come newest first, ties by descending id, and with no limit
  exactly the matching entries are returned; a positive limit keeps the newest of them.
\<close>

theorem list_audit_query:
  "let all = ListAudit s project since 0 in
     mset all = mset (filter (\<lambda>e. ae_Project e = project \<and> (since = 0 \<or> since \<le> ae_TS e)) (st_audit s)) \<and>
     sorted_wrt (\<lambda>a b. ae_TS b < ae_TS a \<or> (ae_TS b = ae_TS a \<and> ae_ID b \<le> ae_ID a)) all \<and>
     ListAudit s project since limit = (if limit \<le> 0 then all else take (nat limit) all)"
proof -
  have "mset (ListAudit s project since 0) =
      mset (filter (\<lambda>e. ae_Project e = project \<and> (since = 0 \<or> since \<le> ae_TS e)) (st_audit s))"
    by (simp add: ListAudit_def Let_def not_less)
  moreover have "ListAudit s project since limit =
      (if limit \<le> 0 then ListAudit s project since 0 else take (nat limit) (ListAudit s project since 0))"
    by (auto simp: ListAudit_def Let_def not_less)
  ultimately show ?thesis using list_audit_sorted [of s project since 0] by (simp add: Let_def)
qed

end
