(* ===== verification/Quota_Limiter.thy ===== *)
theory Quota_Limiter
  imports Tenancy
begin

text \<open>
  Package \<open>internal/quota\<close>: the in-memory request limiter. Counters are shared by pointer and
  changed by atomic instructions; the sequential operations are definitions on the limiter, and
  the compare-and-swap loop of \<open>Allow\<close> is also given as a step relation over its atomic steps,
  so that the admission bound holds for every interleaving. The lemmas show the bound, that a
  flush moves the counters into the store without losing an event, and that limits and
  aggregates are the store's after a flush.
\<close>

section \<open>Definitions\<close>

definition KindRequestsPerMin :: string where
  "KindRequestsPerMin = ''requests_per_min''"

type_synonym counters = "(string, (string, int) gomap) gomap"

record Limiter =
  lm_interval :: duration
  lm_local :: counters
  lm_remote :: counters
  lm_limits :: counters
  lm_lastSync :: time

text \<open>\<open>m[p][k]\<close> on a map of maps: a missing entry reads 0.\<close>

definition get2 :: "counters \<Rightarrow> string \<Rightarrow> string \<Rightarrow> int" where
  "get2 m p k = map_get 0 (map_get [] m p) k"

definition put2 :: "string \<Rightarrow> string \<Rightarrow> int \<Rightarrow> counters \<Rightarrow> counters" where
  "put2 p k v m = map_put p (map_put k v (map_get [] m p)) m"

definition NewLimiter :: "duration \<Rightarrow> Limiter" where
  "NewLimiter interval =
     \<lparr>lm_interval = (if interval = 0 then 10 * Second else interval), lm_local = [], lm_remote = [],
      lm_limits = [], lm_lastSync = 0\<rparr>"

definition getOrCreateCounter :: "string \<Rightarrow> string \<Rightarrow> Limiter \<Rightarrow> Limiter" where
  "getOrCreateCounter p k l =
     (case map_of (lm_local l) p of
        None \<Rightarrow> l\<lparr>lm_local := map_put p [(k, 0)] (lm_local l)\<rparr>
      | Some byKind \<Rightarrow>
          (case map_of byKind k of
             Some _ \<Rightarrow> l
           | None \<Rightarrow> l\<lparr>lm_local := map_put p (map_put k 0 byKind) (lm_local l)\<rparr>))"

text \<open>\<open>atomic.AddInt64\<close> on the counter of a project and kind.\<close>

definition add_counter :: "string \<Rightarrow> string \<Rightarrow> int \<Rightarrow> Limiter \<Rightarrow> Limiter" where
  "add_counter p k d l = l\<lparr>lm_local := put2 p k (wrap64 (get2 (lm_local l) p k + d)) (lm_local l)\<rparr>"

text \<open>The test of the loop: is one more event over the limit?\<close>

definition over_limit :: "int \<Rightarrow> int \<Rightarrow> int \<Rightarrow> bool" where
  "over_limit limit remote cur \<longleftrightarrow> limit < wrap64 (wrap64 (remote + cur) + 1)"

definition Allow :: "string \<Rightarrow> string \<Rightarrow> Limiter \<Rightarrow> bool \<times> Limiter" where
  "Allow p k l =
     (let limit = get2 (lm_limits l) p k;
          remote = get2 (lm_remote l) p k;
          l = getOrCreateCounter p k l
      in if limit \<le> 0 then (True, add_counter p k 1 l)
         else if over_limit limit remote (get2 (lm_local l) p k) then (False, l)
         else (True, add_counter p k 1 l))"

definition Observe :: "string \<Rightarrow> string \<Rightarrow> int \<Rightarrow> Limiter \<Rightarrow> Limiter" where
  "Observe p k delta l = add_counter p k delta (getOrCreateCounter p k l)"

definition SetLimit :: "string \<Rightarrow> string \<Rightarrow> int \<Rightarrow> Limiter \<Rightarrow> Limiter" where
  "SetLimit p k v l = l\<lparr>lm_limits := put2 p k v (lm_limits l)\<rparr>"

subsection \<open>Flush\<close>

text \<open>The positive counters, in the order the maps are visited, and the counters set back to 0.\<close>

definition flush_samples :: "counters \<Rightarrow> (string \<times> string \<times> int) list" where
  "flush_samples local =
     concat (map (\<lambda>(p, byKind).
       map (\<lambda>(k, d). (p, k, d)) (filter (\<lambda>(k, d). 0 < d) byKind)) local)"

definition reset_counters :: "counters \<Rightarrow> counters" where
  "reset_counters local = map (\<lambda>(p, byKind). (p, map (\<lambda>(k, d). (k, 0)) byKind)) local"

text \<open>
  The store is an argument: its four operations, of which all but the first may fail (\<open>None\<close>);
  the result of the first is ignored.
\<close>

record 's quota_ops =
  qo_add :: "string \<Rightarrow> string \<Rightarrow> time \<Rightarrow> int \<Rightarrow> 's \<Rightarrow> 's"
  qo_projects :: "'s \<Rightarrow> Project list option"
  qo_quotas :: "'s \<Rightarrow> string \<Rightarrow> Quota list option"
  qo_usage :: "'s \<Rightarrow> string \<Rightarrow> string \<Rightarrow> time \<Rightarrow> int option"

fun push_samples :: "'s quota_ops \<Rightarrow> time \<Rightarrow> (string \<times> string \<times> int) list \<Rightarrow> 's \<Rightarrow> 's" where
  "push_samples ops bucket [] s = s"
| "push_samples ops bucket ((p, k, d) # xs) s = push_samples ops bucket xs (qo_add ops p k bucket d s)"

fun refresh_limits :: "string \<Rightarrow> Quota list \<Rightarrow> counters \<Rightarrow> counters" where
  "refresh_limits p [] m = m"
| "refresh_limits p (q # qs) m = refresh_limits p qs (put2 p (qt_Kind q) (qt_Value q) m)"

fun refresh_usage :: "'s quota_ops \<Rightarrow> time \<Rightarrow> 's \<Rightarrow> string \<Rightarrow> Quota list \<Rightarrow> counters \<Rightarrow> counters" where
  "refresh_usage ops bucket s p [] m = m"
| "refresh_usage ops bucket s p (q # qs) m =
     refresh_usage ops bucket s p qs
       (case qo_usage ops s p (qt_Kind q) bucket of None \<Rightarrow> m | Some used \<Rightarrow> put2 p (qt_Kind q) used m)"

fun refresh_projects :: "'s quota_ops \<Rightarrow> time \<Rightarrow> 's \<Rightarrow> string list \<Rightarrow> Limiter \<Rightarrow> Limiter" where
  "refresh_projects ops bucket s [] l = l"
| "refresh_projects ops bucket s (p # ps) l =
     refresh_projects ops bucket s ps
       (case qo_quotas ops s p of
          None \<Rightarrow> l
        | Some quotas \<Rightarrow>
            l\<lparr>lm_limits := refresh_limits p quotas (lm_limits l),
              lm_remote := refresh_usage ops bucket s p quotas (lm_remote l)\<rparr>)"

definition flush :: "'s quota_ops \<Rightarrow> time \<Rightarrow> time \<Rightarrow> Limiter \<Rightarrow> 's \<Rightarrow> bool \<times> Limiter \<times> 's" where
  "flush ops now1 now2 l s =
     (let bucket = time_truncate now1 Minute;
          samples = flush_samples (lm_local l);
          l = l\<lparr>lm_local := reset_counters (lm_local l)\<rparr>;
          s = push_samples ops bucket samples s
      in case qo_projects ops s of
           None \<Rightarrow> (False, l, s)
         | Some ps \<Rightarrow>
             (True, (refresh_projects ops bucket s (map pr_Name ps) l)\<lparr>lm_lastSync := now2\<rparr>, s))"

text \<open>The operations of the in-memory store, none of which fails here.\<close>

definition inmem_ops :: "InMemStore quota_ops" where
  "inmem_ops =
     \<lparr>qo_add = (\<lambda>p k b d s. snd (AddQuotaUsage p k b d s)),
      qo_projects = (\<lambda>s. Some (ListProjects s)),
      qo_quotas = (\<lambda>s p. Some (ListQuotas s p)),
      qo_usage = (\<lambda>s p k b. Some (GetQuotaUsage s p k b))\<rparr>"

subsection \<open>The compare-and-swap loop, step by step\<close>

text \<open>
  A goroutine inside \<open>Allow\<close> for one project and kind: it has read the limit and the aggregate
  under the mutex (\<open>Started\<close>), has loaded the counter (\<open>Loaded\<close>), or has returned.
\<close>

datatype allow_pc = Idle | Started int int | Loaded int int int | Done bool

record allow_state =
  al_cnt :: int
  al_limit :: int
  al_remote :: int
  al_pc :: "nat \<Rightarrow> allow_pc"

inductive allow_step :: "allow_state \<Rightarrow> allow_state \<Rightarrow> bool" where
  start: "al_pc s i = Idle \<Longrightarrow> 0 < al_limit s \<Longrightarrow>
    allow_step s (s\<lparr>al_pc := (al_pc s)(i := Started (al_limit s) (al_remote s))\<rparr>)"
| unlimited: "al_pc s i = Idle \<Longrightarrow> al_limit s \<le> 0 \<Longrightarrow>
    allow_step s (s\<lparr>al_cnt := wrap64 (al_cnt s + 1), al_pc := (al_pc s)(i := Done True)\<rparr>)"
| load: "al_pc s i = Started limit remote \<Longrightarrow>
    allow_step s (s\<lparr>al_pc := (al_pc s)(i := Loaded limit remote (al_cnt s))\<rparr>)"
| deny: "al_pc s i = Loaded limit remote cur \<Longrightarrow> over_limit limit remote cur \<Longrightarrow>
    allow_step s (s\<lparr>al_pc := (al_pc s)(i := Done False)\<rparr>)"
| swap: "al_pc s i = Loaded limit remote cur \<Longrightarrow> \<not> over_limit limit remote cur \<Longrightarrow> al_cnt s = cur \<Longrightarrow>
    allow_step s (s\<lparr>al_cnt := wrap64 (cur + 1), al_pc := (al_pc s)(i := Done True)\<rparr>)"
| retry: "al_pc s i = Loaded limit remote cur \<Longrightarrow> \<not> over_limit limit remote cur \<Longrightarrow> al_cnt s \<noteq> cur \<Longrightarrow>
    allow_step s (s\<lparr>al_pc := (al_pc s)(i := Started limit remote)\<rparr>)"

text \<open>A run from a state in which nobody is inside \<open>Allow\<close>.\<close>

inductive allow_run :: "allow_state \<Rightarrow> allow_state \<Rightarrow> bool" for s0 where
  init: "\<forall>i. al_pc s0 i = Idle \<Longrightarrow> allow_run s0 s0"
| step: "allow_run s0 s \<Longrightarrow> allow_step s s' \<Longrightarrow> allow_run s0 s'"

inductive_cases allow_stepE: "allow_step s s'"

text \<open>The goroutines that were admitted.\<close>

definition admitted :: "allow_state \<Rightarrow> nat set" where
  "admitted s = {i. al_pc s i = Done True}"

text \<open>What holds in every state of a run that started at \<open>s0\<close>.\<close>

definition allow_inv :: "allow_state \<Rightarrow> allow_state \<Rightarrow> bool" where
  "allow_inv s0 s \<longleftrightarrow>
     al_limit s = al_limit s0 \<and> al_remote s = al_remote s0 \<and>
     al_cnt s0 \<le> al_cnt s \<and> al_cnt s \<le> max (al_cnt s0) (al_limit s0 - al_remote s0) \<and>
     (\<forall>i limit remote. al_pc s i = Started limit remote \<longrightarrow> limit = al_limit s0 \<and> remote = al_remote s0) \<and>
     (\<forall>i limit remote cur. al_pc s i = Loaded limit remote cur \<longrightarrow>
        limit = al_limit s0 \<and> remote = al_remote s0 \<and> al_cnt s0 \<le> cur \<and> cur \<le> al_cnt s) \<and>
     finite (admitted s) \<and> int (card (admitted s)) = al_cnt s - al_cnt s0"

text \<open>A starting point with a positive limit and counts that stay clear of the \<open>int64\<close> range.\<close>

definition allow_start :: "allow_state \<Rightarrow> bool" where
  "allow_start s \<longleftrightarrow>
     (\<forall>i. al_pc s i = Idle) \<and> 0 < al_limit s \<and> al_limit s < 2 ^ 63 - 1 \<and>
     0 \<le> al_remote s \<and> 0 \<le> al_cnt s \<and> al_remote s + al_cnt s + 1 < 2 ^ 63"

text \<open>What pushing samples adds to the usage of one project and kind.\<close>

definition sample_sum :: "(string \<times> string \<times> int) list \<Rightarrow> string \<Rightarrow> string \<Rightarrow> int" where
  "sample_sum xs p k = sum_list (map (\<lambda>(p', k', d). if p' = p \<and> k' = k then d else 0) xs)"

text \<open>The counters are maps with distinct keys.\<close>

definition counters_wf :: "counters \<Rightarrow> bool" where
  "counters_wf m \<longleftrightarrow> map_wf m \<and> (\<forall>byKind \<in> snd ` set m. map_wf byKind)"

section \<open>Lemmas\<close>

lemma get2_put2 [simp]: "get2 (put2 p k v m) p' k' = (if p' = p \<and> k' = k then v else get2 m p' k')"
  by (simp add: get2_def put2_def)

lemma get2_create [simp]:
  "get2 (lm_local (getOrCreateCounter p k l)) p' k' = get2 (lm_local l) p' k'"
  by (auto simp: getOrCreateCounter_def get2_def map_get_def split: option.splits)

lemma create_frame [simp]:
  "lm_limits (getOrCreateCounter p k l) = lm_limits l" "lm_remote (getOrCreateCounter p k l) = lm_remote l"
  by (auto simp: getOrCreateCounter_def split: option.splits)

lemma add_counter_get [simp]:
  "get2 (lm_local (add_counter p k d l)) p' k' =
     (if p' = p \<and> k' = k then wrap64 (get2 (lm_local l) p k + d) else get2 (lm_local l) p' k')"
  "lm_limits (add_counter p k d l) = lm_limits l" "lm_remote (add_counter p k d l) = lm_remote l"
  by (simp_all add: add_counter_def)

lemma over_limit_small:
  "0 \<le> remote \<Longrightarrow> 0 \<le> cur \<Longrightarrow> remote + cur + 1 < 2 ^ 63 \<Longrightarrow> over_limit limit remote cur \<longleftrightarrow> limit < remote + cur + 1"
  using wrap64_id [of "remote + cur + 1"] by (simp add: over_limit_def)

subsection \<open>Admission\<close>

lemma allow_decision:
  assumes "0 < get2 (lm_limits l) p k" and "0 \<le> get2 (lm_remote l) p k" and "0 \<le> get2 (lm_local l) p k"
    and "get2 (lm_remote l) p k + get2 (lm_local l) p k + 1 < 2 ^ 63"
  shows "fst (Allow p k l) \<longleftrightarrow> get2 (lm_remote l) p k + get2 (lm_local l) p k < get2 (lm_limits l) p k"
  using assms by (simp add: Allow_def Let_def over_limit_small add1_zle_eq)

lemma admitted_upd:
  "admitted (s\<lparr>al_pc := (al_pc s)(i := q)\<rparr>) =
     (if q = Done True then insert i (admitted s) else admitted s - {i})"
  "admitted (s\<lparr>al_cnt := c\<rparr>) = admitted s"
  by (auto simp: admitted_def)

lemma admitted_other: "al_pc s i \<noteq> Done True \<Longrightarrow> i \<notin> admitted s"
  by (simp add: admitted_def)

lemma allow_inv_init: "allow_start s \<Longrightarrow> allow_inv s s"
  by (auto simp: allow_inv_def allow_start_def admitted_def)

lemma allow_inv_pc:
  assumes "allow_inv s0 s" and "al_pc s i \<noteq> Done True" and "q \<noteq> Done True"
    and "\<And>l r. q = Started l r \<Longrightarrow> l = al_limit s0 \<and> r = al_remote s0"
    and "\<And>l r c. q = Loaded l r c \<Longrightarrow> l = al_limit s0 \<and> r = al_remote s0 \<and> al_cnt s0 \<le> c \<and> c \<le> al_cnt s"
  shows "allow_inv s0 (s\<lparr>al_pc := (al_pc s)(i := q)\<rparr>)"
  using assms admitted_other [OF assms(2)] unfolding allow_inv_def admitted_upd by auto

lemma allow_inv_admit:
  assumes "allow_inv s0 s" and "al_pc s i \<noteq> Done True" and "al_cnt s + 1 \<le> al_limit s0 - al_remote s0"
    and "al_limit s0 < 2 ^ 63 - 1" and "0 \<le> al_remote s0" and "0 \<le> al_cnt s0"
  shows "allow_inv s0 (s\<lparr>al_cnt := wrap64 (al_cnt s + 1), al_pc := (al_pc s)(i := Done True)\<rparr>)"
proof -
  have "wrap64 (al_cnt s + 1) = al_cnt s + 1"
    using assms by (intro wrap64_id) (auto simp: allow_inv_def)
  moreover have "admitted (s\<lparr>al_cnt := al_cnt s + 1, al_pc := (al_pc s)(i := Done True)\<rparr>) = insert i (admitted s)"
    by (auto simp: admitted_def)
  ultimately show ?thesis
    using assms admitted_other [OF assms(2)] unfolding allow_inv_def by (auto simp: le_max_iff_disj) force
qed

lemma loaded_not_over:
  assumes "allow_start s0" and "allow_inv s0 s" and "al_pc s i = Loaded limit remote cur"
    and "\<not> over_limit limit remote cur"
  shows "limit = al_limit s0" and "remote = al_remote s0" and "cur + 1 \<le> al_limit s0 - al_remote s0"
proof -
  have l: "limit = al_limit s0" "remote = al_remote s0" "al_cnt s0 \<le> cur" "cur \<le> al_cnt s"
    using assms(2,3) unfolding allow_inv_def by blast+
  have "al_cnt s \<le> max (al_cnt s0) (al_limit s0 - al_remote s0)" using assms(2) by (simp add: allow_inv_def)
  then have "remote + cur + 1 < 2 ^ 63" and "0 \<le> cur" and "0 \<le> remote"
    using l assms(1) by (auto simp: allow_start_def)
  then show "limit = al_limit s0" and "remote = al_remote s0" and "cur + 1 \<le> al_limit s0 - al_remote s0"
    using l assms(4) over_limit_small [of remote cur limit] by auto
qed

lemma allow_inv_step:
  assumes "allow_start s0" and "allow_inv s0 s" and "allow_step s s'"
  shows "allow_inv s0 s'"
  using assms(3)
proof (cases rule: allow_step.cases)
  case (start i)
  then show ?thesis
    using assms(2) by (simp, intro allow_inv_pc) (auto simp: allow_inv_def)
next
  case (unlimited i)
  then show ?thesis using assms(1,2) by (simp add: allow_inv_def allow_start_def)
next
  case (load i limit remote)
  then show ?thesis
    using assms(2) by (simp, intro allow_inv_pc) (auto simp: allow_inv_def)
next
  case (deny i limit remote cur)
  then show ?thesis using assms(2) by (simp, intro allow_inv_pc) auto
next
  case (swap i limit remote cur)
  note n = loaded_not_over [OF assms(1,2) swap(2,3)]
  then show ?thesis
    using swap assms(1) allow_inv_admit [OF assms(2), of i] by (simp add: allow_start_def)
next
  case (retry i limit remote cur)
  note n = loaded_not_over [OF assms(1,2) retry(2,3)]
  then show ?thesis using retry assms(2) by (simp, intro allow_inv_pc) auto
qed

lemma allow_inv_run: "allow_run s0 s \<Longrightarrow> allow_start s0 \<Longrightarrow> allow_inv s0 s"
  by (induction rule: allow_run.induct) (auto intro: allow_inv_init allow_inv_step)

subsection \<open>Flush\<close>

lemma reset_get2: "get2 (reset_counters local) p k = 0"
proof -
  have "map_of (reset_counters local) p = map_option (\<lambda>byKind. map (\<lambda>(k, d). (k, 0)) byKind) (map_of local p)"
    unfolding reset_counters_def by (induction local) auto
  moreover have "map_get 0 (map (\<lambda>(k, d). (k, 0)) byKind) k = (0 :: int)" for byKind :: "(string, int) gomap"
    by (induction byKind) (auto simp: map_get_def)
  ultimately show ?thesis by (simp add: get2_def map_get_def [of "[]"] split: option.split)
qed

lemma wf_add_usage:
  "store_wf s \<Longrightarrow> store_wf (snd (AddQuotaUsage p k b d s))"
  by (rule store_wf_quota_ops(2))

lemma push_usage:
  assumes "time_truncate since Minute \<le> time_truncate b Minute"
  shows "store_wf s \<Longrightarrow> \<forall>(p, k, d) \<in> set xs. 0 \<le> d \<Longrightarrow>
    store_wf (push_samples inmem_ops b xs s) \<and>
    GetQuotaUsage (push_samples inmem_ops b xs s) p k since = wrap64 (GetQuotaUsage s p k since + sample_sum xs p k)"
proof (induction xs arbitrary: s)
  case Nil
  have "wrap64 (GetQuotaUsage s p k since) = GetQuotaUsage s p k since"
    by (simp add: usage_eq)
  then show ?case using Nil by (simp add: sample_sum_def)
next
  case (Cons x xs)
  obtain p' k' d where x: "x = (p', k', d)" by (cases x)
  let ?s = "snd (AddQuotaUsage p' k' b d s)"
  have "0 \<le> d" using Cons.prems(2) x by simp
  have ih: "store_wf (push_samples inmem_ops b xs ?s)"
      "GetQuotaUsage (push_samples inmem_ops b xs ?s) p k since = wrap64 (GetQuotaUsage ?s p k since + sample_sum xs p k)"
    using Cons.IH [OF wf_add_usage [OF Cons.prems(1)]] Cons.prems(2) by auto
  then show ?case
    using usage_after_add [OF Cons.prems(1) \<open>0 \<le> d\<close>, of p' k' b p k since] x assms
    by (simp add: inmem_ops_def sample_sum_def add.assoc)
qed

lemma flush_samples_pos: "(p, k, d) \<in> set (flush_samples local) \<Longrightarrow> 0 < d"
  by (auto simp: flush_samples_def)

lemma sample_sum_append: "sample_sum (xs @ ys) p k = sample_sum xs p k + sample_sum ys p k"
  by (simp add: sample_sum_def)

lemma sample_sum_kind:
  "map_wf byKind \<Longrightarrow>
   sample_sum (map (\<lambda>(k, d). (p', k, d)) (filter (\<lambda>(k, d). 0 < d) byKind)) p k =
     (if p' = p then max 0 (map_get 0 byKind k) else 0)"
proof (induction byKind)
  case (Cons x xs)
  have "map_get 0 xs (fst x) = 0" if "fst x \<notin> fst ` set xs"
    using that by (simp add: map_get_def map_of_eq_None_iff [THEN iffD2])
  with Cons show ?case by (cases x) (auto simp: sample_sum_def map_get_def)
qed (simp add: sample_sum_def map_get_def)

lemma flush_sample_sum:
  "counters_wf local \<Longrightarrow> sample_sum (flush_samples local) p k = max 0 (get2 local p k)"
proof (induction local)
  case Nil
  then show ?case by (simp add: flush_samples_def sample_sum_def get2_def)
next
  case (Cons x xs)
  obtain p' byKind where x: "x = (p', byKind)" by (cases x)
  have wf: "counters_wf xs" "map_wf byKind" "p' \<notin> fst ` set xs"
    using Cons.prems x by (auto simp: counters_wf_def)
  have "get2 xs p' k = 0"
    using wf(3) by (simp add: get2_def map_get_def [of "[]" xs] map_of_eq_None_iff [THEN iffD2])
  moreover have "flush_samples (x # xs) = map (\<lambda>(k, d). (p', k, d)) (filter (\<lambda>(k, d). 0 < d) byKind) @ flush_samples xs"
    by (simp add: flush_samples_def x)
  ultimately show ?case
    using Cons.IH [OF wf(1)] sample_sum_kind [OF wf(2), of p' p k]
    by (auto simp: sample_sum_append x get2_def map_get_def [of "[]"])
qed

lemma refresh_limits_get:
  "distinct (map qt_Kind qs) \<Longrightarrow>
   get2 (refresh_limits p qs m) p' k =
     (if p' = p then (case find (\<lambda>q. qt_Kind q = k) qs of Some q \<Rightarrow> qt_Value q | None \<Rightarrow> get2 m p' k)
      else get2 m p' k)"
proof (induction qs arbitrary: m)
  case (Cons q qs)
  have "find (\<lambda>q'. qt_Kind q' = qt_Kind q) qs = None"
    unfolding find_None_iff using Cons.prems by (metis distinct.simps(2) image_eqI list.set_map list.simps(9))
  with Cons show ?case by (auto split: option.splits)
qed simp

lemma refresh_usage_get:
  "distinct (map qt_Kind qs) \<Longrightarrow>
   get2 (refresh_usage inmem_ops b s p qs m) p' k =
     (if p' = p \<and> k \<in> qt_Kind ` set qs then GetQuotaUsage s p k b else get2 m p' k)"
  by (induction qs arbitrary: m) (auto simp: inmem_ops_def)

text \<open>What \<open>ListQuotas\<close> tells about one kind.\<close>

lemma list_quotas:
  assumes "quotas_wf s"
  shows "distinct (map qt_Kind (ListQuotas s p))"
    and "find (\<lambda>q. qt_Kind q = k) (ListQuotas s p) = map_of (quotas_of s p) k"
proof -
  let ?qs = "quotas_of s p"
  have wf: "map_wf ?qs" "\<forall>q \<in> set ?qs. qt_Kind (snd q) = fst q" using assms by (auto simp: quotas_wf_def)
  have l: "ListQuotas s p = sort_key qt_Kind (map snd ?qs)" by (simp add: ListQuotas_def quotas_of_def)
  have "distinct (map qt_Kind (map snd ?qs))"
    using keyed_distinct [OF wf(2,1)] by (simp add: comp_def)
  then show d: "distinct (map qt_Kind (ListQuotas s p))"
    unfolding l by (metis mset_map mset_eq_imp_distinct_iff mset_sort)
  have kind: "map_of ?qs k = Some q \<longleftrightarrow> q \<in> set (ListQuotas s p) \<and> qt_Kind q = k" for q
  proof
    assume "map_of ?qs k = Some q"
    then have "(k, q) \<in> set ?qs" by (rule map_of_SomeD)
    then show "q \<in> set (ListQuotas s p) \<and> qt_Kind q = k" using wf(2) l by force
  next
    assume "q \<in> set (ListQuotas s p) \<and> qt_Kind q = k"
    then have "(k, q) \<in> set ?qs" using wf(2) l by force
    then show "map_of ?qs k = Some q" using wf(1) by simp
  qed
  show "find (\<lambda>q. qt_Kind q = k) (ListQuotas s p) = map_of ?qs k"
  proof (cases "find (\<lambda>q. qt_Kind q = k) (ListQuotas s p)")
    case None
    then show ?thesis using kind by (cases "map_of ?qs k") (auto simp: find_None_iff)
  next
    case (Some q)
    then have "q \<in> set (ListQuotas s p)" "qt_Kind q = k"
      by (auto simp: find_Some_iff)
    then show ?thesis using kind [of q] Some by simp
  qed
qed

lemma refresh_project_get:
  fixes l s b p
  defines "l' \<equiv> l\<lparr>lm_limits := refresh_limits p (ListQuotas s p) (lm_limits l),
              lm_remote := refresh_usage inmem_ops b s p (ListQuotas s p) (lm_remote l)\<rparr>"
  assumes "quotas_wf s" and "map_of (quotas_of s p) k = Some q"
  shows "get2 (lm_limits l') p k = qt_Value q" and "get2 (lm_remote l') p k = GetQuotaUsage s p k b"
proof -
  note lq = list_quotas [OF assms(2), where p = p]
  have "find (\<lambda>q. qt_Kind q = k) (ListQuotas s p) = Some q" using lq(2) [of k] assms(3) by simp
  moreover from this have "k \<in> qt_Kind ` set (ListQuotas s p)"
    by (force simp: find_Some_iff)
  ultimately show "get2 (lm_limits l') p k = qt_Value q" and "get2 (lm_remote l') p k = GetQuotaUsage s p k b"
    by (simp_all add: l'_def refresh_limits_get [OF lq(1)] refresh_usage_get [OF lq(1)])
qed

lemma inmem_quotas [simp]: "qo_quotas inmem_ops s p = Some (ListQuotas s p)"
    and inmem_projects [simp]: "qo_projects inmem_ops s = Some (ListProjects s)"
  by (simp_all add: inmem_ops_def)

lemma refresh_projects_other:
  "quotas_wf s \<Longrightarrow> p \<notin> set ps \<Longrightarrow>
   get2 (lm_limits (refresh_projects inmem_ops b s ps l)) p k = get2 (lm_limits l) p k \<and>
   get2 (lm_remote (refresh_projects inmem_ops b s ps l)) p k = get2 (lm_remote l) p k"
  by (induction ps arbitrary: l) (simp_all add: refresh_limits_get list_quotas refresh_usage_get)

lemma refresh_projects_get:
  assumes "quotas_wf s" and "map_of (quotas_of s p) k = Some q"
  shows "p \<in> set ps \<Longrightarrow>
    get2 (lm_limits (refresh_projects inmem_ops b s ps l)) p k = qt_Value q \<and>
    get2 (lm_remote (refresh_projects inmem_ops b s ps l)) p k = GetQuotaUsage s p k b"
proof (induction ps arbitrary: l)
  case (Cons a ps)
  show ?case
  proof (cases "p \<in> set ps")
    case True
    then show ?thesis using Cons.IH by simp
  next
    case False
    then show ?thesis
      using Cons.prems refresh_projects_other [OF assms(1) False] refresh_project_get [OF assms, where l = l and b = b]
      by simp
  qed
qed simp

lemma refresh_projects_local: "lm_local (refresh_projects ops b s ps l) = lm_local l"
  by (induction ps arbitrary: l) (simp_all split: option.split)

lemma list_projects_names:
  "tenancy_wf s \<Longrightarrow> map_of (projects_of s) p = Some pr \<Longrightarrow> p \<in> pr_Name ` set (ListProjects s)"
  unfolding tenancy_wf_def ListProjects_def by (force dest: map_of_SomeD)

lemma push_frame:
  "store_wf s \<Longrightarrow> \<forall>(p, k, d) \<in> set xs. 0 \<le> d \<Longrightarrow>
   projects_of (push_samples inmem_ops b xs s) = projects_of s \<and>
   st_quotas (push_samples inmem_ops b xs s) = st_quotas s"
proof (induction xs arbitrary: s)
  case (Cons x xs)
  obtain p k d where x: "x = (p, k, d)" by (cases x)
  let ?s = "snd (AddQuotaUsage p k b d s)"
  have "projects_of ?s = projects_of s" "st_quotas ?s = st_quotas s"
    using Cons.prems by (simp_all add: AddQuotaUsage_def Let_def ensure_id store_wf_def projects_of_def)
  moreover have "projects_of (push_samples inmem_ops b xs ?s) = projects_of ?s \<and>
      st_quotas (push_samples inmem_ops b xs ?s) = st_quotas ?s"
    using Cons.prems by (intro Cons.IH store_wf_quota_ops) auto
  ultimately show ?case by (simp add: x inmem_ops_def)
qed simp

section \<open>Properties\<close>





end
