(* ===== verification/Auth.thy ===== *)
theory Auth
  imports Tenancy
begin

text \<open>
  What the handlers use of \<open>net/http\<close>, and package \<open>internal/auth\<close>: bearer tokens, the
  single-token middleware, API-key authentication against the store and scopes. A handler is a
  function from a request and the store to a response and the store; the identity a middleware
  puts into the context is a field of the request. SHA-256 is an argument. The lemmas show what
  a request must present for the wrapped handler to run, and with which identity.
\<close>

section \<open>Definitions\<close>

subsection \<open>HTTP\<close>

record Identity =
  id_KeyID :: string
  id_Project :: string
  id_Scopes :: "string list"

text \<open>A request as the server hands it on: the query parsed, header names canonical.\<close>

record Request =
  rq_Method :: string
  rq_Path :: string
  rq_Query :: "(string \<times> string) list"
  rq_Header :: "(string, string list) gomap"
  rq_Body :: string
  rq_Identity :: "Identity option"

record HttpResponse =
  hr_Status :: int
  hr_Header :: "(string, string) gomap"
  hr_Body :: string

definition header_get :: "(string, string list) gomap \<Rightarrow> string \<Rightarrow> string" where
  "header_get h k = (case map_get [] h k of [] \<Rightarrow> [] | v # _ \<Rightarrow> v)"

definition query_get :: "(string \<times> string) list \<Rightarrow> string \<Rightarrow> string" where
  "query_get q k = (case find (\<lambda>(n, _). n = k) q of None \<Rightarrow> [] | Some (_, v) \<Rightarrow> v)"

text \<open>\<open>http.Error\<close> and \<open>http.NotFound\<close>, on a response with the given headers.\<close>

definition http_error :: "(string, string) gomap \<Rightarrow> string \<Rightarrow> int \<Rightarrow> HttpResponse" where
  "http_error h msg code =
     \<lparr>hr_Status = code,
      hr_Header = map_put ''X-Content-Type-Options'' ''nosniff''
        (map_put ''Content-Type'' ''text/plain; charset=utf-8'' h),
      hr_Body = msg @ [CHR 0x0A]\<rparr>"

definition not_found :: HttpResponse where
  "not_found = http_error [] ''404 page not found'' 404"

type_synonym 's handler_fn = "Request \<Rightarrow> 's \<Rightarrow> HttpResponse \<times> 's"

subsection \<open>Tokens\<close>

definition bearer :: "Request \<Rightarrow> string" where
  "bearer r =
     (let h = header_get (rq_Header r) ''Authorization''
      in if has_prefix h ''Bearer '' then trim_space (drop (length ''Bearer '') h) else [])"

definition bearerOrQuery :: "Request \<Rightarrow> string" where
  "bearerOrQuery r = (let t = bearer r in if t \<noteq> [] then t else query_get (rq_Query r) ''token'')"

definition validToken :: "Request \<Rightarrow> string \<Rightarrow> bool" where
  "validToken r want =
     (let got = bearer r
      in if got \<noteq> [] then got = want
         else (let got = query_get (rq_Query r) ''token'' in if got \<noteq> [] then got = want else False))"

definition unauth :: HttpResponse where
  "unauth = http_error [(''WWW-Authenticate'', ''Bearer realm='' @ [CHR 0x22] @ ''cfunc'' @ [CHR 0x22])]
     ''unauthorized'' 401"

definition TokenAuth :: "string \<Rightarrow> 's handler_fn \<Rightarrow> 's handler_fn" where
  "TokenAuth token handle =
     (if token = [] then handle
      else (\<lambda>r s. if \<not> validToken r token then (unauth, s) else handle r s))"

text \<open>The contents of the token file (or its error) and the environment are arguments.\<close>

definition LoadToken ::
  "(string \<Rightarrow> string + string) \<Rightarrow> (string \<Rightarrow> string) \<Rightarrow> string \<Rightarrow> string \<Rightarrow> string \<Rightarrow> string + string" where
  "LoadToken read_file getenv tokenFile envVar literal =
     (let rest =
        (let t = (if envVar \<noteq> [] then trim_space (getenv envVar) else [])
         in if t \<noteq> [] then Inr t else Inr (trim_space literal))
      in if tokenFile \<noteq> [] then
           (case read_file tokenFile of
              Inl err \<Rightarrow> Inl err
            | Inr b \<Rightarrow> if trim_space b \<noteq> [] then Inr (trim_space b) else rest)
         else rest)"

subsection \<open>Identities\<close>

definition HasScope :: "Identity \<Rightarrow> string \<Rightarrow> bool" where
  "HasScope i scope \<longleftrightarrow> id_KeyID i = ''admin-token'' \<or> scope \<in> set (id_Scopes i)"

definition zero_identity :: Identity where
  "zero_identity = \<lparr>id_KeyID = [], id_Project = [], id_Scopes = []\<rparr>"

definition WithIdentity :: "Request \<Rightarrow> Identity \<Rightarrow> Request" where
  "WithIdentity r i = r\<lparr>rq_Identity := Some i\<rparr>"

definition FromContext :: "Request \<Rightarrow> Identity" where
  "FromContext r = (case rq_Identity r of None \<Rightarrow> zero_identity | Some i \<Rightarrow> i)"

definition admin_identity :: Identity where
  "admin_identity = \<lparr>id_KeyID = ''admin-token'', id_Project = ''*'', id_Scopes = [''admin'']\<rparr>"

definition key_identity :: "APIKey \<Rightarrow> Identity" where
  "key_identity k = \<lparr>id_KeyID = ak_ID k, id_Project = ak_Project k, id_Scopes = ak_Scopes k\<rparr>"

text \<open>
  \<open>APIKeyAuth\<close> with the store present or nil (\<open>has_store\<close>) at a given time. The look-up stamps
  the key, also when the request is refused for its scope.
\<close>

definition APIKeyAuth ::
  "(string \<Rightarrow> string) \<Rightarrow> string \<Rightarrow> bool \<Rightarrow> string \<Rightarrow> time \<Rightarrow> InMemStore handler_fn \<Rightarrow> InMemStore handler_fn" where
  "APIKeyAuth sha256 adminToken has_store requireScope now handle =
     (if adminToken = [] \<and> \<not> has_store then handle
      else
       (\<lambda>r s.
          let got = bearerOrQuery r;
              pass = (\<lambda>i s.
                if requireScope \<noteq> [] \<and> \<not> HasScope i requireScope
                then (http_error [] (''forbidden: missing scope '' @ requireScope) 403, s)
                else handle (WithIdentity r i) s)
          in if got = [] then (unauth, s)
             else if adminToken \<noteq> [] \<and> got = adminToken then pass admin_identity s
             else if has_store then
               (case LookupAPIKey now (sha256 got) s of
                  (Inl _, s') \<Rightarrow> (unauth, s')
                | (Inr k, s') \<Rightarrow> pass (key_identity k) s')
             else (unauth, s)))"

text \<open>What a request presents: the admin token, the token of a stored key, or neither.\<close>

datatype credential = Admin | Key APIKey | NoCredential

definition credential_of :: "(string \<Rightarrow> string) \<Rightarrow> string \<Rightarrow> bool \<Rightarrow> Request \<Rightarrow> InMemStore \<Rightarrow> credential" where
  "credential_of sha256 adminToken has_store r s =
     (let got = bearerOrQuery r
      in if got = [] then NoCredential
         else if got = adminToken then Admin
         else if has_store then
           (case find (\<lambda>(kid, k). ak_TokenSHA256 k = sha256 got) (st_apiKeys s) of
              None \<Rightarrow> NoCredential | Some (kid, k) \<Rightarrow> Key k)
         else NoCredential)"

definition identity_of :: "credential \<Rightarrow> Identity" where
  "identity_of c = (case c of Admin \<Rightarrow> admin_identity | Key k \<Rightarrow> key_identity k | NoCredential \<Rightarrow> zero_identity)"

definition demo_request :: "string \<Rightarrow> Request" where
  "demo_request token = \<lparr>rq_Method = ''GET'', rq_Path = ''/fn/hello'', rq_Query = [(''token'', token)],
     rq_Header = [], rq_Body = [], rq_Identity = None\<rparr>"

section \<open>Lemmas\<close>

lemma lookup_credential:
  "LookupAPIKey now h s =
     (case find (\<lambda>(kid, k). ak_TokenSHA256 k = h) (st_apiKeys s) of
        None \<Rightarrow> (Inl ErrNotFound, s)
      | Some (kid, k) \<Rightarrow> (Inr (k\<lparr>ak_LastUsedAt := Some now\<rparr>),
          s\<lparr>st_apiKeys := map_put kid (k\<lparr>ak_LastUsedAt := Some now\<rparr>) (st_apiKeys s)\<rparr>))"
  by (simp add: LookupAPIKey_def Let_def split: option.split)

lemma key_identity_stamp: "key_identity (k\<lparr>ak_LastUsedAt := t\<rparr>) = key_identity k"
  by (simp add: key_identity_def)

lemma auth_passes:
  assumes "adminToken \<noteq> [] \<or> has_store"
  shows "APIKeyAuth sha adminToken has_store scope now handle r s =
    (let c = credential_of sha adminToken has_store r s;
         s' = (case c of Key k \<Rightarrow> snd (LookupAPIKey now (sha (bearerOrQuery r)) s) | _ \<Rightarrow> s)
     in if c = NoCredential then (unauth, s)
        else if scope \<noteq> [] \<and> \<not> HasScope (identity_of c) scope
        then (http_error [] (''forbidden: missing scope '' @ scope) 403, s')
        else handle (WithIdentity r (identity_of c)) s')"
  using assms
  by (auto simp: APIKeyAuth_def credential_of_def identity_of_def lookup_credential key_identity_stamp Let_def
      split: option.split)

lemma credential_key:
  assumes "tenancy_wf s" and "credential_of sha adminToken has_store r s = Key k"
  shows "map_of (st_apiKeys s) (ak_ID k) = Some k \<and> ak_TokenSHA256 k = sha (bearerOrQuery r) \<and>
    ak_Project k \<noteq> ''*'' \<and> has_store \<and> bearerOrQuery r \<noteq> []"
proof -
  obtain kid where f: "find (\<lambda>(kid, k). ak_TokenSHA256 k = sha (bearerOrQuery r)) (st_apiKeys s) = Some (kid, k)"
    and h: "has_store" "bearerOrQuery r \<noteq> []"
    using assms(2) by (auto simp: credential_of_def Let_def split: if_splits option.splits)
  have wf: "map_wf (st_apiKeys s)" "\<forall>p \<in> set (st_apiKeys s). ak_ID (snd p) = fst p"
      "\<forall>p \<in> set (st_apiKeys s). ak_Project (snd p) \<noteq> ''*''"
    using assms(1) by (simp_all add: tenancy_wf_def)
  have m: "map_of (st_apiKeys s) kid = Some k" "ak_TokenSHA256 k = sha (bearerOrQuery r)"
    using find_key [OF f wf(1)] by simp_all
  have "(kid, k) \<in> set (st_apiKeys s)" by (rule map_of_SomeD [OF m(1)])
  then show ?thesis using m wf(2,3) h by fastforce
qed

section \<open>Properties\<close>

text \<open>
  (C14) API-key authentication is exact: with authentication configured, the wrapped handler runs
  only for a request that presents the non-empty admin token (as the cluster-admin identity) or a
  token whose hash is that of a stored key (as that key's identity, whose project is never the
  reserved \<open>*\<close>), and only with the required scope; every other request gets 401 without touching
  the store, or 403.
\<close>

theorem api_key_auth_exact:
  assumes "store_reachable s" and "adminToken \<noteq> [] \<or> has_store"
  shows "let c = credential_of sha adminToken has_store r s;
      s' = (case c of Key k \<Rightarrow> snd (LookupAPIKey now (sha (bearerOrQuery r)) s) | _ \<Rightarrow> s)
    in APIKeyAuth sha adminToken has_store scope now handle r s =
        (if c = NoCredential then (unauth, s)
         else if scope \<noteq> [] \<and> \<not> HasScope (identity_of c) scope
         then (http_error [] (''forbidden: missing scope '' @ scope) 403, s')
         else handle (WithIdentity r (identity_of c)) s') \<and>
      (case c of
         Admin \<Rightarrow> adminToken \<noteq> [] \<and> bearerOrQuery r = adminToken
       | Key k \<Rightarrow> has_store \<and> bearerOrQuery r \<noteq> [] \<and> map_of (st_apiKeys s) (ak_ID k) = Some k \<and>
           ak_TokenSHA256 k = sha (bearerOrQuery r) \<and> id_Project (identity_of c) = ak_Project k \<and>
           ak_Project k \<noteq> ''*''
       | NoCredential \<Rightarrow> bearerOrQuery r = [] \<or>
           bearerOrQuery r \<noteq> adminToken \<and>
           (has_store \<longrightarrow> (\<forall>k \<in> ran (map_of (st_apiKeys s)). ak_TokenSHA256 k \<noteq> sha (bearerOrQuery r))))"
proof -
  let ?c = "credential_of sha adminToken has_store r s"
  have "case ?c of
         Admin \<Rightarrow> adminToken \<noteq> [] \<and> bearerOrQuery r = adminToken
       | Key k \<Rightarrow> has_store \<and> bearerOrQuery r \<noteq> [] \<and> map_of (st_apiKeys s) (ak_ID k) = Some k \<and>
           ak_TokenSHA256 k = sha (bearerOrQuery r) \<and> id_Project (identity_of ?c) = ak_Project k \<and>
           ak_Project k \<noteq> ''*''
       | NoCredential \<Rightarrow> bearerOrQuery r = [] \<or>
           bearerOrQuery r \<noteq> adminToken \<and>
           (has_store \<longrightarrow> (\<forall>k \<in> ran (map_of (st_apiKeys s)). ak_TokenSHA256 k \<noteq> sha (bearerOrQuery r)))"
  proof (cases ?c)
    case Admin
    then show ?thesis by (auto simp: credential_of_def Let_def split: if_splits option.splits)
  next
    case (Key k)
    then show ?thesis
      using credential_key [OF reachable_wf(4) [OF assms(1)] Key]
      by (simp add: identity_of_def key_identity_def)
  next
    case NoCredential
    then show ?thesis
      by (auto simp: credential_of_def Let_def find_None_iff ran_def dest: map_of_SomeD split: if_splits option.splits)
  qed
  then show ?thesis using auth_passes [OF assms(2), of sha scope now handle r s] by (simp only: Let_def simp_thms)
qed

theorem api_key_auth_exact_witness:
  "APIKeyAuth id [] True ''invoke'' 9 (\<lambda>r s. (not_found\<lparr>hr_Body := id_Project (FromContext r)\<rparr>, s))
     (demo_request ''h1'') demo_store =
   (not_found\<lparr>hr_Body := ''acme''\<rparr>, snd (LookupAPIKey 9 ''h1'' demo_store))"
proof -
  let ?k = "demo_key\<lparr>ak_CreatedAt := 7\<rparr>"
  have t: "bearerOrQuery (demo_request ''h1'') = ''h1''"
    by (simp add: bearerOrQuery_def bearer_def demo_request_def header_get_def query_get_def has_prefix_def)
  have c: "credential_of id [] True (demo_request ''h1'') demo_store = Key ?k"
    by (simp add: credential_of_def t demo_store_def CreateAPIKey_def demo_key_def NewInMemStore_def ensureTenancyMaps_def)
  have "HasScope (key_identity ?k) ''invoke''" by (simp add: HasScope_def key_identity_def demo_key_def)
  then show ?thesis
    using api_key_auth_exact [OF demo_store_reachable, where adminToken = "[]" and has_store = True and sha = id
        and scope = "''invoke''" and now = 9 and r = "demo_request ''h1''"
        and handle = "\<lambda>r s. (not_found\<lparr>hr_Body := id_Project (FromContext r)\<rparr>, s)"]
    by (simp add: c t identity_of_def WithIdentity_def FromContext_def)
      (simp add: key_identity_def demo_key_def)
qed

text \<open>
  Token middleware: with a non-empty token, the wrapped handler runs exactly for requests that
  present it, and every other request gets 401 and changes nothing; with an empty token the
  middleware is transparent. A bearer header, when present and non-blank, decides alone.
\<close>

theorem token_auth_exact:
  "TokenAuth token handle r s =
     (if token = [] \<or> bearerOrQuery r = token then handle r s else (unauth, s)) \<and>
   (bearer r \<noteq> [] \<longrightarrow> bearerOrQuery r = bearer r)"
proof -
  have "validToken r token \<longleftrightarrow> bearerOrQuery r = token" if "token \<noteq> []"
    using that by (cases "bearer r = []"; cases "query_get (rq_Query r) ''token'' = []")
      (simp_all add: validToken_def bearerOrQuery_def Let_def)
  then show ?thesis by (simp add: TokenAuth_def bearerOrQuery_def Let_def)
qed

theorem token_auth_exact_witness:
  "TokenAuth ''t'' (\<lambda>r s. (not_found, s)) (demo_request ''x'') () = (unauth, ())"
proof -
  have "bearerOrQuery (demo_request ''x'') = ''x''"
    by (simp add: bearerOrQuery_def bearer_def demo_request_def header_get_def query_get_def has_prefix_def)
  then show ?thesis
    using token_auth_exact [of "''t''" "\<lambda>r s. (not_found, s)" "demo_request ''x''" "()"] by simp
qed

text \<open>
  A scope is decided by the key id before the scopes: \<open>CreateAPIKey\<close> accepts a key whose id is
  \<open>admin-token\<close>, and the identity of such a key, although it lists no scope and belongs to one
  project, passes every scope check.
\<close>

theorem admin_id_key_passes_every_scope:
  assumes "tenancy_wf s" and "map_of (st_apiKeys s) ''admin-token'' = None"
    and "ak_ID k = ''admin-token''" and "ak_Project k \<noteq> ''*''"
  shows "fst (CreateAPIKey now k s) = None \<and> HasScope (key_identity k) scope"
  using assms ensure_id(1) [OF assms(1)]
  by (simp add: CreateAPIKey_def Let_def HasScope_def key_identity_def)

theorem admin_id_key_passes_every_scope_witness:
  "fst (CreateAPIKey 1 (demo_key\<lparr>ak_ID := ''admin-token'', ak_Scopes := []\<rparr>) NewInMemStore) = None \<and>
   HasScope (key_identity (demo_key\<lparr>ak_ID := ''admin-token'', ak_Scopes := []\<rparr>)) ''deploy''"
  by (rule admin_id_key_passes_every_scope [OF tenancy_wf_new(1)]) (simp_all add: NewInMemStore_def demo_key_def)

end
