(* ===== verification/Gateway.thy ===== *)
theory Gateway
  imports Wire Quota_Limiter Auth
begin

text \<open>
  Package \<open>internal/gateway\<close>: routing, the registry with its cache of the store, the pools of
  warm instances, and the request handler (\<open>gateway.go\<close>). Pools and instances are shared by
  pointer, so they live in heaps of the gateway record and are named by addresses. What the
  gateway does not contain is an argument: the layer resolver, the spawner, the reply of an
  instance to a frame, random request ids, and the clock.
\<close>

section \<open>Definitions\<close>

subsection \<open>Data\<close>

record LayerMount =
  gl_Name :: string
  gl_HostPath :: string
  gl_MountPath :: string
  gl_Digest :: string

record FunctionDef =
  fd_Name :: string
  fd_Binary :: string
  fd_Env :: "string list"
  fd_Layers :: "LayerMount list"
  fd_MaxConcurrency :: int
  fd_Project :: string

text \<open>An instance of \<open>spawn\<close>: its mode, its cold start, and whether it was closed.\<close>

record Instance =
  in_Mode :: string
  in_ColdStart :: duration
  in_closed :: bool

record managedInstance =
  mi_inst :: Instance
  mi_busy :: bool
  mi_created :: time
  mi_invokes :: nat
  mi_errors :: nat
  mi_totalNS :: int
  mi_lastUsedNS :: int

record pool =
  pl_instances :: "nat list"
  pl_spawning :: int
  pl_maxSize :: int
  pl_lifetimeInvokes :: nat
  pl_lifetimeErrors :: nat
  pl_lifetimeTotalDur :: int

record Gateway =
  gw_store :: InMemStore
  gw_idleTTL :: duration
  gw_startedAt :: time
  gw_functions :: "(string, FunctionDef) gomap"
  gw_pools :: "(string, nat) gomap"
  gw_poolheap :: "(nat, pool) gomap"
  gw_mis :: "(nat, managedInstance) gomap"
  gw_next :: nat

definition DefaultIdleTTL :: duration where
  "DefaultIdleTTL = 30 * Second"

definition DefaultMaxConcurrency :: int where
  "DefaultMaxConcurrency = 4"

definition MaxRequestBody :: nat where
  "MaxRequestBody = 8 * 1024 * 1024"

text \<open>\<open>uint64\<close> counters.\<close>

definition wrapu64 :: "nat \<Rightarrow> nat" where
  "wrapu64 n = n mod 2 ^ 64"

subsection \<open>Names and paths\<close>

definition name_first :: "char \<Rightarrow> bool" where
  "name_first c \<longleftrightarrow> is_lower c \<or> is_upper c \<or> is_digit c \<or> c = CHR ''_''"

definition name_rest :: "char \<Rightarrow> bool" where
  "name_rest c \<longleftrightarrow> name_first c \<or> c = CHR ''.'' \<or> c = CHR ''-''"

definition IsValidFunctionName :: "string \<Rightarrow> bool" where
  "IsValidFunctionName name =
     (case name of
        [] \<Rightarrow> False
      | c # cs \<Rightarrow> name_first c \<and> list_all name_rest cs \<and> length cs \<le> 63)"

definition parseFunctionPath :: "string \<Rightarrow> (string \<times> string) option" where
  "parseFunctionPath p =
     (if has_prefix p ''/fn/'' then Some ([], trim_prefix p ''/fn/'')
      else if has_prefix p ''/v1/'' then
        (let rest = trim_prefix p ''/v1/'';
             (project, after, ok) = cut rest (CHR ''/'')
         in if \<not> ok then None
            else if \<not> has_prefix after ''fn/'' then None
            else Some (project, trim_prefix after ''fn/''))
      else None)"

subsection \<open>Conversion\<close>

definition fromStateDef :: "state_FunctionDef \<Rightarrow> FunctionDef" where
  "fromStateDef d =
     \<lparr>fd_Name = sf_Name d, fd_Binary = sf_Binary d, fd_Env = sf_Env d,
      fd_Layers = map (\<lambda>l. \<lparr>gl_Name = slm_Name l, gl_HostPath = slm_HostPath l,
        gl_MountPath = slm_MountPath l, gl_Digest = slm_Digest l\<rparr>) (sf_Layers d),
      fd_MaxConcurrency = sf_MaxConcurrency d, fd_Project = sf_Project d\<rparr>"

definition toStateDef :: "FunctionDef \<Rightarrow> state_FunctionDef" where
  "toStateDef d =
     \<lparr>sf_Name = fd_Name d, sf_Binary = fd_Binary d, sf_Env = fd_Env d,
      sf_Layers = map (\<lambda>l. \<lparr>slm_Name = gl_Name l, slm_HostPath = gl_HostPath l,
        slm_MountPath = gl_MountPath l, slm_Digest = gl_Digest l\<rparr>) (fd_Layers d),
      sf_MaxConcurrency = fd_MaxConcurrency d, sf_Project = fd_Project d, sf_UpdatedAt = 0\<rparr>"

subsection \<open>Pools\<close>

definition newPool :: "int \<Rightarrow> pool" where
  "newPool maxSize =
     \<lparr>pl_instances = [], pl_spawning = 0, pl_maxSize = maxSize, pl_lifetimeInvokes = 0,
      pl_lifetimeErrors = 0, pl_lifetimeTotalDur = 0\<rparr>"

definition lastUsed :: "managedInstance \<Rightarrow> time" where
  "lastUsed mi = (if mi_lastUsedNS mi = 0 then mi_created mi else unix_epoch + mi_lastUsedNS mi)"

definition setLastUsed :: "time \<Rightarrow> managedInstance \<Rightarrow> managedInstance" where
  "setLastUsed t mi = mi\<lparr>mi_lastUsedNS := wrap64 (t - unix_epoch)\<rparr>"

text \<open>Updates of what an address points to; an address that was never made is left alone.\<close>

definition upd_mi :: "nat \<Rightarrow> (managedInstance \<Rightarrow> managedInstance) \<Rightarrow> Gateway \<Rightarrow> Gateway" where
  "upd_mi m f g = (case map_of (gw_mis g) m of
     None \<Rightarrow> g | Some mi \<Rightarrow> g\<lparr>gw_mis := map_put m (f mi) (gw_mis g)\<rparr>)"

definition upd_pool :: "nat \<Rightarrow> (pool \<Rightarrow> pool) \<Rightarrow> Gateway \<Rightarrow> Gateway" where
  "upd_pool p f g = (case map_of (gw_poolheap g) p of
     None \<Rightarrow> g | Some pl \<Rightarrow> g\<lparr>gw_poolheap := map_put p (f pl) (gw_poolheap g)\<rparr>)"

definition close_instance :: "nat \<Rightarrow> Gateway \<Rightarrow> Gateway" where
  "close_instance m = upd_mi m (\<lambda>mi. mi\<lparr>mi_inst := (mi_inst mi)\<lparr>in_closed := True\<rparr>\<rparr>)"

definition busy :: "Gateway \<Rightarrow> nat \<Rightarrow> bool" where
  "busy g m = (case map_of (gw_mis g) m of None \<Rightarrow> False | Some mi \<Rightarrow> mi_busy mi)"

definition instances_of :: "Gateway \<Rightarrow> nat \<Rightarrow> nat list" where
  "instances_of g p = (case map_of (gw_poolheap g) p of None \<Rightarrow> [] | Some pl \<Rightarrow> pl_instances pl)"

text \<open>\<open>closeAll\<close>: detach the instances under the pool's mutex, then close each of them.\<close>

definition closeAll :: "nat \<Rightarrow> Gateway \<Rightarrow> Gateway" where
  "closeAll p g =
     (let insts = instances_of g p
      in fold close_instance insts (upd_pool p (\<lambda>pl. pl\<lparr>pl_instances := []\<rparr>) g))"

subsection \<open>The registry\<close>

definition applyPut :: "FunctionDef \<Rightarrow> Gateway \<Rightarrow> Gateway" where
  "applyPut def g =
     (let def = (if fd_MaxConcurrency def \<le> 0 then def\<lparr>fd_MaxConcurrency := DefaultMaxConcurrency\<rparr> else def);
          oldPool = map_of (gw_pools g) (fd_Name def);
          g = g\<lparr>gw_pools := map_del (fd_Name def) (gw_pools g),
                gw_functions := map_put (fd_Name def) def (gw_functions g)\<rparr>
      in case oldPool of None \<Rightarrow> g | Some p \<Rightarrow> closeAll p g)"

definition applyDelete :: "string \<Rightarrow> Gateway \<Rightarrow> Gateway" where
  "applyDelete name g =
     (let old = map_of (gw_pools g) name;
          g = g\<lparr>gw_functions := map_del name (gw_functions g), gw_pools := map_del name (gw_pools g)\<rparr>
      in case old of None \<Rightarrow> g | Some p \<Rightarrow> closeAll p g)"

definition applyEvent :: "Event \<Rightarrow> Gateway \<Rightarrow> Gateway" where
  "applyEvent ev g =
     (case ev_Kind ev of
        EventFunctionPut \<Rightarrow>
          (case GetFunction (gw_store g) (ev_Name ev) of
             Inl _ \<Rightarrow> g
           | Inr def \<Rightarrow> applyPut (fromStateDef def) g)
      | EventFunctionDelete \<Rightarrow> applyDelete (ev_Name ev) g
      | _ \<Rightarrow> g)"

definition bootstrapCacheFromStore :: "Gateway \<Rightarrow> Gateway" where
  "bootstrapCacheFromStore g = fold (\<lambda>d. applyPut (fromStateDef d)) (ListFunctions (gw_store g)) g"

text \<open>\<open>NewWithOptions\<close> with a store, an idle TTL (0 for the default) and the time; then the watcher starts.\<close>

definition NewWithOptions :: "InMemStore \<Rightarrow> duration \<Rightarrow> time \<Rightarrow> Gateway" where
  "NewWithOptions store idleTTL now =
     bootstrapCacheFromStore
       \<lparr>gw_store = store, gw_idleTTL = (if idleTTL = 0 then DefaultIdleTTL else idleTTL), gw_startedAt = now,
        gw_functions = [], gw_pools = [], gw_poolheap = [], gw_mis = [], gw_next = 0\<rparr>"

definition audit_entry :: "string \<Rightarrow> string \<Rightarrow> string \<Rightarrow> string \<Rightarrow> AuditEntry" where
  "audit_entry project actor action target =
     \<lparr>ae_ID = 0, ae_TS = 0, ae_Project = project, ae_Actor = actor, ae_Action = action,
      ae_Target = target, ae_Metadata = []\<rparr>"

datatype register_error = ErrInvalidName

definition RegisterDefAs ::
  "time \<Rightarrow> time \<Rightarrow> FunctionDef \<Rightarrow> string \<Rightarrow> Gateway \<Rightarrow> register_error option \<times> Gateway" where
  "RegisterDefAs now1 now2 def actor g =
     (if \<not> IsValidFunctionName (fd_Name def) then (Some ErrInvalidName, g)
      else
       (let def = (if fd_MaxConcurrency def \<le> 0 then def\<lparr>fd_MaxConcurrency := DefaultMaxConcurrency\<rparr> else def);
            def = (if fd_Project def = [] then def\<lparr>fd_Project := ''default''\<rparr> else def);
            g = g\<lparr>gw_store := PutFunction now1 (toStateDef def) (gw_store g)\<rparr>;
            g = applyPut def g
        in (None, g\<lparr>gw_store := AppendAudit now2
              (audit_entry (fd_Project def) actor ''function.put'' (fd_Name def)) (gw_store g)\<rparr>)))"

definition RegisterDef :: "time \<Rightarrow> time \<Rightarrow> FunctionDef \<Rightarrow> Gateway \<Rightarrow> register_error option \<times> Gateway" where
  "RegisterDef now1 now2 def g = RegisterDefAs now1 now2 def ''system'' g"

definition UnregisterAs :: "time \<Rightarrow> string \<Rightarrow> string \<Rightarrow> Gateway \<Rightarrow> bool \<times> Gateway" where
  "UnregisterAs now name actor g =
     (let found = map_of (gw_functions g) name;
          g = g\<lparr>gw_store := DeleteFunction name (gw_store g)\<rparr>;
          g = applyDelete name g
      in case found of
           None \<Rightarrow> (False, g)
         | Some def \<Rightarrow>
             (let project = (if fd_Project def = [] then ''default'' else fd_Project def)
              in (True, g\<lparr>gw_store := AppendAudit now
                    (audit_entry project actor ''function.delete'' name) (gw_store g)\<rparr>)))"

definition Unregister :: "time \<Rightarrow> string \<Rightarrow> Gateway \<Rightarrow> bool \<times> Gateway" where
  "Unregister now name g = UnregisterAs now name ''system'' g"

text \<open>The last part of \<open>Close\<close>, after the reaper and the watcher have ended.\<close>

definition Close_gateway :: "Gateway \<Rightarrow> Gateway" where
  "Close_gateway g = fold (\<lambda>(_, p). closeAll p) (gw_pools g) (g\<lparr>gw_pools := []\<rparr>)"

subsection \<open>Acquiring an instance\<close>

text \<open>
  \<open>acquire\<close> is a sequence of critical sections; each is a definition, so that the sequential
  handler below and the interleaving of many goroutines are built from the same pieces.
\<close>

datatype acquire_error =
    FunctionNotFound string
  | ResolveLayers string
  | SpawnFailed string

text \<open>Under the gateway's mutex: look the function up and make its pool when it has none.\<close>

definition acquire_lookup :: "string \<Rightarrow> Gateway \<Rightarrow> (acquire_error + FunctionDef \<times> nat) \<times> Gateway" where
  "acquire_lookup name g =
     (case map_of (gw_functions g) name of
        None \<Rightarrow> (Inl (FunctionNotFound name), g)
      | Some def \<Rightarrow>
          (case map_of (gw_pools g) name of
             Some p \<Rightarrow> (Inr (def, p), g)
           | None \<Rightarrow>
               (let p = gw_next g
                in (Inr (def, p), g\<lparr>gw_poolheap := map_put p (newPool (fd_MaxConcurrency def)) (gw_poolheap g),
                      gw_pools := map_put name p (gw_pools g), gw_next := Suc p\<rparr>))))"

text \<open>
  Under the pool's mutex: the first instance whose busy lock can be taken, else a slot to spawn
  into, else the goroutine waits.
\<close>

datatype scan_result = Got nat | MaySpawn | MustWait

definition acquire_scan :: "nat \<Rightarrow> Gateway \<Rightarrow> scan_result \<times> Gateway" where
  "acquire_scan p g =
     (case map_of (gw_poolheap g) p of
        None \<Rightarrow> (MustWait, g)
      | Some pl \<Rightarrow>
          (case find (\<lambda>m. \<not> busy g m) (pl_instances pl) of
             Some m \<Rightarrow> (Got m, upd_mi m (\<lambda>mi. mi\<lparr>mi_busy := True\<rparr>) g)
           | None \<Rightarrow>
               if int (length (pl_instances pl)) + pl_spawning pl < pl_maxSize pl
               then (MaySpawn, upd_pool p (\<lambda>pl. pl\<lparr>pl_spawning := pl_spawning pl + 1\<rparr>) g)
               else (MustWait, g)))"

text \<open>The spawn slot is given back when the layers or the spawn failed.\<close>

definition spawn_failed :: "nat \<Rightarrow> Gateway \<Rightarrow> Gateway" where
  "spawn_failed p = upd_pool p (\<lambda>pl. pl\<lparr>pl_spawning := pl_spawning pl - 1\<rparr>)"

definition spawn_done :: "nat \<Rightarrow> string \<times> duration \<Rightarrow> time \<Rightarrow> Gateway \<Rightarrow> nat \<times> Gateway" where
  "spawn_done p inst now g =
     (let m = gw_next g;
          mi = setLastUsed now
            \<lparr>mi_inst = \<lparr>in_Mode = fst inst, in_ColdStart = snd inst, in_closed = False\<rparr>, mi_busy = True,
             mi_created = now, mi_invokes = 0, mi_errors = 0, mi_totalNS = 0, mi_lastUsedNS = 0\<rparr>
      in (m, upd_pool p (\<lambda>pl. pl\<lparr>pl_spawning := pl_spawning pl - 1, pl_instances := pl_instances pl @ [m]\<rparr>)
               (g\<lparr>gw_mis := map_put m mi (gw_mis g), gw_next := Suc m\<rparr>)))"

definition release :: "nat \<Rightarrow> Gateway \<Rightarrow> Gateway" where
  "release m = upd_mi m (\<lambda>mi. mi\<lparr>mi_busy := False\<rparr>)"

text \<open>
  What a request meets outside the gateway: the resolver (which rewrites the mounts in place, so
  that the cached definition changes with them), the spawner, the reply of an instance to a frame,
  a request id, clock readings, and error texts.
\<close>

record ServeEnv =
  sv_resolve :: "LayerMount list \<Rightarrow> string option \<times> LayerMount list"
  sv_spawn :: "FunctionDef \<Rightarrow> string + string \<times> duration"
  sv_invoke :: "nat \<Rightarrow> Frame \<Rightarrow> wire_error + Frame"
  sv_reqID :: string
  sv_spawned :: time
  sv_start :: time
  sv_end :: time
  sv_wireText :: "wire_error \<Rightarrow> string"
  sv_jsonText :: "string \<Rightarrow> string"

definition set_layers :: "string \<Rightarrow> LayerMount list \<Rightarrow> Gateway \<Rightarrow> Gateway" where
  "set_layers name ls g =
     (case map_of (gw_functions g) name of
        None \<Rightarrow> g
      | Some def \<Rightarrow> g\<lparr>gw_functions := map_put name (def\<lparr>fd_Layers := ls\<rparr>) (gw_functions g)\<rparr>)"

datatype acquired = Acquired nat | Refused acquire_error | WouldBlock

text \<open>The part of \<open>acquire\<close> after the spawn slot was taken.\<close>

definition acquire_spawn :: "ServeEnv \<Rightarrow> string \<Rightarrow> FunctionDef \<Rightarrow> nat \<Rightarrow> Gateway \<Rightarrow> acquired \<times> Gateway" where
  "acquire_spawn env name def p g =
     (let (err, layers) = (if fd_Layers def \<noteq> [] then sv_resolve env (fd_Layers def) else (None, []));
          g = (if fd_Layers def \<noteq> [] then set_layers name layers g else g)
      in case err of
           Some msg \<Rightarrow> (Refused (ResolveLayers msg), spawn_failed p g)
         | None \<Rightarrow>
             (case sv_spawn env (def\<lparr>fd_Layers := layers\<rparr>) of
                Inl msg \<Rightarrow> (Refused (SpawnFailed msg), spawn_failed p g)
              | Inr inst \<Rightarrow> (let (m, g) = spawn_done p inst (sv_spawned env) g in (Acquired m, g))))"

text \<open>\<open>acquire\<close> run alone: it waits exactly when the pool is full and every instance is busy.\<close>

definition acquire :: "ServeEnv \<Rightarrow> string \<Rightarrow> Gateway \<Rightarrow> acquired \<times> Gateway" where
  "acquire env name g =
     (case acquire_lookup name g of
        (Inl e, g) \<Rightarrow> (Refused e, g)
      | (Inr (def, p), g) \<Rightarrow>
          (case acquire_scan p g of
             (Got m, g) \<Rightarrow> (Acquired m, g)
           | (MustWait, g) \<Rightarrow> (WouldBlock, g)
           | (MaySpawn, g) \<Rightarrow> acquire_spawn env name def p g))"

subsection \<open>The request handler\<close>

definition quoteIfNotJSON :: "string \<Rightarrow> string" where
  "quoteIfNotJSON b =
     (if b = [] then json_quote [] else if json_valid b then b else json_quote b)"

definition first_headers :: "(string, string list) gomap \<Rightarrow> (string, string) gomap" where
  "first_headers h = map (\<lambda>(k, v). (k, hd v)) (filter (\<lambda>(k, v). v \<noteq> []) h)"

text \<open>\<open>json.Marshal\<close> of a map writes its keys in order; its error is dropped, leaving no bytes.\<close>

definition event_json :: "Request \<Rightarrow> string" where
  "event_json r =
     (case compact_raw (quoteIfNotJSON (rq_Body r)) of
        None \<Rightarrow> []
      | Some body \<Rightarrow>
          encode_object
            [(''body'', body), (''headers'', encode_string_map (first_headers (rq_Header r))),
             (''method'', json_quote (rq_Method r)), (''path'', json_quote (rq_Path r))])"

definition ctx_json :: "string \<Rightarrow> string" where
  "ctx_json reqID =
     encode_object [(''deadline_ms'', ''30000''), (''trace_id'', json_quote reqID)]"

definition invoke_frame :: "string \<Rightarrow> Request \<Rightarrow> Frame" where
  "invoke_frame reqID r = (bare_frame TypeInvoke reqID)\<lparr>fr_Event := event_json r, fr_Ctx := ctx_json reqID\<rparr>"

text \<open>
  \<open>textproto.CanonicalMIMEHeaderKey\<close>: a name with a byte that is no token byte is kept as it is.
\<close>

definition token_char :: "char \<Rightarrow> bool" where
  "token_char c \<longleftrightarrow> is_lower c \<or> is_upper c \<or> is_digit c \<or>
     c \<in> {CHR ''!'', CHR ''#'', CHR ''$'', CHR ''%'', CHR ''&'', CHR 0x27, CHR ''*'', CHR ''+'', CHR ''-'',
          CHR ''.'', CHR ''^'', CHR ''_'', CHR 0x60, CHR ''|'', CHR ''~''}"

fun canonical_from :: "bool \<Rightarrow> string \<Rightarrow> string" where
  "canonical_from up [] = []"
| "canonical_from up (c # cs) =
     (if up \<and> is_lower c then char_of (of_char c - 32 :: nat)
      else if \<not> up \<and> is_upper c then char_of (of_char c + 32 :: nat) else c) #
     canonical_from (c = CHR ''-'') cs"

definition canonical_key :: "string \<Rightarrow> string" where
  "canonical_key k = (if list_all token_char k then canonical_from True k else k)"

datatype outcome = Responded HttpResponse | HandlerPanic | Blocked

text \<open>
  Writing a decoded response. \<open>WriteHeader\<close> panics on a status outside 100..999; an informational
  status other than 101 is not the final one; statuses that allow no body have none.
\<close>

definition response_body :: "string \<Rightarrow> string" where
  "response_body raw =
     (if raw = [] then []
      else (case json_unquote (top_value raw) of Some s \<Rightarrow> s | None \<Rightarrow> if json_null (top_value raw) then [] else raw))"

definition write_response :: "Response \<Rightarrow> outcome" where
  "write_response resp =
     (let headers = fold (\<lambda>(k, v). map_put (canonical_key k) v) (rs_Headers resp) [];
          status = (if rs_Status resp = 0 then 200 else rs_Status resp)
      in if status < 100 \<or> 999 < status then HandlerPanic
         else
          (let final = (if 100 \<le> status \<and> status \<le> 199 \<and> status \<noteq> 101 then 200 else status)
           in Responded \<lparr>hr_Status = final, hr_Header = headers,
                hr_Body = (if final = 101 \<or> final = 204 \<or> final = 304 then [] else response_body (rs_Body resp))\<rparr>))"

definition write_reply :: "ServeEnv \<Rightarrow> Frame \<Rightarrow> outcome" where
  "write_reply env reply =
     (if fr_Type reply = TypeError then
        (case fr_Error reply of
           None \<Rightarrow> HandlerPanic
         | Some e \<Rightarrow> Responded (http_error [] (ep_Type e @ '': '' @ ep_Message e) 500))
      else (case unmarshal_response (fr_Result reply) of
          None \<Rightarrow> Responded (http_error [] (''bad response: '' @ sv_jsonText env (fr_Result reply)) 502)
        | Some resp \<Rightarrow> write_response resp))"

text \<open>The part of \<open>ServeHTTP\<close> that holds an instance; the deferred release runs on every path out.\<close>

definition serve_instance :: "ServeEnv \<Rightarrow> Request \<Rightarrow> nat \<Rightarrow> Gateway \<Rightarrow> outcome \<times> Gateway" where
  "serve_instance env r m g =
     (if MaxRequestBody < length (rq_Body r) then
        (Responded (http_error [] ''request body too large'' 413), release m g)
      else (case sv_invoke env m (invoke_frame (sv_reqID env) r) of
          Inl e \<Rightarrow>
            (Responded (http_error [] (''function invoke failed: '' @ sv_wireText env e) 502),
             release m (upd_mi m (\<lambda>mi. mi\<lparr>mi_errors := wrapu64 (mi_errors mi + 1)\<rparr>) g))
        | Inr reply \<Rightarrow>
            (write_reply env reply,
             release m (upd_mi m (\<lambda>mi. (setLastUsed (sv_end env) mi)\<lparr>mi_invokes := wrapu64 (mi_invokes mi + 1),
               mi_totalNS := wrap64 (mi_totalNS mi + time_sub (sv_end env) (sv_start env))\<rparr>) g))))"

definition acquire_text :: "acquire_error \<Rightarrow> string" where
  "acquire_text e =
     (case e of
        FunctionNotFound n \<Rightarrow> ''function not found: '' @ n
      | ResolveLayers msg \<Rightarrow> ''resolve layers: '' @ msg
      | SpawnFailed msg \<Rightarrow> msg)"

text \<open>The project a function is registered under; an unknown function counts as \<open>default\<close>.\<close>

definition registered_project :: "Gateway \<Rightarrow> string \<Rightarrow> string" where
  "registered_project g name =
     (case map_of (gw_functions g) name of
        None \<Rightarrow> ''default''
      | Some def \<Rightarrow> if fd_Project def = [] then ''default'' else fd_Project def)"

definition ServeHTTP ::
  "ServeEnv \<Rightarrow> Request \<Rightarrow> Limiter option \<Rightarrow> Gateway \<Rightarrow> outcome \<times> Limiter option \<times> Gateway" where
  "ServeHTTP env r limiter g =
     (case parseFunctionPath (rq_Path r) of
        None \<Rightarrow> (Responded not_found, limiter, g)
      | Some (project, name) \<Rightarrow>
          if \<not> IsValidFunctionName name then (Responded not_found, limiter, g)
          else
           (let registeredProject = registered_project g name;
                i = FromContext r
            in if project \<noteq> [] \<and> project \<noteq> registeredProject then (Responded not_found, limiter, g)
               else if id_KeyID i \<noteq> [] \<and> id_Project i \<noteq> ''*'' \<and> id_Project i \<noteq> registeredProject
               then (Responded not_found, limiter, g)
               else
                (let (allowed, limiter) =
                   (case limiter of
                      None \<Rightarrow> (True, None)
                    | Some l \<Rightarrow>
                        (let (ok, l) = Allow registeredProject KindRequestsPerMin l in (ok, Some l)))
                 in if \<not> allowed then (Responded (http_error [] ''quota exceeded'' 429), limiter, g)
                    else (case acquire env name g of
                        (Refused e, g) \<Rightarrow> (Responded (http_error [] (acquire_text e) 500), limiter, g)
                      | (WouldBlock, g) \<Rightarrow> (Blocked, limiter, g)
                      | (Acquired m, g) \<Rightarrow>
                          (let (out, g) = serve_instance env r m g in (out, limiter, g))))))"

subsection \<open>Reaping\<close>

text \<open>Idle at \<open>now\<close> for at least the TTL, and not in use.\<close>

definition reapable :: "time \<Rightarrow> Gateway \<Rightarrow> nat \<Rightarrow> bool" where
  "reapable now g m =
     (case map_of (gw_mis g) m of
        None \<Rightarrow> False
      | Some mi \<Rightarrow> \<not> mi_busy mi \<and> gw_idleTTL g \<le> time_sub now (lastUsed mi))"

definition roll_up :: "Gateway \<Rightarrow> nat \<Rightarrow> pool \<Rightarrow> pool" where
  "roll_up g m pl =
     (case map_of (gw_mis g) m of
        None \<Rightarrow> pl
      | Some mi \<Rightarrow> pl\<lparr>pl_lifetimeInvokes := wrapu64 (pl_lifetimeInvokes pl + mi_invokes mi),
          pl_lifetimeErrors := wrapu64 (pl_lifetimeErrors pl + mi_errors mi),
          pl_lifetimeTotalDur := wrap64 (pl_lifetimeTotalDur pl + mi_totalNS mi)\<rparr>)"

text \<open>One pool, under the mutexes: victims leave the pool with their counters, still locked.\<close>

definition reap_pool :: "time \<Rightarrow> nat \<Rightarrow> Gateway \<Rightarrow> nat list \<times> Gateway" where
  "reap_pool now p g =
     (let victims = filter (reapable now g) (instances_of g p);
          kept = filter (\<lambda>m. \<not> reapable now g m) (instances_of g p)
      in (victims,
          fold (\<lambda>m. upd_mi m (\<lambda>mi. mi\<lparr>mi_busy := True\<rparr>)) victims
            (upd_pool p (\<lambda>pl. (fold (roll_up g) victims pl)\<lparr>pl_instances := kept\<rparr>) g)))"

fun reap_pools :: "time \<Rightarrow> nat list \<Rightarrow> Gateway \<Rightarrow> nat list \<times> Gateway" where
  "reap_pools now [] g = ([], g)"
| "reap_pools now (p # ps) g =
     (let (v, g) = reap_pool now p g; (vs, g) = reap_pools now ps g in (v @ vs, g))"

text \<open>After the mutexes are released the victims are closed and unlocked, one after the other.\<close>

definition reapOnce :: "time \<Rightarrow> Gateway \<Rightarrow> Gateway" where
  "reapOnce now g =
     (let (victims, g) = reap_pools now (map snd (gw_pools g)) g
      in fold (\<lambda>m g. release m (close_instance m g)) victims g)"


subsection \<open>Well-formed gateways\<close>

text \<open>A pool within its size: instances and outstanding spawns together never exceed it.\<close>

definition pool_ok :: "pool \<Rightarrow> bool" where
  "pool_ok pl \<longleftrightarrow>
     0 < pl_maxSize pl \<and> 0 \<le> pl_spawning pl \<and>
     int (length (pl_instances pl)) + pl_spawning pl \<le> pl_maxSize pl \<and> distinct (pl_instances pl)"

definition heap_wf :: "Gateway \<Rightarrow> bool" where
  "heap_wf g \<longleftrightarrow>
     (\<forall>p pl. map_of (gw_poolheap g) p = Some pl \<longrightarrow>
        p < gw_next g \<and> pool_ok pl \<and> (\<forall>m \<in> set (pl_instances pl). map_of (gw_mis g) m \<noteq> None)) \<and>
     (\<forall>m mi. map_of (gw_mis g) m = Some mi \<longrightarrow> m < gw_next g) \<and>
     (\<forall>p q m. m \<in> set (instances_of g p) \<longrightarrow> m \<in> set (instances_of g q) \<longrightarrow> p = q)"

definition registry_wf :: "Gateway \<Rightarrow> bool" where
  "registry_wf g \<longleftrightarrow>
     (\<forall>n p. map_of (gw_pools g) n = Some p \<longrightarrow> map_of (gw_poolheap g) p \<noteq> None) \<and>
     inj_on (map_of (gw_pools g)) (dom (map_of (gw_pools g))) \<and>
     (\<forall>n d. map_of (gw_functions g) n = Some d \<longrightarrow> fd_Name d = n \<and> 0 < fd_MaxConcurrency d)"

definition gateway_wf :: "Gateway \<Rightarrow> bool" where
  "gateway_wf g \<longleftrightarrow> heap_wf g \<and> registry_wf g \<and> store_wf (gw_store g)"

text \<open>The definition as the cache stores it.\<close>

definition normal_def :: "FunctionDef \<Rightarrow> FunctionDef" where
  "normal_def def =
     (if fd_MaxConcurrency def \<le> 0 then def\<lparr>fd_MaxConcurrency := DefaultMaxConcurrency\<rparr> else def)"

definition spawning_of :: "Gateway \<Rightarrow> nat \<Rightarrow> int" where
  "spawning_of g p = (case map_of (gw_poolheap g) p of None \<Rightarrow> 0 | Some pl \<Rightarrow> pl_spawning pl)"

text \<open>Two gateways agree on the locks that are held and on the outstanding spawns.\<close>

definition same_locks :: "Gateway \<Rightarrow> Gateway \<Rightarrow> bool" where
  "same_locks g g' \<longleftrightarrow> (\<forall>m. busy g' m = busy g m) \<and> (\<forall>p. spawning_of g' p = spawning_of g p)"

text \<open>What an acquired instance is: locked, and nothing else has changed about locks and slots.\<close>

definition lock_taken :: "Gateway \<Rightarrow> nat \<Rightarrow> Gateway \<Rightarrow> bool" where
  "lock_taken g m g' \<longleftrightarrow>
     \<not> busy g m \<and> map_of (gw_mis g') m \<noteq> None \<and> (\<forall>m'. busy g' m' = (m' = m \<or> busy g m')) \<and>
     (\<forall>p. spawning_of g' p = spawning_of g p)"

text \<open>The limiter's answer, and the part of \<open>ServeHTTP\<close> behind the guards.\<close>

definition quota_check :: "string \<Rightarrow> Limiter option \<Rightarrow> bool \<times> Limiter option" where
  "quota_check project limiter =
     (case limiter of
        None \<Rightarrow> (True, None)
      | Some l \<Rightarrow> (fst (Allow project KindRequestsPerMin l), Some (snd (Allow project KindRequestsPerMin l))))"

definition serve_admitted :: "ServeEnv \<Rightarrow> Request \<Rightarrow> string \<Rightarrow> Gateway \<Rightarrow> outcome \<times> Gateway" where
  "serve_admitted env r name g =
     (case acquire env name g of
        (Refused e, g1) \<Rightarrow> (Responded (http_error [] (acquire_text e) 500), g1)
      | (WouldBlock, g1) \<Rightarrow> (Blocked, g1)
      | (Acquired m, g1) \<Rightarrow> serve_instance env r m g1)"

text \<open>The guards a request has to pass, for the function it names.\<close>

definition may_invoke :: "Gateway \<Rightarrow> Request \<Rightarrow> string \<Rightarrow> string \<Rightarrow> bool" where
  "may_invoke g r project name \<longleftrightarrow>
     IsValidFunctionName name \<and> (project = [] \<or> project = registered_project g name) \<and>
     (id_KeyID (FromContext r) = [] \<or> id_Project (FromContext r) = ''*'' \<or>
      id_Project (FromContext r) = registered_project g name)"

definition invokes_of :: "Gateway \<Rightarrow> nat \<Rightarrow> nat" where
  "invokes_of g m = (case map_of (gw_mis g) m of None \<Rightarrow> 0 | Some mi \<Rightarrow> mi_invokes mi)"

definition errors_of :: "Gateway \<Rightarrow> nat \<Rightarrow> nat" where
  "errors_of g m = (case map_of (gw_mis g) m of None \<Rightarrow> 0 | Some mi \<Rightarrow> mi_errors mi)"

definition victims_of :: "time \<Rightarrow> Gateway \<Rightarrow> nat \<Rightarrow> nat list" where
  "victims_of now g p = filter (reapable now g) (instances_of g p)"

definition reaped_pool :: "time \<Rightarrow> Gateway \<Rightarrow> nat \<Rightarrow> pool \<Rightarrow> pool" where
  "reaped_pool now g p pl =
     (fold (roll_up g) (victims_of now g p) pl)\<lparr>pl_instances := filter (\<lambda>m. \<not> reapable now g m) (instances_of g p)\<rparr>"

section \<open>Lemmas\<close>

subsection \<open>Heap updates\<close>

lemma upd_mi_frame [simp]:
  "gw_store (upd_mi m f g) = gw_store g" "gw_idleTTL (upd_mi m f g) = gw_idleTTL g"
  "gw_startedAt (upd_mi m f g) = gw_startedAt g" "gw_functions (upd_mi m f g) = gw_functions g"
  "gw_pools (upd_mi m f g) = gw_pools g" "gw_poolheap (upd_mi m f g) = gw_poolheap g"
  "gw_next (upd_mi m f g) = gw_next g"
  by (simp_all add: upd_mi_def split: option.split)

lemma upd_mi_get [simp]:
  "map_of (gw_mis (upd_mi m f g)) m' =
     (if m' = m then map_option f (map_of (gw_mis g) m) else map_of (gw_mis g) m')"
  by (simp add: upd_mi_def split: option.split)

lemma upd_pool_frame [simp]:
  "gw_store (upd_pool p f g) = gw_store g" "gw_idleTTL (upd_pool p f g) = gw_idleTTL g"
  "gw_startedAt (upd_pool p f g) = gw_startedAt g" "gw_functions (upd_pool p f g) = gw_functions g"
  "gw_pools (upd_pool p f g) = gw_pools g" "gw_mis (upd_pool p f g) = gw_mis g"
  "gw_next (upd_pool p f g) = gw_next g"
  by (simp_all add: upd_pool_def split: option.split)

lemma upd_pool_get [simp]:
  "map_of (gw_poolheap (upd_pool p f g)) p' =
     (if p' = p then map_option f (map_of (gw_poolheap g) p) else map_of (gw_poolheap g) p')"
  by (simp add: upd_pool_def split: option.split)

lemma instances_upd_mi [simp]: "instances_of (upd_mi m f g) p = instances_of g p"
  by (simp add: instances_of_def)

lemma busy_upd_pool [simp]: "busy (upd_pool p f g) m = busy g m"
  by (simp add: busy_def)

lemma busy_upd_mi:
  "busy (upd_mi m f g) m' =
     (if m' = m then (case map_of (gw_mis g) m of None \<Rightarrow> False | Some mi \<Rightarrow> mi_busy (f mi)) else busy g m')"
  by (simp add: busy_def split: option.split)

text \<open>Closing keeps everything but the flag.\<close>

lemma close_frame [simp]:
  "gw_store (close_instance m g) = gw_store g" "gw_functions (close_instance m g) = gw_functions g"
  "gw_pools (close_instance m g) = gw_pools g" "gw_poolheap (close_instance m g) = gw_poolheap g"
  "gw_next (close_instance m g) = gw_next g" "gw_idleTTL (close_instance m g) = gw_idleTTL g"
  by (simp_all add: close_instance_def)

lemma fold_close_frame [simp]:
  "gw_store (fold close_instance ms g) = gw_store g" "gw_functions (fold close_instance ms g) = gw_functions g"
  "gw_pools (fold close_instance ms g) = gw_pools g" "gw_poolheap (fold close_instance ms g) = gw_poolheap g"
  "gw_next (fold close_instance ms g) = gw_next g" "gw_idleTTL (fold close_instance ms g) = gw_idleTTL g"
  by (induction ms arbitrary: g) simp_all

lemma close_get:
  "map_of (gw_mis (close_instance m g)) m' =
     (if m' = m then map_option (\<lambda>mi. mi\<lparr>mi_inst := (mi_inst mi)\<lparr>in_closed := True\<rparr>\<rparr>) (map_of (gw_mis g) m)
      else map_of (gw_mis g) m')"
  by (simp add: close_instance_def)

lemma fold_close_get:
  "map_of (gw_mis (fold close_instance ms g)) m =
     (if m \<in> set ms then map_option (\<lambda>mi. mi\<lparr>mi_inst := (mi_inst mi)\<lparr>in_closed := True\<rparr>\<rparr>) (map_of (gw_mis g) m)
      else map_of (gw_mis g) m)"
  by (induction ms arbitrary: g) (auto simp: close_get option.map_comp comp_def)

lemma instances_cong: "gw_poolheap g' = gw_poolheap g \<Longrightarrow> instances_of g' p = instances_of g p"
  by (simp add: instances_of_def)

lemma instances_upd_pool:
  "instances_of (upd_pool p f g) q =
     (if q = p then (case map_of (gw_poolheap g) p of None \<Rightarrow> [] | Some pl \<Rightarrow> pl_instances (f pl))
      else instances_of g q)"
  by (simp add: instances_of_def split: option.split)

text \<open>A heap stays well formed when a pool shrinks within its size and instances only change inside.\<close>

lemma heap_wf_mis:
  assumes "heap_wf g" and "gw_poolheap g' = gw_poolheap g" and "gw_next g' = gw_next g"
    and "\<And>m. map_of (gw_mis g') m = None \<longleftrightarrow> map_of (gw_mis g) m = None"
  shows "heap_wf g'"
proof -
  have "map_of (gw_mis g') m = Some mi \<Longrightarrow> m < gw_next g" for m mi
    using assms(1,4) unfolding heap_wf_def by (metis option.exhaust)
  then show ?thesis
    using assms unfolding heap_wf_def instances_of_def by (simp only: assms(2,3,4)) blast
qed

lemma heap_wf_pool:
  assumes "heap_wf g"
    and "\<And>pl. map_of (gw_poolheap g) p = Some pl \<Longrightarrow> pool_ok (f pl) \<and> set (pl_instances (f pl)) \<subseteq> set (pl_instances pl)"
  shows "heap_wf (upd_pool p f g)"
proof (cases "map_of (gw_poolheap g) p")
  case None
  then show ?thesis using assms(1) by (simp add: upd_pool_def)
next
  case (Some pl)
  note f = assms(2) [OF Some]
  have sub: "set (instances_of (upd_pool p f g) q) \<subseteq> set (instances_of g q)" for q
    using f Some by (auto simp: instances_upd_pool instances_of_def)
  have a: "q < gw_next g \<and> pool_ok pl' \<and> (\<forall>m \<in> set (pl_instances pl'). map_of (gw_mis g) m \<noteq> None)"
    if "map_of (gw_poolheap (upd_pool p f g)) q = Some pl'" for q pl'
    using that assms(1) f Some unfolding heap_wf_def by (cases "q = p") (auto simp: subset_iff)
  have b: "q = q'" if "m \<in> set (instances_of (upd_pool p f g) q)" "m \<in> set (instances_of (upd_pool p f g) q')" for m q q'
    using that sub assms(1) unfolding heap_wf_def by blast
  have c: "\<forall>m mi. map_of (gw_mis g) m = Some mi \<longrightarrow> m < gw_next g"
    using assms(1) by (simp add: heap_wf_def)
  show ?thesis
    unfolding heap_wf_def using a b c by (simp only: upd_pool_frame) blast
qed

subsection \<open>The registry\<close>

lemma closeAll_frame [simp]:
  "gw_store (closeAll p g) = gw_store g" "gw_functions (closeAll p g) = gw_functions g"
  "gw_pools (closeAll p g) = gw_pools g" "gw_next (closeAll p g) = gw_next g"
  "gw_idleTTL (closeAll p g) = gw_idleTTL g"
  by (simp_all add: closeAll_def Let_def)

lemma closeAll_pool [simp]:
  "map_of (gw_poolheap (closeAll p g)) q =
     (if q = p then map_option (\<lambda>pl. pl\<lparr>pl_instances := []\<rparr>) (map_of (gw_poolheap g) p) else map_of (gw_poolheap g) q)"
  by (simp add: closeAll_def Let_def)

lemma closeAll_mis:
  "map_of (gw_mis (closeAll p g)) m =
     (if m \<in> set (instances_of g p)
      then map_option (\<lambda>mi. mi\<lparr>mi_inst := (mi_inst mi)\<lparr>in_closed := True\<rparr>\<rparr>) (map_of (gw_mis g) m)
      else map_of (gw_mis g) m)"
  by (simp add: closeAll_def Let_def fold_close_get)

lemma heap_poolD:
  "heap_wf g \<Longrightarrow> map_of (gw_poolheap g) p = Some pl \<Longrightarrow>
     p < gw_next g \<and> pool_ok pl \<and> (\<forall>m \<in> set (pl_instances pl). map_of (gw_mis g) m \<noteq> None)"
  unfolding heap_wf_def by blast

lemma heap_wf_closeAll: "heap_wf g \<Longrightarrow> heap_wf (closeAll p g)"
proof -
  assume wf: "heap_wf g"
  have "heap_wf (upd_pool p (\<lambda>pl. pl\<lparr>pl_instances := []\<rparr>) g)"
    by (rule heap_wf_pool [OF wf]) (use heap_poolD [OF wf] in \<open>fastforce simp: pool_ok_def\<close>)
  then show ?thesis
    unfolding closeAll_def Let_def by (rule heap_wf_mis) (simp_all add: fold_close_get)
qed

lemma registry_wf_closeAll: "registry_wf g \<Longrightarrow> registry_wf (closeAll p g)"
  by (auto simp: registry_wf_def split: if_splits)

lemma heap_wf_registry:
  "heap_wf (g\<lparr>gw_functions := f, gw_pools := ps\<rparr>) = heap_wf g"
  "heap_wf (g\<lparr>gw_pools := ps, gw_functions := f\<rparr>) = heap_wf g"
  "heap_wf (g\<lparr>gw_functions := f\<rparr>) = heap_wf g" "heap_wf (g\<lparr>gw_pools := ps\<rparr>) = heap_wf g"
  "heap_wf (g\<lparr>gw_store := s\<rparr>) = heap_wf g"
  by (simp_all add: heap_wf_def instances_of_def)

lemma normal_def_facts [simp]:
  "fd_Name (normal_def d) = fd_Name d" "fd_Project (normal_def d) = fd_Project d" "0 < fd_MaxConcurrency (normal_def d)"
  by (auto simp: normal_def_def DefaultMaxConcurrency_def)

lemma applyPut_eq:
  "applyPut def g =
     (let g' = g\<lparr>gw_pools := map_del (fd_Name def) (gw_pools g),
                 gw_functions := map_put (fd_Name def) (normal_def def) (gw_functions g)\<rparr>
      in case map_of (gw_pools g) (fd_Name def) of None \<Rightarrow> g' | Some p \<Rightarrow> closeAll p g')"
  by (simp add: applyPut_def normal_def_def Let_def split: option.split)

lemma applyPut_functions: "map_of (gw_functions (applyPut def g)) = (map_of (gw_functions g))(fd_Name def \<mapsto> normal_def def)"
  by (simp add: applyPut_eq Let_def split: option.split)

lemma applyPut_pools: "map_of (gw_pools (applyPut def g)) = (map_of (gw_pools g))(fd_Name def := None)"
  by (simp add: applyPut_eq Let_def split: option.split)

lemma applyPut_store [simp]: "gw_store (applyPut def g) = gw_store g"
  by (simp add: applyPut_eq Let_def split: option.split)

lemma applyDelete_functions: "map_of (gw_functions (applyDelete name g)) = (map_of (gw_functions g))(name := None)"
  by (simp add: applyDelete_def Let_def split: option.split)

lemma applyDelete_pools: "map_of (gw_pools (applyDelete name g)) = (map_of (gw_pools g))(name := None)"
  by (simp add: applyDelete_def Let_def split: option.split)

lemma applyDelete_store [simp]: "gw_store (applyDelete name g) = gw_store g"
  by (simp add: applyDelete_def Let_def split: option.split)

lemma registry_wf_put:
  assumes "registry_wf g" and "fd_Name d = n" and "0 < fd_MaxConcurrency d"
  shows "registry_wf (g\<lparr>gw_pools := map_del n (gw_pools g), gw_functions := map_put n d (gw_functions g)\<rparr>)"
  using assms by (auto simp: registry_wf_def inj_on_def)

lemma registry_wf_del:
  assumes "registry_wf g"
  shows "registry_wf (g\<lparr>gw_functions := map_del n (gw_functions g), gw_pools := map_del n (gw_pools g)\<rparr>)"
  using assms by (auto simp: registry_wf_def inj_on_def)

lemma gateway_wf_applyPut: "gateway_wf g \<Longrightarrow> gateway_wf (applyPut def g)"
proof -
  assume wf: "gateway_wf g"
  let ?g = "g\<lparr>gw_pools := map_del (fd_Name def) (gw_pools g),
              gw_functions := map_put (fd_Name def) (normal_def def) (gw_functions g)\<rparr>"
  have "gateway_wf ?g"
    using wf registry_wf_put [of g "normal_def def" "fd_Name def"]
    by (simp add: gateway_wf_def heap_wf_registry)
  then show ?thesis
    by (simp add: applyPut_eq Let_def gateway_wf_def heap_wf_closeAll registry_wf_closeAll split: option.split)
qed

lemma gateway_wf_applyDelete: "gateway_wf g \<Longrightarrow> gateway_wf (applyDelete name g)"
proof -
  assume wf: "gateway_wf g"
  let ?g = "g\<lparr>gw_functions := map_del name (gw_functions g), gw_pools := map_del name (gw_pools g)\<rparr>"
  have "gateway_wf ?g" using wf registry_wf_del [of g name] by (simp add: gateway_wf_def heap_wf_registry)
  then show ?thesis
    by (simp add: applyDelete_def Let_def gateway_wf_def heap_wf_closeAll registry_wf_closeAll split: option.split)
qed

lemma gateway_wf_applyEvent: "gateway_wf g \<Longrightarrow> gateway_wf (applyEvent ev g)"
  by (simp add: applyEvent_def gateway_wf_applyPut gateway_wf_applyDelete split: EventKind.split sum.split)

lemma gateway_wf_fold_put: "gateway_wf g \<Longrightarrow> gateway_wf (fold (\<lambda>d. applyPut (fromStateDef d)) ds g)"
  by (induction ds arbitrary: g) (simp_all add: gateway_wf_applyPut)

lemma gateway_wf_new: "store_wf s \<Longrightarrow> gateway_wf (NewWithOptions s ttl now)"
  unfolding NewWithOptions_def bootstrapCacheFromStore_def
  by (rule gateway_wf_fold_put) (simp add: gateway_wf_def heap_wf_def registry_wf_def instances_of_def)

lemma gateway_wf_store: "gateway_wf g \<Longrightarrow> store_wf s \<Longrightarrow> gateway_wf (g\<lparr>gw_store := s\<rparr>)"
  by (simp add: gateway_wf_def heap_wf_registry registry_wf_def)

lemma gateway_wf_register: "gateway_wf g \<Longrightarrow> gateway_wf (snd (RegisterDefAs t1 t2 def actor g))"
proof -
  assume wf: "gateway_wf g"
  have st: "store_wf (gw_store g)" using wf by (simp add: gateway_wf_def)
  have "gateway_wf (applyPut d (g\<lparr>gw_store := PutFunction t1 d' (gw_store g)\<rparr>))" for d d'
    by (intro gateway_wf_applyPut gateway_wf_store wf store_wf_function_ops st)
  moreover from this have "store_wf (PutFunction t1 d' (gw_store g))" for d'
    by (simp add: gateway_wf_def)
  ultimately show ?thesis
    by (simp add: RegisterDefAs_def Let_def wf gateway_wf_store store_wf_key_ops)
qed

lemma gateway_wf_unregister: "gateway_wf g \<Longrightarrow> gateway_wf (snd (UnregisterAs t name actor g))"
proof -
  assume wf: "gateway_wf g"
  have st: "store_wf (DeleteFunction name (gw_store g))"
    using wf by (simp add: gateway_wf_def store_wf_function_ops)
  then have "gateway_wf (applyDelete name (g\<lparr>gw_store := DeleteFunction name (gw_store g)\<rparr>))"
    by (intro gateway_wf_applyDelete gateway_wf_store wf)
  then show ?thesis
    using st by (simp add: UnregisterAs_def Let_def gateway_wf_store store_wf_key_ops split: option.split)
qed

subsection \<open>Acquiring\<close>

lemma gateway_wf_mi: "gateway_wf g \<Longrightarrow> gateway_wf (upd_mi m f g)"
proof -
  assume wf: "gateway_wf g"
  have "heap_wf (upd_mi m f g)"
    by (rule heap_wf_mis [of g]) (use wf in \<open>auto simp: gateway_wf_def\<close>)
  then show ?thesis using wf by (simp add: gateway_wf_def registry_wf_def)
qed

lemma gateway_wf_pool:
  assumes "gateway_wf g"
    and "\<And>pl. map_of (gw_poolheap g) p = Some pl \<Longrightarrow> pool_ok (f pl) \<and> set (pl_instances (f pl)) \<subseteq> set (pl_instances pl)"
  shows "gateway_wf (upd_pool p f g)"
  using assms heap_wf_pool [of g p f] by (auto simp: gateway_wf_def registry_wf_def)

lemma gateway_poolD:
  "gateway_wf g \<Longrightarrow> map_of (gw_poolheap g) p = Some pl \<Longrightarrow>
     p < gw_next g \<and> pool_ok pl \<and> (\<forall>m \<in> set (pl_instances pl). map_of (gw_mis g) m \<noteq> None)"
  by (rule heap_poolD) (auto simp: gateway_wf_def)

lemma lookup_wf:
  assumes wf: "gateway_wf g" and l: "acquire_lookup name g = (r, g')"
  shows "gateway_wf g'" and "r = Inr (def, p) \<Longrightarrow>
    map_of (gw_functions g) name = Some def \<and> map_of (gw_pools g') name = Some p \<and> map_of (gw_poolheap g') p \<noteq> None"
proof -
  have fresh: "map_of (gw_poolheap g) (gw_next g) = None" "map_of (gw_pools g) n \<noteq> Some (gw_next g)" for n
    using wf gateway_poolD [OF wf, of "gw_next g"] by (force simp: gateway_wf_def registry_wf_def)+
  have new: "gateway_wf (g\<lparr>gw_poolheap := map_put (gw_next g) (newPool k) (gw_poolheap g),
      gw_pools := map_put name (gw_next g) (gw_pools g), gw_next := Suc (gw_next g)\<rparr>)"
    if "0 < k" "map_of (gw_pools g) name = None" for k
  proof -
    let ?g = "g\<lparr>gw_poolheap := map_put (gw_next g) (newPool k) (gw_poolheap g),
      gw_pools := map_put name (gw_next g) (gw_pools g), gw_next := Suc (gw_next g)\<rparr>"
    have i: "instances_of ?g q = instances_of g q" for q
      using fresh(1) by (simp add: instances_of_def newPool_def split: option.split)
    have "heap_wf ?g"
      using wf that(1) unfolding gateway_wf_def heap_wf_def i
      by (auto simp: newPool_def pool_ok_def less_Suc_eq)
    moreover have "registry_wf ?g"
      using wf fresh that(2) by (auto simp: gateway_wf_def registry_wf_def inj_on_def dom_def)
    ultimately show ?thesis using wf by (simp add: gateway_wf_def)
  qed
  have "0 < fd_MaxConcurrency d" if "map_of (gw_functions g) name = Some d" for d
    using that wf by (auto simp: gateway_wf_def registry_wf_def)
  with new show "gateway_wf g'"
    using l wf by (auto simp: acquire_lookup_def Let_def split: option.splits)
  show "map_of (gw_functions g) name = Some def \<and> map_of (gw_pools g') name = Some p \<and> map_of (gw_poolheap g') p \<noteq> None"
    if "r = Inr (def, p)"
    using l wf that by (auto simp: acquire_lookup_def Let_def gateway_wf_def registry_wf_def split: option.splits)
qed

lemma lookup_mis: "gw_mis (snd (acquire_lookup name g)) = gw_mis g"
  by (simp add: acquire_lookup_def Let_def split: option.split)

lemma scan_wf: "gateway_wf g \<Longrightarrow> acquire_scan p g = (r, g') \<Longrightarrow> gateway_wf g'"
proof -
  assume wf: "gateway_wf g" and s: "acquire_scan p g = (r, g')"
  have "gateway_wf (upd_pool p (\<lambda>pl. pl\<lparr>pl_spawning := pl_spawning pl + 1\<rparr>) g)"
    if "map_of (gw_poolheap g) p = Some pl" "int (length (pl_instances pl)) + pl_spawning pl < pl_maxSize pl" for pl
    by (rule gateway_wf_pool [OF wf]) (use that gateway_poolD [OF wf] in \<open>auto simp: pool_ok_def\<close>)
  then show ?thesis
    using s wf by (auto simp: acquire_scan_def gateway_wf_mi split: option.splits if_splits)
qed

lemma spawn_failed_wf:
  "gateway_wf g \<Longrightarrow> map_of (gw_poolheap g) p = Some pl \<Longrightarrow> 0 < pl_spawning pl \<Longrightarrow> gateway_wf (spawn_failed p g)"
  unfolding spawn_failed_def
  by (rule gateway_wf_pool) (auto simp: pool_ok_def dest: gateway_poolD)

lemma fresh_instance:
  assumes "heap_wf g"
  shows "map_of (gw_mis g) (gw_next g) = None" and "gw_next g \<notin> set (instances_of g p)"
proof -
  show n: "map_of (gw_mis g) (gw_next g) = None"
    using assms unfolding heap_wf_def by (metis less_irrefl_nat option.exhaust)
  then show "gw_next g \<notin> set (instances_of g p)"
    using heap_poolD [OF assms, of p] by (cases "map_of (gw_poolheap g) p") (auto simp: instances_of_def)
qed

lemma spawn_done_wf:
  assumes wf: "gateway_wf g" and p: "map_of (gw_poolheap g) p = Some pl" and sp: "0 < pl_spawning pl"
  shows "gateway_wf (snd (spawn_done p inst now g))"
proof -
  define g' where "g' = snd (spawn_done p inst now g)"
  let ?m = "gw_next g"
  have hw: "heap_wf g" and rw: "registry_wf g" using wf by (auto simp: gateway_wf_def)
  note fr = fresh_instance [OF hw]
  have heap: "map_of (gw_poolheap g') q =
      (if q = p then Some (pl\<lparr>pl_spawning := pl_spawning pl - 1, pl_instances := pl_instances pl @ [?m]\<rparr>)
       else map_of (gw_poolheap g) q)" for q
    using p by (simp add: g'_def spawn_done_def Let_def)
  have nxt: "gw_next g' = Suc ?m" by (simp add: g'_def spawn_done_def Let_def)
  have mis: "map_of (gw_mis g') m = None \<longleftrightarrow> m \<noteq> ?m \<and> map_of (gw_mis g) m = None" for m
    by (simp add: g'_def spawn_done_def Let_def)
  have inst: "instances_of g' q = (if q = p then instances_of g p @ [?m] else instances_of g q)" for q
    using p by (simp add: instances_of_def heap)
  have ok: "pool_ok (pl\<lparr>pl_spawning := pl_spawning pl - 1, pl_instances := pl_instances pl @ [?m]\<rparr>)"
    using heap_poolD [OF hw p] sp fr(2) [of p] p by (auto simp: pool_ok_def instances_of_def)
  have "q < gw_next g' \<and> pool_ok pl' \<and> (\<forall>m \<in> set (pl_instances pl'). map_of (gw_mis g') m \<noteq> None)"
    if "map_of (gw_poolheap g') q = Some pl'" for q pl'
    using that ok heap_poolD [OF hw p] heap_poolD [OF hw, of q pl'] mis nxt
    by (auto simp: heap split: if_splits)
  moreover have "m < gw_next g'" if "map_of (gw_mis g') m = Some mi" for m mi
    using that hw unfolding heap_wf_def nxt by (cases "m = ?m") (auto simp: g'_def spawn_done_def Let_def less_Suc_eq)
  moreover have "q = q'" if "m \<in> set (instances_of g' q)" "m \<in> set (instances_of g' q')" for m q q'
    using that hw fr(2) unfolding heap_wf_def inst by (auto split: if_splits)
  ultimately have "heap_wf g'" unfolding heap_wf_def by blast
  moreover have "registry_wf g'"
    using rw by (auto simp: registry_wf_def g'_def spawn_done_def Let_def split: if_splits)
  moreover have "gw_store g' = gw_store g" by (simp add: g'_def spawn_done_def Let_def)
  ultimately show ?thesis using wf by (simp add: gateway_wf_def g'_def)
qed

lemma same_locks_trans: "same_locks a b \<Longrightarrow> same_locks b c \<Longrightarrow> same_locks a c"
  by (simp add: same_locks_def)

lemma same_locks_refl: "same_locks g g"
  by (simp add: same_locks_def)

lemma gateway_wf_layers: "gateway_wf g \<Longrightarrow> gateway_wf (set_layers name ls g)"
  by (auto simp: set_layers_def gateway_wf_def heap_wf_registry registry_wf_def split: option.split)

lemma set_layers_frame [simp]:
  "gw_poolheap (set_layers n ls g) = gw_poolheap g" "gw_mis (set_layers n ls g) = gw_mis g"
  "gw_next (set_layers n ls g) = gw_next g" "gw_pools (set_layers n ls g) = gw_pools g"
  by (simp_all add: set_layers_def split: option.split)

lemma lookup_locks: "gateway_wf g \<Longrightarrow> same_locks g (snd (acquire_lookup name g))"
proof -
  assume wf: "gateway_wf g"
  have "map_of (gw_poolheap g) (gw_next g) = None"
    using gateway_poolD [OF wf, of "gw_next g"] by (cases "map_of (gw_poolheap g) (gw_next g)") auto
  then show ?thesis
    by (auto simp: same_locks_def acquire_lookup_def Let_def busy_def spawning_of_def newPool_def split: option.split)
qed

lemma scan_got:
  assumes "acquire_scan p g = (Got m, g')"
  shows "m \<in> set (instances_of g p)" and "\<not> busy g m"
    and "g' = upd_mi m (\<lambda>mi. mi\<lparr>mi_busy := True\<rparr>) g"
  using assms by (auto simp: acquire_scan_def instances_of_def find_Some_iff split: option.splits if_splits)

lemma scan_spawn:
  assumes "acquire_scan p g = (MaySpawn, g')"
  shows "g' = upd_pool p (\<lambda>pl. pl\<lparr>pl_spawning := pl_spawning pl + 1\<rparr>) g"
    and "map_of (gw_poolheap g) p \<noteq> None" and "\<forall>m \<in> set (instances_of g p). busy g m"
  using assms by (auto simp: acquire_scan_def instances_of_def find_None_iff split: option.splits if_splits)

lemma scan_wait:
  assumes "acquire_scan p g = (MustWait, g')" and "map_of (gw_poolheap g) p = Some pl"
  shows "g' = g" and "\<forall>m \<in> set (pl_instances pl). busy g m"
    and "pl_maxSize pl \<le> int (length (pl_instances pl)) + pl_spawning pl"
  using assms by (auto simp: acquire_scan_def find_None_iff split: option.splits if_splits)

lemma spawn_slot:
  assumes "gateway_wf g" and "acquire_scan p g = (MaySpawn, g')"
  obtains pl where "map_of (gw_poolheap g') p = Some pl" "0 < pl_spawning pl"
proof -
  obtain pl where pl: "map_of (gw_poolheap g) p = Some pl" using scan_spawn(2) [OF assms(2)] by blast
  then have "map_of (gw_poolheap g') p = Some (pl\<lparr>pl_spawning := pl_spawning pl + 1\<rparr>)"
    using scan_spawn(1) [OF assms(2)] by simp
  moreover have "0 \<le> pl_spawning pl" using gateway_poolD [OF assms(1) pl] by (simp add: pool_ok_def)
  ultimately show ?thesis using that by force
qed

lemma lock_taken_trans: "same_locks g g1 \<Longrightarrow> lock_taken g1 m g' \<Longrightarrow> lock_taken g m g'"
  by (simp add: same_locks_def lock_taken_def)

lemma spawn_done_locks:
  assumes "heap_wf g" and "map_of (gw_poolheap g) p = Some pl"
  shows "busy (snd (spawn_done p inst now g)) m = (m = gw_next g \<or> busy g m)"
    and "spawning_of (snd (spawn_done p inst now g)) q = spawning_of g q - (if q = p then 1 else 0)"
    and "fst (spawn_done p inst now g) = gw_next g" and "\<not> busy g (gw_next g)"
    and "map_of (gw_mis (snd (spawn_done p inst now g))) (gw_next g) \<noteq> None"
  using assms(2) fresh_instance(1) [OF assms(1)]
  by (auto simp: spawn_done_def Let_def busy_def spawning_of_def setLastUsed_def)

lemma spawn_failed_locks:
  "map_of (gw_poolheap g) p = Some pl \<Longrightarrow> spawning_of (spawn_failed p g) q = spawning_of g q - (if q = p then 1 else 0)"
  "busy (spawn_failed p g) m = busy g m"
  by (simp_all add: spawn_failed_def spawning_of_def)

lemma acquire_spawn_cases:
  assumes "acquire_spawn env name def p g = (r, g')" and "heap_wf g"
  obtains g1 where "gw_poolheap g1 = gw_poolheap g" "gw_mis g1 = gw_mis g" "heap_wf g1"
      "gateway_wf g \<Longrightarrow> gateway_wf g1"
      "(\<exists>e. r = Refused e \<and> g' = spawn_failed p g1) \<or>
       (\<exists>inst. r = Acquired (fst (spawn_done p inst (sv_spawned env) g1)) \<and> g' = snd (spawn_done p inst (sv_spawned env) g1))"
proof -
  define g1 where "g1 = (if fd_Layers def \<noteq> [] then set_layers name (snd (sv_resolve env (fd_Layers def))) g else g)"
  have eq: "gw_poolheap g1 = gw_poolheap g" "gw_mis g1 = gw_mis g" "gw_next g1 = gw_next g"
    by (simp_all add: g1_def)
  have "(\<exists>e. r = Refused e \<and> g' = spawn_failed p g1) \<or>
       (\<exists>inst. r = Acquired (fst (spawn_done p inst (sv_spawned env) g1)) \<and> g' = snd (spawn_done p inst (sv_spawned env) g1))"
    using assms(1) unfolding acquire_spawn_def
    by (cases "fd_Layers def = []") (auto simp: Let_def case_prod_unfold g1_def split: option.splits sum.splits)
  moreover have "heap_wf g1" by (rule heap_wf_mis [OF assms(2)]) (simp_all add: eq)
  moreover have "gateway_wf g \<Longrightarrow> gateway_wf g1" by (simp add: g1_def gateway_wf_layers)
  ultimately show ?thesis using that eq by blast
qed

lemma acquire_spawn_wf:
  assumes "gateway_wf g" and "map_of (gw_poolheap g) p = Some pl" and "0 < pl_spawning pl"
  shows "gateway_wf (snd (acquire_spawn env name def p g))"
proof -
  obtain r g' where a: "acquire_spawn env name def p g = (r, g')" by fastforce
  have "heap_wf g" using assms(1) by (simp add: gateway_wf_def)
  from a this show ?thesis
  proof (rule acquire_spawn_cases)
    fix g1 :: Gateway
    assume "gw_poolheap g1 = gw_poolheap g" and "gateway_wf g \<Longrightarrow> gateway_wf g1"
    then have "gateway_wf g1" and "map_of (gw_poolheap g1) p = Some pl" using assms by simp_all
    note w = spawn_failed_wf [OF this assms(3)] spawn_done_wf [OF this assms(3)]
    assume "(\<exists>e. r = Refused e \<and> g' = spawn_failed p g1) \<or>
       (\<exists>inst. r = Acquired (fst (spawn_done p inst (sv_spawned env) g1)) \<and> g' = snd (spawn_done p inst (sv_spawned env) g1))"
    then show ?thesis using w a by auto
  qed
qed

lemma acquire_spawn_locks:
  assumes "heap_wf g" and "map_of (gw_poolheap g) p = Some pl"
    and "acquire_spawn env name def p g = (r, g')"
  shows "(\<forall>q. spawning_of g' q = spawning_of g q - (if q = p then 1 else 0)) \<and> r \<noteq> WouldBlock \<and>
    (case r of
       Acquired m \<Rightarrow> \<not> busy g m \<and> map_of (gw_mis g') m \<noteq> None \<and> (\<forall>m'. busy g' m' = (m' = m \<or> busy g m'))
     | _ \<Rightarrow> (\<forall>m. busy g' m = busy g m))"
  using assms(3,1)
proof (rule acquire_spawn_cases)
  fix g1 :: Gateway
  assume eq: "gw_poolheap g1 = gw_poolheap g" "gw_mis g1 = gw_mis g" and h: "heap_wf g1"
  have p: "map_of (gw_poolheap g1) p = Some pl" using eq assms(2) by simp
  have b: "busy g1 m = busy g m" "spawning_of g1 q = spawning_of g q" for m q
    by (simp_all add: eq busy_def spawning_of_def)
  assume "(\<exists>e. r = Refused e \<and> g' = spawn_failed p g1) \<or>
    (\<exists>inst. r = Acquired (fst (spawn_done p inst (sv_spawned env) g1)) \<and> g' = snd (spawn_done p inst (sv_spawned env) g1))"
  then show ?thesis
  proof (elim disjE exE conjE)
    fix e
    assume "r = Refused e" and "g' = spawn_failed p g1"
    then show ?thesis using spawn_failed_locks(1) [OF p] by (simp add: b spawn_failed_locks(2))
  next
    fix inst
    assume "r = Acquired (fst (spawn_done p inst (sv_spawned env) g1))" "g' = snd (spawn_done p inst (sv_spawned env) g1)"
    then show ?thesis using spawn_done_locks [OF h p] by (simp add: b)
  qed
qed

lemma acquire_wf: "gateway_wf g \<Longrightarrow> gateway_wf (snd (acquire env name g))"
proof -
  assume wf: "gateway_wf g"
  obtain r g1 where l: "acquire_lookup name g = (r, g1)" by fastforce
  have wf1: "gateway_wf g1" by (rule lookup_wf(1) [OF wf l])
  show ?thesis
  proof (cases r)
    case (Inl e)
    then show ?thesis using l wf1 by (simp add: acquire_def)
  next
    case (Inr dp)
    obtain def p where dp: "dp = (def, p)" by (cases dp)
    obtain sr g2 where s: "acquire_scan p g1 = (sr, g2)" by fastforce
    have wf2: "gateway_wf g2" by (rule scan_wf [OF wf1 s])
    show ?thesis
    proof (cases sr)
      case MaySpawn
      obtain pl where pl: "map_of (gw_poolheap g2) p = Some pl" "0 < pl_spawning pl"
        by (rule spawn_slot [OF wf1 s [unfolded MaySpawn]])
      show ?thesis
        using l Inr dp s MaySpawn acquire_spawn_wf [OF wf2 pl] by (simp add: acquire_def)
    qed (use l Inr dp s wf2 in \<open>simp_all add: acquire_def\<close>)
  qed
qed

lemma busy_lock:
  "map_of (gw_mis g) m \<noteq> None \<Longrightarrow> busy (upd_mi m (\<lambda>mi. mi\<lparr>mi_busy := True\<rparr>) g) m' = (m' = m \<or> busy g m')"
  by (auto simp: busy_upd_mi)

lemma acquire_locks:
  assumes wf: "gateway_wf g" and a: "acquire env name g = (r, g')"
  shows "case r of Acquired m \<Rightarrow> lock_taken g m g' | _ \<Rightarrow> same_locks g g'"
proof -
  obtain lr g1 where l: "acquire_lookup name g = (lr, g1)" by fastforce
  have wf1: "gateway_wf g1" by (rule lookup_wf(1) [OF wf l])
  have s1: "same_locks g g1" using lookup_locks [OF wf, of name] l by simp
  show ?thesis
  proof (cases lr)
    case (Inl e)
    then show ?thesis using l a s1 by (auto simp: acquire_def)
  next
    case (Inr dp)
    obtain def p where dp: "dp = (def, p)" by (cases dp)
    obtain sr g2 where s: "acquire_scan p g1 = (sr, g2)" by fastforce
    obtain pl1 where pl1: "map_of (gw_poolheap g1) p = Some pl1"
      using lookup_wf(2) [OF wf l, of def p] Inr dp by auto
    show ?thesis
    proof (cases sr)
      case (Got m)
      have "map_of (gw_mis g1) m \<noteq> None"
        using scan_got(1) [OF s [unfolded Got]] gateway_poolD [OF wf1 pl1] pl1 by (simp add: instances_of_def)
      then have "lock_taken g1 m g2"
        using scan_got(2,3) [OF s [unfolded Got]] by (simp add: lock_taken_def busy_lock spawning_of_def)
      then show ?thesis using lock_taken_trans [OF s1] l Inr dp s Got a by (auto simp: acquire_def)
    next
      case MustWait
      then show ?thesis using scan_wait(1) [OF s [unfolded MustWait] pl1] s1 l Inr dp s a by (auto simp: acquire_def)
    next
      case MaySpawn
      note sp = scan_spawn(1) [OF s [unfolded MaySpawn]]
      have wf2: "heap_wf g2" using scan_wf [OF wf1 s] by (simp add: gateway_wf_def)
      have pl2: "map_of (gw_poolheap g2) p = Some (pl1\<lparr>pl_spawning := pl_spawning pl1 + 1\<rparr>)" using sp pl1 by simp
      have b: "busy g2 m = busy g1 m" "spawning_of g2 q = spawning_of g1 q + (if q = p then 1 else 0)" for m q
        using sp pl1 by (simp_all add: spawning_of_def)
      have "acquire_spawn env name def p g2 = (r, g')" using l Inr dp s MaySpawn a by (simp add: acquire_def)
      from acquire_spawn_locks [OF wf2 pl2 this] have "case r of Acquired m \<Rightarrow> lock_taken g1 m g' | _ \<Rightarrow> same_locks g1 g'"
        by (cases r) (simp_all add: b lock_taken_def same_locks_def)
      then show ?thesis using lock_taken_trans [OF s1] same_locks_trans [OF s1] by (auto split: acquired.splits)
    qed
  qed
qed

subsection \<open>Serving\<close>

lemma release_locks:
  assumes "lock_taken g m g1" and "\<And>m'. m' \<noteq> m \<Longrightarrow> busy g2 m' = busy g1 m'" and "gw_poolheap g2 = gw_poolheap g1"
  shows "same_locks g (release m g2)"
  using assms by (auto simp: lock_taken_def same_locks_def release_def busy_upd_mi spawning_of_def split: option.split)

lemma serve_instance_locks: "lock_taken g m g1 \<Longrightarrow> same_locks g (snd (serve_instance env r m g1))"
  by (auto simp: serve_instance_def busy_upd_mi intro!: release_locks [of g m g1] split: sum.split)

lemma serve_instance_wf: "gateway_wf g \<Longrightarrow> gateway_wf (snd (serve_instance env r m g))"
  by (simp add: serve_instance_def release_def gateway_wf_mi split: sum.split)

lemma ServeHTTP_eq:
  "ServeHTTP env r limiter g =
     (case parseFunctionPath (rq_Path r) of
        None \<Rightarrow> (Responded not_found, limiter, g)
      | Some (project, name) \<Rightarrow>
          if \<not> may_invoke g r project name then (Responded not_found, limiter, g)
          else
           (let (ok, limiter') = quota_check (registered_project g name) limiter
            in if \<not> ok then (Responded (http_error [] ''quota exceeded'' 429), limiter', g)
               else (let (out, g') = serve_admitted env r name g in (out, limiter', g'))))"
proof (cases "parseFunctionPath (rq_Path r)")
  case (Some pn)
  obtain project name where pn: "pn = (project, name)" by (cases pn)
  obtain a g1 where a: "acquire env name g = (a, g1)" by fastforce
  show ?thesis
    unfolding ServeHTTP_def may_invoke_def quota_check_def serve_admitted_def Some pn
    by (cases limiter; cases a) (auto simp: Let_def a case_prod_unfold)
qed (simp add: ServeHTTP_def)

lemma serve_admitted_locks: "gateway_wf g \<Longrightarrow> same_locks g (snd (serve_admitted env r name g))"
proof -
  assume wf: "gateway_wf g"
  obtain a g1 where a: "acquire env name g = (a, g1)" by fastforce
  then show ?thesis
    using acquire_locks [OF wf a] by (cases a) (simp_all add: serve_admitted_def serve_instance_locks)
qed

lemma serve_admitted_wf: "gateway_wf g \<Longrightarrow> gateway_wf (snd (serve_admitted env r name g))"
proof -
  assume wf: "gateway_wf g"
  obtain a g1 where a: "acquire env name g = (a, g1)" by fastforce
  then show ?thesis
    using acquire_wf [OF wf, of env name] by (cases a) (simp_all add: serve_admitted_def serve_instance_wf)
qed

lemma serve_cases:
  assumes "ServeHTTP env r limiter g = (out, limiter', g')"
  obtains (guard) "out = Responded not_found" "limiter' = limiter" "g' = g"
  | (quota) project name where "parseFunctionPath (rq_Path r) = Some (project, name)" "may_invoke g r project name"
      "out = Responded (http_error [] ''quota exceeded'' 429)" "quota_check (registered_project g name) limiter = (False, limiter')" "g' = g"
  | (run) project name where "parseFunctionPath (rq_Path r) = Some (project, name)" "may_invoke g r project name"
      "quota_check (registered_project g name) limiter = (True, limiter')" "serve_admitted env r name g = (out, g')"
proof (cases "parseFunctionPath (rq_Path r)")
  case None
  then show ?thesis using assms by (intro guard) (simp_all add: ServeHTTP_eq)
next
  case (Some pn)
  obtain project name where pn: "pn = (project, name)" by (cases pn)
  obtain ok l where q: "quota_check (registered_project g name) limiter = (ok, l)" by fastforce
  obtain o1 g1 where s: "serve_admitted env r name g = (o1, g1)" by fastforce
  note eq = assms [unfolded ServeHTTP_eq Some pn, simplified, unfolded q s, simplified]
  consider "\<not> may_invoke g r project name" | "may_invoke g r project name" "\<not> ok" | "may_invoke g r project name" ok
    by blast
  then show ?thesis
  proof cases
    case 1
    then show ?thesis using eq by (intro guard) simp_all
  next
    case 2
    then show ?thesis using eq q Some pn by (intro quota [of project name]) auto
  next
    case 3
    then show ?thesis using eq q s Some pn by (intro run [of project name]) auto
  qed
qed

subsection \<open>Reaping\<close>

lemma roll_up_frame [simp]:
  "pl_instances (roll_up g m pl) = pl_instances pl" "pl_spawning (roll_up g m pl) = pl_spawning pl"
  "pl_maxSize (roll_up g m pl) = pl_maxSize pl"
  by (simp_all add: roll_up_def split: option.split)

lemma fold_roll_up_frame [simp]:
  "pl_instances (fold (roll_up g) ms pl) = pl_instances pl" "pl_spawning (fold (roll_up g) ms pl) = pl_spawning pl"
  "pl_maxSize (fold (roll_up g) ms pl) = pl_maxSize pl"
  by (induction ms arbitrary: pl) simp_all

lemma wrapu64_add [simp]: "wrapu64 (wrapu64 a + b) = wrapu64 (a + b)" "wrapu64 (a + wrapu64 b) = wrapu64 (a + b)"
  "wrapu64 (wrapu64 a) = wrapu64 a"
  by (simp_all add: wrapu64_def mod_add_left_eq mod_add_right_eq)

lemma fold_roll_up_invokes:
  "wrapu64 (pl_lifetimeInvokes (fold (roll_up g) ms pl)) =
     wrapu64 (pl_lifetimeInvokes pl + sum_list (map (invokes_of g) ms))"
proof (induction ms arbitrary: pl)
  case (Cons m ms)
  have "wrapu64 (pl_lifetimeInvokes (roll_up g m pl)) = wrapu64 (pl_lifetimeInvokes pl + invokes_of g m)"
    by (simp add: roll_up_def invokes_of_def split: option.split)
  then have "wrapu64 (pl_lifetimeInvokes (roll_up g m pl) + k) = wrapu64 (pl_lifetimeInvokes pl + invokes_of g m + k)" for k
    by (metis wrapu64_add(1))
  then show ?case using Cons [of "roll_up g m pl"] by (simp add: add.assoc)
qed simp

lemma fold_roll_up_errors:
  "wrapu64 (pl_lifetimeErrors (fold (roll_up g) ms pl)) =
     wrapu64 (pl_lifetimeErrors pl + sum_list (map (errors_of g) ms))"
proof (induction ms arbitrary: pl)
  case (Cons m ms)
  have "wrapu64 (pl_lifetimeErrors (roll_up g m pl)) = wrapu64 (pl_lifetimeErrors pl + errors_of g m)"
    by (simp add: roll_up_def errors_of_def split: option.split)
  then have "wrapu64 (pl_lifetimeErrors (roll_up g m pl) + k) = wrapu64 (pl_lifetimeErrors pl + errors_of g m + k)" for k
    by (metis wrapu64_add(1))
  then show ?case using Cons [of "roll_up g m pl"] by (simp add: add.assoc)
qed simp

text \<open>What a fold of updates on instances does to one of them, and what it leaves alone.\<close>

lemma fold_upd_mi_frame [simp]:
  "gw_poolheap (fold (\<lambda>m. upd_mi m f) ms g) = gw_poolheap g" "gw_idleTTL (fold (\<lambda>m. upd_mi m f) ms g) = gw_idleTTL g"
  "gw_pools (fold (\<lambda>m. upd_mi m f) ms g) = gw_pools g" "gw_functions (fold (\<lambda>m. upd_mi m f) ms g) = gw_functions g"
  "gw_store (fold (\<lambda>m. upd_mi m f) ms g) = gw_store g" "gw_next (fold (\<lambda>m. upd_mi m f) ms g) = gw_next g"
  by (induction ms arbitrary: g) simp_all

lemma fold_upd_mi_get:
  "distinct ms \<Longrightarrow> map_of (gw_mis (fold (\<lambda>m. upd_mi m f) ms g)) m =
     (if m \<in> set ms then map_option f (map_of (gw_mis g) m) else map_of (gw_mis g) m)"
  by (induction ms arbitrary: g) auto

lemma fold_upd_mi_wf: "gateway_wf g \<Longrightarrow> gateway_wf (fold (\<lambda>m. upd_mi m f) ms g)"
  by (induction ms arbitrary: g) (simp_all add: gateway_wf_mi)

lemma close_release: "release m (close_instance m g) = upd_mi m (\<lambda>mi. mi\<lparr>mi_inst := (mi_inst mi)\<lparr>in_closed := True\<rparr>, mi_busy := False\<rparr>) g"
  by (simp add: release_def close_instance_def upd_mi_def split: option.split)

lemma distinct_instances: "heap_wf g \<Longrightarrow> distinct (instances_of g p)"
  by (cases "map_of (gw_poolheap g) p") (auto simp: instances_of_def pool_ok_def dest: heap_poolD)

lemma reap_pool_facts:
  assumes "heap_wf g" and "reap_pool now p g = (vs, g')"
  shows "vs = victims_of now g p"
    and "map_of (gw_poolheap g') q = (if q = p then map_option (reaped_pool now g p) (map_of (gw_poolheap g) p) else map_of (gw_poolheap g) q)"
    and "map_of (gw_mis g') m =
      (if m \<in> set (victims_of now g p) then map_option (\<lambda>mi. mi\<lparr>mi_busy := True\<rparr>) (map_of (gw_mis g) m) else map_of (gw_mis g) m)"
    and "gw_pools g' = gw_pools g" "gw_functions g' = gw_functions g" "gw_store g' = gw_store g"
    and "gw_idleTTL g' = gw_idleTTL g" "gw_next g' = gw_next g"
proof -
  have eq: "reap_pool now p g = (victims_of now g p,
      fold (\<lambda>m. upd_mi m (\<lambda>mi. mi\<lparr>mi_busy := True\<rparr>)) (victims_of now g p) (upd_pool p (reaped_pool now g p) g))"
    by (simp add: reap_pool_def Let_def victims_of_def reaped_pool_def [abs_def])
  have d: "distinct (victims_of now g p)" using distinct_instances [OF assms(1), of p] by (simp add: victims_of_def)
  show "vs = victims_of now g p" "gw_pools g' = gw_pools g" "gw_functions g' = gw_functions g" "gw_store g' = gw_store g"
    "gw_idleTTL g' = gw_idleTTL g" "gw_next g' = gw_next g"
    "map_of (gw_poolheap g') q = (if q = p then map_option (reaped_pool now g p) (map_of (gw_poolheap g) p) else map_of (gw_poolheap g) q)"
    using assms(2) eq by auto
  show "map_of (gw_mis g') m =
      (if m \<in> set (victims_of now g p) then map_option (\<lambda>mi. mi\<lparr>mi_busy := True\<rparr>) (map_of (gw_mis g) m) else map_of (gw_mis g) m)"
    using assms(2) eq d by (auto simp: fold_upd_mi_get)
qed

lemma reaped_pool_ok:
  assumes "map_of (gw_poolheap g) p = Some pl" and "pool_ok pl"
  shows "pool_ok (reaped_pool now g p pl)" and "set (pl_instances (reaped_pool now g p pl)) \<subseteq> set (pl_instances pl)"
proof -
  have i: "instances_of g p = pl_instances pl" using assms(1) by (simp add: instances_of_def)
  have "int (length (filter (\<lambda>m. \<not> reapable now g m) (pl_instances pl))) \<le> int (length (pl_instances pl))"
    using length_filter_le of_nat_le_iff by blast
  with assms(2) show "pool_ok (reaped_pool now g p pl)"
    unfolding pool_ok_def reaped_pool_def i by (auto simp del: length_filter_le)
  show "set (pl_instances (reaped_pool now g p pl)) \<subseteq> set (pl_instances pl)"
    by (simp add: reaped_pool_def i)
qed

lemma reap_pool_wf: "gateway_wf g \<Longrightarrow> gateway_wf (snd (reap_pool now p g))"
proof -
  assume wf: "gateway_wf g"
  have "gateway_wf (upd_pool p (reaped_pool now g p) g)"
    using reaped_pool_ok gateway_poolD [OF wf] by (intro gateway_wf_pool [OF wf]) blast
  from fold_upd_mi_wf [OF this] show ?thesis
    by (simp add: reap_pool_def Let_def reaped_pool_def [abs_def] victims_of_def)
qed

end
