(* ===== verification/Gateway_Laws.thy ===== *)
theory Gateway_Laws
  imports Gateway
begin

text \<open>
  The laws of package \<open>internal/gateway\<close>: what the reaper, the registry and the request handler
  do to a well-formed gateway.
\<close>

section \<open>Definitions\<close>

text \<open>The state after the reaper has visited the pools \<open>ps\<close>: the victims and what is left.\<close>

definition reap_result :: "time \<Rightarrow> nat list \<Rightarrow> Gateway \<Rightarrow> nat list \<Rightarrow> Gateway \<Rightarrow> bool" where
  "reap_result now ps g vs g' \<longleftrightarrow>
     gateway_wf g' \<and> set vs = {m. \<exists>p \<in> set ps. m \<in> set (victims_of now g p)} \<and> distinct vs \<and>
     (\<forall>q. map_of (gw_poolheap g') q =
       (if q \<in> set ps then map_option (reaped_pool now g q) (map_of (gw_poolheap g) q) else map_of (gw_poolheap g) q)) \<and>
     (\<forall>m. map_of (gw_mis g') m =
       (if m \<in> set vs then map_option (\<lambda>mi. mi\<lparr>mi_busy := True\<rparr>) (map_of (gw_mis g) m) else map_of (gw_mis g) m)) \<and>
     gw_pools g' = gw_pools g \<and> gw_functions g' = gw_functions g \<and> gw_store g' = gw_store g \<and>
     gw_idleTTL g' = gw_idleTTL g \<and> gw_next g' = gw_next g"

text \<open>All requests and failures a pool has seen, whether their instance is still there or was reaped.\<close>

definition total_invokes :: "Gateway \<Rightarrow> nat \<Rightarrow> nat" where
  "total_invokes g p =
     (case map_of (gw_poolheap g) p of
        None \<Rightarrow> 0
      | Some pl \<Rightarrow> wrapu64 (pl_lifetimeInvokes pl + sum_list (map (invokes_of g) (pl_instances pl))))"

definition total_errors :: "Gateway \<Rightarrow> nat \<Rightarrow> nat" where
  "total_errors g p =
     (case map_of (gw_poolheap g) p of
        None \<Rightarrow> 0
      | Some pl \<Rightarrow> wrapu64 (pl_lifetimeErrors pl + sum_list (map (errors_of g) (pl_instances pl))))"

definition victim :: "time \<Rightarrow> Gateway \<Rightarrow> nat \<Rightarrow> bool" where
  "victim now g m \<longleftrightarrow> (\<exists>p \<in> set (map snd (gw_pools g)). m \<in> set (victims_of now g p))"

section \<open>Lemmas\<close>

subsection \<open>Reaping\<close>

lemma fold_close_release:
  "fold (\<lambda>m g. release m (close_instance m g)) ms g =
     fold (\<lambda>m. upd_mi m (\<lambda>mi. mi\<lparr>mi_inst := (mi_inst mi)\<lparr>in_closed := True\<rparr>, mi_busy := False\<rparr>)) ms g"
  by (simp add: close_release)

lemma fold_roll_up_cong:
  "\<forall>m \<in> set ms. map_of (gw_mis g) m = map_of (gw_mis h) m \<Longrightarrow> fold (roll_up g) ms pl = fold (roll_up h) ms pl"
proof (induction ms arbitrary: pl)
  case (Cons m ms)
  then have "roll_up g m pl = roll_up h m pl" by (simp add: roll_up_def)
  with Cons show ?case by simp
qed simp

lemma reapable_cong:
  "map_of (gw_mis g) m = map_of (gw_mis h) m \<Longrightarrow> gw_idleTTL g = gw_idleTTL h \<Longrightarrow> reapable now g m = reapable now h m"
  by (simp add: reapable_def split: option.split)

lemma heap_disjointD: "heap_wf g \<Longrightarrow> m \<in> set (instances_of g p) \<Longrightarrow> m \<in> set (instances_of g q) \<Longrightarrow> p = q"
  by (auto simp: heap_wf_def)

text \<open>A pool that the reaper has not visited yet looks to it as it did at the start.\<close>

lemma reap_pool_other:
  assumes wf: "heap_wf g" and r: "reap_pool now p g = (vs, g')" and "q \<noteq> p"
  shows "instances_of g' q = instances_of g q" and "m \<in> set (instances_of g q) \<Longrightarrow> reapable now g' m = reapable now g m"
    and "victims_of now g' q = victims_of now g q" and "reaped_pool now g' q = reaped_pool now g q"
proof -
  note facts = reap_pool_facts [OF wf r]
  have out: "m \<notin> set (victims_of now g p)" if "m \<in> set (instances_of g q)" for m
    using heap_disjointD [OF wf _ that, of p] \<open>q \<noteq> p\<close> by (auto simp: victims_of_def)
  show inst: "instances_of g' q = instances_of g q"
    using \<open>q \<noteq> p\<close> by (simp add: instances_of_def facts(2))
  have mis: "map_of (gw_mis g') m = map_of (gw_mis g) m" if "m \<in> set (instances_of g q)" for m
    using out [OF that] by (simp add: facts(3))
  show rp: "reapable now g' m = reapable now g m" if "m \<in> set (instances_of g q)" for m
    by (rule reapable_cong [OF mis [OF that] facts(7)])
  show vq: "victims_of now g' q = victims_of now g q"
    by (simp add: victims_of_def inst rp cong: filter_cong)
  have "fold (roll_up g') (victims_of now g q) pl = fold (roll_up g) (victims_of now g q) pl" for pl
    by (rule fold_roll_up_cong) (simp add: victims_of_def mis)
  then show "reaped_pool now g' q = reaped_pool now g q"
    by (simp add: reaped_pool_def fun_eq_iff vq inst rp cong: filter_cong)
qed

text \<open>A pool visited a second time in the same round has nothing left to reap.\<close>

lemma reap_pool_again:
  assumes wf: "heap_wf g" and r: "reap_pool now p g = (vs, g')"
  shows "victims_of now g' p = []" and "map_option (reaped_pool now g' p) (map_of (gw_poolheap g') p) = map_of (gw_poolheap g') p"
proof -
  note facts = reap_pool_facts [OF wf r]
  have inst: "instances_of g' p = filter (\<lambda>m. \<not> reapable now g m) (instances_of g p)"
    by (cases "map_of (gw_poolheap g) p") (simp_all add: instances_of_def facts(2) reaped_pool_def)
  have rp: "\<not> reapable now g' m" if "m \<in> set (instances_of g' p)" for m
  proof -
    have "m \<notin> set (victims_of now g p)" "\<not> reapable now g m" using that by (auto simp: inst victims_of_def)
    then show ?thesis using reapable_cong [of g' m g now] by (simp add: facts)
  qed
  then show v: "victims_of now g' p = []" by (simp add: victims_of_def filter_empty_conv)
  have "filter (\<lambda>m. \<not> reapable now g' m) (instances_of g' p) = instances_of g' p"
    using rp by (simp add: filter_id_conv)
  then show "map_option (reaped_pool now g' p) (map_of (gw_poolheap g') p) = map_of (gw_poolheap g') p"
    by (cases "map_of (gw_poolheap g') p") (simp_all add: reaped_pool_def v, simp add: instances_of_def)
qed

lemma reap_pools_facts:
  "gateway_wf g \<Longrightarrow> reap_pools now ps g = (vs, g') \<Longrightarrow> reap_result now ps g vs g'"
proof (induction ps arbitrary: g vs g')
  case (Cons p ps)
  obtain v1 g1 where r1: "reap_pool now p g = (v1, g1)" by fastforce
  obtain v2 g2 where r2: "reap_pools now ps g1 = (v2, g2)" by fastforce
  have eqs: "vs = v1 @ v2" "g' = g2" using Cons.prems(2) r1 r2 by simp_all
  have wf: "heap_wf g" using Cons.prems(1) by (simp add: gateway_wf_def)
  have wf1: "gateway_wf g1" using reap_pool_wf [OF Cons.prems(1), of now p] r1 by simp
  note f = reap_pool_facts [OF wf r1] and other = reap_pool_other [OF wf r1] and again = reap_pool_again [OF wf r1]
  have ih: "reap_result now ps g1 v2 g2" by (rule Cons.IH [OF wf1 r2])
  have v: "set (victims_of now g1 q) = (if q = p then {} else set (victims_of now g q))" for q
    using other(3) [of q] again(1) by simp
  have disj: "p = q" if "m \<in> set (victims_of now g p)" "m \<in> set (victims_of now g q)" for m q
    using heap_disjointD [OF wf, of m p q] that by (simp add: victims_of_def)
  have set2: "set v2 = {m. \<exists>q \<in> set ps. q \<noteq> p \<and> m \<in> set (victims_of now g q)}"
    using ih v by (auto simp: reap_result_def split: if_splits)
  have pools: "map_of (gw_poolheap g2) q = (if q \<in> set (p # ps) then map_option (reaped_pool now g q) (map_of (gw_poolheap g) q) else map_of (gw_poolheap g) q)" for q
  proof (cases "q = p")
    case True
    with ih again(2) f(2) [of p] show ?thesis by (simp add: reap_result_def split: if_splits)
  next
    case False
    with ih other(4) [of q] f(2) [of q] show ?thesis by (simp add: reap_result_def split: if_splits)
  qed
  have mis: "map_of (gw_mis g2) m = (if m \<in> set (v1 @ v2) then map_option (\<lambda>mi. mi\<lparr>mi_busy := True\<rparr>) (map_of (gw_mis g) m) else map_of (gw_mis g) m)" for m
    using ih f(3) [of m] set2 disj by (auto simp: reap_result_def f(1) option.map_comp comp_def)
  have "distinct v1" using distinct_instances [OF wf, of p] by (simp add: f(1) victims_of_def)
  moreover have "distinct v2" using ih by (simp add: reap_result_def)
  ultimately have dist: "distinct (v1 @ v2)" using set2 disj by (auto simp: f(1))
  have sets: "set (v1 @ v2) = {m. \<exists>q \<in> set (p # ps). m \<in> set (victims_of now g q)}"
    using set2 by (auto simp: f(1))
  show ?case unfolding eqs reap_result_def using ih sets dist pools mis f(4-8) by (simp add: reap_result_def)
qed (simp add: reap_result_def)

lemma reapOnce_facts:
  assumes wf: "gateway_wf g"
  shows "gateway_wf (reapOnce now g)"
    and "map_of (gw_poolheap (reapOnce now g)) q =
      (if q \<in> set (map snd (gw_pools g)) then map_option (reaped_pool now g q) (map_of (gw_poolheap g) q) else map_of (gw_poolheap g) q)"
    and "map_of (gw_mis (reapOnce now g)) m =
      (if victim now g m then map_option (\<lambda>mi. mi\<lparr>mi_inst := (mi_inst mi)\<lparr>in_closed := True\<rparr>, mi_busy := False\<rparr>) (map_of (gw_mis g) m)
       else map_of (gw_mis g) m)"
    and "gw_pools (reapOnce now g) = gw_pools g" and "gw_functions (reapOnce now g) = gw_functions g"
    and "gw_store (reapOnce now g) = gw_store g"
proof -
  obtain vs g1 where r: "reap_pools now (map snd (gw_pools g)) g = (vs, g1)" by fastforce
  have eq: "reapOnce now g =
      fold (\<lambda>m. upd_mi m (\<lambda>mi. mi\<lparr>mi_inst := (mi_inst mi)\<lparr>in_closed := True\<rparr>, mi_busy := False\<rparr>)) vs g1"
    by (simp add: reapOnce_def r fold_close_release)
  have res: "reap_result now (map snd (gw_pools g)) g vs g1" by (rule reap_pools_facts [OF wf r])
  then have wf1: "gateway_wf g1" and d: "distinct vs" and v: "m \<in> set vs \<longleftrightarrow> victim now g m" for m
    by (simp_all add: reap_result_def victim_def)
  show "gateway_wf (reapOnce now g)" unfolding eq by (rule fold_upd_mi_wf [OF wf1])
  show "gw_pools (reapOnce now g) = gw_pools g" "gw_functions (reapOnce now g) = gw_functions g"
    "gw_store (reapOnce now g) = gw_store g"
    "map_of (gw_poolheap (reapOnce now g)) q =
      (if q \<in> set (map snd (gw_pools g)) then map_option (reaped_pool now g q) (map_of (gw_poolheap g) q) else map_of (gw_poolheap g) q)"
    using res by (simp_all add: eq reap_result_def)
  show "map_of (gw_mis (reapOnce now g)) m =
      (if victim now g m then map_option (\<lambda>mi. mi\<lparr>mi_inst := (mi_inst mi)\<lparr>in_closed := True\<rparr>, mi_busy := False\<rparr>) (map_of (gw_mis g) m)
       else map_of (gw_mis g) m)"
    using res d v by (simp add: eq fold_upd_mi_get reap_result_def option.map_comp comp_def)
qed

lemma sum_list_filter_split:
  fixes f :: "'a \<Rightarrow> nat"
  shows "sum_list (map f (filter P xs)) + sum_list (map f (filter (\<lambda>x. \<not> P x) xs)) = sum_list (map f xs)"
  by (induction xs) simp_all

lemma counters_after_reap:
  assumes "gateway_wf g"
  shows "invokes_of (reapOnce now g) = invokes_of g" and "errors_of (reapOnce now g) = errors_of g"
  by (simp_all add: fun_eq_iff invokes_of_def errors_of_def reapOnce_facts [OF assms] split: option.split)

lemma reap_conserves:
  assumes wf: "gateway_wf g"
  shows "total_invokes (reapOnce now g) p = total_invokes g p" and "total_errors (reapOnce now g) p = total_errors g p"
proof -
  have split: "wrapu64 (a + sum_list (map (f g) (victims_of now g p)) + sum_list (map (f g) (filter (\<lambda>m. \<not> reapable now g m) (instances_of g p)))) =
      wrapu64 (a + sum_list (map (f g) (instances_of g p)))" for a :: nat and f :: "Gateway \<Rightarrow> nat \<Rightarrow> nat"
    using sum_list_filter_split [of "f g" "reapable now g" "instances_of g p"] by (simp add: victims_of_def add.assoc)
  have i: "wrapu64 (pl_lifetimeInvokes (fold (roll_up g) ms pl) + k) = wrapu64 (pl_lifetimeInvokes pl + sum_list (map (invokes_of g) ms) + k)"
    and e: "wrapu64 (pl_lifetimeErrors (fold (roll_up g) ms pl) + k) = wrapu64 (pl_lifetimeErrors pl + sum_list (map (errors_of g) ms) + k)" for ms pl k
    by (metis fold_roll_up_invokes wrapu64_add(1), metis fold_roll_up_errors wrapu64_add(1))
  have inst: "instances_of g p = pl_instances pl" if "map_of (gw_poolheap g) p = Some pl" for pl
    using that by (simp add: instances_of_def)
  show "total_invokes (reapOnce now g) p = total_invokes g p"
    using split [where f = invokes_of] inst
    by (auto simp: total_invokes_def reapOnce_facts(2) [OF wf] counters_after_reap [OF wf] reaped_pool_def i split: option.split)
  show "total_errors (reapOnce now g) p = total_errors g p"
    using split [where f = errors_of] inst
    by (auto simp: total_errors_def reapOnce_facts(2) [OF wf] counters_after_reap [OF wf] reaped_pool_def e split: option.split)
qed

end
