(* ===== verification/Gateway_Serving.thy ===== *)
theory Gateway_Serving
  imports Gateway_Laws
begin

text \<open>
  The properties of package \<open>internal/gateway\<close>: what a request can reach and observe, that every
  path gives its locks and spawn slots back, the registry and its mirror of the store, and the
  reaper.
\<close>

section \<open>Definitions\<close>

definition demo_def :: FunctionDef where
  "demo_def = \<lparr>fd_Name = ''hello'', fd_Binary = ''/bin/hello'', fd_Env = [], fd_Layers = [],
     fd_MaxConcurrency = 1, fd_Project = ''acme''\<rparr>"

definition demo_gateway :: Gateway where
  "demo_gateway = snd (RegisterDef 1 2 demo_def (NewWithOptions NewInMemStore 0 0))"

definition demo_env :: ServeEnv where
  "demo_env = \<lparr>sv_resolve = \<lambda>ls. (None, ls), sv_spawn = \<lambda>d. Inr (''native'', 5),
     sv_invoke = \<lambda>m f. fst (Invoke conn_write (conn_read id id demo_handler) \<lparr>sc_in = [], sc_out = []\<rparr> f),
     sv_reqID = ''00ff'', sv_spawned = unix_epoch + 10, sv_start = unix_epoch + 10, sv_end = unix_epoch + 20,
     sv_wireText = \<lambda>e. '''', sv_jsonText = \<lambda>s. ''''\<rparr>"

text \<open>The gateway with one warm instance, locked by the request that spawned it.\<close>

definition demo_warm :: Gateway where
  "demo_warm = snd (acquire demo_env ''hello'' demo_gateway)"

text \<open>A definition with the defaults of \<open>RegisterDefAs\<close>.\<close>

definition defaulted :: "FunctionDef \<Rightarrow> FunctionDef" where
  "defaulted d = (normal_def d)\<lparr>fd_Project := (if fd_Project d = [] then ''default'' else fd_Project d)\<rparr>"

section \<open>Lemmas\<close>

subsection \<open>The sample gateway\<close>

lemma demo_gateway_wf: "gateway_wf demo_gateway"
  unfolding demo_gateway_def RegisterDef_def
  by (intro gateway_wf_register gateway_wf_new store_reachable_wf store_reachable.intros)

lemma demo_gateway_functions: "gw_functions demo_gateway = [(''hello'', demo_def)]" "gw_pools demo_gateway = []"
  "gw_poolheap demo_gateway = []" "gw_mis demo_gateway = []" "gw_next demo_gateway = 0" "gw_idleTTL demo_gateway = DefaultIdleTTL"
  by code_simp+

lemma demo_acquire:
  "fst (acquire demo_env ''hello'' demo_gateway) = Acquired 1" "gw_pools demo_warm = [(''hello'', 0)]"
  "instances_of demo_warm 0 = [1]" "busy demo_warm 1"
  by code_simp+


subsection \<open>Waiting\<close>

text \<open>A pool in which a request has to wait: full, and every instance in use.\<close>

lemma acquire_blocks:
  assumes wf: "gateway_wf g" and a: "acquire env name g = (WouldBlock, g')"
  shows "g' = g" and "\<exists>p pl. map_of (gw_pools g) name = Some p \<and> map_of (gw_poolheap g) p = Some pl \<and>
    (\<forall>m \<in> set (pl_instances pl). busy g m) \<and> int (length (pl_instances pl)) + pl_spawning pl = pl_maxSize pl"
proof -
  obtain r g1 where l: "acquire_lookup name g = (r, g1)" by fastforce
  with a obtain def p where r: "r = Inr (def, p)" by (cases r) (auto simp: acquire_def)
  obtain sr g2 where s: "acquire_scan p g1 = (sr, g2)" by fastforce
  have heap: "heap_wf g2" using scan_wf [OF lookup_wf(1) [OF wf l] s] by (simp add: gateway_wf_def)
  have w: "sr = MustWait \<and> g' = g2"
  proof (cases sr)
    case MaySpawn
    then have sp: "acquire_spawn env name def p g2 = (WouldBlock, g')" using a l r s by (simp add: acquire_def)
    then show ?thesis using heap by (rule acquire_spawn_cases) auto
  qed (use a l r s in \<open>simp_all add: acquire_def\<close>)
  note facts = lookup_wf(2) [OF wf l r]
  then obtain pl where pl: "map_of (gw_poolheap g1) p = Some pl" by auto
  note wait = scan_wait [OF s [unfolded w [THEN conjunct1]] pl]
  have ok: "pool_ok pl" using gateway_poolD [OF lookup_wf(1) [OF wf l] pl] by simp
  have old: "map_of (gw_pools g) name \<noteq> None"
  proof
    assume none: "map_of (gw_pools g) name = None"
    then have "pl = newPool (fd_MaxConcurrency def)" using l r facts pl by (auto simp: acquire_lookup_def Let_def)
    then show False using ok wait(3) by (simp add: pool_ok_def newPool_def)
  qed
  then have g1: "g1 = g" using l facts by (auto simp: acquire_lookup_def split: option.splits)
  show "g' = g" using w wait(1) g1 by simp
  show "\<exists>p pl. map_of (gw_pools g) name = Some p \<and> map_of (gw_poolheap g) p = Some pl \<and>
    (\<forall>m \<in> set (pl_instances pl). busy g m) \<and> int (length (pl_instances pl)) + pl_spawning pl = pl_maxSize pl"
    using facts pl wait(2,3) ok unfolding g1 pool_ok_def by force
qed

lemma serve_admitted_blocks:
  assumes "gateway_wf g" and "serve_admitted env r name g = (Blocked, g')"
  shows "acquire env name g = (WouldBlock, g')"
proof -
  obtain a g1 where a: "acquire env name g = (a, g1)" by fastforce
  have nb: "fst (serve_instance env r m h) \<noteq> Blocked" for m h
    by (simp add: serve_instance_def write_reply_def write_response_def Let_def split: sum.split option.split)
  show ?thesis
  proof (cases a)
    case (Acquired m)
    then show ?thesis using assms(2) a nb [of m g1] by (cases "serve_instance env r m g1") (simp add: serve_admitted_def)
  qed (use assms(2) a in \<open>simp_all add: serve_admitted_def\<close>)
qed

subsection \<open>Routes\<close>

lemma fn_path: "parseFunctionPath (''/fn/'' @ n) = Some ([], n)"
  by (simp add: parseFunctionPath_def has_prefix_def trim_prefix_def)

lemma v1_path:
  "parseFunctionPath (''/v1/'' @ rest) =
     (case cut rest (CHR ''/'') of (pr, after, ok) \<Rightarrow>
        if ok \<and> has_prefix after ''fn/'' then Some (pr, trim_prefix after ''fn/'') else None)"
  by (simp add: parseFunctionPath_def has_prefix_def trim_prefix_def Let_def split: prod.split)

lemma other_path: "\<not> has_prefix p ''/fn/'' \<Longrightarrow> \<not> has_prefix p ''/v1/'' \<Longrightarrow> parseFunctionPath p = None"
  by (simp add: parseFunctionPath_def)

lemma v1_path_built: "CHR ''/'' \<notin> set project \<Longrightarrow> parseFunctionPath (''/v1/'' @ project @ ''/fn/'' @ name) = Some (project, name)"
  unfolding v1_path using cut_append [of "CHR ''/''" project "''fn/'' @ name"] by (simp add: has_prefix_def trim_prefix_def)

lemma v1_path_parsed:
  assumes "parseFunctionPath (''/v1/'' @ rest) = Some (project, name)"
  shows "CHR ''/'' \<notin> set project \<and> rest = project @ ''/fn/'' @ name"
proof -
  obtain pr after ok where c: "cut rest (CHR ''/'') = (pr, after, ok)" by (metis prod_cases3)
  with assms have "ok" "has_prefix after ''fn/''" "pr = project" "name = trim_prefix after ''fn/''"
    unfolding v1_path by (simp_all split: if_splits)
  then show ?thesis using c cut_TrueD [of rest "CHR ''/''" pr after] trim_prefix_inverse [of after "''fn/''"] by simp
qed

subsection \<open>Registering\<close>

lemma defaulted_facts [simp]:
  "fd_Name (defaulted d) = fd_Name d" "normal_def (defaulted d) = defaulted d" "fd_Project (defaulted d) \<noteq> []"
  by (simp_all add: defaulted_def normal_def_def DefaultMaxConcurrency_def)

lemma register_eq:
  assumes "IsValidFunctionName (fd_Name d)"
  shows "RegisterDefAs now1 now2 d actor g =
    (None, (applyPut (defaulted d) (g\<lparr>gw_store := PutFunction now1 (toStateDef (defaulted d)) (gw_store g)\<rparr>))
       \<lparr>gw_store := AppendAudit now2 (audit_entry (fd_Project (defaulted d)) actor ''function.put'' (fd_Name d))
          (PutFunction now1 (toStateDef (defaulted d)) (gw_store g))\<rparr>)"
proof -
  let ?n = "if fd_MaxConcurrency d \<le> 0 then d\<lparr>fd_MaxConcurrency := DefaultMaxConcurrency\<rparr> else d"
  have "(if fd_Project ?n = [] then ?n\<lparr>fd_Project := ''default''\<rparr> else ?n) = defaulted d"
    by (simp add: defaulted_def normal_def_def)
  then show ?thesis using assms unfolding RegisterDefAs_def Let_def by simp
qed

lemma put_function_store:
  "sf_Project d \<noteq> [] \<Longrightarrow>
     st_functions (PutFunction now d s) = map_put (sf_Name d) (d\<lparr>sf_UpdatedAt := now\<rparr>) (st_functions s)"
  by (simp add: PutFunction_def Let_def broadcast_def cloneFunc_def)

lemma store_after_audit:
  "st_functions (AppendAudit now e s) = st_functions s"
  "tenancy_wf s \<Longrightarrow> st_audit (AppendAudit now e s) =
     st_audit s @ [(if ae_TS e = 0 then e\<lparr>ae_TS := now\<rparr> else e)\<lparr>ae_ID := nextAuditID (ensureTenancyMaps s)\<rparr>]"
  by (simp_all add: AppendAudit_def Let_def ensure_id)

lemma put_function_audit: "st_audit (PutFunction now d s) = st_audit s"
  by (simp add: PutFunction_def Let_def broadcast_def)

lemma applyPut_closes:
  assumes "map_of (gw_pools g) (fd_Name d) = Some p" and "m \<in> set (instances_of g p)"
    and "map_of (gw_mis (applyPut d g)) m = Some mi"
  shows "in_closed (mi_inst mi)"
proof -
  let ?h = "g\<lparr>gw_pools := map_del (fd_Name d) (gw_pools g), gw_functions := map_put (fd_Name d) (normal_def d) (gw_functions g)\<rparr>"
  have "applyPut d g = closeAll p ?h" using assms(1) by (simp add: applyPut_eq)
  moreover have "instances_of ?h p = instances_of g p" by (simp add: instances_of_def)
  ultimately show ?thesis using assms(2,3) by (auto simp: closeAll_mis)
qed

section \<open>Properties\<close>



text \<open>
  (C4) Isolation of projects: a key of one project that asks for a function of another project
  gets 404, no quota is charged and nothing changes; and unless its project is \<open>default\<close>, it gets
  the very same answer when the function does not exist, so it cannot find out which functions
  other projects have.
\<close>

theorem foreign_function_hidden:
  assumes "id_KeyID (FromContext r) \<noteq> []" and "id_Project (FromContext r) \<noteq> ''*''"
    and "parseFunctionPath (rq_Path r) = Some (project, name)"
    and "registered_project g name \<noteq> id_Project (FromContext r)"
  shows "ServeHTTP env r limiter g = (Responded not_found, limiter, g) \<and>
    (id_Project (FromContext r) \<noteq> ''default'' \<longrightarrow>
      (let g' = g\<lparr>gw_functions := map_del name (gw_functions g)\<rparr>
       in ServeHTTP env r limiter g' = (Responded not_found, limiter, g')))"
  using assms by (auto simp: ServeHTTP_eq may_invoke_def Let_def registered_project_def)

theorem foreign_function_hidden_witness:
  "let r = (demo_request '''')\<lparr>rq_Identity := Some \<lparr>id_KeyID = ''k2'', id_Project = ''rival'', id_Scopes = []\<rparr>\<rparr>;
       g' = demo_gateway\<lparr>gw_functions := []\<rparr>
   in ServeHTTP demo_env r None demo_gateway = (Responded not_found, None, demo_gateway) \<and>
      ServeHTTP demo_env r None g' = (Responded not_found, None, g')"
proof -
  let ?r = "(demo_request '''')\<lparr>rq_Identity := Some \<lparr>id_KeyID = ''k2'', id_Project = ''rival'', id_Scopes = []\<rparr>\<rparr>"
  have i: "id_KeyID (FromContext ?r) \<noteq> []" "id_Project (FromContext ?r) = ''rival''" by (simp_all add: FromContext_def)
  have p: "parseFunctionPath (rq_Path ?r) = Some ([], ''hello'')" by code_simp
  have "registered_project demo_gateway ''hello'' = ''acme''" by code_simp
  then show ?thesis
    using foreign_function_hidden [OF i(1) _ p, of demo_gateway demo_env None] i(2) by (simp add: Let_def demo_gateway_functions)
qed


text \<open>
  (C6) Requests that are turned away cost nothing: over its quota a request gets 429 and the
  gateway is untouched; a body above 8 MiB gets 413 once an instance was acquired, and no frame
  reaches an instance: the outcome is the same whatever the instances would reply, and no counter
  of an instance changes.
\<close>

theorem serve_turned_away:
  assumes "parseFunctionPath (rq_Path r) = Some (project, name)" and "may_invoke g r project name"
  shows "(quota_check (registered_project g name) limiter = (False, limiter') \<longrightarrow>
      ServeHTTP env r limiter g = (Responded (http_error [] ''quota exceeded'' 429), limiter', g)) \<and>
    (MaxRequestBody < length (rq_Body r) \<longrightarrow>
      ServeHTTP (env\<lparr>sv_invoke := f\<rparr>) r limiter g = ServeHTTP env r limiter g \<and>
      (quota_check (registered_project g name) limiter = (True, limiter') \<longrightarrow> acquire env name g = (Acquired m, g1) \<longrightarrow>
       ServeHTTP env r limiter g = (Responded (http_error [] ''request body too large'' 413), limiter', release m g1)))"
proof -
  have e: "sv_resolve (env\<lparr>sv_invoke := f\<rparr>) = sv_resolve env" "sv_spawn (env\<lparr>sv_invoke := f\<rparr>) = sv_spawn env"
    "sv_spawned (env\<lparr>sv_invoke := f\<rparr>) = sv_spawned env" by simp_all
  have sp: "acquire_spawn (env\<lparr>sv_invoke := f\<rparr>) = acquire_spawn env"
    unfolding fun_eq_iff acquire_spawn_def e by simp
  have a: "acquire (env\<lparr>sv_invoke := f\<rparr>) name g = acquire env name g"
    unfolding acquire_def sp ..
  have "serve_instance (env\<lparr>sv_invoke := f\<rparr>) r m h = serve_instance env r m h" if "MaxRequestBody < length (rq_Body r)" for m h
    using that by (simp add: serve_instance_def)
  then have sa: "serve_admitted (env\<lparr>sv_invoke := f\<rparr>) r name g = serve_admitted env r name g"
    if "MaxRequestBody < length (rq_Body r)"
    using that by (simp add: serve_admitted_def a cong: acquired.case_cong split: prod.split acquired.split)
  have inv: "ServeHTTP (env\<lparr>sv_invoke := f\<rparr>) r limiter g = ServeHTTP env r limiter g"
    if "MaxRequestBody < length (rq_Body r)"
    using assms sa [OF that] by (cases "quota_check (registered_project g name) limiter") (simp add: ServeHTTP_eq)
  have big: "ServeHTTP env r limiter g = (Responded (http_error [] ''request body too large'' 413), limiter', release m g1)"
    if "MaxRequestBody < length (rq_Body r)" "quota_check (registered_project g name) limiter = (True, limiter')"
      "acquire env name g = (Acquired m, g1)"
    using assms that by (simp add: ServeHTTP_eq serve_admitted_def serve_instance_def)
  have "ServeHTTP env r limiter g = (Responded (http_error [] ''quota exceeded'' 429), limiter', g)"
    if "quota_check (registered_project g name) limiter = (False, limiter')"
    using assms that by (simp add: ServeHTTP_eq)
  then show ?thesis using inv big by blast
qed

theorem serve_turned_away_witness:
  "let l = SetLimit ''acme'' KindRequestsPerMin 1 (Observe ''acme'' KindRequestsPerMin 1 (NewLimiter 0))
   in fst (ServeHTTP demo_env (demo_request '''') (Some l) demo_gateway) = Responded (http_error [] ''quota exceeded'' 429)"
proof -
  let ?l = "SetLimit ''acme'' KindRequestsPerMin 1 (Observe ''acme'' KindRequestsPerMin 1 (NewLimiter 0))"
  have p: "parseFunctionPath (rq_Path (demo_request '''')) = Some ([], ''hello'')" by code_simp
  have m: "may_invoke demo_gateway (demo_request '''') [] ''hello''" by code_simp
  have "fst (quota_check (registered_project demo_gateway ''hello'') (Some ?l)) = False" by code_simp
  then obtain l' where "quota_check (registered_project demo_gateway ''hello'') (Some ?l) = (False, l')"
    by (metis prod.collapse)
  then show ?thesis
    using serve_turned_away [OF p m, of "Some ?l" l' demo_env "\<lambda>m f. Inl EOF" 0 demo_gateway] by (simp add: Let_def)
qed

text \<open>
  Routes: the two forms of a function's address parse back to what they were built from, for
  any project without a slash and any valid name, and no other path is a function's address.
\<close>

theorem function_paths:
  "parseFunctionPath p = Some (project, name) \<longleftrightarrow>
     (project = [] \<and> p = ''/fn/'' @ name) \<or>
     (CHR ''/'' \<notin> set project \<and> p = ''/v1/'' @ project @ ''/fn/'' @ name)"
proof
  assume h: "parseFunctionPath p = Some (project, name)"
  then consider n where "p = ''/fn/'' @ n" | rest where "p = ''/v1/'' @ rest"
    using other_path [of p] unfolding has_prefix_iff by fastforce
  then show "(project = [] \<and> p = ''/fn/'' @ name) \<or> (CHR ''/'' \<notin> set project \<and> p = ''/v1/'' @ project @ ''/fn/'' @ name)"
  proof cases
    case 1
    then show ?thesis using h fn_path [of n] by simp
  next
    case 2
    then show ?thesis using h v1_path_parsed [of rest project name] by simp
  qed
next
  assume "(project = [] \<and> p = ''/fn/'' @ name) \<or> (CHR ''/'' \<notin> set project \<and> p = ''/v1/'' @ project @ ''/fn/'' @ name)"
  then show "parseFunctionPath p = Some (project, name)" using fn_path [of name] v1_path_built [of project name] by metis
qed

text \<open>
  A reply can take the handler down: an error frame without an error object, and a result
  whose status is not between 100 and 999 (and not 0), both of which a function process is free to
  send, make \<open>ServeHTTP\<close> panic instead of answering 502; the instance is still released and
  counted as a successful invocation.
\<close>

theorem reply_can_panic:
  assumes "parseFunctionPath (rq_Path r) = Some (project, name)" and "may_invoke g r project name"
    and "acquire env name g = (Acquired m, g1)" and "length (rq_Body r) \<le> MaxRequestBody"
    and "sv_invoke env m (invoke_frame (sv_reqID env) r) = Inr reply"
    and "fr_Type reply = TypeError \<and> fr_Error reply = None \<or>
      fr_Type reply \<noteq> TypeError \<and> (\<exists>resp. unmarshal_response (fr_Result reply) = Some resp \<and>
        rs_Status resp \<noteq> 0 \<and> (rs_Status resp < 100 \<or> 999 < rs_Status resp))"
  shows "fst (ServeHTTP env r None g) = HandlerPanic"
  using assms
  by (auto simp: ServeHTTP_eq serve_admitted_def serve_instance_def write_reply_def write_response_def quota_check_def Let_def)

theorem reply_can_panic_witness:
  "fst (ServeHTTP (demo_env\<lparr>sv_invoke := \<lambda>m f. Inr (bare_frame TypeError (fr_ID f))\<rparr>) (demo_request '''') None demo_gateway) = HandlerPanic"
proof -
  let ?env = "demo_env\<lparr>sv_invoke := \<lambda>m f. Inr (bare_frame TypeError (fr_ID f))\<rparr>"
  have p: "parseFunctionPath (rq_Path (demo_request '''')) = Some ([], ''hello'')" by code_simp
  have m: "may_invoke demo_gateway (demo_request '''') [] ''hello''" by code_simp
  have "fst (acquire ?env ''hello'' demo_gateway) = Acquired 1" by code_simp
  then have a: "acquire ?env ''hello'' demo_gateway = (Acquired 1, snd (acquire ?env ''hello'' demo_gateway))"
    by (metis prod.collapse)
  show ?thesis
    by (rule reply_can_panic [OF p m a, where reply = "bare_frame TypeError (fr_ID (invoke_frame (sv_reqID ?env) (demo_request '''')))"])
      (simp_all add: demo_request_def bare_frame_def)
qed


text \<open>
  Registering: an invalid name is refused and changes nothing. Otherwise the store and the
  cache both hold the definition under its name, with the concurrency and the project defaulted
  alike; every other function stays as it was; the pool of a previous version is gone and its
  instances are closed; one audit entry names the actor.
\<close>

theorem register_def:
  assumes wf: "gateway_wf g" and r: "RegisterDefAs now1 now2 d actor g = (err, g')"
  shows "if \<not> IsValidFunctionName (fd_Name d) then err = Some ErrInvalidName \<and> g' = g
    else err = None \<and> gateway_wf g' \<and>
      GetFunction (gw_store g') (fd_Name d) = Inr ((toStateDef (defaulted d))\<lparr>sf_UpdatedAt := now1\<rparr>) \<and>
      (\<forall>n. n \<noteq> fd_Name d \<longrightarrow> GetFunction (gw_store g') n = GetFunction (gw_store g) n) \<and>
      map_of (gw_functions g') = (map_of (gw_functions g))(fd_Name d \<mapsto> defaulted d) \<and>
      map_of (gw_pools g') = (map_of (gw_pools g))(fd_Name d := None) \<and>
      (\<forall>p m mi. map_of (gw_pools g) (fd_Name d) = Some p \<and> m \<in> set (instances_of g p) \<and>
         map_of (gw_mis g') m = Some mi \<longrightarrow> in_closed (mi_inst mi)) \<and>
      (\<exists>e. st_audit (gw_store g') = st_audit (gw_store g) @ [e] \<and> ae_Actor e = actor \<and>
         ae_Action e = ''function.put'' \<and> ae_Target e = fd_Name d \<and> ae_Project e = fd_Project (defaulted d))"
proof (cases "IsValidFunctionName (fd_Name d)")
  case False
  then show ?thesis using r by (simp add: RegisterDefAs_def)
next
  case True
  let ?s = "PutFunction now1 (toStateDef (defaulted d)) (gw_store g)" and ?g = "\<lambda>s. g\<lparr>gw_store := s\<rparr>"
  note eq = r [unfolded register_eq [OF True], THEN sym]
  have wf': "gateway_wf g'" using gateway_wf_register [OF wf, of now1 now2 d actor] r by simp
  have f: "st_functions (gw_store g') = map_put (fd_Name d) ((toStateDef (defaulted d))\<lparr>sf_UpdatedAt := now1\<rparr>) (st_functions (gw_store g))"
    using eq put_function_store [of "toStateDef (defaulted d)" now1 "gw_store g"]
    by (simp add: store_after_audit) (simp add: toStateDef_def)
  have "in_closed (mi_inst mi)" if "map_of (gw_pools g) (fd_Name d) = Some p" "m \<in> set (instances_of g p)"
      "map_of (gw_mis g') m = Some mi" for p m mi
    using applyPut_closes [of "?g ?s" "defaulted d" p m mi] that eq by (simp add: instances_of_def)
  moreover have "tenancy_wf ?s"
    using wf store_wf_function_ops(1) [of "gw_store g" now1 "toStateDef (defaulted d)"] by (simp add: gateway_wf_def store_wf_def)
  then have "st_audit (gw_store g') = st_audit (gw_store g) @
      [(audit_entry (fd_Project (defaulted d)) actor ''function.put'' (fd_Name d))\<lparr>ae_TS := now2, ae_ID := nextAuditID (ensureTenancyMaps ?s)\<rparr>]"
    using eq by (simp add: store_after_audit put_function_audit) (simp add: audit_entry_def)
  ultimately show ?thesis
    using True wf' f eq by (simp add: GetFunction_def cloneFunc_def applyPut_functions applyPut_pools audit_entry_def) blast
qed


theorem register_def_witness:
  "let g' = snd (RegisterDefAs 5 6 (demo_def\<lparr>fd_Binary := ''/bin/v2'', fd_MaxConcurrency := 0\<rparr>) ''k1'' demo_warm)
   in map_of (gw_functions g') ''hello'' = Some (demo_def\<lparr>fd_Binary := ''/bin/v2'', fd_MaxConcurrency := 4\<rparr>) \<and>
      map_of (gw_pools g') ''hello'' = None"
proof -
  let ?d = "demo_def\<lparr>fd_Binary := ''/bin/v2'', fd_MaxConcurrency := 0\<rparr>"
  obtain err g' where r: "RegisterDefAs 5 6 ?d ''k1'' demo_warm = (err, g')" by fastforce
  have wf: "gateway_wf demo_warm" unfolding demo_warm_def by (rule acquire_wf [OF demo_gateway_wf])
  have v: "IsValidFunctionName (fd_Name ?d)" "fd_Name ?d = ''hello''" by code_simp+
  have "defaulted ?d = demo_def\<lparr>fd_Binary := ''/bin/v2'', fd_MaxConcurrency := 4\<rparr>" by code_simp
  then show ?thesis using register_def [OF wf r] r v by simp
qed

text \<open>
  (C5) Reaping: \<open>reapOnce\<close> removes from the registered pools exactly the instances that are not in
  use and have been idle for at least the TTL; these are closed and their locks free, every other
  instance is untouched. Pools, functions and the store stay, the gateway stays well-formed, and no
  pool loses a count: requests and failures of reaped and of live instances add up as before.
\<close>

theorem reap_exact:
  assumes wf: "gateway_wf g"
  shows "gateway_wf (reapOnce now g) \<and> gw_pools (reapOnce now g) = gw_pools g \<and>
    gw_functions (reapOnce now g) = gw_functions g \<and> gw_store (reapOnce now g) = gw_store g \<and>
    (\<forall>n p. (n, p) \<in> set (gw_pools g) \<longrightarrow>
      instances_of (reapOnce now g) p = filter (\<lambda>m. \<not> reapable now g m) (instances_of g p)) \<and>
    (\<forall>m. map_of (gw_mis (reapOnce now g)) m =
      (if (\<exists>(n, p) \<in> set (gw_pools g). m \<in> set (instances_of g p)) \<and> reapable now g m
       then map_option (\<lambda>mi. mi\<lparr>mi_inst := (mi_inst mi)\<lparr>in_closed := True\<rparr>, mi_busy := False\<rparr>) (map_of (gw_mis g) m)
       else map_of (gw_mis g) m)) \<and>
    (\<forall>p. total_invokes (reapOnce now g) p = total_invokes g p \<and> total_errors (reapOnce now g) p = total_errors g p)"
proof -
  have v: "victim now g m \<longleftrightarrow> (\<exists>(n, p) \<in> set (gw_pools g). m \<in> set (instances_of g p)) \<and> reapable now g m" for m
    by (force simp: victim_def victims_of_def)
  have "instances_of (reapOnce now g) p = filter (\<lambda>m. \<not> reapable now g m) (instances_of g p)"
    if "(n, p) \<in> set (gw_pools g)" for n p
  proof -
    have "p \<in> set (map snd (gw_pools g))" using that by force
    then show ?thesis
      using reapOnce_facts(2) [OF wf, of now p]
      by (cases "map_of (gw_poolheap g) p") (simp_all add: instances_of_def reaped_pool_def)
  qed
  then show ?thesis using reapOnce_facts [OF wf] reap_conserves [OF wf] by (simp add: v)
qed

theorem reap_exact_witness:
  "instances_of (reapOnce (unix_epoch + 60 * Second) (release 1 demo_warm)) 0 = [] \<and>
   instances_of (reapOnce (unix_epoch + 60 * Second) demo_warm) 0 = [1]"
proof -
  have wf: "gateway_wf demo_warm" unfolding demo_warm_def by (rule acquire_wf [OF demo_gateway_wf])
  have wf': "gateway_wf (release 1 demo_warm)" unfolding release_def by (rule gateway_wf_mi [OF wf])
  have "(''hello'', 0) \<in> set (gw_pools demo_warm)" "(''hello'', 0) \<in> set (gw_pools (release 1 demo_warm))" by code_simp+
  moreover have "filter (\<lambda>m. \<not> reapable (unix_epoch + 60 * Second) demo_warm m) (instances_of demo_warm 0) = [1]"
    "filter (\<lambda>m. \<not> reapable (unix_epoch + 60 * Second) (release 1 demo_warm) m) (instances_of (release 1 demo_warm) 0) = []" by code_simp+
  ultimately show ?thesis using reap_exact [OF wf, of "unix_epoch + 60 * Second"] reap_exact [OF wf', of "unix_epoch + 60 * Second"] by simp
qed

end
