(* ===== verification/Watch_Mirror.thy ===== *)
theory Watch_Mirror
  imports Gateway_Serving
begin

text \<open>
  The gateway's cache of the store: every replica reads function definitions from its own cache,
  which \<open>watchStore\<close> brings up to date from the events of the store. A run interleaves writes by
  other replicas, registrations on this gateway and receives of the watcher in any order.
\<close>

section \<open>Definitions\<close>

text \<open>One turn of the loop of \<open>watchStore\<close> on its channel; \<open>None\<close> when it would wait.\<close>

definition watch_turn :: "nat \<Rightarrow> Gateway \<Rightarrow> Gateway option" where
  "watch_turn c g =
     (case chan_recv c (gw_store g) of
        None \<Rightarrow> None
      | Some (ev, s) \<Rightarrow> Some (applyEvent ev (g\<lparr>gw_store := s\<rparr>)))"

text \<open>The loop, for at most \<open>k\<close> turns.\<close>

fun watchStore :: "nat \<Rightarrow> nat \<Rightarrow> Gateway \<Rightarrow> Gateway" where
  "watchStore 0 c g = g"
| "watchStore (Suc k) c g = (case watch_turn c g of None \<Rightarrow> g | Some g' \<Rightarrow> watchStore k c g')"

text \<open>A gateway that has just been made on a store, and the channel its watcher subscribed with.\<close>

definition watched_gateway :: "InMemStore \<Rightarrow> duration \<Rightarrow> time \<Rightarrow> nat \<times> Gateway" where
  "watched_gateway s ttl now =
     (let g = NewWithOptions s ttl now; (c, s') = Watch (gw_store g) in (c, g\<lparr>gw_store := s'\<rparr>))"

text \<open>The cache agrees with the store on a name.\<close>

definition mirrored :: "Gateway \<Rightarrow> string \<Rightarrow> bool" where
  "mirrored g n \<longleftrightarrow>
     map_of (gw_functions g) n = map_option (\<lambda>d. normal_def (fromStateDef d)) (map_of (st_functions (gw_store g)) n)"

definition buffered :: "nat \<Rightarrow> Gateway \<Rightarrow> Event list" where
  "buffered c g = (case map_of (chans (gw_store g)) c of None \<Rightarrow> [] | Some ch \<Rightarrow> ch_buf ch)"

definition about_function :: "string \<Rightarrow> Event \<Rightarrow> bool" where
  "about_function n ev \<longleftrightarrow> ev_Name ev = n \<and> (ev_Kind ev = EventFunctionPut \<or> ev_Kind ev = EventFunctionDelete)"

definition pending :: "nat \<Rightarrow> Gateway \<Rightarrow> string \<Rightarrow> Event list" where
  "pending c g n = filter (about_function n) (buffered c g)"

text \<open>
  In sync: a name without pending events is mirrored, and otherwise the last pending event tells
  whether the store has the function.
\<close>

definition in_sync :: "nat \<Rightarrow> Gateway \<Rightarrow> bool" where
  "in_sync c g \<longleftrightarrow> (\<forall>n.
     if pending c g n = [] then mirrored g n
     else (ev_Kind (last (pending c g n)) = EventFunctionPut \<longleftrightarrow> map_of (st_functions (gw_store g)) n \<noteq> None))"

definition watching :: "nat \<Rightarrow> Gateway \<Rightarrow> bool" where
  "watching c g \<longleftrightarrow> c \<in> set (subs (gw_store g))"

definition room :: "nat \<Rightarrow> Gateway \<Rightarrow> bool" where
  "room c g \<longleftrightarrow> length (buffered c g) < watch_capacity"

text \<open>
  Steps that do not drop an event: writes to the store by any replica, registrations on this
  gateway, and turns of its watcher.
\<close>

inductive mirror_step :: "nat \<Rightarrow> Gateway \<Rightarrow> Gateway \<Rightarrow> bool" for c where
  put: "room c g \<Longrightarrow> mirror_step c g (g\<lparr>gw_store := PutFunction now d (gw_store g)\<rparr>)"
| delete: "room c g \<Longrightarrow> mirror_step c g (g\<lparr>gw_store := DeleteFunction n (gw_store g)\<rparr>)"
| register: "room c g \<Longrightarrow> mirror_step c g (snd (RegisterDefAs now1 now2 def actor g))"
| unregister: "room c g \<Longrightarrow> mirror_step c g (snd (UnregisterAs now n actor g))"
| turn: "watch_turn c g = Some g' \<Longrightarrow> mirror_step c g g'"

inductive mirror_run :: "nat \<Rightarrow> Gateway \<Rightarrow> Gateway \<Rightarrow> bool" for c where
  refl: "mirror_run c g g"
| step: "mirror_run c g g' \<Longrightarrow> mirror_step c g' g'' \<Longrightarrow> mirror_run c g g''"

inductive_cases mirror_stepE: "mirror_step c g g'"

definition mirror_inv :: "nat \<Rightarrow> Gateway \<Rightarrow> bool" where
  "mirror_inv c g \<longleftrightarrow> gateway_wf g \<and> watching c g \<and> in_sync c g"

section \<open>Lemmas\<close>

subsection \<open>What the operations do to the buffer\<close>

lemma buffered_store [simp]: "buffered c (g\<lparr>gw_functions := f\<rparr>) = buffered c g"
  by (simp add: buffered_def)

lemma buffered_broadcast:
  assumes "chans_wf s" and "c \<in> set (subs s)" and "room c (g\<lparr>gw_store := s\<rparr>)"
  shows "buffered c (g\<lparr>gw_store := broadcast ev s\<rparr>) = buffered c (g\<lparr>gw_store := s\<rparr>) @ [ev]"
proof -
  obtain ch where ch: "map_of (chans s) c = Some ch" using assms(1,2) by (auto simp: chans_wf_def)
  then show ?thesis
    using assms(3) by (simp add: buffered_def broadcast_chan [OF assms(1)] assms(2) chan_offer_def room_def)
qed

lemma buffered_put:
  assumes "chans_wf (gw_store g)" and "watching c g" and "room c g"
  shows "buffered c (g\<lparr>gw_store := PutFunction now d (gw_store g)\<rparr>) = buffered c g @ [\<lparr>ev_Kind = EventFunctionPut, ev_Name = sf_Name d\<rparr>]"
    and "buffered c (g\<lparr>gw_store := DeleteFunction n (gw_store g)\<rparr>) = buffered c g @ [\<lparr>ev_Kind = EventFunctionDelete, ev_Name = n\<rparr>]"
proof -
  let ?d = "stamp_function now d"
  have eq: "PutFunction now d (gw_store g) = broadcast \<lparr>ev_Kind = EventFunctionPut, ev_Name = sf_Name d\<rparr>
      ((gw_store g)\<lparr>st_functions := map_put (sf_Name d) ?d (st_functions (gw_store g))\<rparr>)"
    by (simp add: PutFunction_def Let_def stamp_function_def cloneFunc_def)
  have b: "buffered c (g\<lparr>gw_store := (gw_store g)\<lparr>st_functions := f\<rparr>\<rparr>) = buffered c g" for f
    by (simp add: buffered_def)
  then have r: "room c (g\<lparr>gw_store := (gw_store g)\<lparr>st_functions := f\<rparr>\<rparr>)" for f
    using assms(3) by (simp add: room_def)
  have wf: "chans_wf ((gw_store g)\<lparr>st_functions := f\<rparr>)" "c \<in> set (subs ((gw_store g)\<lparr>st_functions := f\<rparr>))" for f
    using assms(1,2) by (simp_all add: watching_def)
  show "buffered c (g\<lparr>gw_store := PutFunction now d (gw_store g)\<rparr>) = buffered c g @ [\<lparr>ev_Kind = EventFunctionPut, ev_Name = sf_Name d\<rparr>]"
    unfolding eq buffered_broadcast [OF wf r] b ..
  show "buffered c (g\<lparr>gw_store := DeleteFunction n (gw_store g)\<rparr>) = buffered c g @ [\<lparr>ev_Kind = EventFunctionDelete, ev_Name = n\<rparr>]"
    unfolding DeleteFunction_def buffered_broadcast [OF wf r] b ..
qed

lemma functions_after:
  "map_of (st_functions (PutFunction now d s)) = (map_of (st_functions s))(sf_Name d \<mapsto> stamp_function now d)"
  "map_of (st_functions (DeleteFunction n s)) = (map_of (st_functions s))(n := None)"
  by (simp_all add: PutFunction_def DeleteFunction_def Let_def broadcast_def cloneFunc_def stamp_function_def)

lemma subs_after [simp]:
  "subs (PutFunction now d s) = subs s" "subs (DeleteFunction n s) = subs s" "subs (AppendAudit now e s) = subs s"
  by (simp_all add: PutFunction_def DeleteFunction_def AppendAudit_def broadcast_def Let_def)

lemma buffered_cong: "chans (gw_store g) = chans (gw_store h) \<Longrightarrow> buffered c g = buffered c h"
  by (simp add: buffered_def)

lemma audit_frame [simp]: "chans (AppendAudit now e s) = chans s" "st_functions (AppendAudit now e s) = st_functions s"
  by (simp_all add: AppendAudit_def Let_def)

text \<open>A write to the store by another replica.\<close>

lemma in_sync_write:
  assumes sync: "in_sync c g" and f: "gw_functions g' = gw_functions g"
    and b: "buffered c g' = buffered c g @ [ev]" and about: "about_function n ev"
    and n: "ev_Kind ev = EventFunctionPut \<longleftrightarrow> map_of (st_functions (gw_store g')) n \<noteq> None"
    and other: "\<And>n'. n' \<noteq> n \<Longrightarrow> map_of (st_functions (gw_store g')) n' = map_of (st_functions (gw_store g)) n'"
  shows "in_sync c g'"
  unfolding in_sync_def
proof
  fix n'
  have "pending c g' n' = pending c g n' @ (if n' = n then [ev] else [])"
    using about by (auto simp: pending_def b about_function_def)
  then show "if pending c g' n' = [] then mirrored g' n'
      else (ev_Kind (last (pending c g' n')) = EventFunctionPut) = (map_of (st_functions (gw_store g')) n' \<noteq> None)"
    using sync n other [of n'] f by (cases "n' = n") (auto simp: in_sync_def mirrored_def split: if_splits)
qed

text \<open>A change of the cache under a name that has a pending event, or that agrees with the store.\<close>

lemma in_sync_cache:
  assumes sync: "in_sync c g" and s: "st_functions (gw_store g') = st_functions (gw_store g)"
    and b: "buffered c g' = buffered c g"
    and other: "\<And>n'. n' \<noteq> n \<Longrightarrow> map_of (gw_functions g') n' = map_of (gw_functions g) n'"
    and n: "pending c g n \<noteq> [] \<or> mirrored g' n"
  shows "in_sync c g'"
  unfolding in_sync_def
proof
  fix n'
  have "pending c g' n' = pending c g n'" by (simp add: pending_def b)
  then show "if pending c g' n' = [] then mirrored g' n'
      else (ev_Kind (last (pending c g' n')) = EventFunctionPut) = (map_of (st_functions (gw_store g')) n' \<noteq> None)"
    using sync s other [of n'] n by (cases "n' = n") (auto simp: in_sync_def mirrored_def split: if_splits)
qed


subsection \<open>Writes\<close>

lemma mirror_invD:
  assumes "mirror_inv c g"
  shows "gateway_wf g" and "watching c g" and "in_sync c g" and "chans_wf (gw_store g)"
    and "store_wf (gw_store g)"
  using assms by (simp_all add: mirror_inv_def gateway_wf_def store_wf_def)

lemma mirror_put:
  assumes inv: "mirror_inv c g" and "room c g"
  shows "mirror_inv c (g\<lparr>gw_store := PutFunction now d (gw_store g)\<rparr>)"
proof -
  note i = mirror_invD [OF inv]
  have "in_sync c (g\<lparr>gw_store := PutFunction now d (gw_store g)\<rparr>)"
    by (rule in_sync_write [OF i(3) _ buffered_put(1) [OF i(4,2) assms(2)], where n = "sf_Name d"])
      (simp_all add: about_function_def functions_after)
  then show ?thesis
    using i store_wf_function_ops(1) [OF i(5)] by (simp add: mirror_inv_def gateway_wf_store watching_def)
qed

lemma mirror_delete:
  assumes inv: "mirror_inv c g" and "room c g"
  shows "mirror_inv c (g\<lparr>gw_store := DeleteFunction n (gw_store g)\<rparr>)"
proof -
  note i = mirror_invD [OF inv]
  have "in_sync c (g\<lparr>gw_store := DeleteFunction n (gw_store g)\<rparr>)"
    by (rule in_sync_write [OF i(3) _ buffered_put(2) [OF i(4,2) assms(2)], where n = n])
      (simp_all add: about_function_def functions_after)
  then show ?thesis
    using i store_wf_function_ops(2) [OF i(5)] by (simp add: mirror_inv_def gateway_wf_store watching_def)
qed

text \<open>The rest of a registration: the cache, and the audit log.\<close>

lemma mirror_cache_put:
  assumes inv: "mirror_inv c g" and "pending c g (fd_Name d) \<noteq> []"
  shows "mirror_inv c (applyPut d g)"
proof -
  note i = mirror_invD [OF inv]
  have "in_sync c (applyPut d g)"
    by (rule in_sync_cache [OF i(3), where n = "fd_Name d"])
      (simp_all add: assms(2) buffered_def applyPut_functions)
  then show ?thesis using i by (simp add: mirror_inv_def watching_def gateway_wf_applyPut)
qed

lemma mirror_cache_delete:
  assumes inv: "mirror_inv c g" and "pending c g n \<noteq> [] \<or> map_of (st_functions (gw_store g)) n = None"
  shows "mirror_inv c (applyDelete n g)"
proof -
  note i = mirror_invD [OF inv]
  have "in_sync c (applyDelete n g)"
    by (rule in_sync_cache [OF i(3), where n = n])
      (use assms(2) in \<open>auto simp: buffered_def applyDelete_functions mirrored_def\<close>)
  then show ?thesis using i by (simp add: mirror_inv_def watching_def gateway_wf_applyDelete)
qed

lemma mirror_audit:
  assumes inv: "mirror_inv c g"
  shows "mirror_inv c (g\<lparr>gw_store := AppendAudit now e (gw_store g)\<rparr>)"
proof -
  note i = mirror_invD [OF inv]
  have "in_sync c (g\<lparr>gw_store := AppendAudit now e (gw_store g)\<rparr>)"
    by (rule in_sync_cache [OF i(3), where n = "[]"])
      (use i(3) in \<open>auto simp: buffered_def in_sync_def mirrored_def pending_def split: if_splits\<close>)
  then show ?thesis
    using i store_wf_key_ops(4) [OF i(5)] by (simp add: mirror_inv_def watching_def gateway_wf_store)
qed

lemma pending_put:
  assumes "mirror_inv c g" and "room c g"
  shows "pending c (g\<lparr>gw_store := PutFunction now d (gw_store g)\<rparr>) (sf_Name d) \<noteq> []"
    and "pending c (g\<lparr>gw_store := DeleteFunction n (gw_store g)\<rparr>) n \<noteq> []"
  using mirror_invD [OF assms(1)] assms(2) by (simp_all add: pending_def buffered_put about_function_def)

lemma mirror_register:
  assumes inv: "mirror_inv c g" and room: "room c g"
  shows "mirror_inv c (snd (RegisterDefAs now1 now2 d actor g))"
proof (cases "IsValidFunctionName (fd_Name d)")
  case True
  let ?s = "toStateDef (defaulted d)"
  have n: "sf_Name ?s = fd_Name (defaulted d)" by (simp add: toStateDef_def)
  have "mirror_inv c (applyPut (defaulted d) (g\<lparr>gw_store := PutFunction now1 ?s (gw_store g)\<rparr>))"
    using mirror_cache_put [OF mirror_put [OF inv room]] pending_put(1) [OF inv room, of now1 ?s] by (simp add: n)
  from mirror_audit [OF this] show ?thesis by (simp add: register_eq [OF True])
qed (simp add: RegisterDefAs_def inv)

lemma mirror_unregister:
  assumes inv: "mirror_inv c g" and room: "room c g"
  shows "mirror_inv c (snd (UnregisterAs now n actor g))"
proof -
  have "mirror_inv c (applyDelete n (g\<lparr>gw_store := DeleteFunction n (gw_store g)\<rparr>))"
    using mirror_cache_delete [OF mirror_delete [OF inv room]] pending_put(2) [OF inv room] by blast
  from this mirror_audit [OF this] show ?thesis
    by (simp add: UnregisterAs_def Let_def split: option.split)
qed

subsection \<open>The watcher\<close>

lemma watch_turnE:
  assumes "watch_turn c g = Some g'"
  obtains ev evs s where "buffered c g = ev # evs" "g' = applyEvent ev (g\<lparr>gw_store := s\<rparr>)" "buffered c (g\<lparr>gw_store := s\<rparr>) = evs"
    "st_functions s = st_functions (gw_store g)" "subs s = subs (gw_store g)" "chan_recv c (gw_store g) = Some (ev, s)"
proof -
  obtain ev s where r: "chan_recv c (gw_store g) = Some (ev, s)" "g' = applyEvent ev (g\<lparr>gw_store := s\<rparr>)"
    using assms by (auto simp: watch_turn_def split: option.splits)
  then obtain ch evs where ch: "map_of (chans (gw_store g)) c = Some ch" "ch_buf ch = ev # evs"
    "s = (gw_store g)\<lparr>chans := map_put c (ch\<lparr>ch_buf := evs\<rparr>) (chans (gw_store g))\<rparr>"
    by (auto simp: chan_recv_def split: option.splits list.splits)
  then show ?thesis using r by (intro that [of ev evs s]) (simp_all add: buffered_def)
qed

lemma applyEvent_frame [simp]: "gw_store (applyEvent ev g) = gw_store g"
  by (simp add: applyEvent_def split: EventKind.split sum.split)

lemma watch_turn_buffered:
  assumes "buffered c g = ev # evs"
  obtains g' where "watch_turn c g = Some g'" "buffered c g' = evs" "st_functions (gw_store g') = st_functions (gw_store g)"
    "\<exists>s. g' = applyEvent ev (g\<lparr>gw_store := s\<rparr>)"
proof -
  obtain g' where g': "watch_turn c g = Some g'"
    using assms by (auto simp: watch_turn_def chan_recv_def buffered_def split: option.splits list.splits)
  then show ?thesis
    using assms by (rule_tac watch_turnE [OF g']) (auto intro!: that [OF g'] simp: buffered_def)
qed

lemma watch_turn_empty: "buffered c g = [] \<Longrightarrow> watch_turn c g = None"
  by (auto simp: watch_turn_def chan_recv_def buffered_def split: option.split list.split)

lemma applyEvent_other: "\<not> about_function n ev \<Longrightarrow> functions_wf (gw_store g) \<Longrightarrow> map_of (gw_functions (applyEvent ev g)) n = map_of (gw_functions g) n"
  by (auto simp: applyEvent_def about_function_def applyPut_functions applyDelete_functions GetFunction_def
      functions_wf_def fromStateDef_def cloneFunc_def dest!: map_of_SomeD split: EventKind.split sum.split option.split)

lemma applyEvent_mirrors:
  assumes "about_function n ev" and "functions_wf (gw_store g)"
    and "ev_Kind ev = EventFunctionPut \<longleftrightarrow> map_of (st_functions (gw_store g)) n \<noteq> None"
  shows "mirrored (applyEvent ev g) n"
proof (cases "map_of (st_functions (gw_store g)) n")
  case None
  then have "ev_Kind ev = EventFunctionDelete" "ev_Name ev = n" using assms by (auto simp: about_function_def)
  then show ?thesis using None by (simp add: applyEvent_def mirrored_def applyDelete_functions)
next
  case (Some d)
  then have "ev_Kind ev = EventFunctionPut" "ev_Name ev = n" using assms by (auto simp: about_function_def)
  moreover have "sf_Name d = n" using assms(2) Some by (auto simp: functions_wf_def dest!: map_of_SomeD)
  ultimately show ?thesis
    using Some by (simp add: applyEvent_def mirrored_def applyPut_functions GetFunction_def cloneFunc_def fromStateDef_def)
qed

lemma mirror_turn:
  assumes inv: "mirror_inv c g" and t: "watch_turn c g = Some g'"
  shows "mirror_inv c g'" and "length (buffered c g) = Suc (length (buffered c g'))"
proof -
  note i = mirror_invD [OF inv]
  obtain ev evs s where b: "buffered c g = ev # evs" and g': "g' = applyEvent ev (g\<lparr>gw_store := s\<rparr>)"
    and b': "buffered c (g\<lparr>gw_store := s\<rparr>) = evs" and fs: "st_functions s = st_functions (gw_store g)"
    and subs: "subs s = subs (gw_store g)" and r: "chan_recv c (gw_store g) = Some (ev, s)"
    by (rule watch_turnE [OF t])
  have swf: "store_wf s" using store_wf_channel_ops(4) [OF i(5) r] .
  have bg': "buffered c g' = evs" using b' by (simp add: g' buffered_def)
  have "in_sync c g'"
    unfolding in_sync_def
  proof
    fix n
    have p: "pending c g n = (if about_function n ev then [ev] else []) @ pending c g' n"
      by (simp add: pending_def b bg')
    have st: "st_functions (gw_store g') = st_functions (gw_store g)" by (simp add: g' fs)
    show "if pending c g' n = [] then mirrored g' n
        else (ev_Kind (last (pending c g' n)) = EventFunctionPut) = (map_of (st_functions (gw_store g')) n \<noteq> None)"
    proof (cases "about_function n ev")
      case True
      have "mirrored g' n" if "pending c g' n = []"
        unfolding g' using i(3) [unfolded in_sync_def, rule_format, of n] p that True swf fs
        by (intro applyEvent_mirrors) (simp_all add: store_wf_def)
      then show ?thesis using i(3) [unfolded in_sync_def, rule_format, of n] p True by (auto simp: st)
    next
      case False
      then have "map_of (gw_functions g') n = map_of (gw_functions g) n"
        using applyEvent_other [OF False, of "g\<lparr>gw_store := s\<rparr>"] swf by (simp add: g' store_wf_def)
      then show ?thesis using i(3) [unfolded in_sync_def, rule_format, of n] p False by (auto simp: mirrored_def st)
    qed
  qed
  then show "mirror_inv c g'"
    using i(1,2) swf subs by (simp add: mirror_inv_def g' watching_def gateway_wf_applyEvent gateway_wf_store)
  show "length (buffered c g) = Suc (length (buffered c g'))" by (simp add: b bg')
qed


lemma mirror_step_inv: "mirror_step c g g' \<Longrightarrow> mirror_inv c g \<Longrightarrow> mirror_inv c g'"
  by (erule mirror_stepE) (simp_all add: mirror_put mirror_delete mirror_register mirror_unregister mirror_turn(1))

lemma mirror_run_inv: "mirror_run c g g' \<Longrightarrow> mirror_inv c g \<Longrightarrow> mirror_inv c g'"
  by (induction rule: mirror_run.induct) (auto intro: mirror_step_inv)

lemma watchStore_drains:
  "mirror_inv c g \<Longrightarrow> length (buffered c g) \<le> k \<Longrightarrow> mirror_inv c (watchStore k c g) \<and> buffered c (watchStore k c g) = []"
proof (induction k arbitrary: g)
  case (Suc k)
  show ?case
  proof (cases "watch_turn c g")
    case None
    then have "buffered c g = []"
      by (auto simp: watch_turn_def chan_recv_def buffered_def split: option.splits list.splits)
    then show ?thesis using None Suc.prems(1) by simp
  next
    case (Some g')
    then show ?thesis using Suc.IH [OF mirror_turn(1) [OF Suc.prems(1) Some]] mirror_turn(2) [OF Suc.prems(1) Some] Suc.prems(2) by simp
  qed
qed simp

subsection \<open>The start\<close>

lemma bootstrap_functions:
  "distinct (map sf_Name ds) \<Longrightarrow>
   map_of (gw_functions (fold (\<lambda>d. applyPut (fromStateDef d)) ds g)) n =
     (case map_of (map (\<lambda>d. (sf_Name d, d)) ds) n of
        None \<Rightarrow> map_of (gw_functions g) n
      | Some d \<Rightarrow> Some (normal_def (fromStateDef d)))"
proof (induction ds arbitrary: g)
  case (Cons d ds)
  have "map_of (map (\<lambda>d. (sf_Name d, d)) ds) (sf_Name d) = None"
    using Cons.prems by (auto simp: map_of_eq_None_iff)
  then show ?case using Cons by (simp add: applyPut_functions fromStateDef_def split: option.split)
qed simp

lemma new_mirrored:
  assumes "functions_wf s"
  shows "map_of (gw_functions (NewWithOptions s ttl now)) n = map_option (\<lambda>d. normal_def (fromStateDef d)) (map_of (st_functions s) n)"
    and "gw_store (NewWithOptions s ttl now) = s"
proof -
  have names: "map (\<lambda>d. (sf_Name d, d)) (ListFunctions s) = st_functions s"
    using assms by (auto simp: ListFunctions_def functions_wf_def cloneFunc_def comp_def intro!: map_idI)
  then have "map sf_Name (ListFunctions s) = map fst (st_functions s)"
    by (metis (mono_tags, lifting) comp_apply fst_conv list.map_comp list.map_cong0)
  then have d: "distinct (map sf_Name (ListFunctions s))" using assms by (simp add: functions_wf_def)
  show "gw_store (NewWithOptions s ttl now) = s"
  proof -
    have "gw_store (fold (\<lambda>d. applyPut (fromStateDef d)) ds g) = gw_store g" for ds g
      by (induction ds arbitrary: g) simp_all
    then show ?thesis by (simp add: NewWithOptions_def bootstrapCacheFromStore_def)
  qed
  show "map_of (gw_functions (NewWithOptions s ttl now)) n = map_option (\<lambda>d. normal_def (fromStateDef d)) (map_of (st_functions s) n)"
    by (simp add: NewWithOptions_def bootstrapCacheFromStore_def bootstrap_functions [OF d] names split: option.split)
qed

lemma watched_gateway_inv:
  assumes wf: "store_wf s" and w: "watched_gateway s ttl now = (c, g)"
  shows "mirror_inv c g"
proof -
  have fwf: "functions_wf s" using wf by (simp add: store_wf_def)
  let ?n = "NewWithOptions s ttl now"
  have g: "g = ?n\<lparr>gw_store := snd (Watch s)\<rparr>" and c: "c = next_chan s"
    using w by (auto simp: watched_gateway_def Let_def Watch_def new_mirrored(2) [OF fwf])
  have "gateway_wf g" unfolding g by (intro gateway_wf_store gateway_wf_new wf store_wf_channel_ops(1))
  moreover have "watching c g" by (simp add: g c watching_def Watch_def Let_def)
  moreover have "buffered c g = []" by (simp add: g c buffered_def Watch_def Let_def)
  then have "in_sync c g"
    using new_mirrored(1) [OF fwf, of ttl now] by (simp add: in_sync_def pending_def mirrored_def g Watch_def Let_def)
  ultimately show ?thesis by (simp add: mirror_inv_def)
qed

section \<open>Properties\<close>



text \<open>
  Nothing repairs a cache whose events came in the wrong order: \<open>PutFunction\<close> and
  \<open>DeleteFunction\<close> send their event after they have left the store's mutex, so a deletion and a
  re-registration of the same name can be announced as put, then delete. When the watcher gets them
  in that order, the cache ends without a function the store has, and no event is left.
\<close>

theorem late_delete_loses_function:
  assumes "chans_wf (gw_store g)" and "watching c g" and "buffered c g = []" and "sf_Name d = n" and "2 \<le> k"
  shows "let s = gw_store g;
      s' = broadcast \<lparr>ev_Kind = EventFunctionDelete, ev_Name = n\<rparr> (broadcast \<lparr>ev_Kind = EventFunctionPut, ev_Name = n\<rparr>
        (s\<lparr>st_functions := map_put n d (map_del n (st_functions s))\<rparr>));
      g' = watchStore k c (g\<lparr>gw_store := s'\<rparr>)
    in GetFunction (gw_store g') n = Inr (cloneFunc d) \<and> map_of (gw_functions g') n = None \<and> buffered c g' = []"
proof -
  let ?put = "\<lparr>ev_Kind = EventFunctionPut, ev_Name = n\<rparr>" and ?del = "\<lparr>ev_Kind = EventFunctionDelete, ev_Name = n\<rparr>"
  define s1 where "s1 = (gw_store g)\<lparr>st_functions := map_put n d (map_del n (st_functions (gw_store g)))\<rparr>"
  define h where "h = g\<lparr>gw_store := broadcast ?del (broadcast ?put s1)\<rparr>"
  have s1: "chans_wf s1" "c \<in> set (subs s1)" "buffered c (g\<lparr>gw_store := s1\<rparr>) = []"
    using assms(1-3) by (simp_all add: s1_def watching_def buffered_def)
  have b1: "buffered c (g\<lparr>gw_store := broadcast ?put s1\<rparr>) = [?put]"
    using buffered_broadcast [OF s1(1,2), of g ?put] s1(3) by (simp add: room_def watch_capacity_def)
  have "buffered c h = [?put, ?del]"
    using buffered_broadcast [OF chans_wf_broadcast [OF s1(1)], of c ?put g ?del] b1 s1(2)
    by (simp add: h_def room_def watch_capacity_def) (simp add: broadcast_def)
  then obtain h1 where t1: "watch_turn c h = Some h1" "buffered c h1 = [?del]" "st_functions (gw_store h1) = st_functions (gw_store h)"
    by (rule watch_turn_buffered)
  from t1(2) obtain h2 where t2: "watch_turn c h1 = Some h2" "buffered c h2 = []" "st_functions (gw_store h2) = st_functions (gw_store h1)"
      "\<exists>s. h2 = applyEvent ?del (h1\<lparr>gw_store := s\<rparr>)"
    by (rule watch_turn_buffered)
  obtain j where k: "k = Suc (Suc j)" using assms(5) by (metis Suc_le_D numeral_2_eq_2 Suc_le_mono)
  have "watch_turn c h2 = None" using t2(2) by (rule watch_turn_empty)
  then have fin: "watchStore k c h = h2" using t1 t2 by (cases j) (simp_all add: k)
  have "map_of (gw_functions h2) n = None" using t2(4) by (auto simp: applyEvent_def applyDelete_functions)
  moreover have "map_of (st_functions (gw_store h2)) n = Some d"
    using t1 t2 by (simp add: h_def s1_def broadcast_def)
  ultimately show ?thesis
    using fin t2(2) by (simp add: Let_def h_def [symmetric] s1_def [symmetric] GetFunction_def)
qed


theorem late_delete_loses_function_witness:
  "let (c, g) = watched_gateway NewInMemStore 0 0; s = gw_store g; d = toStateDef demo_def;
       s' = broadcast \<lparr>ev_Kind = EventFunctionDelete, ev_Name = ''hello''\<rparr> (broadcast \<lparr>ev_Kind = EventFunctionPut, ev_Name = ''hello''\<rparr>
         (s\<lparr>st_functions := map_put ''hello'' d (map_del ''hello'' (st_functions s))\<rparr>))
   in map_of (gw_functions (watchStore 2 c (g\<lparr>gw_store := s'\<rparr>))) ''hello'' = None"
proof -
  obtain c g where w: "watched_gateway NewInMemStore 0 0 = (c, g)" by fastforce
  have wf: "store_wf NewInMemStore" by (rule store_reachable_wf [OF store_reachable.new])
  have i: "chans_wf (gw_store g)" "watching c g" using mirror_invD(2,4) [OF watched_gateway_inv [OF wf w]] by simp_all
  have "buffered (fst (watched_gateway NewInMemStore 0 0)) (snd (watched_gateway NewInMemStore 0 0)) = []" by code_simp
  then have "buffered c g = []" by (simp add: w)
  moreover have "sf_Name (toStateDef demo_def) = ''hello''" by (simp add: toStateDef_def demo_def_def)
  ultimately show ?thesis using late_delete_loses_function [OF i, of "toStateDef demo_def" "''hello''" 2] w by (simp add: Let_def)
qed

end
