(* ===== verification/Request_Path.thy ===== *)
theory Request_Path
  imports Watch_Mirror
begin

text \<open>
  A request on its whole way: from the gateway's handler through the frame it writes, the SDK's
  loop in the function's process and the handler there, and back to the HTTP response.
\<close>

section \<open>Definitions\<close>

text \<open>The event a handler sees for a request with the JSON body \<open>b\<close>.\<close>

definition seen_event :: "Request \<Rightarrow> string \<Rightarrow> sdk_Event" where
  "seen_event r b =
     \<lparr>se_Method = rq_Method r, se_Path = rq_Path r, se_Headers = sort_key fst (first_headers (rq_Header r)), se_Body = b\<rparr>"

text \<open>A request whose method, path and headers are UTF-8 and whose body is the JSON text \<open>b\<close>.\<close>

definition request_ok :: "Request \<Rightarrow> string \<Rightarrow> bool" where
  "request_ok r b \<longleftrightarrow>
     utf8_valid (rq_Method r) \<and> utf8_valid (rq_Path r) \<and> map_wf (rq_Header r) \<and>
     (\<forall>(k, v) \<in> set (first_headers (rq_Header r)). utf8_valid k \<and> utf8_valid v) \<and>
     compact_raw (quoteIfNotJSON (rq_Body r)) = Some b \<and> raw_ok b"

section \<open>Lemmas\<close>

lemma first_headers_wf: "map_wf h \<Longrightarrow> map_wf (first_headers h)"
  by (induction h) (force simp: first_headers_def)+

lemma event_members:
  assumes "request_ok r b"
  shows "unmarshal event_field (event_json r) zero_event = (seen_event r b, True)" and "event_json r \<noteq> []"
proof -
  let ?h = "first_headers (rq_Header r)"
  let ?kvs = "[(''body'', b), (''headers'', encode_string_map ?h), (''method'', json_quote (rq_Method r)), (''path'', json_quote (rq_Path r))]"
  have wf: "map_wf ?h" using assms by (simp add: request_ok_def first_headers_wf)
  have utf: "\<forall>(k, v) \<in> set ?h. utf8_valid k \<and> utf8_valid v" using assms by (simp add: request_ok_def)
  note h = headers_members [OF wf utf]
  have e: "event_json r = encode_object ?kvs" using assms by (simp add: event_json_def request_ok_def)
  then show "event_json r \<noteq> []" by (simp add: encode_object_def)
  have "\<forall>kv \<in> set ?kvs. utf8_valid (fst kv) \<and> raw_ok (snd kv)"
    using assms h(2) by (auto simp: request_ok_def quote_raw_ok name_valid)
  note unmarshal_top [OF this, of event_field zero_event]
  moreover have "decode_struct event_field ?kvs zero_event = (seen_event r b, True)"
    using assms h(1) by (simp add: event_field_def field_matches_def zero_event_def seen_event_def request_ok_def)
  ultimately show "unmarshal event_field (event_json r) zero_event = (seen_event r b, True)" by (simp add: e)
qed

lemma deadline_text: "format_int 30000 = ''30000''"
  by (simp add: format_int_def decimal.simps digit_char_def char_of_eq_iff take_bit_eq_mod)

lemma ctx_deadline: "contextFor (ctx_json reqID) = Some (30 * Second)"
proof -
  let ?kvs = "[(''deadline_ms'', ''30000''), (''trace_id'', json_quote reqID)]"
  have "\<forall>kv \<in> set ?kvs. utf8_valid (fst kv) \<and> raw_ok (snd kv)"
    using int_raw_ok [of 30000] by (simp add: quote_raw_ok utf8_valid_ascii deadline_text)
  note u = unmarshal_top [OF this, of deadline_field 0]
  have "decode_int64 ''30000'' = DValue 30000"
    using decode_format_int [of 30000] by (simp add: deadline_text)
  moreover have "fold_name ''trace_id'' \<noteq> fold_name ''deadline_ms''" by code_simp
  ultimately have "unmarshal deadline_field (ctx_json reqID) 0 = (30000, True)"
    using u by (simp add: ctx_json_def deadline_field_def field_matches_def)
  moreover have "ctx_json reqID \<noteq> []" by (simp add: ctx_json_def encode_object_def)
  ultimately show ?thesis by (simp add: contextFor_def wrap64_def)
qed

lemma serve_reply:
  assumes "parseFunctionPath (rq_Path r) = Some (project, name)" and "may_invoke g r project name"
    and "acquire env name g = (Acquired m, g1)" and "length (rq_Body r) \<le> MaxRequestBody"
    and "sv_invoke env m (invoke_frame (sv_reqID env) r) = Inr reply"
  shows "fst (ServeHTTP env r None g) = write_reply env reply"
  using assms by (simp add: ServeHTTP_eq serve_admitted_def serve_instance_def quota_check_def Let_def)

lemma write_response_ok:
  assumes "rs_Status resp = 0 \<or> 200 \<le> rs_Status resp \<and> rs_Status resp \<le> 999"
  shows "write_response resp = Responded
    \<lparr>hr_Status = (if rs_Status resp = 0 then 200 else rs_Status resp),
     hr_Header = fold (\<lambda>(k, v). map_put (canonical_key k) v) (rs_Headers resp) [],
     hr_Body = (if rs_Status resp = 204 \<or> rs_Status resp = 304 then [] else response_body (rs_Body resp))\<rparr>"
proof (cases "rs_Status resp = 0")
  case True
  then show ?thesis by (simp add: write_response_def Let_def)
next
  case False
  define k where "k = rs_Status resp"
  have k: "\<not> k < 100" "\<not> 999 < k" "\<not> k \<le> 199" "k \<noteq> 101" "k \<noteq> 0" using assms False by (auto simp: k_def)
  show ?thesis unfolding write_response_def Let_def k_def [symmetric] by (simp only: k if_False simp_thms)
qed

section \<open>Properties\<close>

text \<open>
  (C1) A request reaches its handler and the response comes back: when an instance of the function
  runs the SDK's loop with a handler, the handler is called with the method, the path, the first
  value of each header and the body of the request and a deadline of 30 seconds, and the client
  gets the status, the headers under their canonical names and the body the handler returned. A
  JSON string as body arrives as its text, any other JSON value as it is.
\<close>

theorem request_end_to_end:
  assumes "parseFunctionPath (rq_Path r) = Some (project, name)" and "may_invoke g r project name"
    and "acquire env name g = (Acquired m, g1)" and "length (rq_Body r) \<le> MaxRequestBody"
    and "\<And>f. sv_invoke env m f = fst (Invoke conn_write (conn_read bad unencodable h) \<lparr>sc_in = [], sc_out = []\<rparr> f)"
    and "request_ok r b" and "frame_fits (invoke_frame (sv_reqID env) r)"
    and "h (Some (30 * Second)) (seen_event r b) = Returned resp"
    and "response_ok resp" and "rs_Status resp = 0 \<or> 200 \<le> rs_Status resp \<and> rs_Status resp \<le> 999"
    and "frame_fits ((bare_frame TypeResult (sv_reqID env))\<lparr>fr_Result := encode_object (response_members resp)\<rparr>)"
  shows "fst (ServeHTTP env r None g) = Responded
    \<lparr>hr_Status = (if rs_Status resp = 0 then 200 else rs_Status resp),
     hr_Header = fold (\<lambda>(k, v). map_put (canonical_key k) v) (sort_key fst (rs_Headers resp)) [],
     hr_Body = (if rs_Status resp = 204 \<or> rs_Status resp = 304 then [] else response_body (rs_Body resp))\<rparr>"
proof -
  let ?f = "invoke_frame (sv_reqID env) r"
  have f: "fr_Type ?f = TypeInvoke" "fr_ID ?f = sv_reqID env" "fr_Event ?f = event_json r" "fr_Ctx ?f = ctx_json (sv_reqID env)"
    by (simp_all add: invoke_frame_def bare_frame_def)
  have e: "(if fr_Event ?f = [] then (zero_event, True) else unmarshal event_field (fr_Event ?f) zero_event) = (seen_event r b, True)"
    using event_members [OF assms(6)] by (simp add: f)
  have hc: "h (contextFor (fr_Ctx ?f)) (seen_event r b) = Returned resp" using assms(8) by (simp add: f ctx_deadline)
  note reply = reply_result [where f = ?f and h = h and bad = bad and unencodable = unencodable, OF e hc assms(9)]
  have fits: "frame_fits (reply_frame bad unencodable h ?f)" using reply(1) assms(11) by (simp add: f)
  have "sv_invoke env m ?f = Inr (reply_frame bad unencodable h ?f)"
    using invoke_reply [OF f(1) assms(7) fits] assms(5) by simp
  note serve_reply [OF assms(1-4) this]
  moreover have "write_reply env (reply_frame bad unencodable h ?f) = write_response (resp\<lparr>rs_Headers := sort_key fst (rs_Headers resp)\<rparr>)"
    using reply(2) by (simp add: write_reply_def reply(1) bare_frame_def TypeResult_def TypeError_def)
  ultimately show ?thesis
    using write_response_ok [of "resp\<lparr>rs_Headers := sort_key fst (rs_Headers resp)\<rparr>"] assms(10) by simp
qed


text \<open>A concrete request, a GET of \<open>/fn/hello\<close> without headers and body, meets the conditions.\<close>

lemma demo_event:
  "event_json (demo_request t) = ''{\"body\":\"\",\"headers\":{},\"method\":\"GET\",\"path\":\"/fn/hello\"}''"
  "ctx_json ''00ff'' = ''{\"deadline_ms\":30000,\"trace_id\":\"00ff\"}''"
  by (simp_all add: event_json_def ctx_json_def demo_request_def quoteIfNotJSON_def json_quote_def quote_body_plain plain_text_def
      compact_raw_def scan_begin_value_def begin_mode_def scan_end_value_def scan_eof_def json_space_def line_separator_def
      encode_object_def first_headers_def encode_string_map_def)


lemmas scanner_simps = compact_raw_def scan_begin_value_def begin_mode_def scan_begin_string_def scan_push_def scan_num0_def
  scan_end_value_def scan_pop_def scan_eof_def json_space_def is_digit_def line_separator_def

lemma demo_request_ok: "request_ok (demo_request t) (json_quote [])"
proof -
  have "compact_raw (json_quote []) = Some (json_quote [])"
    by (simp add: json_quote_def quote_body_plain plain_text_def scanner_simps)
  then show ?thesis
    by (simp add: request_ok_def demo_request_def first_headers_def quoteIfNotJSON_def quote_raw_ok utf8_valid_ascii)
qed

lemma demo_raws: "raw_field_ok (event_json (demo_request t))" "raw_field_ok (ctx_json ''00ff'')"
proof -
  have "raw_ok (encode_string_map [])"
    using headers_members(2) [of "[]"] by simp
  moreover have "scan_depth (encode_string_map []) (BeginValue, []) \<le> 1"
    unfolding encode_string_map_def by (rule object_depth) simp_all
  moreover have e: "event_json (demo_request t) = encode_object
      [(''body'', json_quote []), (''headers'', encode_string_map []), (''method'', json_quote ''GET''), (''path'', json_quote ''/fn/hello'')]"
    using demo_request_ok [of t] by (simp add: event_json_def request_ok_def demo_request_def first_headers_def)
  ultimately have r: "raw_ok (event_json (demo_request t))"
    unfolding e by (intro object_raw_ok) (simp add: quote_raw_ok quote_depth)
  have "compact_raw (event_json (demo_request t)) = Some (event_json (demo_request t))"
    unfolding demo_event by (simp add: scanner_simps)
  then show "raw_field_ok (event_json (demo_request t))" using r by (simp add: raw_field_ok_def)
  have "raw_ok (ctx_json ''00ff'')"
    unfolding ctx_json_def using int_raw_ok [of 30000] int_depth [of 30000]
    by (intro object_raw_ok) (simp add: quote_raw_ok quote_depth deadline_text)
  moreover have "compact_raw (ctx_json ''00ff'') = Some (ctx_json ''00ff'')"
    unfolding demo_event by (simp add: scanner_simps)
  ultimately show "raw_field_ok (ctx_json ''00ff'')" by (simp add: raw_field_ok_def)
qed

lemma demo_invoke_frame_fits: "frame_fits (invoke_frame ''00ff'' (demo_request t))"
proof -
  have "frame_ok (invoke_frame ''00ff'' (demo_request t))"
    using demo_raws(1) [of t] demo_raws(2) by (simp add: frame_ok_def invoke_frame_def bare_frame_def TypeInvoke_def utf8_valid_ascii raw_field_ok_def [of "[]"])
  moreover have "length (encode_object (frame_members (invoke_frame ''00ff'' (demo_request t)))) \<le> MaxFrameSize"
    by (simp add: invoke_frame_def bare_frame_def frame_members_def demo_event encode_object_def json_quote_def quote_body_plain
        plain_text_def TypeInvoke_def MaxFrameSize_def)
  ultimately show ?thesis by (simp add: frame_fits_def)
qed

theorem request_end_to_end_witness:
  "fst (ServeHTTP demo_env (demo_request '''') None demo_gateway) = Responded \<lparr>hr_Status = 200, hr_Header = [], hr_Body = []\<rparr>"
proof -
  have p: "parseFunctionPath (rq_Path (demo_request '''')) = Some ([], ''hello'')" by code_simp
  have m: "may_invoke demo_gateway (demo_request '''') [] ''hello''" by code_simp
  have a: "acquire demo_env ''hello'' demo_gateway = (Acquired 1, demo_warm)"
    using demo_acquire(1) by (simp add: demo_warm_def prod_eq_iff)
  have members: "response_members demo_response = [(''status'', format_int 200)]"
    by (simp add: response_members_def demo_response_def)
  have ok: "response_ok demo_response" by (simp add: response_ok_def demo_response_def raw_field_ok_def)
  have fits: "frame_fits ((bare_frame TypeResult ''00ff'')\<lparr>fr_Result := encode_object (response_members demo_response)\<rparr>)"
    using demo_reply_fits unfolding members demo_reply
    by (auto simp: frame_fits_def frame_ok_def bare_frame_def frame_members_def encode_object_def json_quote_def
        quote_body_plain plain_text_def utf8_valid_ascii TypeResult_def MaxFrameSize_def
        format_int_def decimal.simps digit_char_def char_of_eq_iff take_bit_eq_mod)
  have i: "sv_reqID demo_env = ''00ff''" "length (rq_Body (demo_request '''')) \<le> MaxRequestBody"
    "demo_handler (Some (30 * Second)) (seen_event (demo_request '''') (json_quote [])) = Returned demo_response"
    by (simp_all add: demo_env_def demo_request_def demo_handler_def)
  have inv: "sv_invoke demo_env 1 f = fst (Invoke conn_write (conn_read id id demo_handler) \<lparr>sc_in = [], sc_out = []\<rparr> f)" for f
    by (simp add: demo_env_def)
  have f1: "frame_fits (invoke_frame (sv_reqID demo_env) (demo_request ''''))" unfolding i(1) by (rule demo_invoke_frame_fits)
  have f2: "frame_fits ((bare_frame TypeResult (sv_reqID demo_env))\<lparr>fr_Result := encode_object (response_members demo_response)\<rparr>)"
    unfolding i(1) by (rule fits)
  have st: "rs_Status demo_response = 0 \<or> 200 \<le> rs_Status demo_response \<and> rs_Status demo_response \<le> 999"
    by (simp add: demo_response_def)
  from request_end_to_end [OF p m a i(2) inv demo_request_ok f1 i(3) ok st f2] show ?thesis
    by (simp add: demo_response_def response_body_def)
qed

end
