(* ===== verification/Stats.thy ===== *)
theory Stats
  imports Gateway_Serving "HOL-Library.Product_Lexorder"
begin

text \<open>
  The snapshot the dashboard reads (\<open>internal/gateway/stats.go\<close>, \<open>sort.go\<close>): one entry per
  registered function with the totals of its pool, and one per layer that functions share. The
  average is a \<open>float64\<close> quotient in the code; it is kept here as its numerator and denominator.
  Where \<open>sort.Slice\<close> leaves the order of equal elements open, the model keeps them as they came.
\<close>

section \<open>Definitions\<close>

record FunctionStatsLyr =
  fl_Name :: string
  fl_HostPath :: string
  fl_MountPath :: string

record FunctionStats =
  fs_Name :: string
  fs_Endpoint :: string
  fs_Binary :: string
  fs_Layers :: "FunctionStatsLyr list"
  fs_Running :: bool
  fs_PoolSize :: nat
  fs_MaxConcurrency :: int
  fs_Mode :: string
  fs_ColdMS :: int
  fs_StartedAt :: "time option"
  fs_LastUsed :: "time option"
  fs_IdleMS :: int
  fs_Invokes :: nat
  fs_Errors :: nat
  fs_AvgMS :: "(int \<times> nat) option"

record LayerSummary =
  ls_Name :: string
  ls_HostPath :: string
  ls_MountPath :: string
  ls_RefCount :: nat
  ls_WarmRefs :: nat
  ls_References :: "string list"

record Stats =
  ss_StartedAt :: time
  ss_NowAt :: time
  ss_IdleTTLMS :: int
  ss_Functions :: "FunctionStats list"
  ss_Layers :: "LayerSummary list"

text \<open>\<open>Duration.Milliseconds\<close>: division towards zero.\<close>

definition milliseconds :: "duration \<Rightarrow> int" where
  "milliseconds d = (if 0 \<le> d then d div Millisecond else - ((- d) div Millisecond))"

record layerAgg =
  la_name :: string
  la_mount :: string
  la_refs :: "string list"
  la_warmRefs :: nat

type_synonym layers_map = "(string \<times> string, layerAgg) gomap"

text \<open>One mount of a function, under the key of its host and mount path.\<close>

definition add_layer :: "string \<Rightarrow> bool \<Rightarrow> LayerMount \<Rightarrow> layers_map \<Rightarrow> layers_map" where
  "add_layer name warm l layers =
     (let k = (gl_HostPath l, gl_MountPath l);
          a = (case map_of layers k of
                 Some a \<Rightarrow> a
               | None \<Rightarrow> \<lparr>la_name = gl_Name l, la_mount = gl_MountPath l, la_refs = [], la_warmRefs = 0\<rparr>)
      in map_put k (a\<lparr>la_refs := la_refs a @ [name],
           la_warmRefs := (if warm then Suc (la_warmRefs a) else la_warmRefs a)\<rparr>) layers)"

definition pool_of :: "Gateway \<Rightarrow> string \<Rightarrow> pool option" where
  "pool_of g name = (case map_of (gw_pools g) name of None \<Rightarrow> None | Some p \<Rightarrow> map_of (gw_poolheap g) p)"

text \<open>The instances of a pool, read through their pointers.\<close>

definition pool_insts :: "Gateway \<Rightarrow> string \<Rightarrow> managedInstance list" where
  "pool_insts g name =
     (case pool_of g name of None \<Rightarrow> [] | Some pl \<Rightarrow> List.map_filter (map_of (gw_mis g)) (pl_instances pl))"

text \<open>The totals over the live instances, accumulated in \<open>uint64\<close> and \<open>int64\<close>.\<close>

definition total_inv :: "managedInstance list \<Rightarrow> nat" where
  "total_inv mis = fold (\<lambda>mi n. wrapu64 (n + mi_invokes mi)) mis 0"

definition total_err :: "managedInstance list \<Rightarrow> nat" where
  "total_err mis = fold (\<lambda>mi n. wrapu64 (n + mi_errors mi)) mis 0"

definition total_dur :: "managedInstance list \<Rightarrow> duration" where
  "total_dur mis = fold (\<lambda>mi n. wrap64 (n + mi_totalNS mi)) mis 0"

definition idle_stats :: "string \<Rightarrow> FunctionDef \<Rightarrow> FunctionStats" where
  "idle_stats name def =
     \<lparr>fs_Name = name, fs_Endpoint = ''/fn/'' @ name, fs_Binary = fd_Binary def,
      fs_Layers = map (\<lambda>l. \<lparr>fl_Name = gl_Name l, fl_HostPath = gl_HostPath l, fl_MountPath = gl_MountPath l\<rparr>) (fd_Layers def),
      fs_Running = False, fs_PoolSize = 0, fs_MaxConcurrency = fd_MaxConcurrency def, fs_Mode = [], fs_ColdMS = 0,
      fs_StartedAt = None, fs_LastUsed = None, fs_IdleMS = 0, fs_Invokes = 0, fs_Errors = 0, fs_AvgMS = None\<rparr>"

definition lifetime :: "pool option \<Rightarrow> nat \<times> nat \<times> duration" where
  "lifetime p = (case p of None \<Rightarrow> (0, 0, 0)
     | Some pl \<Rightarrow> (pl_lifetimeInvokes pl, pl_lifetimeErrors pl, pl_lifetimeTotalDur pl))"

definition function_stats :: "time \<Rightarrow> Gateway \<Rightarrow> string \<times> FunctionDef \<Rightarrow> FunctionStats" where
  "function_stats now g nd =
     (let (name, def) = nd;
          fs = idle_stats name def;
          poolInsts = pool_insts g name;
          (lifetimeInv, lifetimeErr, lifetimeDur) = lifetime (pool_of g name)
      in case poolInsts of
           mi0 # _ \<Rightarrow>
             (let earliest = fold (\<lambda>mi t. if mi_created mi < t then mi_created mi else t) poolInsts (mi_created mi0);
                  latest = fold (\<lambda>mi t. if t < lastUsed mi then lastUsed mi else t) poolInsts (lastUsed mi0);
                  minCold = fold (\<lambda>mi d. if in_ColdStart (mi_inst mi) < d then in_ColdStart (mi_inst mi) else d)
                    poolInsts (in_ColdStart (mi_inst mi0));
                  invokes = wrapu64 (total_inv poolInsts + lifetimeInv)
              in fs\<lparr>fs_Running := True, fs_PoolSize := length poolInsts, fs_Mode := in_Mode (mi_inst mi0),
                   fs_ColdMS := milliseconds minCold, fs_StartedAt := Some earliest, fs_LastUsed := Some latest,
                   fs_IdleMS := milliseconds (time_sub now latest), fs_Invokes := invokes,
                   fs_Errors := wrapu64 (total_err poolInsts + lifetimeErr),
                   fs_AvgMS := (if 0 < invokes
                     then Some (milliseconds (wrap64 (total_dur poolInsts + lifetimeDur)), invokes) else None)\<rparr>)
         | [] \<Rightarrow>
             if 0 < lifetimeInv
             then fs\<lparr>fs_Invokes := lifetimeInv, fs_Errors := lifetimeErr,
                    fs_AvgMS := Some (milliseconds lifetimeDur, lifetimeInv)\<rparr>
             else fs)"

definition sortFunctions :: "FunctionStats list \<Rightarrow> FunctionStats list" where
  "sortFunctions = sort_key fs_Name"

definition collect_layers :: "Gateway \<Rightarrow> layers_map" where
  "collect_layers g =
     fold (\<lambda>(name, def) layers. fold (add_layer name (pool_insts g name \<noteq> [])) (fd_Layers def) layers) (gw_functions g) []"

definition layer_summary :: "(string \<times> string) \<times> layerAgg \<Rightarrow> LayerSummary" where
  "layer_summary ka =
     (case ka of ((host, mount), a) \<Rightarrow>
        \<lparr>ls_Name = la_name a, ls_HostPath = host, ls_MountPath = mount, ls_RefCount = length (la_refs a),
         ls_WarmRefs = la_warmRefs a, ls_References = sort (la_refs a)\<rparr>)"

definition sort_layers :: "LayerSummary list \<Rightarrow> LayerSummary list" where
  "sort_layers = sort_key (\<lambda>l. (- int (ls_RefCount l), ls_Name l))"

definition Stats_of :: "time \<Rightarrow> Gateway \<Rightarrow> Stats" where
  "Stats_of now g =
     \<lparr>ss_StartedAt = gw_startedAt g, ss_NowAt = now, ss_IdleTTLMS = milliseconds (gw_idleTTL g),
      ss_Functions = sortFunctions (map (function_stats now g) (gw_functions g)),
      ss_Layers = sort_layers (map layer_summary (collect_layers g))\<rparr>"

text \<open>The totals of a function: what its pool has seen, or nothing when it has no pool yet.\<close>

definition seen_invokes :: "Gateway \<Rightarrow> string \<Rightarrow> nat" where
  "seen_invokes g n = (case map_of (gw_pools g) n of None \<Rightarrow> 0 | Some p \<Rightarrow> total_invokes g p)"

definition seen_errors :: "Gateway \<Rightarrow> string \<Rightarrow> nat" where
  "seen_errors g n = (case map_of (gw_pools g) n of None \<Rightarrow> 0 | Some p \<Rightarrow> total_errors g p)"

definition layer_ok :: "layers_map \<Rightarrow> bool" where
  "layer_ok layers \<longleftrightarrow> map_wf layers \<and> (\<forall>(k, a) \<in> set layers. la_warmRefs a \<le> length (la_refs a))"

definition ref_total :: "layers_map \<Rightarrow> nat" where
  "ref_total layers = sum_list (map (\<lambda>(k, a). length (la_refs a)) layers)"

section \<open>Lemmas\<close>

declare map_of_eq_Some_iff [simp del] Some_eq_map_of_iff [simp del]

subsection \<open>Totals\<close>

lemma total_inv_sum: "wrapu64 (fold (\<lambda>mi n. wrapu64 (n + f mi)) mis a) = wrapu64 (a + sum_list (map f mis))"
  for f :: "managedInstance \<Rightarrow> nat"
proof (induction mis arbitrary: a)
  case (Cons mi mis)
  then show ?case by (simp add: add.assoc)
qed simp

lemma wrapu64_fold: "wrapu64 (fold (\<lambda>mi n. wrapu64 (n + f mi)) mis 0 + b) = wrapu64 (sum_list (map f mis) + b)"
  for f :: "managedInstance \<Rightarrow> nat"
  using total_inv_sum [of f mis 0] by (metis add_0 wrapu64_add(1))

lemma map_filter_live:
  "\<forall>m \<in> set ms. map_of (gw_mis g) m \<noteq> None \<Longrightarrow>
     sum_list (map f (List.map_filter (map_of (gw_mis g)) ms)) = sum_list (map (\<lambda>m. case map_of (gw_mis g) m of None \<Rightarrow> 0 | Some mi \<Rightarrow> f mi) ms)"
  for f :: "managedInstance \<Rightarrow> nat"
  by (induction ms) (auto simp: List.map_filter_simps)

lemma pool_instsD:
  assumes "gateway_wf g" and "pool_of g n = Some pl"
  shows "\<forall>m \<in> set (pl_instances pl). map_of (gw_mis g) m \<noteq> None" and "pool_insts g n = List.map_filter (map_of (gw_mis g)) (pl_instances pl)"
  using assms gateway_poolD [OF assms(1)] by (auto simp: pool_of_def pool_insts_def split: option.splits)

lemma pool_insts_empty:
  assumes "gateway_wf g" and "pool_of g n = Some pl"
  shows "pool_insts g n = [] \<longleftrightarrow> pl_instances pl = []"
  using pool_instsD [OF assms] by (cases "pl_instances pl") (auto simp: List.map_filter_simps)

lemma seen_pool:
  assumes "gateway_wf g" and "pool_of g n = Some pl"
  shows "seen_invokes g n = wrapu64 (sum_list (map mi_invokes (pool_insts g n)) + pl_lifetimeInvokes pl)"
    and "seen_errors g n = wrapu64 (sum_list (map mi_errors (pool_insts g n)) + pl_lifetimeErrors pl)"
  using assms(2) pool_instsD [OF assms]
  by (auto simp: seen_invokes_def seen_errors_def pool_of_def total_invokes_def total_errors_def map_filter_live
      invokes_of_def [abs_def] errors_of_def [abs_def] add.commute split: option.splits)

lemma pool_none:
  assumes "gateway_wf g" and "pool_of g n = None"
  shows "map_of (gw_pools g) n = None" and "pool_insts g n = []" and "seen_invokes g n = 0" and "seen_errors g n = 0"
proof -
  show "map_of (gw_pools g) n = None"
    using assms unfolding pool_of_def gateway_wf_def registry_wf_def by (fastforce split: option.splits)
  then show "pool_insts g n = []" "seen_invokes g n = 0" "seen_errors g n = 0"
    by (simp_all add: pool_insts_def pool_of_def seen_invokes_def seen_errors_def)
qed

lemma function_stats_totals:
  assumes wf: "gateway_wf g"
  shows "wrapu64 (fs_Invokes (function_stats now g (n, d))) = seen_invokes g n"
    and "fs_Running (function_stats now g (n, d)) \<longleftrightarrow> pool_insts g n \<noteq> []"
    and "pool_insts g n \<noteq> [] \<or> 0 < fst (lifetime (pool_of g n)) \<Longrightarrow> wrapu64 (fs_Errors (function_stats now g (n, d))) = seen_errors g n"
    and "pool_insts g n = [] \<Longrightarrow> fst (lifetime (pool_of g n)) = 0 \<Longrightarrow> fs_Errors (function_stats now g (n, d)) = 0"
proof -
  have "wrapu64 (fs_Invokes (function_stats now g (n, d))) = seen_invokes g n \<and>
    (fs_Running (function_stats now g (n, d)) \<longleftrightarrow> pool_insts g n \<noteq> []) \<and>
    (pool_insts g n \<noteq> [] \<or> 0 < fst (lifetime (pool_of g n)) \<longrightarrow> wrapu64 (fs_Errors (function_stats now g (n, d))) = seen_errors g n) \<and>
    (pool_insts g n = [] \<longrightarrow> fst (lifetime (pool_of g n)) = 0 \<longrightarrow> fs_Errors (function_stats now g (n, d)) = 0)"
  proof (cases "pool_of g n")
    case None
    then show ?thesis using pool_none [OF wf None] by (simp add: function_stats_def idle_stats_def lifetime_def wrapu64_def)
  next
    case (Some pl)
    note sp = seen_pool [OF wf Some]
    show ?thesis
    proof (cases "pool_insts g n")
      case Nil
      then show ?thesis using sp Some by (cases "0 < pl_lifetimeInvokes pl") (simp_all add: function_stats_def idle_stats_def lifetime_def wrapu64_def Let_def)
    next
      case (Cons mi mis)
      then show ?thesis
        using sp Some wrapu64_fold [of mi_invokes "pool_insts g n"] wrapu64_fold [of mi_errors "pool_insts g n"]
        by (simp add: function_stats_def Let_def lifetime_def idle_stats_def total_inv_def total_err_def)
    qed
  qed
  then show "wrapu64 (fs_Invokes (function_stats now g (n, d))) = seen_invokes g n"
    "fs_Running (function_stats now g (n, d)) \<longleftrightarrow> pool_insts g n \<noteq> []"
    "pool_insts g n \<noteq> [] \<or> 0 < fst (lifetime (pool_of g n)) \<Longrightarrow> wrapu64 (fs_Errors (function_stats now g (n, d))) = seen_errors g n"
    "pool_insts g n = [] \<Longrightarrow> fst (lifetime (pool_of g n)) = 0 \<Longrightarrow> fs_Errors (function_stats now g (n, d)) = 0"
    by blast+
qed

lemma seen_after_reap:
  "gateway_wf g \<Longrightarrow> seen_invokes (reapOnce now g) n = seen_invokes g n"
  "gateway_wf g \<Longrightarrow> seen_errors (reapOnce now g) n = seen_errors g n"
  by (simp_all add: seen_invokes_def seen_errors_def reapOnce_facts(4) reap_conserves split: option.split)

subsection \<open>Layers\<close>

lemma sum_map_put:
  fixes f :: "'v \<Rightarrow> nat"
  shows "map_wf m \<Longrightarrow> sum_list (map (\<lambda>(k, a). f a) (map_put k v m)) + (case map_of m k of None \<Rightarrow> 0 | Some a \<Rightarrow> f a) =
    sum_list (map (\<lambda>(k, a). f a) m) + f v"
  by (induction m) (auto split: option.splits dest: map_of_SomeD)

lemma add_layer_ok: "layer_ok layers \<Longrightarrow> layer_ok (add_layer n w l layers) \<and> ref_total (add_layer n w l layers) = Suc (ref_total layers)"
proof -
  assume ok: "layer_ok layers"
  let ?k = "(gl_HostPath l, gl_MountPath l)"
  define a where "a = (case map_of layers ?k of Some a \<Rightarrow> a | None \<Rightarrow> \<lparr>la_name = gl_Name l, la_mount = gl_MountPath l, la_refs = [], la_warmRefs = 0\<rparr>)"
  define a' where "a' = a\<lparr>la_refs := la_refs a @ [n], la_warmRefs := (if w then Suc (la_warmRefs a) else la_warmRefs a)\<rparr>"
  have eq: "add_layer n w l layers = map_put ?k a' layers" by (simp add: add_layer_def Let_def a_def a'_def)
  have "la_warmRefs a \<le> length (la_refs a)" using ok by (auto simp: a_def layer_ok_def dest!: map_of_SomeD split: option.split)
  then have le: "la_warmRefs a' \<le> length (la_refs a')" by (simp add: a'_def)
  have "layer_ok (map_put ?k a' layers)" using ok le by (auto simp: layer_ok_def dest!: set_map_put)
  moreover have "(case map_of layers ?k of None \<Rightarrow> 0 | Some a \<Rightarrow> length (la_refs a)) = length (la_refs a)"
    by (simp add: a_def split: option.split)
  then have "ref_total (map_put ?k a' layers) = Suc (ref_total layers)"
    using sum_map_put [of layers "\<lambda>a. length (la_refs a)" ?k a'] ok by (simp add: ref_total_def layer_ok_def a'_def)
  ultimately show ?thesis by (simp add: eq)
qed

lemma add_layers_ok:
  "layer_ok layers \<Longrightarrow> layer_ok (fold (add_layer n w) ls layers) \<and> ref_total (fold (add_layer n w) ls layers) = ref_total layers + length ls"
  by (induction ls arbitrary: layers) (simp_all add: add_layer_ok)

lemma collect_layers_ok:
  "layer_ok (collect_layers g) \<and> ref_total (collect_layers g) = sum_list (map (\<lambda>(n, d). length (fd_Layers d)) (gw_functions g))"
proof -
  have "layer_ok layers \<Longrightarrow>
    layer_ok (fold (\<lambda>(name, def) layers. fold (add_layer name (W name)) (fd_Layers def) layers) fs layers) \<and>
    ref_total (fold (\<lambda>(name, def) layers. fold (add_layer name (W name)) (fd_Layers def) layers) fs layers) =
      ref_total layers + sum_list (map (\<lambda>(n, d). length (fd_Layers d)) fs)" for layers fs W
    by (induction fs arbitrary: layers) (auto simp: add_layers_ok)
  from this [of "[]"] show ?thesis by (simp add: collect_layers_def layer_ok_def ref_total_def)
qed

lemma sum_sort: "sum_list (map f (sort_key k xs)) = sum_list (map f xs)" for f :: "'a \<Rightarrow> nat"
proof -
  have "sum_mset (mset (map f (sort_key k xs))) = sum_mset (mset (map f xs))" by simp
  then show ?thesis unfolding sum_mset_sum_list .
qed

lemma warm_before_reap:
  assumes wf: "gateway_wf g" and "pool_insts (reapOnce now g) n \<noteq> [] \<or> 0 < fst (lifetime (pool_of (reapOnce now g) n))"
  shows "pool_insts g n \<noteq> [] \<or> 0 < fst (lifetime (pool_of g n))"
proof (cases "pool_of g n")
  case None
  then have "map_of (gw_pools g) n = None" by (rule pool_none(1) [OF wf])
  then have "pool_of (reapOnce now g) n = None" by (simp add: pool_of_def reapOnce_facts(4) [OF wf])
  then show ?thesis using assms(2) by (simp add: pool_insts_def lifetime_def)
next
  case (Some pl)
  then obtain p where p: "map_of (gw_pools g) n = Some p" "map_of (gw_poolheap g) p = Some pl"
    by (auto simp: pool_of_def split: option.splits)
  then have "p \<in> set (map snd (gw_pools g))" by (force dest: map_of_SomeD)
  then have after: "pool_of (reapOnce now g) n = Some (reaped_pool now g p pl)"
    using p by (simp add: pool_of_def reapOnce_facts [OF wf])
  show ?thesis
  proof (rule ccontr)
    assume "\<not> ?thesis"
    then have e: "pl_instances pl = []" "pl_lifetimeInvokes pl = 0"
      using pool_insts_empty [OF wf Some] Some by (simp_all add: lifetime_def)
    then have "reaped_pool now g p pl = pl" using p(2) by (simp add: reaped_pool_def victims_of_def instances_of_def)
    then show False
      using assms(2) after e pool_insts_empty [OF reapOnce_facts(1) [OF wf] after] by (simp add: lifetime_def)
  qed
qed

section \<open>Properties\<close>

text \<open>
  The dashboard lists every registered function once, in the order of the names, and under
  each name the requests its pool has served in its life, whether their instances are warm or were
  reaped (modulo \<open>2^64\<close>). Layers are listed by falling number of users; each lists its users in
  order, no more of them warm than there are, and together they are all mounts of all functions.
\<close>

theorem stats_listing:
  assumes wf: "gateway_wf g"
  shows "map fs_Name (ss_Functions (Stats_of now g)) = sort (map fst (gw_functions g)) \<and>
    (\<forall>fs \<in> set (ss_Functions (Stats_of now g)). wrapu64 (fs_Invokes fs) = seen_invokes g (fs_Name fs)) \<and>
    sorted_wrt (\<lambda>a b. ls_RefCount b \<le> ls_RefCount a) (ss_Layers (Stats_of now g)) \<and>
    (\<forall>l \<in> set (ss_Layers (Stats_of now g)).
       ls_WarmRefs l \<le> ls_RefCount l \<and> ls_RefCount l = length (ls_References l) \<and> sorted (ls_References l)) \<and>
    sum_list (map ls_RefCount (ss_Layers (Stats_of now g))) = sum_list (map (\<lambda>(n, d). length (fd_Layers d)) (gw_functions g))"
proof -
  have n: "fs_Name (function_stats now g nd) = fst nd" for nd
    by (cases nd) (auto simp: function_stats_def Let_def idle_stats_def case_prod_unfold split: list.split)
  have names: "map fs_Name (ss_Functions (Stats_of now g)) = sort (map fst (gw_functions g))"
  proof (rule properties_for_sort [symmetric])
    show "mset (map fs_Name (ss_Functions (Stats_of now g))) = mset (map fst (gw_functions g))"
      by (simp add: Stats_of_def sortFunctions_def image_mset.compositionality comp_def n)
    show "sorted (map fs_Name (ss_Functions (Stats_of now g)))" by (simp add: Stats_of_def sortFunctions_def)
  qed
  have inv: "\<forall>fs \<in> set (ss_Functions (Stats_of now g)). wrapu64 (fs_Invokes fs) = seen_invokes g (fs_Name fs)"
    using function_stats_totals(1) [OF wf] by (auto simp: Stats_of_def sortFunctions_def n)
  let ?ls = "map layer_summary (collect_layers g)"
  have ls: "ss_Layers (Stats_of now g) = sort_key (\<lambda>l. (- int (ls_RefCount l), ls_Name l)) ?ls"
    by (simp add: Stats_of_def sort_layers_def)
  have srt: "sorted (map (\<lambda>l. (- int (ls_RefCount l), ls_Name l)) (sort_key (\<lambda>l. (- int (ls_RefCount l), ls_Name l)) ?ls))" by simp
  then have "sorted_wrt (\<lambda>a b. ls_RefCount b \<le> ls_RefCount a) (ss_Layers (Stats_of now g))"
    unfolding ls sorted_map by (rule sorted_wrt_mono_rel [rotated]) (auto simp: less_eq_prod_def)
  moreover have "\<forall>l \<in> set (ss_Layers (Stats_of now g)).
       ls_WarmRefs l \<le> ls_RefCount l \<and> ls_RefCount l = length (ls_References l) \<and> sorted (ls_References l)"
    using collect_layers_ok [of g] unfolding ls by (auto simp: layer_summary_def layer_ok_def split: prod.splits)
  moreover have "sum_list (map ls_RefCount ?ls) = ref_total (collect_layers g)"
    unfolding ref_total_def by (simp add: comp_def layer_summary_def case_prod_unfold)
  then have "sum_list (map ls_RefCount (ss_Layers (Stats_of now g))) = sum_list (map (\<lambda>(n, d). length (fd_Layers d)) (gw_functions g))"
    using collect_layers_ok [of g] by (simp add: ls sum_sort)
  ultimately show ?thesis using names inv by blast
qed

theorem stats_listing_witness:
  "map fs_Name (ss_Functions (Stats_of 5 demo_warm)) = [''hello''] \<and>
   list_all (\<lambda>fs. wrapu64 (fs_Invokes fs) = seen_invokes demo_warm (fs_Name fs)) (ss_Functions (Stats_of 5 demo_warm))"
proof -
  have wf: "gateway_wf demo_warm" unfolding demo_warm_def by (rule acquire_wf [OF demo_gateway_wf])
  have "map fst (gw_functions demo_warm) = [''hello'']" by code_simp
  then show ?thesis using stats_listing [OF wf, of 5] by (simp add: list_all_iff)
qed

text \<open>
  Reaping does not show in the number of requests of any function; the number of errors
  survives it too, as long as the function is still warm or has served a request.
\<close>

theorem stats_survive_reaping:
  assumes wf: "gateway_wf g"
  shows "let before = function_stats t g (n, d); after = function_stats t (reapOnce now g) (n, d)
    in wrapu64 (fs_Invokes after) = wrapu64 (fs_Invokes before) \<and>
       (fs_Running after \<or> 0 < fst (lifetime (pool_of (reapOnce now g) n)) \<longrightarrow> wrapu64 (fs_Errors after) = wrapu64 (fs_Errors before))"
proof -
  let ?g = "reapOnce now g"
  have wf': "gateway_wf ?g" by (rule reapOnce_facts(1) [OF wf])
  have "wrapu64 (fs_Invokes (function_stats t ?g (n, d))) = wrapu64 (fs_Invokes (function_stats t g (n, d)))"
    by (simp add: function_stats_totals(1) wf wf' seen_after_reap(1))
  moreover have "wrapu64 (fs_Errors (function_stats t ?g (n, d))) = wrapu64 (fs_Errors (function_stats t g (n, d)))"
    if "fs_Running (function_stats t ?g (n, d)) \<or> 0 < fst (lifetime (pool_of ?g n))"
  proof -
    have after: "wrapu64 (fs_Errors (function_stats t ?g (n, d))) = seen_errors g n"
      using that function_stats_totals(2,3) [OF wf', where now = t and n = n and d = d] by (simp add: seen_after_reap(2) [OF wf])
    have "pool_insts g n \<noteq> [] \<or> 0 < fst (lifetime (pool_of g n))"
      using that function_stats_totals(2) [OF wf', where now = t and n = n and d = d] warm_before_reap [OF wf, of now n] by auto
    then show ?thesis using after function_stats_totals(3) [OF wf, where now = t and n = n and d = d] by simp
  qed
  ultimately show ?thesis by (simp add: Let_def)
qed

theorem stats_survive_reaping_witness:
  "wrapu64 (fs_Invokes (function_stats 9 (reapOnce 9 demo_warm) (''hello'', demo_def))) =
   wrapu64 (fs_Invokes (function_stats 9 demo_warm (''hello'', demo_def)))"
proof -
  have "gateway_wf demo_warm" unfolding demo_warm_def by (rule acquire_wf [OF demo_gateway_wf])
  from stats_survive_reaping [OF this, of 9 "''hello''" demo_def 9] show ?thesis by (simp add: Let_def)
qed

text \<open>
  Errors of a function that has only failed vanish: once its last instance is reaped and no
  request ever succeeded, the snapshot reports 0 errors, whatever the pool's lifetime counter
  holds.
\<close>

theorem stats_lose_errors:
  assumes wf: "gateway_wf g" and "pool_of g n = Some pl" and "pl_instances pl = []" and "pl_lifetimeInvokes pl = 0"
  shows "fs_Errors (function_stats t g (n, d)) = 0 \<and> seen_errors g n = wrapu64 (pl_lifetimeErrors pl)"
proof -
  have e: "pool_insts g n = []" using pool_insts_empty [OF wf assms(2)] assms(3) by simp
  have "fst (lifetime (pool_of g n)) = 0" using assms(2,4) by (simp add: lifetime_def)
  then show ?thesis using function_stats_totals(4) [OF wf e] seen_pool(2) [OF wf assms(2)] e by simp
qed

theorem stats_lose_errors_witness:
  "let g = reapOnce (unix_epoch + 60 * Second) (release 1 (upd_mi 1 (\<lambda>mi. mi\<lparr>mi_errors := 3\<rparr>) demo_warm))
   in fs_Errors (function_stats 0 g (''hello'', demo_def)) = 0 \<and> seen_errors g ''hello'' = 3"
proof -
  define h where "h = release 1 (upd_mi 1 (\<lambda>mi. mi\<lparr>mi_errors := 3\<rparr>) demo_warm)"
  define t where "t = unix_epoch + 60 * Second"
  have "gateway_wf demo_warm" unfolding demo_warm_def by (rule acquire_wf [OF demo_gateway_wf])
  then have wh: "gateway_wf h" by (simp add: h_def release_def gateway_wf_mi)
  have wf: "gateway_wf (reapOnce t h)" by (rule reapOnce_facts(1) [OF wh])
  have f: "gw_pools h = [(''hello'', 0)]" "map_of (gw_poolheap h) 0 = Some ((newPool 1)\<lparr>pl_instances := [1]\<rparr>)"
    "victims_of t h 0 = [1]" "filter (\<lambda>m. \<not> reapable t h m) (instances_of h 0) = []"
    "map_option mi_invokes (map_of (gw_mis h) 1) = Some 0" "map_option mi_errors (map_of (gw_mis h) 1) = Some 3"
    "map_option mi_totalNS (map_of (gw_mis h) 1) = Some 0" unfolding h_def t_def by code_simp+
  have r: "roll_up h 1 ((newPool 1)\<lparr>pl_instances := [1]\<rparr>) = (newPool 1)\<lparr>pl_instances := [1], pl_lifetimeErrors := 3\<rparr>"
    using f(5-7) by (auto simp: roll_up_def newPool_def wrapu64_def wrap64_def)
  have pl: "pool_of (reapOnce t h) ''hello'' = Some ((newPool 1)\<lparr>pl_lifetimeErrors := 3\<rparr>)"
    unfolding pool_of_def reapOnce_facts(2,4) [OF wh] f(1) by (simp add: f(2) reaped_pool_def f(3,4) r [unfolded One_nat_def]) (simp add: newPool_def)
  show ?thesis
    unfolding Let_def h_def [symmetric] t_def [symmetric] using stats_lose_errors [OF wf pl, of 0 demo_def] by (simp add: newPool_def wrapu64_def)
qed

end
