(* ===== verification/Scheduler.thy ===== *)
theory Scheduler
  imports Gateway_Serving
begin

text \<open>
  Package \<open>internal/scheduler\<close>: jobs and their file store, the trigger that calls the gateway
  (\<open>scheduler.go\<close>), and the scheduler that follows the state store (\<open>state.go\<close>). The cron engine is
  the package \<open>robfig/cron\<close>, which is not part of the program: its operations are arguments, and
  \<open>cron_laws\<close> says what its documentation promises of them. The text of the job file is an
  argument too, as the pair of functions that encodes and decodes it.
\<close>

section \<open>Definitions\<close>

subsection \<open>Jobs\<close>

record Job =
  jb_ID :: string
  jb_Schedule :: string
  jb_Function :: string
  jb_Method :: string
  jb_Body :: string
  jb_Headers :: "(string, string) gomap"

datatype sched_error =
    InvalidJobID
  | ScheduleRequired
  | InvalidFunctionName
  | InvalidSchedule string
  | DuplicateJob string
  | FileError
  | RegisterFailed string
  | JobNotFound string
  | RequestInvalid
  | CallFailed string
  | CallReturned int

text \<open>The patterns of job ids and function names are the gateway's pattern.\<close>

definition Validate :: "Job \<Rightarrow> sched_error option" where
  "Validate j =
     (if \<not> IsValidFunctionName (jb_ID j) then Some InvalidJobID
      else if jb_Schedule j = [] then Some ScheduleRequired
      else if \<not> IsValidFunctionName (jb_Function j) then Some InvalidFunctionName
      else None)"

subsection \<open>The job file\<close>

text \<open>The file's bytes, or \<open>None\<close> when it cannot be read; a write may fail too.\<close>

record job_file =
  jf_bytes :: "string option"
  jf_writable :: bool

definition load :: "(string \<Rightarrow> Job list option) \<Rightarrow> job_file \<Rightarrow> sched_error + Job list" where
  "load dec f =
     (case jf_bytes f of
        None \<Rightarrow> Inl FileError
      | Some b \<Rightarrow> (case dec b of None \<Rightarrow> Inl FileError | Some jobs \<Rightarrow> Inr jobs))"

definition save :: "(Job list \<Rightarrow> string) \<Rightarrow> Job list \<Rightarrow> job_file \<Rightarrow> sched_error option \<times> job_file" where
  "save enc jobs f =
     (let b = enc (sort_key jb_ID jobs)
      in if jf_writable f then (None, f\<lparr>jf_bytes := Some b\<rparr>) else (Some FileError, f))"

definition OpenStore :: "bool \<Rightarrow> job_file \<Rightarrow> sched_error option \<times> job_file" where
  "OpenStore missing f =
     (if missing then (if jf_writable f then (None, f\<lparr>jf_bytes := Some ''[]''\<rparr>) else (Some FileError, f))
      else (None, f))"

definition Add ::
  "(string \<Rightarrow> 'p option) \<Rightarrow> (Job list \<Rightarrow> string) \<Rightarrow> (string \<Rightarrow> Job list option) \<Rightarrow> Job \<Rightarrow> job_file \<Rightarrow> sched_error option \<times> job_file" where
  "Add parse enc dec j f =
     (case Validate j of
        Some e \<Rightarrow> (Some e, f)
      | None \<Rightarrow>
          (case parse (jb_Schedule j) of
             None \<Rightarrow> (Some (InvalidSchedule (jb_Schedule j)), f)
           | Some _ \<Rightarrow>
               (case load dec f of
                  Inl e \<Rightarrow> (Some e, f)
                | Inr jobs \<Rightarrow>
                    if \<exists>x \<in> set jobs. jb_ID x = jb_ID j then (Some (DuplicateJob (jb_ID j)), f)
                    else save enc (jobs @ [j]) f)))"

definition Remove_job ::
  "(Job list \<Rightarrow> string) \<Rightarrow> (string \<Rightarrow> Job list option) \<Rightarrow> string \<Rightarrow> job_file \<Rightarrow> sched_error option \<times> job_file" where
  "Remove_job enc dec jid f =
     (case load dec f of
        Inl e \<Rightarrow> (Some e, f)
      | Inr jobs \<Rightarrow> save enc (filter (\<lambda>j. jb_ID j \<noteq> jid) jobs) f)"

definition List_jobs :: "(string \<Rightarrow> Job list option) \<Rightarrow> job_file \<Rightarrow> sched_error + Job list" where
  "List_jobs dec f = load dec f"

subsection \<open>Triggers\<close>

record TriggerRequest =
  tr_Method :: string
  tr_URL :: string
  tr_Header :: "(string, string) gomap"
  tr_Body :: string

text \<open>\<open>http.NewRequest\<close> refuses a method that is no token and a URL it cannot parse (\<open>url_ok\<close>).\<close>

definition trigger_request :: "string \<Rightarrow> Job \<Rightarrow> TriggerRequest" where
  "trigger_request base j =
     \<lparr>tr_Method = (if jb_Method j = [] then ''POST'' else jb_Method j),
      tr_URL = base @ ''/fn/'' @ jb_Function j,
      tr_Header = fold (\<lambda>(k, v). map_put (canonical_key k) v) (jb_Headers j) [],
      tr_Body = jb_Body j\<rparr>"

definition Fire_http :: "(string \<Rightarrow> bool) \<Rightarrow> (TriggerRequest \<Rightarrow> string + int) \<Rightarrow> string \<Rightarrow> Job \<Rightarrow> sched_error option" where
  "Fire_http url_ok call base j =
     (let req = trigger_request base j
      in if \<not> (list_all token_char (tr_Method req) \<and> url_ok (tr_URL req)) then Some RequestInvalid
         else (case call req of
             Inl e \<Rightarrow> Some (CallFailed e)
           | Inr status \<Rightarrow> if 400 \<le> status then Some (CallReturned status) else None))"

text \<open>\<open>Read\<close> of the request body: the bytes copied into a buffer of \<open>n\<close>, or the end.\<close>

definition stringReader_Read :: "nat \<Rightarrow> string \<times> nat \<Rightarrow> string option \<times> (string \<times> nat)" where
  "stringReader_Read n r =
     (case r of (s, i) \<Rightarrow>
        if length s \<le> i then (None, (s, i))
        else (let bs = take n (drop i s) in (Some bs, (s, i + length bs))))"

text \<open>What a client gets that reads with buffers of the given sizes until the end.\<close>

fun read_body :: "nat list \<Rightarrow> string \<times> nat \<Rightarrow> string" where
  "read_body [] r = []"
| "read_body (n # ns) r =
     (case stringReader_Read n r of (None, _) \<Rightarrow> [] | (Some bs, r') \<Rightarrow> bs @ read_body ns r')"

subsection \<open>The cron engine\<close>

text \<open>
  \<open>AddFunc\<close> with the specification and the job its callback captures, \<open>Remove\<close>, and what the
  engine holds: the specification and the captured job of each entry.
\<close>

record ('c, 'j) cron_ops =
  ce_add :: "string \<Rightarrow> 'j \<Rightarrow> 'c \<Rightarrow> nat option \<times> 'c"
  ce_remove :: "nat \<Rightarrow> 'c \<Rightarrow> 'c"
  ce_entries :: "'c \<Rightarrow> nat \<rightharpoonup> string \<times> 'j"

definition cron_laws :: "(string \<Rightarrow> 'p option) \<Rightarrow> ('c, 'j) cron_ops \<Rightarrow> bool" where
  "cron_laws parse ops \<longleftrightarrow>
     (\<forall>spec j c.
        (case ce_add ops spec j c of
           (None, c') \<Rightarrow> parse spec = None \<and> ce_entries ops c' = ce_entries ops c
         | (Some eid, c') \<Rightarrow> parse spec \<noteq> None \<and> ce_entries ops c eid = None \<and>
             ce_entries ops c' = (ce_entries ops c)(eid \<mapsto> (spec, j)))) \<and>
     (\<forall>eid c. ce_entries ops (ce_remove ops eid c) = (ce_entries ops c)(eid := None))"

subsection \<open>The scheduler of the state store\<close>

record 'c StateScheduler =
  sd_cron :: 'c
  sd_entries :: "(string, nat) gomap"
  sd_specs :: "(string, string) gomap"
  sd_isLeader :: bool
  sd_release :: bool

definition NewWithState :: "'c \<Rightarrow> 'c StateScheduler" where
  "NewWithState cron = \<lparr>sd_cron = cron, sd_entries = [], sd_specs = [], sd_isLeader = False, sd_release = False\<rparr>"

definition desired :: "('j \<Rightarrow> string) \<Rightarrow> 'j list \<Rightarrow> (string, 'j) gomap" where
  "desired key jobs = fold (\<lambda>j. map_put (key j) j) jobs []"

text \<open>Entries whose job disappeared or has another schedule are dropped.\<close>

definition stale :: "(string, CronJob) gomap \<Rightarrow> 'c StateScheduler \<Rightarrow> string \<Rightarrow> bool" where
  "stale want s jid =
     (case map_of want jid of
        None \<Rightarrow> True
      | Some j \<Rightarrow> cj_Schedule j \<noteq> map_get [] (sd_specs s) jid)"

definition drop_entry :: "('c, CronJob) cron_ops \<Rightarrow> string \<times> nat \<Rightarrow> 'c StateScheduler \<Rightarrow> 'c StateScheduler" where
  "drop_entry ops e s =
     s\<lparr>sd_cron := ce_remove ops (snd e) (sd_cron s), sd_entries := map_del (fst e) (sd_entries s),
       sd_specs := map_del (fst e) (sd_specs s)\<rparr>"

definition drop_stale :: "('c, CronJob) cron_ops \<Rightarrow> (string, CronJob) gomap \<Rightarrow> 'c StateScheduler \<Rightarrow> 'c StateScheduler" where
  "drop_stale ops want s = fold (\<lambda>e s. if stale want s (fst e) then drop_entry ops e s else s) (sd_entries s) s"

fun add_missing ::
  "('c, CronJob) cron_ops \<Rightarrow> (string, CronJob) gomap \<Rightarrow> 'c StateScheduler \<Rightarrow> sched_error option \<times> 'c StateScheduler" where
  "add_missing ops [] s = (None, s)"
| "add_missing ops ((jid, j) # js) s =
     (if map_of (sd_entries s) jid \<noteq> None then add_missing ops js s
      else (case ce_add ops (cj_Schedule j) j (sd_cron s) of
          (None, c) \<Rightarrow> (Some (RegisterFailed jid), s\<lparr>sd_cron := c\<rparr>)
        | (Some eid, c) \<Rightarrow>
            add_missing ops js (s\<lparr>sd_cron := c, sd_entries := map_put jid eid (sd_entries s),
              sd_specs := map_put jid (cj_Schedule j) (sd_specs s)\<rparr>)))"

definition reconcile ::
  "('c, CronJob) cron_ops \<Rightarrow> InMemStore \<Rightarrow> 'c StateScheduler \<Rightarrow> sched_error option \<times> 'c StateScheduler" where
  "reconcile ops store s =
     (let want = desired cj_ID (ListCronJobs store) in add_missing ops want (drop_stale ops want s))"

text \<open>The elector's answer is the argument of \<open>tryLeader\<close>.\<close>

definition tryLeader :: "bool \<Rightarrow> 'c StateScheduler \<Rightarrow> 'c StateScheduler" where
  "tryLeader acquired s = (if acquired then s\<lparr>sd_isLeader := True, sd_release := True\<rparr> else s\<lparr>sd_isLeader := False\<rparr>)"

datatype run_input = StoreEvent Event | LeaderTick bool

definition run_turn ::
  "('c, CronJob) cron_ops \<Rightarrow> InMemStore \<Rightarrow> run_input \<Rightarrow> 'c StateScheduler \<Rightarrow> 'c StateScheduler" where
  "run_turn ops store i s =
     (case i of
        StoreEvent ev \<Rightarrow>
          if ev_Kind ev = EventCronPut \<or> ev_Kind ev = EventCronDelete then snd (reconcile ops store s) else s
      | LeaderTick acquired \<Rightarrow> if sd_isLeader s then s else tryLeader acquired s)"

definition Start_state ::
  "('c, CronJob) cron_ops \<Rightarrow> InMemStore \<Rightarrow> bool \<Rightarrow> 'c StateScheduler \<Rightarrow> sched_error option \<times> 'c StateScheduler" where
  "Start_state ops store acquired s =
     (case reconcile ops store s of
        (Some e, s) \<Rightarrow> (Some e, s)
      | (None, s) \<Rightarrow> (None, tryLeader acquired s))"

definition Stop_state :: "'c StateScheduler \<Rightarrow> 'c StateScheduler" where
  "Stop_state s = (if sd_release s then s\<lparr>sd_release := False, sd_isLeader := False\<rparr> else s)"

definition jobFromState :: "CronJob \<Rightarrow> Job" where
  "jobFromState j =
     \<lparr>jb_ID = cj_ID j, jb_Schedule = cj_Schedule j, jb_Function = cj_Function j, jb_Method = cj_Method j,
      jb_Body = cj_Body j, jb_Headers = cj_Headers j\<rparr>"

text \<open>A tick of an entry: the job it triggers, if any.\<close>

definition fire :: "'c StateScheduler \<Rightarrow> CronJob \<Rightarrow> Job option" where
  "fire s j = (if sd_isLeader s then Some (jobFromState j) else None)"

subsection \<open>The scheduler of the job file\<close>

record 'c Scheduler =
  sc_cron :: 'c
  sc_entries :: "(string, nat) gomap"

text \<open>The engine has no specification to compare, so the next times are compared.\<close>

definition sameSchedule ::
  "(string \<Rightarrow> 'p option) \<Rightarrow> ('p \<Rightarrow> time \<Rightarrow> time) \<Rightarrow> ('c, Job) cron_ops \<Rightarrow> time \<Rightarrow> Job \<Rightarrow> nat \<Rightarrow> 'c \<Rightarrow> bool" where
  "sameSchedule parse nextf ops now want eid c =
     (case parse (jb_Schedule want) of
        None \<Rightarrow> False
      | Some p \<Rightarrow>
          (case ce_entries ops c eid of
             None \<Rightarrow> False
           | Some (spec, _) \<Rightarrow>
               (case parse spec of None \<Rightarrow> False | Some live \<Rightarrow> nextf p now = nextf live now)))"

definition reload_drop ::
  "(string \<Rightarrow> 'p option) \<Rightarrow> ('p \<Rightarrow> time \<Rightarrow> time) \<Rightarrow> ('c, Job) cron_ops \<Rightarrow> time \<Rightarrow> (string, Job) gomap \<Rightarrow>
   string \<times> nat \<Rightarrow> 'c Scheduler \<Rightarrow> 'c Scheduler" where
  "reload_drop parse nextf ops now want e s =
     (case map_of want (fst e) of
        Some j \<Rightarrow>
          if sameSchedule parse nextf ops now j (snd e) (sc_cron s) then s
          else s\<lparr>sc_cron := ce_remove ops (snd e) (sc_cron s), sc_entries := map_del (fst e) (sc_entries s)\<rparr>
      | None \<Rightarrow> s\<lparr>sc_cron := ce_remove ops (snd e) (sc_cron s), sc_entries := map_del (fst e) (sc_entries s)\<rparr>)"

fun reload_add :: "('c, Job) cron_ops \<Rightarrow> (string, Job) gomap \<Rightarrow> 'c Scheduler \<Rightarrow> sched_error option \<times> 'c Scheduler" where
  "reload_add ops [] s = (None, s)"
| "reload_add ops ((jid, j) # js) s =
     (if map_of (sc_entries s) jid \<noteq> None then reload_add ops js s
      else (case ce_add ops (jb_Schedule j) j (sc_cron s) of
          (None, c) \<Rightarrow> (Some (RegisterFailed jid), s\<lparr>sc_cron := c\<rparr>)
        | (Some eid, c) \<Rightarrow> reload_add ops js (s\<lparr>sc_cron := c, sc_entries := map_put jid eid (sc_entries s)\<rparr>)))"

definition Reload ::
  "(string \<Rightarrow> 'p option) \<Rightarrow> ('p \<Rightarrow> time \<Rightarrow> time) \<Rightarrow> ('c, Job) cron_ops \<Rightarrow> (string \<Rightarrow> Job list option) \<Rightarrow> time \<Rightarrow>
   job_file \<Rightarrow> 'c Scheduler \<Rightarrow> sched_error option \<times> 'c Scheduler" where
  "Reload parse nextf ops dec now f s =
     (case List_jobs dec f of
        Inl e \<Rightarrow> (Some e, s)
      | Inr jobs \<Rightarrow>
          (let want = desired jb_ID jobs
           in reload_add ops want (fold (reload_drop parse nextf ops now want) (sc_entries s) s)))"

text \<open>\<open>FireNow\<close>: the trigger of the first job with the id.\<close>

definition FireNow :: "(Job \<Rightarrow> sched_error option) \<Rightarrow> (string \<Rightarrow> Job list option) \<Rightarrow> string \<Rightarrow> job_file \<Rightarrow> sched_error option" where
  "FireNow trigger dec jid f =
     (case List_jobs dec f of
        Inl e \<Rightarrow> Some e
      | Inr jobs \<Rightarrow> (case find (\<lambda>j. jb_ID j = jid) jobs of None \<Rightarrow> Some (JobNotFound jid) | Some j \<Rightarrow> trigger j))"

subsection \<open>Well-formed schedulers\<close>

text \<open>Each entry is live in the engine with the remembered specification and a job of its id, and the engine has no others.\<close>

definition sched_wf :: "('c, CronJob) cron_ops \<Rightarrow> 'c StateScheduler \<Rightarrow> bool" where
  "sched_wf ops s \<longleftrightarrow>
     map_wf (sd_entries s) \<and>
     (\<forall>jid eid. map_of (sd_entries s) jid = Some eid \<longrightarrow>
        (\<exists>spec j. ce_entries ops (sd_cron s) eid = Some (spec, j) \<and> cj_ID j = jid \<and> map_of (sd_specs s) jid = Some spec)) \<and>
     (\<forall>eid. ce_entries ops (sd_cron s) eid \<noteq> None \<longrightarrow> (\<exists>jid. map_of (sd_entries s) jid = Some eid))"

text \<open>The entry the engine has for a job id.\<close>

definition scheduled :: "('c, CronJob) cron_ops \<Rightarrow> 'c StateScheduler \<Rightarrow> string \<Rightarrow> (string \<times> CronJob) option" where
  "scheduled ops s jid = (case map_of (sd_entries s) jid of None \<Rightarrow> None | Some eid \<Rightarrow> ce_entries ops (sd_cron s) eid)"

text \<open>An engine that accepts every non-empty specification and numbers its entries.\<close>

definition demo_parse :: "string \<Rightarrow> string option" where
  "demo_parse spec = (if spec = [] then None else Some spec)"

definition demo_cron :: "(nat \<times> (nat, string \<times> 'j) gomap, 'j) cron_ops" where
  "demo_cron =
     \<lparr>ce_add = \<lambda>spec j (n, m). if spec = [] then (None, (n, m)) else (Some n, (Suc n, map_put n (spec, j) (filter (\<lambda>e. fst e < n) m))),
      ce_remove = \<lambda>eid (n, m). (n, map_del eid m),
      ce_entries = \<lambda>(n, m) eid. if eid < n then map_of m eid else None\<rparr>"

definition demo_job :: CronJob where
  "demo_job = \<lparr>cj_ID = ''nightly'', cj_Schedule = ''0 3 * * *'', cj_Function = ''hello'', cj_Method = [], cj_Body = ''v1'',
     cj_Headers = [], cj_Project = ''acme'', cj_UpdatedAt = 0\<rparr>"

definition demo_sched :: "(nat \<times> (nat, string \<times> CronJob) gomap) StateScheduler" where
  "demo_sched = NewWithState (0, [])"

section \<open>Lemmas\<close>

declare map_of_eq_Some_iff [simp del] Some_eq_map_of_iff [simp del]

lemma desired_get: "map_of (desired key jobs) k = find (\<lambda>j. key j = k) (rev jobs)"
proof -
  have "map_of (fold (\<lambda>j. map_put (key j) j) jobs m) k = (case find (\<lambda>j. key j = k) (rev jobs) of None \<Rightarrow> map_of m k | Some j \<Rightarrow> Some j)" for m
    by (induction jobs arbitrary: m rule: rev_induct) auto
  from this [of "[]"] show ?thesis by (simp add: desired_def split: option.split)
qed

subsection \<open>The engine\<close>

lemma cron_removeD: "cron_laws parse ops \<Longrightarrow> ce_entries ops (ce_remove ops eid c) = (ce_entries ops c)(eid := None)"
  by (simp add: cron_laws_def)

lemma cron_addD:
  assumes "cron_laws parse ops" and "ce_add ops spec j c = (r, c')"
  shows "case r of None \<Rightarrow> parse spec = None \<and> ce_entries ops c' = ce_entries ops c
    | Some eid \<Rightarrow> parse spec \<noteq> None \<and> ce_entries ops c eid = None \<and> ce_entries ops c' = (ce_entries ops c)(eid \<mapsto> (spec, j))"
proof -
  have "case ce_add ops spec j c of
      (None, c') \<Rightarrow> parse spec = None \<and> ce_entries ops c' = ce_entries ops c
    | (Some eid, c') \<Rightarrow> parse spec \<noteq> None \<and> ce_entries ops c eid = None \<and> ce_entries ops c' = (ce_entries ops c)(eid \<mapsto> (spec, j))"
    using assms(1) unfolding cron_laws_def by simp
  then show ?thesis using assms(2) by (cases r) simp_all
qed

subsection \<open>Entries\<close>

lemma entry_of:
  assumes "sched_wf ops s" and "map_of (sd_entries s) jid = Some eid"
  obtains spec j where "ce_entries ops (sd_cron s) eid = Some (spec, j)" "cj_ID j = jid" "map_of (sd_specs s) jid = Some spec"
proof -
  have "\<exists>spec j. ce_entries ops (sd_cron s) eid = Some (spec, j) \<and> cj_ID j = jid \<and> map_of (sd_specs s) jid = Some spec"
    using assms unfolding sched_wf_def by simp
  then show ?thesis using that by auto
qed

lemma entry_inj:
  assumes wf: "sched_wf ops s" and "map_of (sd_entries s) a = Some eid" and "map_of (sd_entries s) b = Some eid"
  shows "a = b"
  by (rule entry_of [OF wf assms(2)], rule entry_of [OF wf assms(3)]) simp

lemma scheduled_spec:
  assumes wf: "sched_wf ops s" and "scheduled ops s jid = Some (spec, j)"
  shows "map_get [] (sd_specs s) jid = spec" and "cj_ID j = jid"
proof -
  obtain eid where e: "map_of (sd_entries s) jid = Some eid" "ce_entries ops (sd_cron s) eid = Some (spec, j)"
    using assms(2) by (auto simp: scheduled_def split: option.splits)
  show "map_get [] (sd_specs s) jid = spec" "cj_ID j = jid"
    by (rule entry_of [OF wf e(1)], simp add: e(2) map_get_def)+
qed

lemma scheduled_None: "sched_wf ops s \<Longrightarrow> scheduled ops s jid = None \<longleftrightarrow> map_of (sd_entries s) jid = None"
  by (auto simp: scheduled_def elim: entry_of split: option.splits)

lemma drop_entry_facts:
  assumes laws: "cron_laws parse ops" and wf: "sched_wf ops s" and e: "map_of (sd_entries s) jid = Some eid"
  shows "sched_wf ops (drop_entry ops (jid, eid) s)" and "scheduled ops (drop_entry ops (jid, eid) s) = (scheduled ops s)(jid := None)"
    and "map_of (sd_entries (drop_entry ops (jid, eid) s)) = (map_of (sd_entries s))(jid := None)"
    and "map_of (sd_specs (drop_entry ops (jid, eid) s)) = (map_of (sd_specs s))(jid := None)"
proof -
  have inj: "b = jid" if "map_of (sd_entries s) b = Some eid" for b by (rule entry_inj [OF wf that e])
  let ?s = "drop_entry ops (jid, eid) s"
  have c: "ce_entries ops (sd_cron ?s) = (ce_entries ops (sd_cron s))(eid := None)"
    by (simp add: drop_entry_def cron_removeD [OF laws])
  show en: "map_of (sd_entries ?s) = (map_of (sd_entries s))(jid := None)"
    and sp: "map_of (sd_specs ?s) = (map_of (sd_specs s))(jid := None)" by (simp_all add: drop_entry_def)
  show "scheduled ops ?s = (scheduled ops s)(jid := None)"
  proof
    fix b
    show "scheduled ops ?s b = ((scheduled ops s)(jid := None)) b"
      using inj [of b] by (auto simp: scheduled_def en c split: option.split)
  qed
  have "map_wf (sd_entries ?s)" using wf by (simp add: drop_entry_def sched_wf_def)
  moreover have "\<exists>spec j. ce_entries ops (sd_cron ?s) i = Some (spec, j) \<and> cj_ID j = b \<and> map_of (sd_specs ?s) b = Some spec"
    if "map_of (sd_entries ?s) b = Some i" for b i
  proof -
    have b: "b \<noteq> jid" "map_of (sd_entries s) b = Some i" using that by (auto simp: en split: if_splits)
    then have "i \<noteq> eid" using inj by blast
    then show ?thesis using b by (auto simp: c sp intro: entry_of [OF wf b(2)])
  qed
  moreover have "\<exists>b. map_of (sd_entries ?s) b = Some i" if "ce_entries ops (sd_cron ?s) i \<noteq> None" for i
  proof -
    have i: "i \<noteq> eid" "ce_entries ops (sd_cron s) i \<noteq> None" using that by (auto simp: c split: if_splits)
    then obtain b where b: "map_of (sd_entries s) b = Some i" using wf unfolding sched_wf_def by blast
    then have "b \<noteq> jid" using e i(1) by auto
    then show ?thesis using b by (auto simp: en)
  qed
  ultimately show "sched_wf ops ?s" unfolding sched_wf_def by blast
qed

lemma drop_stale_facts:
  assumes laws: "cron_laws parse ops" and wf: "sched_wf ops s"
  shows "sched_wf ops (drop_stale ops want s)"
    and "scheduled ops (drop_stale ops want s) jid = (if stale want s jid then None else scheduled ops s jid)"
proof -
  define step where "step = (\<lambda>(e :: string \<times> nat) s. if stale want s (fst e) then drop_entry ops e s else s)"
  have main: "sched_wf ops (fold step es s) \<and>
      scheduled ops (fold step es s) b = (if b \<in> fst ` set es \<and> stale want s b then None else scheduled ops s b)"
    if "distinct (map fst es)" "\<forall>(a, i) \<in> set es. map_of (sd_entries s) a = Some i" "sched_wf ops s" for es s b
    using that
  proof (induction es arbitrary: s)
    case (Cons e es)
    obtain a i where e: "e = (a, i)" by (cases e)
    then have ai: "map_of (sd_entries s) a = Some i" using Cons.prems(2) by simp
    note d = drop_entry_facts [OF laws Cons.prems(3) ai]
    have st: "stale want (drop_entry ops e s) b = stale want s b" if "b \<noteq> a" for b
      using that d(4) by (simp add: e stale_def map_get_def split: option.split)
    have na: "a \<notin> fst ` set es" using Cons.prems(1) e by simp
    show ?case
    proof (cases "stale want s a")
      case True
      have ents: "\<forall>(a, i) \<in> set es. map_of (sd_entries (drop_entry ops e s)) a = Some i"
        using Cons.prems(2) na d(3) by (force simp: e)
      have "distinct (map fst es)" "sched_wf ops (drop_entry ops e s)" using Cons.prems(1) d(1) by (simp_all add: e)
      from Cons.IH [OF this(1) ents this(2)] show ?thesis
        using True na st d(2) by (cases "b = a") (auto simp: step_def e)
    next
      case False
      have "distinct (map fst es)" "\<forall>(a, i) \<in> set es. map_of (sd_entries s) a = Some i" using Cons.prems by auto
      from Cons.IH [OF this Cons.prems(3)] show ?thesis using False na by (auto simp: step_def e)
    qed
  qed simp
  have w: "map_wf (sd_entries s)" using wf by (simp add: sched_wf_def)
  then have "\<forall>(a, i) \<in> set (sd_entries s). map_of (sd_entries s) a = Some i" by auto
  note m = main [OF w this wf, of jid]
  have eq: "drop_stale ops want s = fold step (sd_entries s) s" by (simp add: drop_stale_def step_def)
  show "sched_wf ops (drop_stale ops want s)" using m by (simp add: eq)
  have "jid \<notin> fst ` set (sd_entries s) \<Longrightarrow> scheduled ops s jid = None"
    by (simp add: scheduled_def map_of_eq_None_iff [THEN iffD2])
  then show "scheduled ops (drop_stale ops want s) jid = (if stale want s jid then None else scheduled ops s jid)"
    using m by (auto simp: eq)
qed

lemma sched_wf_add:
  assumes laws: "cron_laws parse ops" and wf: "sched_wf ops s" and none: "map_of (sd_entries s) jid = None"
    and add: "ce_add ops spec j (sd_cron s) = (Some eid, c)" and jid: "cj_ID j = jid"
  defines "s' \<equiv> s\<lparr>sd_cron := c, sd_entries := map_put jid eid (sd_entries s), sd_specs := map_put jid spec (sd_specs s)\<rparr>"
  shows "sched_wf ops s'" and "scheduled ops s' = (scheduled ops s)(jid \<mapsto> (spec, j))"
proof -
  have c: "ce_entries ops (sd_cron s) eid = None" "ce_entries ops c = (ce_entries ops (sd_cron s))(eid \<mapsto> (spec, j))"
    using cron_addD [OF laws add] by simp_all
  have fresh: "map_of (sd_entries s) b \<noteq> Some eid" for b
    using entry_of [OF wf, of b eid] c(1) by fastforce
  show "scheduled ops s' = (scheduled ops s)(jid \<mapsto> (spec, j))"
  proof
    fix b
    show "scheduled ops s' b = ((scheduled ops s)(jid \<mapsto> (spec, j))) b"
      using fresh [of b] by (auto simp: scheduled_def s'_def c(2) split: option.split)
  qed
  have "map_wf (sd_entries s')" using wf by (simp add: s'_def sched_wf_def)
  moreover have "\<exists>sp j. ce_entries ops (sd_cron s') i = Some (sp, j) \<and> cj_ID j = b \<and> map_of (sd_specs s') b = Some sp"
    if b: "map_of (sd_entries s') b = Some i" for b i
  proof (cases "b = jid")
    case True
    then show ?thesis using b jid by (simp add: s'_def c(2))
  next
    case False
    then have old: "map_of (sd_entries s) b = Some i" using b by (simp add: s'_def)
    then have "i \<noteq> eid" using fresh by auto
    moreover obtain sp j' where "ce_entries ops (sd_cron s) i = Some (sp, j')" "cj_ID j' = b" "map_of (sd_specs s) b = Some sp"
      by (rule entry_of [OF wf old])
    ultimately show ?thesis using False by (simp add: s'_def c(2))
  qed
  moreover have "\<exists>b. map_of (sd_entries s') b = Some i" if "ce_entries ops (sd_cron s') i \<noteq> None" for i
  proof (cases "i = eid")
    case True
    then show ?thesis by (auto simp: s'_def intro: exI [of _ jid])
  next
    case False
    then have "ce_entries ops (sd_cron s) i \<noteq> None" using that by (simp add: s'_def c(2))
    then obtain b where b: "map_of (sd_entries s) b = Some i" using wf unfolding sched_wf_def by blast
    then have "b \<noteq> jid" using none by auto
    then show ?thesis using b by (auto simp: s'_def)
  qed
  ultimately show "sched_wf ops s'" unfolding sched_wf_def by blast
qed

lemma sched_wf_cron: "sched_wf ops s \<Longrightarrow> ce_entries ops c = ce_entries ops (sd_cron s) \<Longrightarrow> sched_wf ops (s\<lparr>sd_cron := c\<rparr>)"
  by (simp add: sched_wf_def)

lemma add_missing_wf:
  "cron_laws parse ops \<Longrightarrow> sched_wf ops s \<Longrightarrow> \<forall>(jid, j) \<in> set want. cj_ID j = jid \<Longrightarrow> sched_wf ops (snd (add_missing ops want s))"
proof (induction want arbitrary: s)
  case (Cons w want)
  obtain jid j where w: "w = (jid, j)" by (cases w)
  obtain r c where a: "ce_add ops (cj_Schedule j) j (sd_cron s) = (r, c)" by fastforce
  have jid: "cj_ID j = jid" and rest: "\<forall>(jid, j) \<in> set want. cj_ID j = jid" using Cons.prems(3) w by auto
  show ?case
  proof (cases "map_of (sd_entries s) jid")
    case None
    show ?thesis
    proof (cases r)
      case None': None
      then have "sched_wf ops (s\<lparr>sd_cron := c\<rparr>)" using cron_addD [OF Cons.prems(1) a] sched_wf_cron [OF Cons.prems(2)] by simp
      then show ?thesis using None None' a by (simp add: w)
    next
      case (Some eid)
      have "sched_wf ops (s\<lparr>sd_cron := c, sd_entries := map_put jid eid (sd_entries s), sd_specs := map_put jid (cj_Schedule j) (sd_specs s)\<rparr>)"
        by (rule sched_wf_add(1) [OF Cons.prems(1,2) None a [unfolded Some] jid])
      from Cons.IH [OF Cons.prems(1) this rest] show ?thesis using None a Some by (simp add: w)
    qed
  next
    case (Some eid)
    then show ?thesis using Cons.IH [OF Cons.prems(1,2) rest] by (simp add: w)
  qed
qed simp

lemma add_missing_ok:
  assumes laws: "cron_laws parse ops"
  shows "sched_wf ops s \<Longrightarrow> map_wf want \<Longrightarrow> \<forall>(jid, j) \<in> set want. cj_ID j = jid \<and> parse (cj_Schedule j) \<noteq> None \<Longrightarrow>
    fst (add_missing ops want s) = None \<and>
    scheduled ops (snd (add_missing ops want s)) b =
      (case scheduled ops s b of Some x \<Rightarrow> Some x | None \<Rightarrow> map_option (\<lambda>j. (cj_Schedule j, j)) (map_of want b))"
proof (induction want arbitrary: s)
  case Nil
  then show ?case by (simp split: option.split)
next
  case (Cons w want)
  obtain jid j where w: "w = (jid, j)" by (cases w)
  obtain r c where a: "ce_add ops (cj_Schedule j) j (sd_cron s) = (r, c)" by fastforce
  have jid: "cj_ID j = jid" and p: "parse (cj_Schedule j) \<noteq> None"
    and rest: "\<forall>(jid, j) \<in> set want. cj_ID j = jid \<and> parse (cj_Schedule j) \<noteq> None" and wfw: "map_wf want"
    and new: "map_of want jid = None"
    using Cons.prems(2,3) w by (auto simp: map_of_eq_None_iff)
  show ?case
  proof (cases "map_of (sd_entries s) jid")
    case None
    obtain eid where r: "r = Some eid" using cron_addD [OF laws a] p by (cases r) auto
    let ?s = "s\<lparr>sd_cron := c, sd_entries := map_put jid eid (sd_entries s), sd_specs := map_put jid (cj_Schedule j) (sd_specs s)\<rparr>"
    note add = sched_wf_add [OF laws Cons.prems(1) None a [unfolded r] jid]
    have "scheduled ops s jid = None" using None by (simp add: scheduled_def)
    then show ?thesis
      using Cons.IH [OF add(1) wfw rest] add(2) None a r new by (cases "b = jid"; cases "scheduled ops s b") (simp_all add: w)
  next
    case (Some eid)
    then have "scheduled ops s jid \<noteq> None" using scheduled_None [OF Cons.prems(1)] by simp
    then show ?thesis using Cons.IH [OF Cons.prems(1) wfw rest] Some by (auto simp: w split: option.splits)
  qed
qed

lemma desired_wf: "map_wf (desired key jobs)" "\<forall>(k, j) \<in> set (desired key jobs). key j = k \<and> j \<in> set jobs"
proof -
  have "map_wf (fold (\<lambda>j. map_put (key j) j) jobs m) \<and>
      (\<forall>(k, j) \<in> set (fold (\<lambda>j. map_put (key j) j) jobs m). key j = k \<and> (j \<in> set jobs \<or> (k, j) \<in> set m))"
    if "map_wf m" "\<forall>(k, j) \<in> set m. key j = k" for m :: "(string, 'a) gomap"
    using that
  proof (induction jobs arbitrary: m)
    case (Cons x xs)
    have "map_wf (map_put (key x) x m)" "\<forall>(k, j) \<in> set (map_put (key x) x m). key j = k"
      using Cons.prems by (auto dest!: set_map_put)
    from Cons.IH [OF this] show ?case by (fastforce dest!: set_map_put)
  qed auto
  from this [of "[]"] show "map_wf (desired key jobs)" "\<forall>(k, j) \<in> set (desired key jobs). key j = k \<and> j \<in> set jobs"
    by (auto simp: desired_def)
qed

lemma find_snoc:
  "find P (xs @ [x]) = (case find P xs of None \<Rightarrow> if P x then Some x else None | Some y \<Rightarrow> Some y)"
  by (induction xs) simp_all

lemma desired_crons:
  assumes "crons_wf store"
  shows "map_of (desired cj_ID (ListCronJobs store)) jid = map_of (st_crons store) jid"
proof -
  have names: "map (\<lambda>j. (cj_ID j, j)) (ListCronJobs store) = st_crons store"
    using assms by (auto simp: ListCronJobs_def crons_wf_def cloneCron_def comp_def intro!: map_idI)
  then have d: "distinct (map cj_ID (ListCronJobs store))"
    using assms by (metis (no_types, lifting) comp_apply crons_wf_def fst_conv list.map_comp list.map_cong0)
  have "map_of (map (\<lambda>j. (cj_ID j, j)) js) jid = find (\<lambda>j. cj_ID j = jid) (rev js)" if "distinct (map cj_ID js)" for js
    using that
  proof (induction js)
    case (Cons j js)
    have "find (\<lambda>j. cj_ID j = jid) (rev js @ [j]) = (case find (\<lambda>j. cj_ID j = jid) (rev js) of None \<Rightarrow> if cj_ID j = jid then Some j else None | Some x \<Rightarrow> Some x)"
      by (rule find_snoc)
    moreover have "find (\<lambda>j. cj_ID j = jid) (rev js) = None" if "cj_ID j = jid"
      using that Cons.prems by (force simp: find_None_iff image_iff)
    ultimately show ?case using Cons by (cases "cj_ID j = jid") (simp_all split: option.split)
  qed simp
  from this [OF d] show ?thesis by (simp add: names desired_get)
qed

lemma reconcile_wants:
  assumes cw: "crons_wf store" and "(jid, j) \<in> set (desired cj_ID (ListCronJobs store))"
  shows "cj_ID j = jid" and "(jid, j) \<in> set (st_crons store)"
proof -
  have "map_of (desired cj_ID (ListCronJobs store)) jid = Some j" by (rule map_of_is_SomeI [OF desired_wf(1) assms(2)])
  then show "(jid, j) \<in> set (st_crons store)" by (simp add: desired_crons [OF cw] map_of_SomeD)
  then show "cj_ID j = jid" using cw by (auto simp: crons_wf_def)
qed

lemma reconcile_wf:
  assumes laws: "cron_laws parse ops" and wf: "sched_wf ops s" and cw: "crons_wf store"
  shows "sched_wf ops (snd (reconcile ops store s))"
  using add_missing_wf [OF laws drop_stale_facts(1) [OF laws wf]] reconcile_wants(1) [OF cw]
  by (auto simp: reconcile_def Let_def)

lemma reconcile_entry:
  assumes laws: "cron_laws parse ops" and wf: "sched_wf ops s" and cw: "crons_wf store"
    and ok: "\<forall>(jid, j) \<in> set (st_crons store). parse (cj_Schedule j) \<noteq> None"
  shows "fst (reconcile ops store s) = None" and "scheduled ops (snd (reconcile ops store s)) jid =
      (case map_of (st_crons store) jid of
         None \<Rightarrow> None
       | Some j \<Rightarrow> (case scheduled ops s jid of
             Some (spec, old) \<Rightarrow> if spec = cj_Schedule j then Some (spec, old) else Some (cj_Schedule j, j)
           | None \<Rightarrow> Some (cj_Schedule j, j)))"
proof -
  let ?want = "desired cj_ID (ListCronJobs store)"
  note get = desired_crons [OF cw]
  have w: "\<forall>(jid, j) \<in> set ?want. cj_ID j = jid \<and> parse (cj_Schedule j) \<noteq> None"
    using reconcile_wants [OF cw] ok by fastforce
  note d = drop_stale_facts [OF laws wf, where want = ?want]
  note a = add_missing_ok [OF laws d(1) desired_wf(1) w]
  show "fst (reconcile ops store s) = None" using a by (simp add: reconcile_def Let_def)
  show "scheduled ops (snd (reconcile ops store s)) jid =
      (case map_of (st_crons store) jid of
         None \<Rightarrow> None
       | Some j \<Rightarrow> (case scheduled ops s jid of
             Some (spec, old) \<Rightarrow> if spec = cj_Schedule j then Some (spec, old) else Some (cj_Schedule j, j)
           | None \<Rightarrow> Some (cj_Schedule j, j)))"
  proof (cases "scheduled ops s jid")
    case None
    then show ?thesis using a [of jid] d(2) [of jid] get [of jid] by (auto simp: reconcile_def Let_def split: option.split)
  next
    case (Some x)
    obtain spec old where x: "x = (spec, old)" by (cases x)
    then have "map_get [] (sd_specs s) jid = spec" using scheduled_spec(1) [OF wf] Some by simp
    then show ?thesis
      using a [of jid] d(2) [of jid] get [of jid] Some x by (auto simp: reconcile_def Let_def stale_def split: option.split)
  qed
qed

lemma scheduled_leader [simp]: "scheduled ops (tryLeader a s) jid = scheduled ops s jid"
  by (simp add: scheduled_def tryLeader_def split: option.split)

subsection \<open>Leadership\<close>

lemma reconcile_leader [simp]:
  "sd_isLeader (snd (reconcile ops store s)) = sd_isLeader s" "sd_release (snd (reconcile ops store s)) = sd_release s"
proof -
  have d: "sd_isLeader (drop_entry ops e s) = sd_isLeader s" "sd_release (drop_entry ops e s) = sd_release s" for e s
    by (simp_all add: drop_entry_def)
  have "sd_isLeader (fold (\<lambda>e s. if stale want s (fst e) then drop_entry ops e s else s) es s) = sd_isLeader s \<and>
      sd_release (fold (\<lambda>e s. if stale want s (fst e) then drop_entry ops e s else s) es s) = sd_release s" for want es s
    by (induction es arbitrary: s) (simp_all add: d)
  moreover have "sd_isLeader (snd (add_missing ops want s)) = sd_isLeader s \<and> sd_release (snd (add_missing ops want s)) = sd_release s" for want s
    by (induction ops want s rule: add_missing.induct) (simp_all split: option.split prod.split)
  ultimately show "sd_isLeader (snd (reconcile ops store s)) = sd_isLeader s" "sd_release (snd (reconcile ops store s)) = sd_release s"
    by (simp_all add: reconcile_def Let_def drop_stale_def)
qed

lemma turn_leader:
  "sd_isLeader s = sd_release s \<Longrightarrow> sd_isLeader (run_turn ops store i s) = sd_release (run_turn ops store i s)"
  by (auto simp: run_turn_def tryLeader_def split: run_input.split)

lemma turns_leader:
  "sd_isLeader s = sd_release s \<Longrightarrow>
   sd_isLeader (fold (\<lambda>(store, i). run_turn ops store i) is s) = sd_release (fold (\<lambda>(store, i). run_turn ops store i) is s)"
proof (induction "is" arbitrary: s)
  case (Cons x xs)
  then show ?case by (cases x) (simp add: turn_leader)
qed simp

subsection \<open>A sample engine\<close>

lemma map_of_below: "map_of (filter (\<lambda>e. fst e < n) m) i = (if i < n then map_of m i else None)" for n :: nat
  by (induction m) auto

lemma demo_cron_laws: "cron_laws demo_parse demo_cron"
  by (auto simp: cron_laws_def demo_cron_def demo_parse_def fun_eq_iff map_of_below less_Suc_eq split: prod.split)

lemma demo_sched_wf: "sched_wf demo_cron demo_sched"
  by (simp add: sched_wf_def demo_sched_def NewWithState_def demo_cron_def)

section \<open>Properties\<close>



text \<open>
  An edited job keeps running as it was: when a stored job is replaced by one with the same id
  and schedule but another function, method, body or headers, \<open>reconcile\<close> leaves the entry alone,
  and the leader's next tick triggers the old version.
\<close>

theorem edited_job_runs_old_version:
  assumes laws: "cron_laws parse ops" and wf: "sched_wf ops s" and cw: "crons_wf store"
    and ok: "\<forall>(jid, j) \<in> set (st_crons store). parse (cj_Schedule j) \<noteq> None"
    and old: "scheduled ops s jid = Some (cj_Schedule new, old)" and "map_of (st_crons store) jid = Some new"
    and leader: "sd_isLeader s"
  shows "scheduled ops (snd (reconcile ops store s)) jid = Some (cj_Schedule new, old) \<and>
    fire (snd (reconcile ops store s)) old = Some (jobFromState old)"
proof -
  have "sd_isLeader (snd (reconcile ops store s))" using leader by simp
  then show ?thesis using assms reconcile_entry(2) [OF laws wf cw ok, of jid] by (simp add: fire_def)
qed

theorem edited_job_runs_old_version_witness:
  "let s = tryLeader True (snd (reconcile demo_cron (PutCronJob 7 demo_job NewInMemStore) demo_sched));
       store = PutCronJob 8 (demo_job\<lparr>cj_Body := ''v2''\<rparr>) (PutCronJob 7 demo_job NewInMemStore)
   in scheduled demo_cron (snd (reconcile demo_cron store s)) ''nightly'' = Some (''0 3 * * *'', demo_job\<lparr>cj_UpdatedAt := 7\<rparr>)"
proof -
  define s where "s = tryLeader True (snd (reconcile demo_cron (PutCronJob 7 demo_job NewInMemStore) demo_sched))"
  define store where "store = PutCronJob 8 (demo_job\<lparr>cj_Body := ''v2''\<rparr>) (PutCronJob 7 demo_job NewInMemStore)"
  let ?new = "demo_job\<lparr>cj_Body := ''v2'', cj_UpdatedAt := 8\<rparr>"
  have st1: "st_crons (PutCronJob 7 demo_job NewInMemStore) = [(''nightly'', demo_job\<lparr>cj_UpdatedAt := 7\<rparr>)]" by code_simp
  have st2: "st_crons store = [(''nightly'', ?new)]" unfolding store_def by code_simp
  have cw1: "crons_wf (PutCronJob 7 demo_job NewInMemStore)" unfolding crons_wf_def st1 by (simp add: demo_job_def)
  have cw2: "crons_wf store" unfolding crons_wf_def st2 by (simp add: demo_job_def)
  have ok1: "\<forall>(jid, j) \<in> set (st_crons (PutCronJob 7 demo_job NewInMemStore)). demo_parse (cj_Schedule j) \<noteq> None"
    unfolding st1 by (simp add: demo_job_def demo_parse_def)
  have ok2: "\<forall>(jid, j) \<in> set (st_crons store). demo_parse (cj_Schedule j) \<noteq> None"
    unfolding st2 by (simp add: demo_job_def demo_parse_def)
  have sch: "cj_Schedule ?new = ''0 3 * * *''" "cj_Schedule (demo_job\<lparr>cj_UpdatedAt := 7\<rparr>) = ''0 3 * * *''" by (simp_all add: demo_job_def)
  have "sched_wf demo_cron (snd (reconcile demo_cron (PutCronJob 7 demo_job NewInMemStore) demo_sched))"
    using reconcile_wf [OF demo_cron_laws demo_sched_wf cw1] .
  then have wf: "sched_wf demo_cron s" by (simp add: s_def tryLeader_def sched_wf_def)
  have "scheduled demo_cron demo_sched ''nightly'' = None" by (simp add: scheduled_def demo_sched_def NewWithState_def)
  then have old: "scheduled demo_cron s ''nightly'' = Some (cj_Schedule ?new, demo_job\<lparr>cj_UpdatedAt := 7\<rparr>)"
    using reconcile_entry(2) [OF demo_cron_laws demo_sched_wf cw1 ok1, of "''nightly''"]
    by (simp add: s_def scheduled_leader sch st1)
  have new: "map_of (st_crons store) ''nightly'' = Some ?new" unfolding st2 by simp
  have l: "sd_isLeader s" by (simp add: s_def tryLeader_def)
  show ?thesis
    using edited_job_runs_old_version [OF demo_cron_laws wf cw2 ok2 old new l] sch
    by (simp add: Let_def s_def [symmetric] store_def [symmetric])
qed

text \<open>
  Only a leader triggers: whatever store events and answers of the elector a scheduler gets, in
  any order, a tick triggers a job only while it holds the leadership it acquired; one that never
  acquired it triggers nothing, and after \<open>Stop\<close> the leadership is released and nothing is triggered.
\<close>

theorem only_leader_fires:
  defines "run \<equiv> \<lambda>ops inputs cron. fold (\<lambda>(store, i). run_turn ops store i) inputs (NewWithState cron)"
  shows "(fire (run ops inputs cron) j \<noteq> None \<longleftrightarrow> sd_release (run ops inputs cron)) \<and>
    ((\<forall>(store, i) \<in> set inputs. i \<noteq> LeaderTick True) \<longrightarrow> fire (run ops inputs cron) j = None) \<and>
    fire (Stop_state (run ops inputs cron)) j = None \<and> \<not> sd_release (Stop_state (run ops inputs cron))"
proof -
  have l: "sd_isLeader (run ops inputs cron) = sd_release (run ops inputs cron)"
    unfolding run_def by (rule turns_leader) (simp add: NewWithState_def)
  have "sd_isLeader (fold (\<lambda>(store, i). run_turn ops store i) is s) = sd_isLeader s"
    if "\<forall>(store, i) \<in> set is. i \<noteq> LeaderTick True" "\<not> sd_isLeader s" for "is" and s
    using that
  proof (induction "is" arbitrary: s)
    case (Cons x xs)
    obtain st i where x: "x = (st, i)" by (cases x)
    have "\<not> sd_isLeader (run_turn ops st i s)"
      using Cons.prems x by (auto simp: run_turn_def tryLeader_def split: run_input.split)
    then show ?case using Cons x by simp
  qed simp
  from this [of inputs "NewWithState cron"] have "\<not> sd_isLeader (run ops inputs cron)" if "\<forall>(store, i) \<in> set inputs. i \<noteq> LeaderTick True"
    using that by (simp add: run_def NewWithState_def)
  then show ?thesis using l by (auto simp: fire_def Stop_state_def)
qed

theorem only_leader_fires_witness:
  "fire (fold (\<lambda>(store, i). run_turn demo_cron store i) [(NewInMemStore, LeaderTick False)] (NewWithState (0, []))) demo_job = None"
  using only_leader_fires [of demo_cron "[(NewInMemStore, LeaderTick False)]" "(0, [])" demo_job] by simp

text \<open>
  The job file: \<open>Add\<close> refuses invalid jobs, unparsable schedules and duplicate ids and leaves
  the file as it was on every error; when it succeeds the file holds the old jobs and the new one,
  in the order of the ids and with every id once, and \<open>Remove\<close> of that id gives exactly the others.
\<close>

theorem job_file_ops:
  assumes jobs: "load dec f = Inr jobs" and d: "distinct (map jb_ID jobs)"
    and codec: "\<And>js. set js \<subseteq> insert j (set jobs) \<Longrightarrow> dec (enc js) = Some js"
  shows "case Add parse enc dec j f of
      (Some e, f') \<Rightarrow> f' = f \<and> (Validate j \<noteq> None \<or> parse (jb_Schedule j) = None \<or> jb_ID j \<in> jb_ID ` set jobs \<or> \<not> jf_writable f)
    | (None, f') \<Rightarrow> (\<exists>js. List_jobs dec f' = Inr js \<and> sorted (map jb_ID js) \<and> distinct (map jb_ID js) \<and> set js = insert j (set jobs) \<and>
        List_jobs dec (snd (Remove_job enc dec (jb_ID j) f')) = Inr (filter (\<lambda>x. jb_ID x \<noteq> jb_ID j) js))"
proof (cases "Validate j = None \<and> parse (jb_Schedule j) \<noteq> None \<and> jb_ID j \<notin> jb_ID ` set jobs \<and> jf_writable f")
  case True
  let ?js = "sort_key jb_ID (jobs @ [j])"
  let ?f = "f\<lparr>jf_bytes := Some (enc ?js)\<rparr>"
  have dup: "\<not> (\<exists>x \<in> set jobs. jb_ID x = jb_ID j)" using True by (metis image_eqI)
  let ?rest = "filter (\<lambda>x. jb_ID x \<noteq> jb_ID j) ?js"
  have add: "Add parse enc dec j f = (None, ?f)"
    using True jobs dup by (auto simp: Add_def save_def Let_def)
  have l: "load dec ?f = Inr ?js" using codec [of ?js] by (auto simp: load_def)
  have "sorted (map jb_ID ?rest)" by (simp add: sorted_filter)
  then have srt: "sort_key jb_ID ?rest = ?rest" by (rule sort_key_id_if_sorted)
  have "dec (enc ?rest) = Some ?rest" by (rule codec) auto
  then have "List_jobs dec (snd (Remove_job enc dec (jb_ID j) ?f)) = Inr ?rest"
    using True l srt by (simp add: Remove_job_def save_def Let_def List_jobs_def) (simp add: load_def)
  moreover have "mset (map jb_ID ?js) = mset (map jb_ID (jobs @ [j]))" by simp
  from mset_eq_imp_distinct_iff [OF this] have "distinct (map jb_ID ?js)" using d True by simp
  ultimately show ?thesis using l add by (auto simp: List_jobs_def)
next
  case False
  then show ?thesis using jobs by (auto simp: Add_def save_def Let_def split: option.split)
qed

theorem job_file_ops_witness:
  "let enc = (\<lambda>js. replicate (length js) (CHR ''x'')); dec = (\<lambda>b. Some (replicate (length b) (jobFromState demo_job)));
       f = \<lparr>jf_bytes = Some [], jf_writable = True\<rparr>
   in \<exists>js. List_jobs dec (snd (Add demo_parse enc dec (jobFromState demo_job) f)) = Inr js \<and> set js = {jobFromState demo_job}"
proof -
  let ?j = "jobFromState demo_job"
  let ?enc = "\<lambda>js. replicate (length js) (CHR ''x'')" and ?dec = "\<lambda>b. Some (replicate (length b) ?j)"
  let ?f = "\<lparr>jf_bytes = Some [], jf_writable = True\<rparr>"
  have v: "Validate ?j = None" "demo_parse (jb_Schedule ?j) \<noteq> None" by code_simp+
  have l: "load ?dec ?f = Inr []" by (simp add: load_def)
  have codec: "?dec (?enc js) = Some js" if "set js \<subseteq> insert ?j (set [])" for js
    using that by (induction js) auto
  obtain e f' where a: "Add demo_parse ?enc ?dec ?j ?f = (e, f')" by fastforce
  have "e = None" using a v l by (auto simp: Add_def save_def split: option.splits)
  then show ?thesis
    using job_file_ops [where j = ?j and parse = demo_parse, OF l _ codec] a by (auto simp: Let_def)
qed

text \<open>
  The request a job makes: its path names the job's function to the gateway, the method is
  POST unless the job has one, an answer of 400 or above is an error and one below is none, and the
  body a client reads in pieces of any sizes is the job's body up to what was asked for.
\<close>

theorem trigger_reaches_function:
  assumes "Validate j = None" and "url_ok (base @ ''/fn/'' @ jb_Function j)" and "list_all token_char (jb_Method j)"
  shows "parseFunctionPath (drop (length base) (tr_URL (trigger_request base j))) = Some ([], jb_Function j) \<and>
    IsValidFunctionName (jb_Function j) \<and>
    Fire_http url_ok call base j =
      (case call (trigger_request base j) of
         Inl e \<Rightarrow> Some (CallFailed e) | Inr st \<Rightarrow> if 400 \<le> st then Some (CallReturned st) else None) \<and>
    (\<forall>ns. read_body ns (tr_Body (trigger_request base j), 0) = take (sum_list ns) (jb_Body j))"
proof -
  have read: "read_body ns (s, i) = take (sum_list ns) (drop i s)" for ns s i
  proof (induction ns arbitrary: i)
    case (Cons n ns)
    show ?case
    proof (cases "length s \<le> i")
      case False
      define bs where "bs = take n (drop i s)"
      have "take (n + sum_list ns) (drop i s) = bs @ take (sum_list ns) (drop (i + length bs) s)"
      proof (cases "n \<le> length (drop i s)")
        case True
        then have "length bs = n" by (simp add: bs_def)
        then show ?thesis by (simp add: bs_def take_add add.commute)
      qed (auto simp: bs_def)
      then show ?thesis using False Cons.IH [of "i + length bs"] by (simp add: stringReader_Read_def bs_def Let_def)
    qed (simp add: stringReader_Read_def)
  qed simp
  have "list_all token_char (tr_Method (trigger_request base j))"
    using assms(3) by (simp add: trigger_request_def token_char_def is_upper_def)
  then show ?thesis
    using assms(1,2) fn_path [of "jb_Function j"] read [of _ "jb_Body j" 0]
    by (auto simp: trigger_request_def Fire_http_def Let_def Validate_def split: if_splits)
qed

theorem trigger_reaches_function_witness:
  "parseFunctionPath (drop (length ''http://gw:1'') (tr_URL (trigger_request ''http://gw:1'' (jobFromState demo_job)))) = Some ([], ''hello'') \<and>
   Fire_http (\<lambda>u. True) (\<lambda>r. Inr 503) ''http://gw:1'' (jobFromState demo_job) = Some (CallReturned 503)"
proof -
  have v: "Validate (jobFromState demo_job) = None" by code_simp
  have j: "jb_Function (jobFromState demo_job) = ''hello''" "jb_Method (jobFromState demo_job) = []"
    by (simp_all add: jobFromState_def demo_job_def)
  show ?thesis
    using trigger_reaches_function [OF v, of "\<lambda>u. True" "''http://gw:1''" "\<lambda>r. Inr 503"] j by (simp del: list.size)
qed

text \<open>
  \<open>Reload\<close> can miss an edit of the schedule: it compares the next times of the old and the new
  schedule, so when these coincide at the moment of the reload, the entry stays on the old schedule
  with the old job.
\<close>

theorem reload_misses_edit:
  assumes "List_jobs dec f = Inr [j]" and "sc_entries s = [(jb_ID j, eid)]"
    and "ce_entries ops (sc_cron s) eid = Some (spec, old)"
    and "parse spec = Some p" and "parse (jb_Schedule j) = Some q" and "nextf q now = nextf p now"
  shows "Reload parse nextf ops dec now f s = (None, s)"
  using assms by (simp add: Reload_def desired_def reload_drop_def sameSchedule_def)

theorem reload_misses_edit_witness:
  "let s = \<lparr>sc_cron = (1, [(0, (''0 3 * * *'', jobFromState demo_job))]), sc_entries = [(''nightly'', 0)]\<rparr>;
       j = (jobFromState demo_job)\<lparr>jb_Schedule := ''0 3 1 * *''\<rparr>
   in Reload demo_parse (\<lambda>p t. t + 5) demo_cron (\<lambda>b. Some [j]) 9 \<lparr>jf_bytes = Some [], jf_writable = True\<rparr> s = (None, s)"
proof -
  let ?j = "(jobFromState demo_job)\<lparr>jb_Schedule := ''0 3 1 * *''\<rparr>"
  let ?s = "\<lparr>sc_cron = (1, [(0, (''0 3 * * *'', jobFromState demo_job))]), sc_entries = [(''nightly'', 0)]\<rparr>"
  have "List_jobs (\<lambda>b. Some [?j]) \<lparr>jf_bytes = Some [], jf_writable = True\<rparr> = Inr [?j]" by (simp add: List_jobs_def load_def)
  moreover have "sc_entries ?s = [(jb_ID ?j, 0)]" by (simp add: jobFromState_def demo_job_def)
  moreover have "ce_entries demo_cron (sc_cron ?s) 0 = Some (''0 3 * * *'', jobFromState demo_job)" by (simp add: demo_cron_def)
  ultimately show ?thesis
    unfolding Let_def by (rule reload_misses_edit) (simp_all add: demo_parse_def)
qed

end
