(* ===== verification/Json_Arrays.thy ===== *)
theory Json_Arrays
  imports Wire
begin

text \<open>
  Arrays in \<open>encoding/json\<close>: the elements of an array text, slices encoded and decoded element by
  element, and what reading a written slice gives back. Used by the columns of the Postgres store.
\<close>

section \<open>Definitions\<close>

definition encode_array :: "string list \<Rightarrow> string" where
  "encode_array rs = ''['' @ join_with '','' rs @ '']''"

text \<open>The elements of an array text, after its opening bracket; the first argument bounds their number.\<close>

fun raw_elems :: "nat \<Rightarrow> string \<Rightarrow> string list option" where
  "raw_elems 0 s = None"
| "raw_elems (Suc n) s =
     (let (v, s1) = take_value (BeginValue, []) (skip_space s)
      in case skip_space s1 of
           [] \<Rightarrow> None
         | d # s2 \<Rightarrow>
             if d = CHR '','' then map_option (Cons v) (raw_elems n s2)
             else if d = CHR '']'' then Some [v]
             else None)"

definition json_elems :: "string \<Rightarrow> string list option" where
  "json_elems s =
     (case skip_space s of
        [] \<Rightarrow> None
      | c # s1 \<Rightarrow>
          if c \<noteq> CHR ''['' then None
          else if take 1 (skip_space s1) = [CHR '']''] then Some []
          else raw_elems (length s) s1)"

text \<open>
  \<open>json.Unmarshal\<close> into a nil slice: null leaves it nil, every element is decoded into a zero
  value, and a mismatch makes the call fail after the rest was decoded.
\<close>

definition unmarshal_slice :: "(string \<Rightarrow> 'a \<times> bool) \<Rightarrow> string \<Rightarrow> 'a list \<times> bool" where
  "unmarshal_slice elem s =
     (if json_valid s then
        (let raw = top_value s
         in if json_null raw then ([], True)
            else (case json_elems raw of
                None \<Rightarrow> ([], False)
              | Some rs \<Rightarrow> (map (\<lambda>r. fst (elem r)) rs, list_all (\<lambda>r. snd (elem r)) rs)))
      else ([], False))"

definition marshal_strings :: "string list \<Rightarrow> string" where
  "marshal_strings xs = encode_array (map json_quote xs)"

definition unmarshal_strings :: "string \<Rightarrow> string list \<times> bool" where
  "unmarshal_strings s = unmarshal_slice (assign_string []) s"

text \<open>A map as a whole text; a nil map is null, and reading null gives a nil map.\<close>

definition marshal_map :: "(string, string) gomap \<Rightarrow> string" where
  "marshal_map m = (if m = [] then ''null'' else encode_string_map m)"

definition unmarshal_map :: "string \<Rightarrow> (string, string) gomap \<times> bool" where
  "unmarshal_map s = (if json_valid s then decode_string_map [] (top_value s) else ([], False))"

section \<open>Lemmas\<close>

declare raw_elems.simps [simp del]

lemma raw_elems_Suc:
  assumes "raw_ok r" and "d \<in> {CHR '','', CHR '']''}"
  shows "raw_elems (Suc n) (r @ d # s) = (if d = CHR '','' then map_option (Cons r) (raw_elems n s) else Some [r])"
proof -
  have "skip_space (d # s) = d # s" using assms(2) by (auto simp: skip_space_def json_space_def)
  moreover have "take_value (BeginValue, []) (r @ d # s) = (r, d # s)"
    by (rule take_raw [OF assms(1)]) (use assms(2) in auto)
  ultimately show ?thesis using assms by (auto simp: raw_elems.simps raw_skip_space)
qed

lemma raw_elems_encode:
  "rs \<noteq> [] \<Longrightarrow> list_all raw_ok rs \<Longrightarrow> length rs \<le> n \<Longrightarrow> raw_elems n (join_with '','' rs @ '']'') = Some rs"
proof (induction rs arbitrary: n rule: induct_list012)
  case (2 r)
  then show ?case by (cases n) (simp_all add: raw_elems_Suc)
next
  case (3 r r' rs)
  then show ?case by (cases n) (simp_all add: raw_elems_Suc)
qed simp

lemma scan_elems:
  "rs \<noteq> [] \<Longrightarrow> list_all raw_ok rs \<Longrightarrow>
   scan_run (join_with '','' rs @ '']'') (BeginValue, [ParseArrayValue]) = Some (EndTop, [])"
proof (induction rs rule: induct_list012)
  case (2 r)
  then show ?case
    using raw_scan_member [of r "CHR '']''" "[]" ParseArrayValue]
    by (simp add: scan_end_value_def scan_pop_def json_space_def)
next
  case (3 r r' rs)
  let ?rest = "join_with '','' (r' # rs) @ '']''"
  have "scan_run (r @ CHR '','' # ?rest) (BeginValue, [ParseArrayValue]) = scan_run ?rest (BeginValue, [ParseArrayValue])"
    using raw_scan_member [of r "CHR '',''" ?rest ParseArrayValue] 3(4)
    by (simp add: scan_end_value_def json_space_def)
  then show ?case using 3 by simp
qed simp

text \<open>A value may begin wherever an array may end.\<close>

lemma scan_first_elem:
  "raw_ok r \<Longrightarrow> scan_run (r @ s) (BeginValueOrEmpty, st) = scan_run (r @ s) (BeginValue, st)"
proof -
  assume ok: "raw_ok r"
  then obtain c r' where r: "r = c # r'" by (cases r) (auto elim: raw_ok_run)
  then obtain p where "scan_step c (BeginValue, []) = Some p" using ok by (auto elim!: raw_ok_run split: option.splits)
  then have "c \<noteq> CHR '']''" and "\<not> json_space c"
    using ok by (auto simp: r raw_ok_def scan_begin_value_def begin_mode_def json_space_def is_digit_def)
  then show ?thesis by (simp add: r)
qed

lemma array_valid: "list_all raw_ok rs \<Longrightarrow> json_valid (encode_array rs)"
proof -
  assume ok: "list_all raw_ok rs"
  have o: "scan_step (CHR ''['') (BeginValue, []) = Some (BeginValueOrEmpty, [ParseArrayValue])"
    by (simp add: scan_begin_value_def begin_mode_def scan_push_def json_space_def)
  have "scan_run (join_with '','' rs @ '']'') (BeginValueOrEmpty, [ParseArrayValue]) = Some (EndTop, [])"
  proof (cases rs)
    case Nil
    then show ?thesis by (simp add: scan_end_value_def scan_pop_def json_space_def)
  next
    case (Cons r rs')
    then obtain t where t: "join_with '','' rs @ '']'' = r @ t" by (cases rs') auto
    then show ?thesis using scan_elems [of rs] scan_first_elem [of r t] ok Cons by simp
  qed
  then show ?thesis using o by (simp add: json_valid_def encode_array_def scan_eof_def)
qed

lemma array_top: "list_all raw_ok rs \<Longrightarrow> top_value (encode_array rs) = encode_array rs"
proof -
  assume "list_all raw_ok rs"
  from array_valid [OF this] obtain q where q: "scan_run (encode_array rs) (BeginValue, []) = Some q"
    by (auto simp: json_valid_def split: option.splits)
  have "take_value (BeginValue, []) (encode_array rs) = (encode_array rs, [])"
    by (rule take_value_whole [OF q]) (simp add: encode_array_def value_done_def json_space_def)
  then show ?thesis by (simp add: top_value_def encode_array_def skip_space_def json_space_def)
qed

lemma length_join: "length rs \<le> Suc (length (join_with '','' rs))"
  by (induction rs rule: induct_list012) auto

lemma elems_encode: "list_all raw_ok rs \<Longrightarrow> json_elems (encode_array rs) = Some rs"
proof (cases rs)
  case Nil
  then show ?thesis by (simp add: json_elems_def encode_array_def skip_space_def json_space_def)
next
  case (Cons r rs')
  assume ok: "list_all raw_ok rs"
  obtain t where t: "join_with '','' rs @ '']'' = r @ t" using Cons by (cases rs') auto
  have r: "raw_ok r" using ok Cons by simp
  then obtain c r' where c: "r = c # r'" by (cases r) (auto elim: raw_ok_run)
  have "c \<noteq> CHR '']''" using r by (auto simp: c raw_ok_def json_valid_def scan_begin_value_def begin_mode_def json_space_def is_digit_def split: option.splits)
  then have "take 1 (skip_space (r @ t)) \<noteq> [CHR '']'']" using raw_skip_space [OF r, of t] c by simp
  then have "take 1 (skip_space (join_with '','' rs @ '']'')) \<noteq> [CHR '']'']" unfolding t .
  moreover have "raw_elems (length (encode_array rs)) (join_with '','' rs @ '']'') = Some rs"
    using length_join [of rs] by (intro raw_elems_encode ok) (simp_all add: Cons encode_array_def)
  ultimately show ?thesis by (simp add: json_elems_def encode_array_def skip_space_def json_space_def)
qed

text \<open>Reading a written slice gives back its elements.\<close>

lemma slice_roundtrip:
  assumes "list_all (\<lambda>x. raw_ok (enc x) \<and> elem (enc x) = (x, True)) xs"
  shows "unmarshal_slice elem (encode_array (map enc xs)) = (xs, True)"
proof -
  have ok: "list_all raw_ok (map enc xs)" using assms by (induction xs) auto
  have "map (\<lambda>x. fst (elem (enc x))) xs = xs" "list_all (\<lambda>x. snd (elem (enc x))) xs"
    using assms by (induction xs) auto
  moreover have "\<not> json_null (encode_array (map enc xs))" by (simp add: json_null_def encode_array_def)
  ultimately show ?thesis
    using array_valid [OF ok] array_top [OF ok] elems_encode [OF ok]
    by (simp add: unmarshal_slice_def list_all_iff comp_def)
qed

lemma strings_roundtrip: "list_all utf8_valid xs \<Longrightarrow> unmarshal_strings (marshal_strings xs) = (xs, True)"
  unfolding unmarshal_strings_def marshal_strings_def
  by (rule slice_roundtrip) (simp add: list_all_iff quote_raw_ok)

lemma top_raw_value: "raw_ok r \<Longrightarrow> top_value r = r"
  by (simp add: top_value_def top_raw)

text \<open>Reading a written map gives back the map, in the order of the keys.\<close>

lemma map_roundtrip:
  assumes "map_wf m" and "\<forall>(k, v) \<in> set m. utf8_valid k \<and> utf8_valid v"
  shows "unmarshal_map (marshal_map m) = (sort_key fst m, True)" and "map_of (fst (unmarshal_map (marshal_map m))) = map_of m"
proof -
  show r: "unmarshal_map (marshal_map m) = (sort_key fst m, True)"
  proof (cases "m = []")
    case True
    have "json_valid ''null''" "top_value ''null'' = ''null''" by code_simp+
    then show ?thesis by (simp add: True unmarshal_map_def marshal_map_def decode_string_map_def json_null_def)
  next
    case False
    note h = headers_members [OF assms]
    have "json_valid (encode_string_map m)" using h(2) by (simp add: raw_ok_def)
    then show ?thesis using False h by (simp add: unmarshal_map_def marshal_map_def top_raw_value)
  qed
  have "mset (map fst (sort_key fst m)) = mset (map fst m)" by (simp add: mset_map)
  then have "map_wf (sort_key fst m)" using assms(1) mset_eq_imp_distinct_iff by blast
  then have "map_of (sort_key fst m) = map_of m" using assms(1) map_of_inject_set [of "sort_key fst m" m] by simp
  then show "map_of (fst (unmarshal_map (marshal_map m))) = map_of m" by (simp add: r)
qed

end
