(* ===== verification/Postgres_Store.thy ===== *)
theory Postgres_Store
  imports Tenancy Json_Arrays
begin

text \<open>
  Package \<open>internal/state\<close>, \<open>postgres.go\<close> and the schema of \<open>migrations/*.sql\<close>: the tables and
  their constraints, the statements on functions and cron jobs, migrations, and the notifications
  that carry changes to the subscribers of every replica. A database is a record of tables keyed by
  their primary keys; a statement is one transaction on it. What the schema does not decide is
  left to the server: its JSONB type, its collation and its order of ties are a record of
  functions, and every statement has a fate on its way to the server. The contract that the
  Postgres store shares with the in-memory one is the locale \<open>fallible_kv\<close>.
\<close>

section \<open>Definitions\<close>

subsection \<open>Tables\<close>

record function_row =
  fr_name :: string
  fr_project :: string
  fr_bin_path :: string
  fr_env :: string
  fr_layers :: string
  fr_max_concurrency :: int
  fr_updated_at :: time

record cron_row =
  cr_id :: string
  cr_project :: string
  cr_schedule :: string
  cr_function :: string
  cr_method :: "string option"
  cr_body :: "string option"
  cr_headers :: "string option"
  cr_updated_at :: time

record key_row =
  kr_id :: string
  kr_project :: string
  kr_description :: string
  kr_token_sha256 :: string
  kr_scopes :: string
  kr_created_at :: time
  kr_last_used_at :: "time option"

record audit_row =
  ar_id :: int
  ar_ts :: time
  ar_project :: "string option"
  ar_actor :: string
  ar_action :: string
  ar_target :: string
  ar_metadata :: string

text \<open>\<open>db_notes\<close> is the sequence of committed notifications, each a channel and a payload.\<close>

record pg_db =
  db_schema :: "int list"
  db_functions :: "(string, function_row) gomap"
  db_crons :: "(string, cron_row) gomap"
  db_projects :: "(string, Project) gomap"
  db_keys :: "(string, key_row) gomap"
  db_quotas :: "(string \<times> string, Quota) gomap"
  db_usage :: "(string \<times> string \<times> time, int) gomap"
  db_audit :: "audit_row list"
  db_audit_seq :: int
  db_notes :: "(string \<times> string) list"

datatype pg_error =
    NoRows
  | ForeignKeyViolation
  | UniqueViolation
  | ValueOutOfRange
  | InvalidJson
  | PayloadTooLong
  | ReservedKeyProject
  | NegativeUsage
  | StoreClosed
  | BadMigrationName string
  | Service string

text \<open>
  The server: the text a JSONB column gives back for the text it was given (\<open>None\<close> when it
  refuses it), the sort key of its collation, and its order among rows a query leaves unordered.
\<close>

record pg_server =
  sv_jsonb :: "string \<Rightarrow> string option"
  sv_coll :: "string \<Rightarrow> string"
  sv_tie :: "audit_row \<Rightarrow> int"

text \<open>
  What becomes of a statement: it is executed and answered, it fails before it has any effect (no
  connection, a cancelled context, a text that is not valid in the server's encoding), or it is
  executed and its answer is lost.
\<close>

datatype fate = Answered | Refused string | Lost string

definition exec_stmt :: "fate \<Rightarrow> (pg_db \<Rightarrow> pg_error + pg_db) \<Rightarrow> pg_db \<Rightarrow> pg_error option \<times> pg_db" where
  "exec_stmt l stmt db =
     (case l of
        Answered \<Rightarrow> (case stmt db of Inl e \<Rightarrow> (Some e, db) | Inr db' \<Rightarrow> (None, db'))
      | Refused m \<Rightarrow> (Some (Service m), db)
      | Lost m \<Rightarrow> (Some (Service m), case stmt db of Inl e \<Rightarrow> db | Inr db' \<Rightarrow> db'))"

definition run_query :: "fate \<Rightarrow> 'a \<Rightarrow> pg_error + 'a" where
  "run_query l x = (case l of Answered \<Rightarrow> Inr x | Refused m \<Rightarrow> Inl (Service m) | Lost m \<Rightarrow> Inl (Service m))"

text \<open>A query for one row, scanned into a value.\<close>

definition query_row :: "fate \<Rightarrow> ('r \<Rightarrow> 'v) \<Rightarrow> 'r option \<Rightarrow> pg_error + 'v" where
  "query_row l scan r =
     (case run_query l r of
        Inl e \<Rightarrow> Inl e
      | Inr None \<Rightarrow> Inl NoRows
      | Inr (Some row) \<Rightarrow> Inr (scan row))"

abbreviation int4 :: "int \<Rightarrow> bool" where
  "int4 x \<equiv> - (2 ^ 31) \<le> x \<and> x < 2 ^ 31"

text \<open>\<open>pg_notify\<close> in a trigger: a payload of 8000 bytes or more makes the statement fail.\<close>

definition notify :: "string \<Rightarrow> string \<Rightarrow> pg_db \<Rightarrow> pg_error + pg_db" where
  "notify ch payload db =
     (if length payload < 8000 then Inr (db\<lparr>db_notes := db_notes db @ [(ch, payload)]\<rparr>) else Inl PayloadTooLong)"

subsection \<open>Functions\<close>

definition layer_members :: "state_LayerMount \<Rightarrow> (string \<times> string) list" where
  "layer_members l =
     [(''name'', json_quote (slm_Name l)), (''host_path'', json_quote (slm_HostPath l)),
      (''mount_path'', json_quote (slm_MountPath l))] @ string_member ''digest'' (slm_Digest l)"

definition marshal_layer :: "state_LayerMount \<Rightarrow> string" where
  "marshal_layer l = encode_object (layer_members l)"

definition layer_field :: "string \<Rightarrow> string \<Rightarrow> state_LayerMount \<Rightarrow> state_LayerMount \<times> bool" where
  "layer_field k raw l =
     (if field_matches ''name'' k
      then (let (v, ok) = assign_string (slm_Name l) raw in (l\<lparr>slm_Name := v\<rparr>, ok))
      else if field_matches ''host_path'' k
      then (let (v, ok) = assign_string (slm_HostPath l) raw in (l\<lparr>slm_HostPath := v\<rparr>, ok))
      else if field_matches ''mount_path'' k
      then (let (v, ok) = assign_string (slm_MountPath l) raw in (l\<lparr>slm_MountPath := v\<rparr>, ok))
      else if field_matches ''digest'' k
      then (let (v, ok) = assign_string (slm_Digest l) raw in (l\<lparr>slm_Digest := v\<rparr>, ok))
      else (l, True))"

definition zero_layer :: state_LayerMount where
  "zero_layer = \<lparr>slm_Name = [], slm_HostPath = [], slm_MountPath = [], slm_Digest = []\<rparr>"

definition marshal_layers :: "state_LayerMount list \<Rightarrow> string" where
  "marshal_layers ls = encode_array (map marshal_layer ls)"

definition unmarshal_layers :: "string \<Rightarrow> state_LayerMount list \<times> bool" where
  "unmarshal_layers s = unmarshal_slice (\<lambda>raw. decode_object layer_field raw zero_layer) s"

definition scanFunction :: "function_row \<Rightarrow> state_FunctionDef" where
  "scanFunction r =
     \<lparr>sf_Name = fr_name r, sf_Binary = fr_bin_path r,
      sf_Env = (if 0 < length (fr_env r) then fst (unmarshal_strings (fr_env r)) else []),
      sf_Layers = (if 0 < length (fr_layers r) then fst (unmarshal_layers (fr_layers r)) else []),
      sf_MaxConcurrency = fr_max_concurrency r, sf_Project = fr_project r, sf_UpdatedAt = fr_updated_at r\<rparr>"

text \<open>The row the statement inserts, or over which it writes the row with the same name.\<close>

definition function_values :: "pg_server \<Rightarrow> time \<Rightarrow> state_FunctionDef \<Rightarrow> pg_error + function_row" where
  "function_values sv now d =
     (let d = (if sf_Project d = '''' then d\<lparr>sf_Project := ''default''\<rparr> else d);
          envJSON = marshal_strings (sf_Env d);
          layersJSON = marshal_layers (sf_Layers d)
      in if \<not> int4 (sf_MaxConcurrency d) then Inl ValueOutOfRange
         else (case (sv_jsonb sv envJSON, sv_jsonb sv layersJSON) of
             (Some env, Some layers) \<Rightarrow>
               Inr \<lparr>fr_name = sf_Name d, fr_project = sf_Project d, fr_bin_path = sf_Binary d, fr_env = env,
                 fr_layers = layers, fr_max_concurrency = sf_MaxConcurrency d, fr_updated_at = now\<rparr>
           | _ \<Rightarrow> Inl InvalidJson))"

definition upsert_function :: "pg_server \<Rightarrow> time \<Rightarrow> state_FunctionDef \<Rightarrow> pg_db \<Rightarrow> pg_error + pg_db" where
  "upsert_function sv now d db =
     (case function_values sv now d of
        Inl e \<Rightarrow> Inl e
      | Inr r \<Rightarrow>
          if map_of (db_projects db) (fr_project r) = None then Inl ForeignKeyViolation
          else notify ''cfunc_functions'' (''put:'' @ fr_name r)
            (db\<lparr>db_functions := map_put (fr_name r) r (db_functions db)\<rparr>))"

definition delete_function_row :: "string \<Rightarrow> pg_db \<Rightarrow> pg_error + pg_db" where
  "delete_function_row name db =
     (case map_of (db_functions db) name of
        None \<Rightarrow> Inr db
      | Some r \<Rightarrow>
          notify ''cfunc_functions'' (''delete:'' @ fr_name r)
            (db\<lparr>db_functions := map_del name (db_functions db)\<rparr>))"

definition GetFunction_pg :: "fate \<Rightarrow> pg_db \<Rightarrow> string \<Rightarrow> pg_error + state_FunctionDef" where
  "GetFunction_pg l db name = query_row l scanFunction (map_of (db_functions db) name)"

definition ListFunctions_pg :: "pg_server \<Rightarrow> fate \<Rightarrow> pg_db \<Rightarrow> pg_error + state_FunctionDef list" where
  "ListFunctions_pg sv l db =
     run_query l (map scanFunction (sort_key (\<lambda>r. sv_coll sv (fr_name r)) (map snd (db_functions db))))"

definition PutFunction_pg :: "pg_server \<Rightarrow> fate \<Rightarrow> time \<Rightarrow> state_FunctionDef \<Rightarrow> pg_db \<Rightarrow> pg_error option \<times> pg_db" where
  "PutFunction_pg sv l now d db = exec_stmt l (upsert_function sv now d) db"

definition DeleteFunction_pg :: "fate \<Rightarrow> string \<Rightarrow> pg_db \<Rightarrow> pg_error option \<times> pg_db" where
  "DeleteFunction_pg l name db = exec_stmt l (delete_function_row name) db"

subsection \<open>Cron jobs\<close>

definition scanCron :: "cron_row \<Rightarrow> CronJob" where
  "scanCron r =
     \<lparr>cj_ID = cr_id r, cj_Schedule = cr_schedule r, cj_Function = cr_function r,
      cj_Method = (case cr_method r of None \<Rightarrow> [] | Some m \<Rightarrow> m),
      cj_Body = (case cr_body r of None \<Rightarrow> [] | Some b \<Rightarrow> b),
      cj_Headers = (case cr_headers r of None \<Rightarrow> [] | Some h \<Rightarrow> if 0 < length h then fst (unmarshal_map h) else []),
      cj_Project = cr_project r, cj_UpdatedAt = cr_updated_at r\<rparr>"

definition cron_values :: "pg_server \<Rightarrow> time \<Rightarrow> CronJob \<Rightarrow> pg_error + cron_row" where
  "cron_values sv now j =
     (let j = (if cj_Project j = '''' then j\<lparr>cj_Project := ''default''\<rparr> else j);
          headersJSON = marshal_map (cj_Headers j)
      in case sv_jsonb sv headersJSON of
           None \<Rightarrow> Inl InvalidJson
         | Some h \<Rightarrow>
             Inr \<lparr>cr_id = cj_ID j, cr_project = cj_Project j, cr_schedule = cj_Schedule j, cr_function = cj_Function j,
               cr_method = Some (cj_Method j), cr_body = Some (cj_Body j), cr_headers = Some h, cr_updated_at = now\<rparr>)"

definition upsert_cron :: "pg_server \<Rightarrow> time \<Rightarrow> CronJob \<Rightarrow> pg_db \<Rightarrow> pg_error + pg_db" where
  "upsert_cron sv now j db =
     (case cron_values sv now j of
        Inl e \<Rightarrow> Inl e
      | Inr r \<Rightarrow>
          if map_of (db_projects db) (cr_project r) = None then Inl ForeignKeyViolation
          else notify ''cfunc_crons'' (''put:'' @ cr_id r)
            (db\<lparr>db_crons := map_put (cr_id r) r (db_crons db)\<rparr>))"

definition delete_cron_row :: "string \<Rightarrow> pg_db \<Rightarrow> pg_error + pg_db" where
  "delete_cron_row jid db =
     (case map_of (db_crons db) jid of
        None \<Rightarrow> Inr db
      | Some r \<Rightarrow>
          notify ''cfunc_crons'' (''delete:'' @ cr_id r)
            (db\<lparr>db_crons := map_del jid (db_crons db)\<rparr>))"

definition GetCronJob_pg :: "fate \<Rightarrow> pg_db \<Rightarrow> string \<Rightarrow> pg_error + CronJob" where
  "GetCronJob_pg l db jid = query_row l scanCron (map_of (db_crons db) jid)"

definition ListCronJobs_pg :: "pg_server \<Rightarrow> fate \<Rightarrow> pg_db \<Rightarrow> pg_error + CronJob list" where
  "ListCronJobs_pg sv l db =
     run_query l (map scanCron (sort_key (\<lambda>r. sv_coll sv (cr_id r)) (map snd (db_crons db))))"

definition PutCronJob_pg :: "pg_server \<Rightarrow> fate \<Rightarrow> time \<Rightarrow> CronJob \<Rightarrow> pg_db \<Rightarrow> pg_error option \<times> pg_db" where
  "PutCronJob_pg sv l now j db = exec_stmt l (upsert_cron sv now j) db"

definition DeleteCronJob_pg :: "fate \<Rightarrow> string \<Rightarrow> pg_db \<Rightarrow> pg_error option \<times> pg_db" where
  "DeleteCronJob_pg l jid db = exec_stmt l (delete_cron_row jid) db"

subsection \<open>Migrations\<close>

text \<open>The version in a file name, as \<open>Sscanf\<close> reads it with the format \<open>%d_\<close>.\<close>

definition migration_version :: "string \<Rightarrow> int option" where
  "migration_version name =
     (let s = dropWhile (\<lambda>c. c = CHR '' '') name;
          neg = (take 1 s = ''-'');
          s = (if neg \<or> take 1 s = ''+'' then drop 1 s else s);
          ds = takeWhile is_digit s;
          v = (if neg then - digits_value ds else digits_value ds)
      in if ds \<noteq> [] \<and> int64 v \<and> take 1 (dropWhile is_digit s) = ''_'' then Some v else None)"

text \<open>\<open>0001_init.sql\<close> creates the tables where they are missing, with their triggers; rows stay.\<close>

definition init_migration :: "time \<Rightarrow> pg_db \<Rightarrow> pg_error + pg_db" where
  "init_migration now db = Inr db"

text \<open>\<open>0002_tenancy.sql\<close>: the default project and one for every project a row names.\<close>

definition backfill_project :: "time \<Rightarrow> string \<Rightarrow> (string, Project) gomap \<Rightarrow> (string, Project) gomap" where
  "backfill_project now name m =
     (if map_of m name = None
      then map_put name \<lparr>pr_Name = name, pr_Description = ''auto-created during 0002 migration'', pr_CreatedAt = now\<rparr> m
      else m)"

definition tenancy_migration :: "time \<Rightarrow> pg_db \<Rightarrow> pg_error + pg_db" where
  "tenancy_migration now db =
     Inr (db\<lparr>db_projects :=
       fold (backfill_project now) (map (\<lambda>(_, r). cr_project r) (db_crons db))
        (fold (backfill_project now) (map (\<lambda>(_, r). fr_project r) (db_functions db))
          (backfill_project now ''default'' (db_projects db)))\<rparr>)"

definition migrationsFS :: "(string \<times> (time \<Rightarrow> pg_db \<Rightarrow> pg_error + pg_db)) list" where
  "migrationsFS = [(''0001_init.sql'', init_migration), (''0002_tenancy.sql'', tenancy_migration)]"

definition migration_tx :: "int \<Rightarrow> (pg_db \<Rightarrow> pg_error + pg_db) \<Rightarrow> pg_db \<Rightarrow> pg_error + pg_db" where
  "migration_tx version body db =
     (case body db of
        Inl e \<Rightarrow> Inl e
      | Inr db' \<Rightarrow>
          if version \<in> set (db_schema db') then Inl UniqueViolation
          else Inr (db'\<lparr>db_schema := db_schema db' @ [version]\<rparr>))"

text \<open>Each file is one transaction with its own fate.\<close>

fun apply_migrations ::
  "(string \<Rightarrow> fate) \<Rightarrow> time \<Rightarrow> (string \<times> (time \<Rightarrow> pg_db \<Rightarrow> pg_error + pg_db)) list \<Rightarrow> pg_db \<Rightarrow> pg_error option \<times> pg_db" where
  "apply_migrations fates now [] db = (None, db)"
| "apply_migrations fates now ((name, body) # ms) db =
     (if \<not> has_suffix name ''.sql'' then apply_migrations fates now ms db
      else (case migration_version name of
          None \<Rightarrow> (Some (BadMigrationName name), db)
        | Some version \<Rightarrow>
            if version \<in> set (db_schema db) then apply_migrations fates now ms db
            else (case exec_stmt (fates name) (migration_tx version (body now)) db of
                (Some e, db) \<Rightarrow> (Some e, db)
              | (None, db) \<Rightarrow> apply_migrations fates now ms db)))"

definition migrate :: "fate \<Rightarrow> (string \<Rightarrow> fate) \<Rightarrow> time \<Rightarrow> pg_db \<Rightarrow> pg_error option \<times> pg_db" where
  "migrate l fates now db =
     (case exec_stmt l Inr db of
        (Some e, db) \<Rightarrow> (Some e, db)
      | (None, db) \<Rightarrow> apply_migrations fates now migrationsFS db)"

subsection \<open>Subscribers\<close>

text \<open>
  The connection of the listen loop: the channels it listens on, each from a position in the
  sequence of notifications, and the position it has read to.
\<close>

record listener =
  ln_channels :: "(string, nat) gomap"
  ln_read :: nat

text \<open>\<open>pg_subs\<close> is nil (\<open>None\<close>) once the store is closed.\<close>

record PostgresStore =
  pg_chans :: "(nat, event_chan) gomap"
  pg_subs :: "nat list option"
  pg_next_chan :: nat
  pg_stopped :: bool
  pg_listener :: "listener option"

definition new_pg_store :: PostgresStore where
  "new_pg_store = \<lparr>pg_chans = [], pg_subs = Some [], pg_next_chan = 0, pg_stopped = False, pg_listener = None\<rparr>"

text \<open>\<open>dial\<close> is the error of parsing the DSN and making the pool, if any.\<close>

definition OpenPostgres ::
  "pg_error option \<Rightarrow> fate \<Rightarrow> (string \<Rightarrow> fate) \<Rightarrow> time \<Rightarrow> pg_db \<Rightarrow> (pg_error + PostgresStore) \<times> pg_db" where
  "OpenPostgres dial l fates now db =
     (case dial of
        Some e \<Rightarrow> (Inl e, db)
      | None \<Rightarrow>
          (case migrate l fates now db of
             (Some e, db) \<Rightarrow> (Inl e, db)
           | (None, db) \<Rightarrow> (Inr new_pg_store, db)))"

definition close_chan :: "nat \<Rightarrow> (nat, event_chan) gomap \<Rightarrow> (nat, event_chan) gomap" where
  "close_chan c h = (case map_of h c of None \<Rightarrow> h | Some ch \<Rightarrow> map_put c (ch\<lparr>ch_closed := True\<rparr>) h)"

text \<open>\<open>Close\<close> panics (\<open>None\<close>) on a store that was closed before.\<close>

definition Close_pg :: "PostgresStore \<Rightarrow> PostgresStore option" where
  "Close_pg s =
     (if pg_stopped s then None
      else Some (s\<lparr>pg_stopped := True, pg_listener := None,
        pg_chans := (case pg_subs s of None \<Rightarrow> pg_chans s | Some cs \<Rightarrow> fold close_chan cs (pg_chans s)),
        pg_subs := None\<rparr>))"

definition Watch_pg :: "PostgresStore \<Rightarrow> pg_error + (nat \<times> PostgresStore)" where
  "Watch_pg s =
     (case pg_subs s of
        None \<Rightarrow> Inl StoreClosed
      | Some cs \<Rightarrow>
          (let c = pg_next_chan s
           in Inr (c, s\<lparr>pg_chans := map_put c \<lparr>ch_buf = [], ch_closed = False\<rparr> (pg_chans s),
                pg_subs := Some (cs @ [c]), pg_next_chan := Suc c\<rparr>)))"

definition watch_pg_cancelled :: "nat \<Rightarrow> PostgresStore \<Rightarrow> PostgresStore" where
  "watch_pg_cancelled c s =
     (case pg_subs s of
        None \<Rightarrow> s
      | Some cs \<Rightarrow>
          if c \<in> set cs then s\<lparr>pg_subs := Some (removeAll c cs), pg_chans := close_chan c (pg_chans s)\<rparr> else s)"

text \<open>The event a notification stands for.\<close>

definition note_event :: "string \<times> string \<Rightarrow> Event option" where
  "note_event n =
     (case n of (channel, payload) \<Rightarrow>
        (case cut payload (CHR '':'') of (op, name, ok) \<Rightarrow>
           if \<not> ok then None
           else if channel = ''cfunc_functions'' then
             (if op = ''put'' then Some \<lparr>ev_Kind = EventFunctionPut, ev_Name = name\<rparr>
              else if op = ''delete'' then Some \<lparr>ev_Kind = EventFunctionDelete, ev_Name = name\<rparr>
              else None)
           else if channel = ''cfunc_crons'' then
             (if op = ''put'' then Some \<lparr>ev_Kind = EventCronPut, ev_Name = name\<rparr>
              else if op = ''delete'' then Some \<lparr>ev_Kind = EventCronDelete, ev_Name = name\<rparr>
              else None)
           else None))"

definition dispatch :: "string \<times> string \<Rightarrow> PostgresStore \<Rightarrow> PostgresStore" where
  "dispatch n s =
     (case note_event n of
        None \<Rightarrow> s
      | Some ev \<Rightarrow>
          (case pg_subs s of None \<Rightarrow> s | Some cs \<Rightarrow> s\<lparr>pg_chans := send_all ev cs (pg_chans s)\<rparr>))"

subsection \<open>The listen loop\<close>

text \<open>A connection for the loop; the server remembers nothing of an earlier one.\<close>

definition listen_acquire :: "pg_db \<Rightarrow> PostgresStore \<Rightarrow> PostgresStore" where
  "listen_acquire db s =
     (if pg_stopped s then s
      else s\<lparr>pg_listener := Some \<lparr>ln_channels = [], ln_read = length (db_notes db)\<rparr>\<rparr>)"

definition listen_on :: "string \<Rightarrow> pg_db \<Rightarrow> PostgresStore \<Rightarrow> PostgresStore" where
  "listen_on ch db s =
     (case pg_listener s of
        None \<Rightarrow> s
      | Some ln \<Rightarrow> s\<lparr>pg_listener := Some (ln\<lparr>ln_channels := map_put ch (length (db_notes db)) (ln_channels ln)\<rparr>)\<rparr>)"

definition start_listen :: "pg_db \<Rightarrow> PostgresStore \<Rightarrow> PostgresStore" where
  "start_listen db s = listen_on ''cfunc_crons'' db (listen_on ''cfunc_functions'' db (listen_acquire db s))"

text \<open>One turn of \<open>runListen\<close>; \<open>None\<close> when it would wait.\<close>

definition runListen_turn :: "pg_db \<Rightarrow> PostgresStore \<Rightarrow> PostgresStore option" where
  "runListen_turn db s =
     (case pg_listener s of
        None \<Rightarrow> None
      | Some ln \<Rightarrow>
          if pg_stopped s \<or> length (db_notes db) \<le> ln_read ln then None
          else (let n = db_notes db ! ln_read ln;
                    s' = s\<lparr>pg_listener := Some (ln\<lparr>ln_read := Suc (ln_read ln)\<rparr>)\<rparr>
                in Some (case map_of (ln_channels ln) (fst n) of
                     None \<Rightarrow> s'
                   | Some from \<Rightarrow> if from \<le> ln_read ln then dispatch n s' else s')))"

text \<open>The loop until it would wait, and the end of its connection.\<close>

fun runListen :: "nat \<Rightarrow> pg_db \<Rightarrow> PostgresStore \<Rightarrow> PostgresStore" where
  "runListen 0 db s = s"
| "runListen (Suc n) db s = (case runListen_turn db s of None \<Rightarrow> s | Some s' \<Rightarrow> runListen n db s')"

definition listen_lost :: "PostgresStore \<Rightarrow> PostgresStore" where
  "listen_lost s = s\<lparr>pg_listener := None\<rparr>"

subsection \<open>Runs of a store that can fail\<close>

text \<open>A run of puts and deletes: the operations that returned no error, and the final state.\<close>

fun fkv_run ::
  "('l \<Rightarrow> time \<Rightarrow> 'v \<Rightarrow> 's \<Rightarrow> 'e option \<times> 's) \<Rightarrow> ('l \<Rightarrow> string \<Rightarrow> 's \<Rightarrow> 'e option \<times> 's) \<Rightarrow>
   ('l \<times> 'v kv_op) list \<Rightarrow> 's \<Rightarrow> 'v kv_op list \<times> 's" where
  "fkv_run put del [] s = ([], s)"
| "fkv_run put del ((l, op) # ops) s =
     (let (e, s1) = (case op of KPut t v \<Rightarrow> put l t v s | KDel k \<Rightarrow> del l k s);
          (acked, s2) = fkv_run put del ops s1
      in (if e = None then op # acked else acked, s2))"

definition function_rows_wf :: "pg_db \<Rightarrow> bool" where
  "function_rows_wf db \<longleftrightarrow> map_wf (db_functions db) \<and> (\<forall>p \<in> set (db_functions db). fr_name (snd p) = fst p)"

definition cron_rows_wf :: "pg_db \<Rightarrow> bool" where
  "cron_rows_wf db \<longleftrightarrow> map_wf (db_crons db) \<and> (\<forall>p \<in> set (db_crons db). cr_id (snd p) = fst p)"

definition functions_of :: "pg_db \<Rightarrow> string \<Rightarrow> state_FunctionDef option" where
  "functions_of db k = map_option scanFunction (map_of (db_functions db) k)"

definition crons_of :: "pg_db \<Rightarrow> string \<Rightarrow> CronJob option" where
  "crons_of db k = map_option scanCron (map_of (db_crons db) k)"

text \<open>What the store gives back for a definition it was given.\<close>

definition read_function :: "pg_server \<Rightarrow> time \<Rightarrow> state_FunctionDef \<Rightarrow> state_FunctionDef" where
  "read_function sv now d = (case function_values sv now d of Inl e \<Rightarrow> stamp_function now d | Inr r \<Rightarrow> scanFunction r)"

definition read_cron :: "pg_server \<Rightarrow> time \<Rightarrow> CronJob \<Rightarrow> CronJob" where
  "read_cron sv now j = (case cron_values sv now j of Inl e \<Rightarrow> stamp_cron now j | Inr r \<Rightarrow> scanCron r)"

text \<open>
  The documented behaviour of JSONB the store relies on: a stored text reads as the text that was
  given, whatever white space and order of keys the server gives it.
\<close>

definition jsonb_laws :: "pg_server \<Rightarrow> bool" where
  "jsonb_laws sv \<longleftrightarrow>
     (\<forall>t t'. sv_jsonb sv t = Some t' \<longrightarrow>
        t' \<noteq> [] \<and> unmarshal_strings t' = unmarshal_strings t \<and> unmarshal_layers t' = unmarshal_layers t \<and>
        map_of (fst (unmarshal_map t')) = map_of (fst (unmarshal_map t)))"

text \<open>Definitions whose texts survive \<open>json.Marshal\<close>, which replaces invalid UTF-8.\<close>

definition layer_text_ok :: "state_LayerMount \<Rightarrow> bool" where
  "layer_text_ok l \<longleftrightarrow>
     utf8_valid (slm_Name l) \<and> utf8_valid (slm_HostPath l) \<and> utf8_valid (slm_MountPath l) \<and> utf8_valid (slm_Digest l)"

definition function_text_ok :: "state_FunctionDef \<Rightarrow> bool" where
  "function_text_ok d \<longleftrightarrow> list_all utf8_valid (sf_Env d) \<and> list_all layer_text_ok (sf_Layers d)"

fun op_text_ok :: "state_FunctionDef kv_op \<Rightarrow> bool" where
  "op_text_ok (KPut t d) = function_text_ok d"
| "op_text_ok (KDel k) = True"

text \<open>The events of operations that took effect: deleting what is not there announces nothing.\<close>

fun announced :: "(string \<Rightarrow> Event) \<Rightarrow> (string \<Rightarrow> Event) \<Rightarrow> ('v \<Rightarrow> string) \<Rightarrow> (time \<Rightarrow> 'v \<Rightarrow> 'v) \<Rightarrow> 'v kv_op list \<Rightarrow> (string \<rightharpoonup> 'v) \<Rightarrow> Event list" where
  "announced evp evd key stamp [] m = []"
| "announced evp evd key stamp (KPut t v # ops) m = evp (key v) # announced evp evd key stamp ops (m(key v \<mapsto> stamp t v))"
| "announced evp evd key stamp (KDel k # ops) m =
     (if m k = None then [] else [evd k]) @ announced evp evd key stamp ops (m(k := None))"

definition function_put :: "string \<Rightarrow> Event" where
  "function_put k = \<lparr>ev_Kind = EventFunctionPut, ev_Name = k\<rparr>"

definition function_delete :: "string \<Rightarrow> Event" where
  "function_delete k = \<lparr>ev_Kind = EventFunctionDelete, ev_Name = k\<rparr>"

definition cron_put :: "string \<Rightarrow> Event" where
  "cron_put k = \<lparr>ev_Kind = EventCronPut, ev_Name = k\<rparr>"

definition cron_delete :: "string \<Rightarrow> Event" where
  "cron_delete k = \<lparr>ev_Kind = EventCronDelete, ev_Name = k\<rparr>"

definition note_events :: "(string \<times> string) list \<Rightarrow> Event list" where
  "note_events ns = List.map_filter note_event ns"

definition empty_db :: pg_db where
  "empty_db = \<lparr>db_schema = [], db_functions = [], db_crons = [], db_projects = [], db_keys = [], db_quotas = [],
     db_usage = [], db_audit = [], db_audit_seq = 1, db_notes = []\<rparr>"

declare map_of_eq_Some_iff [simp del] Some_eq_map_of_iff [simp del]

definition pg_buffer :: "nat \<Rightarrow> PostgresStore \<Rightarrow> Event list" where
  "pg_buffer c s = (case map_of (pg_chans s) c of None \<Rightarrow> [] | Some ch \<Rightarrow> ch_buf ch)"

definition pg_subscribed :: "nat \<Rightarrow> PostgresStore \<Rightarrow> bool" where
  "pg_subscribed c s \<longleftrightarrow> (case pg_subs s of None \<Rightarrow> False | Some cs \<Rightarrow> c \<in> set cs \<and> distinct cs) \<and> map_of (pg_chans s) c \<noteq> None"

text \<open>The loop listens on both channels and has read all notifications before position \<open>p\<close>.\<close>

definition listens :: "nat \<Rightarrow> PostgresStore \<Rightarrow> bool" where
  "listens p s \<longleftrightarrow> \<not> pg_stopped s \<and>
     (\<exists>ln. pg_listener s = Some ln \<and> ln_read ln = p \<and>
        (\<forall>ch \<in> {''cfunc_functions'', ''cfunc_crons''}. \<exists>from. map_of (ln_channels ln) ch = Some from \<and> from \<le> p))"

definition pg_subs_wf :: "PostgresStore \<Rightarrow> bool" where
  "pg_subs_wf s \<longleftrightarrow> (case pg_subs s of None \<Rightarrow> True | Some cs \<Rightarrow> distinct cs \<and> list_all (\<lambda>c. c < pg_next_chan s) cs)"

definition demo_server :: pg_server where
  "demo_server = \<lparr>sv_jsonb = \<lambda>t. if t = [] then None else Some t, sv_coll = \<lambda>s. s, sv_tie = ar_id\<rparr>"

definition demo_pg_fn :: state_FunctionDef where
  "demo_pg_fn = \<lparr>sf_Name = ''hello'', sf_Binary = ''/bin/hello'', sf_Env = [''A=1''], sf_Layers = [], sf_MaxConcurrency = 4,
     sf_Project = '''', sf_UpdatedAt = 0\<rparr>"

definition demo_db :: pg_db where
  "demo_db = snd (migrate Answered (\<lambda>_. Answered) 3 empty_db)"

section \<open>The contract of a store that can fail\<close>

text \<open>
  An operation that returns no error took effect; one that returns an error took effect or did not.
  A read that succeeds tells the truth.
\<close>

locale fallible_kv =
  fixes get :: "'l \<Rightarrow> 's \<Rightarrow> string \<Rightarrow> 'e + 'v"
    and put :: "'l \<Rightarrow> time \<Rightarrow> 'v \<Rightarrow> 's \<Rightarrow> 'e option \<times> 's"
    and del :: "'l \<Rightarrow> string \<Rightarrow> 's \<Rightarrow> 'e option \<times> 's"
    and list :: "'l \<Rightarrow> 's \<Rightarrow> 'e + 'v list"
    and answered :: "'l \<Rightarrow> bool"
    and missing :: 'e
    and key :: "'v \<Rightarrow> string"
    and stamp :: "time \<Rightarrow> 'v \<Rightarrow> 'v"
    and inv :: "'s \<Rightarrow> bool"
    and abs :: "'s \<Rightarrow> string \<rightharpoonup> 'v"
  assumes get_answered: "answered l \<Longrightarrow> get l s k = (case abs s k of None \<Rightarrow> Inl missing | Some v \<Rightarrow> Inr v)"
    and get_true: "get l s k = Inr v \<Longrightarrow> abs s k = Some v"
    and list_answered: "answered l \<Longrightarrow> \<exists>vs. list l s = Inr vs"
    and list_true: "inv s \<Longrightarrow> list l s = Inr vs \<Longrightarrow> set vs = ran (abs s) \<and> distinct (map key vs)"
    and put_abs: "put l t v s = (e, s') \<Longrightarrow>
      abs s' = (abs s)(key v \<mapsto> stamp t v) \<or> e \<noteq> None \<and> abs s' = abs s"
    and del_abs: "del l k s = (e, s') \<Longrightarrow> abs s' = (abs s)(k := None) \<or> e \<noteq> None \<and> abs s' = abs s"
    and put_inv: "inv s \<Longrightarrow> inv (snd (put l t v s))"
    and del_inv: "inv s \<Longrightarrow> inv (snd (del l k s))"
begin

lemma put_then_get: "put l t v s = (None, s') \<Longrightarrow> answered l' \<Longrightarrow> get l' s' (key v) = Inr (stamp t v)"
  using put_abs [of l t v s None s'] by (simp add: get_answered)

lemma del_then_get: "del l k s = (None, s') \<Longrightarrow> answered l' \<Longrightarrow> get l' s' k = Inl missing"
  using del_abs [of l k s None s'] by (simp add: get_answered)

text \<open>
  A run is a run of the specification on some of its operations: all those acknowledged, in
  order, and possibly some of the others.
\<close>

lemma run_abs:
  "fkv_run put del ops s = (acked, s') \<Longrightarrow>
   \<exists>eff. subseq acked eff \<and> subseq eff (map snd ops) \<and> abs s' = kv_spec key stamp eff (abs s)"
proof (induction ops arbitrary: s acked)
  case (Cons lo ops)
  obtain l op where lo: "lo = (l, op)" by (cases lo)
  obtain e s1 where op: "(case op of KPut t v \<Rightarrow> put l t v s | KDel k \<Rightarrow> del l k s) = (e, s1)" by fastforce
  obtain acked1 where rest: "fkv_run put del ops s1 = (acked1, s')" and a: "acked = (if e = None then op # acked1 else acked1)"
    using Cons.prems by (auto simp: lo op split: prod.splits)
  obtain eff where eff: "subseq acked1 eff" "subseq eff (map snd ops)" "abs s' = kv_spec key stamp eff (abs s1)"
    using Cons.IH [OF rest] by blast
  consider "kv_spec key stamp [op] (abs s) = abs s1" | "e \<noteq> None" "abs s1 = abs s"
    using op put_abs del_abs by (cases op) (fastforce simp: fun_upd_def)+
  then show ?case
  proof cases
    case 1
    then have "abs s' = kv_spec key stamp (op # eff) (abs s)" using eff(3) by (cases op) simp_all
    then show ?thesis using eff a lo by (intro exI [of _ "op # eff"]) (auto intro: list_emb_Cons)
  next
    case 2
    then show ?thesis using eff a lo by (intro exI [of _ eff]) auto
  qed
next
  case Nil
  then show ?case by (intro exI [of _ "[]"]) simp
qed

lemma run_inv: "inv s \<Longrightarrow> inv (snd (fkv_run put del ops s))"
proof (induction ops arbitrary: s)
  case (Cons lo ops)
  obtain l op where lo: "lo = (l, op)" by (cases lo)
  show ?case
    using Cons put_inv [of s l] del_inv [of s l] by (cases op) (simp_all add: lo case_prod_unfold Let_def)
qed simp

text \<open>With every operation acknowledged the run is the run of the specification.\<close>

lemma run_acked:
  "fkv_run put del ops s = (map snd ops, s') \<Longrightarrow> abs s' = kv_spec key stamp (map snd ops) (abs s)"
  using run_abs [of ops s "map snd ops" s'] subseq_order.antisym by blast

end

text \<open>A store that can fail and that announces what took effect.\<close>

locale announced_kv = fallible_kv +
  fixes log :: "'b \<Rightarrow> Event list"
    and evp evd :: "string \<Rightarrow> Event"
  assumes put_log: "inv s \<Longrightarrow> put l t v s = (e, s') \<Longrightarrow>
      abs s' = (abs s)(key v \<mapsto> stamp t v) \<and> log s' = log s @ [evp (key v)] \<or>
      e \<noteq> None \<and> abs s' = abs s \<and> log s' = log s"
    and del_log: "inv s \<Longrightarrow> del l k s = (e, s') \<Longrightarrow>
      abs s' = (abs s)(k := None) \<and> log s' = log s @ (if abs s k = None then [] else [evd k]) \<or>
      e \<noteq> None \<and> abs s' = abs s \<and> log s' = log s"
begin

lemma run_log:
  "inv s \<Longrightarrow> fkv_run put del ops s = (acked, s') \<Longrightarrow>
   \<exists>eff. subseq acked eff \<and> subseq eff (map snd ops) \<and> abs s' = kv_spec key stamp eff (abs s) \<and>
     log s' = log s @ announced evp evd key stamp eff (abs s)"
proof (induction ops arbitrary: s acked)
  case (Cons lo ops)
  obtain l op where lo: "lo = (l, op)" by (cases lo)
  obtain e s1 where op: "(case op of KPut t v \<Rightarrow> put l t v s | KDel k \<Rightarrow> del l k s) = (e, s1)" by fastforce
  obtain acked1 where rest: "fkv_run put del ops s1 = (acked1, s')" and a: "acked = (if e = None then op # acked1 else acked1)"
    using Cons.prems(2) by (auto simp: lo op split: prod.splits)
  have inv1: "inv s1"
    using op put_inv [OF Cons.prems(1), of l] del_inv [OF Cons.prems(1), of l] by (cases op) (metis kv_op.case snd_conv)+
  obtain eff where eff: "subseq acked1 eff" "subseq eff (map snd ops)" "abs s' = kv_spec key stamp eff (abs s1)"
      "log s' = log s1 @ announced evp evd key stamp eff (abs s1)"
    using Cons.IH [OF inv1 rest] by blast
  consider "kv_spec key stamp [op] (abs s) = abs s1" "log s1 = log s @ announced evp evd key stamp [op] (abs s)"
    | "e \<noteq> None" "abs s1 = abs s" "log s1 = log s"
    using op put_log [OF Cons.prems(1)] del_log [OF Cons.prems(1)] by (cases op) (fastforce simp: fun_upd_def)+
  then show ?case
  proof cases
    case 1
    then have "abs s' = kv_spec key stamp (op # eff) (abs s)" "log s' = log s @ announced evp evd key stamp (op # eff) (abs s)"
      using eff(3,4) by (cases op; simp)+
    then show ?thesis using eff a lo by (intro exI [of _ "op # eff"]) (auto intro: list_emb_Cons)
  next
    case 2
    then show ?thesis using eff a lo by (intro exI [of _ eff]) auto
  qed
next
  case Nil
  then show ?case by (intro exI [of _ "[]"]) simp
qed

end

text \<open>A store that never fails is one that can.\<close>

sublocale kv_store \<subseteq> total: fallible_kv "\<lambda>_ :: unit. get" "\<lambda>_ t v s. (None :: store_error option, put t v s)"
  "\<lambda>_ k s. (None, del k s)" "\<lambda>_ s. Inr (list s)" "\<lambda>_. True" ErrNotFound key stamp inv abs
proof
  fix l :: unit and s k v
  show "get s k = (case abs s k of None \<Rightarrow> Inl ErrNotFound | Some v \<Rightarrow> Inr v)" by (simp add: get_abs found_def)
  show "get s k = Inr v \<Longrightarrow> abs s k = Some v" by (simp add: get_abs found_def split: option.splits)
qed (auto simp: abs_put abs_del set_list distinct_list inv_put inv_del)

section \<open>Lemmas\<close>

subsection \<open>Statements\<close>

lemma map_of_filter:
  "map_wf m \<Longrightarrow> map_of (filter P m) k = (case map_of m k of None \<Rightarrow> None | Some v \<Rightarrow> if P (k, v) then Some v else None)"
proof (induction m)
  case (Cons p m)
  have "map_of m (fst p) = None" using Cons.prems by (simp add: map_of_eq_None_iff)
  then show ?case using Cons by (cases p) (auto split: option.split)
qed simp

lemma map_wf_filter [simp]: "map_wf m \<Longrightarrow> map_wf (filter P m)"
  by (rule distinct_map_filter)

lemma exec_None: "exec_stmt l stmt db = (None, db') \<Longrightarrow> stmt db = Inr db'"
  by (auto simp: exec_stmt_def split: fate.splits sum.splits)

text \<open>A statement either took effect as a whole or left the database alone.\<close>

lemma exec_cases:
  assumes "exec_stmt l stmt db = (e, db')"
  obtains "stmt db = Inr db'" | "e \<noteq> None" "db' = db"
  using assms by (auto simp: exec_stmt_def split: fate.splits sum.splits)

lemma exec_answered: "exec_stmt Answered stmt db = (case stmt db of Inl e \<Rightarrow> (Some e, db) | Inr db' \<Rightarrow> (None, db'))"
  by (simp add: exec_stmt_def)

lemma exec_inv: "P db \<Longrightarrow> (\<And>db'. stmt db = Inr db' \<Longrightarrow> P db') \<Longrightarrow> P (snd (exec_stmt l stmt db))"
  by (cases "exec_stmt l stmt db") (auto elim: exec_cases)

lemma query_row_answered [simp]:
  "query_row Answered scan r = (case r of None \<Rightarrow> Inl NoRows | Some row \<Rightarrow> Inr (scan row))"
  by (simp add: query_row_def run_query_def split: option.split)

lemma query_row_Inr: "query_row l scan r = Inr v \<Longrightarrow> \<exists>row. r = Some row \<and> v = scan row"
  by (auto simp: query_row_def run_query_def split: fate.splits option.splits sum.splits)

lemma run_query_Inr: "run_query l x = Inr y \<Longrightarrow> y = x"
  by (auto simp: run_query_def split: fate.splits)

lemma notify_Inr: "notify ch p db = Inr db' \<Longrightarrow> db' = db\<lparr>db_notes := db_notes db @ [(ch, p)]\<rparr>"
  by (simp add: notify_def split: if_splits)

subsection \<open>Functions and cron jobs\<close>

lemma function_values_Inr:
  "function_values sv now d = Inr r \<Longrightarrow> fr_name r = sf_Name d \<and> fr_project r = sf_Project (stamp_function now d)"
  by (auto simp: function_values_def Let_def stamp_function_def split: if_splits option.splits prod.splits)

lemma cron_values_Inr:
  "cron_values sv now j = Inr r \<Longrightarrow> cr_id r = cj_ID j \<and> cr_project r = cj_Project (stamp_cron now j)"
  by (auto simp: cron_values_def Let_def stamp_cron_def split: if_splits option.splits)

lemma upsert_functionD:
  assumes "upsert_function sv now d db = Inr db'"
  obtains r where "function_values sv now d = Inr r" "map_of (db_projects db) (fr_project r) \<noteq> None" "fr_name r = sf_Name d"
    "db' = db\<lparr>db_functions := map_put (sf_Name d) r (db_functions db), db_notes := db_notes db @ [(''cfunc_functions'', ''put:'' @ sf_Name d)]\<rparr>"
proof -
  obtain r where r: "function_values sv now d = Inr r" "map_of (db_projects db) (fr_project r) \<noteq> None"
      "notify ''cfunc_functions'' (''put:'' @ fr_name r) (db\<lparr>db_functions := map_put (fr_name r) r (db_functions db)\<rparr>) = Inr db'"
    using assms by (auto simp: upsert_function_def split: sum.splits if_splits)
  then show ?thesis using function_values_Inr [OF r(1)] notify_Inr [OF r(3)] by (intro that [of r]) simp_all
qed

lemma upsert_cronD:
  assumes "upsert_cron sv now j db = Inr db'"
  obtains r where "cron_values sv now j = Inr r" "map_of (db_projects db) (cr_project r) \<noteq> None" "cr_id r = cj_ID j"
    "db' = db\<lparr>db_crons := map_put (cj_ID j) r (db_crons db), db_notes := db_notes db @ [(''cfunc_crons'', ''put:'' @ cj_ID j)]\<rparr>"
proof -
  obtain r where r: "cron_values sv now j = Inr r" "map_of (db_projects db) (cr_project r) \<noteq> None"
      "notify ''cfunc_crons'' (''put:'' @ cr_id r) (db\<lparr>db_crons := map_put (cr_id r) r (db_crons db)\<rparr>) = Inr db'"
    using assms by (auto simp: upsert_cron_def split: sum.splits if_splits)
  then show ?thesis using cron_values_Inr [OF r(1)] notify_Inr [OF r(3)] by (intro that [of r]) simp_all
qed

lemma delete_function_rowD:
  assumes "delete_function_row name db = Inr db'"
  shows "if map_of (db_functions db) name = None then db' = db
    else \<exists>r. map_of (db_functions db) name = Some r \<and>
      db' = db\<lparr>db_functions := map_del name (db_functions db), db_notes := db_notes db @ [(''cfunc_functions'', ''delete:'' @ fr_name r)]\<rparr>"
  using assms by (auto simp: delete_function_row_def dest: notify_Inr split: option.splits)

lemma delete_cron_rowD:
  assumes "delete_cron_row jid db = Inr db'"
  shows "if map_of (db_crons db) jid = None then db' = db
    else \<exists>r. map_of (db_crons db) jid = Some r \<and>
      db' = db\<lparr>db_crons := map_del jid (db_crons db), db_notes := db_notes db @ [(''cfunc_crons'', ''delete:'' @ cr_id r)]\<rparr>"
  using assms by (auto simp: delete_cron_row_def dest: notify_Inr split: option.splits)

lemma scan_row_key [simp]: "sf_Name (scanFunction r) = fr_name r" "cj_ID (scanCron r') = cr_id r'"
  by (simp_all add: scanFunction_def scanCron_def)

lemma functions_of_upsert:
  "upsert_function sv now d db = Inr db' \<Longrightarrow> functions_of db' = (functions_of db)(sf_Name d \<mapsto> read_function sv now d)"
  by (rule ext) (auto simp: functions_of_def read_function_def elim!: upsert_functionD)

lemma functions_of_delete: "delete_function_row k db = Inr db' \<Longrightarrow> functions_of db' = (functions_of db)(k := None)"
  by (rule ext) (auto simp: functions_of_def dest!: delete_function_rowD split: if_splits)

lemma crons_of_upsert:
  "upsert_cron sv now j db = Inr db' \<Longrightarrow> crons_of db' = (crons_of db)(cj_ID j \<mapsto> read_cron sv now j)"
  by (rule ext) (auto simp: crons_of_def read_cron_def elim!: upsert_cronD)

lemma crons_of_delete: "delete_cron_row k db = Inr db' \<Longrightarrow> crons_of db' = (crons_of db)(k := None)"
  by (rule ext) (auto simp: crons_of_def dest!: delete_cron_rowD split: if_splits)

lemma function_rows_wf_stmts:
  assumes "function_rows_wf db"
  shows "upsert_function sv now d db = Inr db' \<Longrightarrow> function_rows_wf db'"
    and "delete_function_row k db = Inr db' \<Longrightarrow> function_rows_wf db'"
proof -
  have wf: "map_wf (db_functions db)" "\<forall>p \<in> set (db_functions db). fr_name (snd p) = fst p"
    using assms by (simp_all add: function_rows_wf_def)
  have "function_rows_wf (db\<lparr>db_functions := map_put (fr_name r) r (db_functions db), db_notes := n\<rparr>)" for r n
    unfolding function_rows_wf_def using wf(1) keyed_put [OF wf(2)] by simp
  then show "upsert_function sv now d db = Inr db' \<Longrightarrow> function_rows_wf db'" by (metis upsert_functionD)
  have "function_rows_wf (db\<lparr>db_functions := map_del k (db_functions db), db_notes := n\<rparr>)" for n
    unfolding function_rows_wf_def using wf(1) keyed_del [OF wf(2)] by simp
  then show "delete_function_row k db = Inr db' \<Longrightarrow> function_rows_wf db'"
    using assms by (auto dest!: delete_function_rowD split: if_splits)
qed

lemma cron_rows_wf_stmts:
  assumes "cron_rows_wf db"
  shows "upsert_cron sv now j db = Inr db' \<Longrightarrow> cron_rows_wf db'"
    and "delete_cron_row k db = Inr db' \<Longrightarrow> cron_rows_wf db'"
proof -
  have wf: "map_wf (db_crons db)" "\<forall>p \<in> set (db_crons db). cr_id (snd p) = fst p"
    using assms by (simp_all add: cron_rows_wf_def)
  have "cron_rows_wf (db\<lparr>db_crons := map_put (cr_id r) r (db_crons db), db_notes := n\<rparr>)" for r n
    unfolding cron_rows_wf_def using wf(1) keyed_put [OF wf(2)] by simp
  then show "upsert_cron sv now j db = Inr db' \<Longrightarrow> cron_rows_wf db'" by (metis upsert_cronD)
  have "cron_rows_wf (db\<lparr>db_crons := map_del k (db_crons db), db_notes := n\<rparr>)" for n
    unfolding cron_rows_wf_def using wf(1) keyed_del [OF wf(2)] by simp
  then show "delete_cron_row k db = Inr db' \<Longrightarrow> cron_rows_wf db'"
    using assms by (auto dest!: delete_cron_rowD split: if_splits)
qed

text \<open>The rows of a table keyed by a column, read in the order of the collation.\<close>

lemma rows_listing:
  assumes "map_wf m" and "\<forall>p \<in> set m. k (snd p) = fst p" and "\<And>r. key (scan r) = k r"
  shows "set (map scan (sort_key ord (map snd m))) = ran (\<lambda>n. map_option scan (map_of m n))"
    and "distinct (map key (map scan (sort_key ord (map snd m))))"
proof -
  show "set (map scan (sort_key ord (map snd m))) = ran (\<lambda>n. map_option scan (map_of m n))"
    using set_values [OF assms(1)] by (auto simp: ran_def image_iff)
  have "mset (map k (sort_key ord (map snd m))) = mset (map (\<lambda>p. k (snd p)) m)"
    by (simp add: image_mset.compositionality comp_def)
  then have "distinct (map k (sort_key ord (map snd m)))"
    using keyed_distinct [OF assms(2,1)] mset_eq_imp_distinct_iff by blast
  then show "distinct (map key (map scan (sort_key ord (map snd m))))" by (simp add: comp_def assms(3))
qed

interpretation pgf: fallible_kv GetFunction_pg "PutFunction_pg sv" DeleteFunction_pg "ListFunctions_pg sv"
  "\<lambda>l. l = Answered" NoRows sf_Name "read_function sv" function_rows_wf functions_of
  for sv
proof
  fix l s k v
  show "l = Answered \<Longrightarrow> GetFunction_pg l s k = (case functions_of s k of None \<Rightarrow> Inl NoRows | Some v \<Rightarrow> Inr v)"
    by (simp add: GetFunction_pg_def functions_of_def split: option.split)
  show "GetFunction_pg l s k = Inr v \<Longrightarrow> functions_of s k = Some v"
    by (auto simp: GetFunction_pg_def functions_of_def dest: query_row_Inr)
next
  fix l s vs
  show "l = Answered \<Longrightarrow> \<exists>vs. ListFunctions_pg sv l s = Inr vs" by (simp add: ListFunctions_pg_def run_query_def)
  assume "function_rows_wf s" and "ListFunctions_pg sv l s = Inr vs"
  then show "set vs = ran (functions_of s) \<and> distinct (map sf_Name vs)"
    using rows_listing [of "db_functions s" fr_name sf_Name scanFunction "\<lambda>r. sv_coll sv (fr_name r)"]
    unfolding functions_of_def [abs_def] function_rows_wf_def ListFunctions_pg_def by (auto dest: run_query_Inr)
next
  fix l t v s e s'
  assume "PutFunction_pg sv l t v s = (e, s')"
  then show "functions_of s' = (functions_of s)(sf_Name v \<mapsto> read_function sv t v) \<or> e \<noteq> None \<and> functions_of s' = functions_of s"
    unfolding PutFunction_pg_def
    by (cases rule: exec_cases) (auto simp: functions_of_upsert)
next
  fix l k s e s'
  assume "DeleteFunction_pg l k s = (e, s')"
  then show "functions_of s' = (functions_of s)(k := None) \<or> e \<noteq> None \<and> functions_of s' = functions_of s"
    unfolding DeleteFunction_pg_def
    by (cases rule: exec_cases) (auto simp: functions_of_delete)
next
  fix l t v s
  assume wf: "function_rows_wf s"
  then show "function_rows_wf (snd (PutFunction_pg sv l t v s))"
    unfolding PutFunction_pg_def by (rule exec_inv) (rule function_rows_wf_stmts(1) [OF wf])
next
  fix l k s
  assume wf: "function_rows_wf s"
  then show "function_rows_wf (snd (DeleteFunction_pg l k s))"
    unfolding DeleteFunction_pg_def by (rule exec_inv) (rule function_rows_wf_stmts(2) [OF wf])
qed

interpretation pgc: fallible_kv GetCronJob_pg "PutCronJob_pg sv" DeleteCronJob_pg "ListCronJobs_pg sv"
  "\<lambda>l. l = Answered" NoRows cj_ID "read_cron sv" cron_rows_wf crons_of
  for sv
proof
  fix l s k v
  show "l = Answered \<Longrightarrow> GetCronJob_pg l s k = (case crons_of s k of None \<Rightarrow> Inl NoRows | Some v \<Rightarrow> Inr v)"
    by (simp add: GetCronJob_pg_def crons_of_def split: option.split)
  show "GetCronJob_pg l s k = Inr v \<Longrightarrow> crons_of s k = Some v"
    by (auto simp: GetCronJob_pg_def crons_of_def dest: query_row_Inr)
next
  fix l s vs
  show "l = Answered \<Longrightarrow> \<exists>vs. ListCronJobs_pg sv l s = Inr vs" by (simp add: ListCronJobs_pg_def run_query_def)
  assume "cron_rows_wf s" and "ListCronJobs_pg sv l s = Inr vs"
  then show "set vs = ran (crons_of s) \<and> distinct (map cj_ID vs)"
    using rows_listing [of "db_crons s" cr_id cj_ID scanCron "\<lambda>r. sv_coll sv (cr_id r)"]
    unfolding crons_of_def [abs_def] cron_rows_wf_def ListCronJobs_pg_def by (auto dest: run_query_Inr)
next
  fix l t v s e s'
  assume "PutCronJob_pg sv l t v s = (e, s')"
  then show "crons_of s' = (crons_of s)(cj_ID v \<mapsto> read_cron sv t v) \<or> e \<noteq> None \<and> crons_of s' = crons_of s"
    unfolding PutCronJob_pg_def
    by (cases rule: exec_cases) (auto simp: crons_of_upsert)
next
  fix l k s e s'
  assume "DeleteCronJob_pg l k s = (e, s')"
  then show "crons_of s' = (crons_of s)(k := None) \<or> e \<noteq> None \<and> crons_of s' = crons_of s"
    unfolding DeleteCronJob_pg_def
    by (cases rule: exec_cases) (auto simp: crons_of_delete)
next
  fix l t v s
  assume wf: "cron_rows_wf s"
  then show "cron_rows_wf (snd (PutCronJob_pg sv l t v s))"
    unfolding PutCronJob_pg_def by (rule exec_inv) (rule cron_rows_wf_stmts(1) [OF wf])
next
  fix l k s
  assume wf: "cron_rows_wf s"
  then show "cron_rows_wf (snd (DeleteCronJob_pg l k s))"
    unfolding DeleteCronJob_pg_def by (rule exec_inv) (rule cron_rows_wf_stmts(2) [OF wf])
qed

subsection \<open>Reading back\<close>

lemma layer_names: "utf8_valid ''name''" "utf8_valid ''host_path''" "utf8_valid ''mount_path''" "utf8_valid ''digest''"
  by (simp_all add: utf8_valid_ascii)

lemma layer_members_ok:
  "\<forall>kv \<in> set (layer_members l). utf8_valid (fst kv) \<and> raw_ok (snd kv) \<and> scan_depth (snd kv) (BeginValue, []) = 0"
  unfolding layer_members_def string_member_def
  by (cases "slm_Digest l = []") (simp_all add: layer_names quote_raw_ok quote_depth del: list.set_map)

lemma marshal_layer_raw: "raw_ok (marshal_layer l)"
  unfolding marshal_layer_def
  by (rule object_raw_ok) (use layer_members_ok [of l] in \<open>simp add: Ball_def\<close>)

lemma layer_fields:
  "layer_field ''name'' (json_quote v) l = (let (v, ok) = assign_string (slm_Name l) (json_quote v) in (l\<lparr>slm_Name := v\<rparr>, ok))"
  "layer_field ''host_path'' (json_quote v) l = (let (v, ok) = assign_string (slm_HostPath l) (json_quote v) in (l\<lparr>slm_HostPath := v\<rparr>, ok))"
  "layer_field ''mount_path'' (json_quote v) l = (let (v, ok) = assign_string (slm_MountPath l) (json_quote v) in (l\<lparr>slm_MountPath := v\<rparr>, ok))"
  "layer_field ''digest'' (json_quote v) l = (let (v, ok) = assign_string (slm_Digest l) (json_quote v) in (l\<lparr>slm_Digest := v\<rparr>, ok))"
proof -
  have "\<not> field_matches ''name'' ''host_path''" "\<not> field_matches ''name'' ''mount_path''" "\<not> field_matches ''name'' ''digest''"
    "\<not> field_matches ''host_path'' ''mount_path''" "\<not> field_matches ''host_path'' ''digest''" "\<not> field_matches ''mount_path'' ''digest''"
    by code_simp+
  moreover have "field_matches k k" for k by (simp add: field_matches_def)
  ultimately show
    "layer_field ''name'' (json_quote v) l = (let (v, ok) = assign_string (slm_Name l) (json_quote v) in (l\<lparr>slm_Name := v\<rparr>, ok))"
    "layer_field ''host_path'' (json_quote v) l = (let (v, ok) = assign_string (slm_HostPath l) (json_quote v) in (l\<lparr>slm_HostPath := v\<rparr>, ok))"
    "layer_field ''mount_path'' (json_quote v) l = (let (v, ok) = assign_string (slm_MountPath l) (json_quote v) in (l\<lparr>slm_MountPath := v\<rparr>, ok))"
    "layer_field ''digest'' (json_quote v) l = (let (v, ok) = assign_string (slm_Digest l) (json_quote v) in (l\<lparr>slm_Digest := v\<rparr>, ok))"
    unfolding layer_field_def by (simp_all only: if_True if_False)
qed

lemma decode_layer: "layer_text_ok l \<Longrightarrow> decode_object layer_field (marshal_layer l) zero_layer = (l, True)"
proof -
  assume ok: "layer_text_ok l"
  have "decode_object layer_field (marshal_layer l) zero_layer = decode_struct layer_field (layer_members l) zero_layer"
    unfolding marshal_layer_def
    by (rule decode_encoded) (use layer_members_ok [of l] in \<open>simp add: Ball_def\<close>)
  also have "\<dots> = (l, True)"
    using ok unfolding layer_text_ok_def layer_members_def string_member_def zero_layer_def
    by (cases "slm_Digest l = []") (simp_all add: layer_fields)
  finally show ?thesis .
qed

lemma layers_roundtrip: "list_all layer_text_ok ls \<Longrightarrow> unmarshal_layers (marshal_layers ls) = (ls, True)"
  unfolding unmarshal_layers_def marshal_layers_def
  by (rule slice_roundtrip) (simp add: list_all_iff marshal_layer_raw decode_layer)

lemma read_function_stamp:
  assumes "jsonb_laws sv" and "function_text_ok d"
  shows "read_function sv now d = stamp_function now d"
proof (cases "function_values sv now d")
  case (Inr r)
  obtain env layers where e: "sv_jsonb sv (marshal_strings (sf_Env d)) = Some env" "sv_jsonb sv (marshal_layers (sf_Layers d)) = Some layers"
    and r: "scanFunction r = scanFunction \<lparr>fr_name = sf_Name d, fr_project = sf_Project (stamp_function now d), fr_bin_path = sf_Binary d,
      fr_env = env, fr_layers = layers, fr_max_concurrency = sf_MaxConcurrency d, fr_updated_at = now\<rparr>"
    using Inr by (auto simp: function_values_def Let_def stamp_function_def split: if_splits option.splits prod.splits)
  have "env \<noteq> []" "layers \<noteq> []" "fst (unmarshal_strings env) = sf_Env d" "fst (unmarshal_layers layers) = sf_Layers d"
    using assms e strings_roundtrip [of "sf_Env d"] layers_roundtrip [of "sf_Layers d"]
    by (auto simp: jsonb_laws_def function_text_ok_def)
  then show ?thesis using Inr r by (simp add: read_function_def scanFunction_def stamp_function_def)
qed (simp add: read_function_def)

lemma kv_spec_cong:
  "(\<And>t v. KPut t v \<in> set ops \<Longrightarrow> stamp t v = stamp' t v) \<Longrightarrow> kv_spec key stamp ops m = kv_spec key stamp' ops m"
  by (induction key stamp ops m rule: kv_spec.induct) auto

lemma announced_cong:
  "(\<And>t v. KPut t v \<in> set ops \<Longrightarrow> stamp t v = stamp' t v) \<Longrightarrow>
   announced evp evd key stamp ops m = announced evp evd key stamp' ops m"
  by (induction evp evd key stamp ops m rule: announced.induct) auto

subsection \<open>Notifications\<close>

lemma note_events_append [simp]: "note_events (a @ b) = note_events a @ note_events b"
  by (simp add: note_events_def List.map_filter_def)

text \<open>What the triggers send is what \<open>dispatch\<close> reads, whatever the name contains.\<close>

lemma note_event_triggers [simp]:
  "note_event (''cfunc_functions'', ''put:'' @ n) = Some (function_put n)"
  "note_event (''cfunc_functions'', ''delete:'' @ n) = Some (function_delete n)"
  "note_event (''cfunc_crons'', ''put:'' @ n) = Some (cron_put n)"
  "note_event (''cfunc_crons'', ''delete:'' @ n) = Some (cron_delete n)"
proof -
  have "cut (''put:'' @ n) (CHR '':'') = (''put'', n, True)" "cut (''delete:'' @ n) (CHR '':'') = (''delete'', n, True)"
    using cut_append [of "CHR '':''" "''put''" n] cut_append [of "CHR '':''" "''delete''" n] by simp_all
  then show "note_event (''cfunc_functions'', ''put:'' @ n) = Some (function_put n)"
    "note_event (''cfunc_functions'', ''delete:'' @ n) = Some (function_delete n)"
    "note_event (''cfunc_crons'', ''put:'' @ n) = Some (cron_put n)"
    "note_event (''cfunc_crons'', ''delete:'' @ n) = Some (cron_delete n)"
    by (simp_all add: note_event_def function_put_def function_delete_def cron_put_def cron_delete_def)
qed

lemma note_events_triggers [simp]:
  "note_events [(''cfunc_functions'', ''put:'' @ n)] = [function_put n]"
  "note_events [(''cfunc_functions'', ''delete:'' @ n)] = [function_delete n]"
  "note_events [(''cfunc_crons'', ''put:'' @ n)] = [cron_put n]"
  "note_events [(''cfunc_crons'', ''delete:'' @ n)] = [cron_delete n]"
  unfolding note_events_def List.map_filter_def by (simp_all only: list.map filter.simps note_event_triggers if_True option.simps option.sel simp_thms comp_apply)

lemma upsert_function_log:
  "upsert_function sv now d db = Inr db' \<Longrightarrow> note_events (db_notes db') = note_events (db_notes db) @ [function_put (sf_Name d)]"
  by (elim upsert_functionD) (simp del: append_Cons)

lemma upsert_cron_log:
  "upsert_cron sv now j db = Inr db' \<Longrightarrow> note_events (db_notes db') = note_events (db_notes db) @ [cron_put (cj_ID j)]"
  by (elim upsert_cronD) (simp del: append_Cons)

lemma delete_function_log:
  assumes "function_rows_wf db" and "delete_function_row k db = Inr db'"
  shows "note_events (db_notes db') = note_events (db_notes db) @ (if functions_of db k = None then [] else [function_delete k])"
proof (cases "map_of (db_functions db) k")
  case (Some r)
  then have "fr_name r = k" using assms(1) keyed_lookup [of "db_functions db" fr_name] by (simp add: function_rows_wf_def)
  then show ?thesis using Some delete_function_rowD [OF assms(2)] by (auto simp: functions_of_def simp del: append_Cons)
qed (use delete_function_rowD [OF assms(2)] in \<open>simp add: functions_of_def\<close>)

lemma delete_cron_log:
  assumes "cron_rows_wf db" and "delete_cron_row k db = Inr db'"
  shows "note_events (db_notes db') = note_events (db_notes db) @ (if crons_of db k = None then [] else [cron_delete k])"
proof (cases "map_of (db_crons db) k")
  case (Some r)
  then have "cr_id r = k" using assms(1) keyed_lookup [of "db_crons db" cr_id] by (simp add: cron_rows_wf_def)
  then show ?thesis using Some delete_cron_rowD [OF assms(2)] by (auto simp: crons_of_def simp del: append_Cons)
qed (use delete_cron_rowD [OF assms(2)] in \<open>simp add: crons_of_def\<close>)

interpretation pgf_log: announced_kv GetFunction_pg "PutFunction_pg sv" DeleteFunction_pg "ListFunctions_pg sv"
  "\<lambda>l. l = Answered" NoRows sf_Name "read_function sv" function_rows_wf functions_of
  "\<lambda>db. note_events (db_notes db)" function_put function_delete
  for sv
proof
  fix s l t v e s'
  assume "PutFunction_pg sv l t v s = (e, s')"
  then show "functions_of s' = (functions_of s)(sf_Name v \<mapsto> read_function sv t v) \<and>
      note_events (db_notes s') = note_events (db_notes s) @ [function_put (sf_Name v)] \<or>
      e \<noteq> None \<and> functions_of s' = functions_of s \<and> note_events (db_notes s') = note_events (db_notes s)"
    unfolding PutFunction_pg_def by (cases rule: exec_cases) (simp_all add: functions_of_upsert upsert_function_log)
next
  fix s l k e s'
  assume wf: "function_rows_wf s" and "DeleteFunction_pg l k s = (e, s')"
  then show "functions_of s' = (functions_of s)(k := None) \<and>
      note_events (db_notes s') = note_events (db_notes s) @ (if functions_of s k = None then [] else [function_delete k]) \<or>
      e \<noteq> None \<and> functions_of s' = functions_of s \<and> note_events (db_notes s') = note_events (db_notes s)"
    unfolding DeleteFunction_pg_def by (elim exec_cases) (simp_all add: functions_of_delete delete_function_log [OF wf])
qed

interpretation pgc_log: announced_kv GetCronJob_pg "PutCronJob_pg sv" DeleteCronJob_pg "ListCronJobs_pg sv"
  "\<lambda>l. l = Answered" NoRows cj_ID "read_cron sv" cron_rows_wf crons_of
  "\<lambda>db. note_events (db_notes db)" cron_put cron_delete
  for sv
proof
  fix s l t v e s'
  assume "PutCronJob_pg sv l t v s = (e, s')"
  then show "crons_of s' = (crons_of s)(cj_ID v \<mapsto> read_cron sv t v) \<and>
      note_events (db_notes s') = note_events (db_notes s) @ [cron_put (cj_ID v)] \<or>
      e \<noteq> None \<and> crons_of s' = crons_of s \<and> note_events (db_notes s') = note_events (db_notes s)"
    unfolding PutCronJob_pg_def by (cases rule: exec_cases) (simp_all add: crons_of_upsert upsert_cron_log)
next
  fix s l k e s'
  assume wf: "cron_rows_wf s" and "DeleteCronJob_pg l k s = (e, s')"
  then show "crons_of s' = (crons_of s)(k := None) \<and>
      note_events (db_notes s') = note_events (db_notes s) @ (if crons_of s k = None then [] else [cron_delete k]) \<or>
      e \<noteq> None \<and> crons_of s' = crons_of s \<and> note_events (db_notes s') = note_events (db_notes s)"
    unfolding DeleteCronJob_pg_def by (elim exec_cases) (simp_all add: crons_of_delete delete_cron_log [OF wf])
qed

subsection \<open>Delivery\<close>

lemma note_event_channel: "note_event (ch, p) \<noteq> None \<Longrightarrow> ch \<in> {''cfunc_functions'', ''cfunc_crons''}"
  by (auto simp: note_event_def split: prod.splits if_splits)

lemma note_events_single: "note_events [n] = (case note_event n of None \<Rightarrow> [] | Some ev \<Rightarrow> [ev])"
  by (simp add: note_events_def List.map_filter_def split: option.split)

lemma dispatch_frame [simp]:
  "pg_subs (dispatch n s) = pg_subs s" "pg_stopped (dispatch n s) = pg_stopped s" "pg_listener (dispatch n s) = pg_listener s"
  by (simp_all add: dispatch_def split: option.split)

lemma dispatch_subscribed:
  assumes "pg_subscribed c s" and "length (pg_buffer c s) + length (note_events [n]) \<le> watch_capacity"
  shows "pg_subscribed c (dispatch n s)" and "pg_buffer c (dispatch n s) = pg_buffer c s @ note_events [n]"
proof -
  obtain cs ch where cs: "pg_subs s = Some cs" "c \<in> set cs" "distinct cs" and ch: "map_of (pg_chans s) c = Some ch"
    using assms(1) by (auto simp: pg_subscribed_def split: option.splits)
  show "pg_subscribed c (dispatch n s)"
    using cs ch by (simp add: pg_subscribed_def dispatch_def map_of_send_all split: option.split)
  show "pg_buffer c (dispatch n s) = pg_buffer c s @ note_events [n]"
    using assms(2) cs ch
    by (simp add: pg_buffer_def dispatch_def map_of_send_all chan_offer_def note_events_single split: option.splits)
qed

lemma turn_delivers:
  assumes l: "listens p s" and sub: "pg_subscribed c s" and n: "p < length (db_notes db)"
    and room: "length (pg_buffer c s) + length (note_events [db_notes db ! p]) \<le> watch_capacity"
  obtains s' where "runListen_turn db s = Some s'" "listens (Suc p) s'" "pg_subscribed c s'"
    "pg_buffer c s' = pg_buffer c s @ note_events [db_notes db ! p]"
proof -
  let ?n = "db_notes db ! p"
  obtain ln where ln: "\<not> pg_stopped s" "pg_listener s = Some ln" "ln_read ln = p"
      "\<And>ch. ch \<in> {''cfunc_functions'', ''cfunc_crons''} \<Longrightarrow> \<exists>from. map_of (ln_channels ln) ch = Some from \<and> from \<le> p"
    using l unfolding listens_def by blast
  let ?s = "s\<lparr>pg_listener := Some (ln\<lparr>ln_read := Suc p\<rparr>)\<rparr>"
  have sub': "pg_subscribed c ?s" and buf: "pg_buffer c ?s = pg_buffer c s"
    using sub by (simp_all add: pg_subscribed_def pg_buffer_def)
  have l': "listens (Suc p) ?s" unfolding listens_def using ln by (fastforce intro: le_SucI)
  show ?thesis
  proof (cases "\<exists>from. map_of (ln_channels ln) (fst ?n) = Some from \<and> from \<le> p")
    case True
    then have "runListen_turn db s = Some (dispatch ?n ?s)" using ln n by (auto simp: runListen_turn_def Let_def)
    moreover have "listens (Suc p) (dispatch ?n ?s)" using l' by (simp add: listens_def)
    ultimately show ?thesis using that dispatch_subscribed [OF sub', of ?n] room buf by simp
  next
    case False
    then have "runListen_turn db s = Some ?s" using ln n by (auto simp: runListen_turn_def Let_def split: option.split)
    moreover have "note_event ?n = None" using False ln(4) note_event_channel [of "fst ?n" "snd ?n"] by (metis prod.collapse)
    then have "note_events [?n] = []" by (simp add: note_events_single)
    ultimately show ?thesis using that [of ?s] l' sub' buf by simp
  qed
qed

lemma listen_delivers:
  "listens p s \<Longrightarrow> pg_subscribed c s \<Longrightarrow> p \<le> length (db_notes db) \<Longrightarrow>
   length (pg_buffer c s) + length (note_events (drop p (db_notes db))) \<le> watch_capacity \<Longrightarrow>
   length (db_notes db) - p \<le> n \<Longrightarrow>
   pg_buffer c (runListen n db s) = pg_buffer c s @ note_events (drop p (db_notes db)) \<and>
   listens (length (db_notes db)) (runListen n db s) \<and> pg_subscribed c (runListen n db s)"
proof (induction n arbitrary: p s)
  case 0
  then show ?case by (simp add: note_events_def List.map_filter_def)
next
  case (Suc n)
  show ?case
  proof (cases "p = length (db_notes db)")
    case True
    then have "runListen_turn db s = None" using Suc.prems(1) by (auto simp: listens_def runListen_turn_def split: option.split)
    then show ?thesis using Suc.prems True by (simp add: note_events_def List.map_filter_def)
  next
    case False
    then have p: "p < length (db_notes db)" using Suc.prems(3) by simp
    have d: "note_events (drop p (db_notes db)) = note_events [db_notes db ! p] @ note_events (drop (Suc p) (db_notes db))"
      using Cons_nth_drop_Suc [OF p] note_events_append [of "[db_notes db ! p]"] by (metis append_Cons append_Nil)
    obtain s' where s': "runListen_turn db s = Some s'" "listens (Suc p) s'" "pg_subscribed c s'"
        "pg_buffer c s' = pg_buffer c s @ note_events [db_notes db ! p]"
      using turn_delivers [OF Suc.prems(1,2) p] Suc.prems(4) d by auto
    show ?thesis using Suc.IH [OF s'(2,3)] Suc.prems(4,5) p s' d by simp
  qed
qed

lemma start_listens: "\<not> pg_stopped s \<Longrightarrow> listens (length (db_notes db)) (start_listen db s)"
  by (simp add: listens_def start_listen_def listen_on_def listen_acquire_def)

lemma start_listen_frame [simp]:
  "pg_chans (start_listen db s) = pg_chans s" "pg_subs (start_listen db s) = pg_subs s"
  by (simp_all add: start_listen_def listen_on_def listen_acquire_def split: option.split)

lemma start_listen_stopped [simp]: "pg_stopped (start_listen db s) = pg_stopped s"
  by (simp add: start_listen_def listen_on_def listen_acquire_def split: option.split)

lemma start_listen_buffer [simp]:
  "pg_buffer c (start_listen db s) = pg_buffer c s" "pg_subscribed c (start_listen db s) = pg_subscribed c s"
  by (simp_all add: pg_buffer_def pg_subscribed_def)

lemma listen_lost_frame [simp]:
  "pg_buffer c (listen_lost s) = pg_buffer c s" "pg_subscribed c (listen_lost s) = pg_subscribed c s" "pg_stopped (listen_lost s) = pg_stopped s"
  by (simp_all add: listen_lost_def pg_buffer_def pg_subscribed_def)

lemma announced_length: "length (announced evp evd key stamp ops m) \<le> length ops"
proof (induction ops arbitrary: m)
  case (Cons op ops)
  then show ?case by (cases op) (simp_all add: le_SucI del: fun_upd_apply)
qed simp

lemma function_op_notes:
  "Sublist.prefix (db_notes db) (db_notes (snd (PutFunction_pg sv l t d db)))"
  "Sublist.prefix (db_notes db) (db_notes (snd (DeleteFunction_pg l k db)))"
  unfolding PutFunction_pg_def DeleteFunction_pg_def
  by (rule exec_inv; auto elim!: upsert_functionD dest!: delete_function_rowD split: if_splits)+

lemma function_run_notes:
  "Sublist.prefix (db_notes db) (db_notes (snd (fkv_run (PutFunction_pg sv) DeleteFunction_pg ops db)))"
proof (induction ops arbitrary: db)
  case (Cons lo ops)
  obtain l op where "lo = (l, op)" by (cases lo)
  then show ?case
    using Cons.IH function_op_notes(1) [of db sv l] function_op_notes(2) [of db l]
    by (cases op) (simp_all add: case_prod_unfold Let_def, (metis prefix_order.trans)+)
qed simp

lemma watch_pg_subscribed:
  "pg_subs_wf s \<Longrightarrow> Watch_pg s = Inr (c, s') \<Longrightarrow>
   pg_subscribed c s' \<and> pg_buffer c s' = [] \<and> pg_stopped s' = pg_stopped s \<and> pg_subs_wf s'"
  by (fastforce simp: Watch_pg_def Let_def pg_subscribed_def pg_buffer_def pg_subs_wf_def list_all_iff less_Suc_eq split: option.splits)

lemma demo_jsonb: "jsonb_laws demo_server"
  by (simp add: jsonb_laws_def demo_server_def)

subsection \<open>Properties\<close>





text \<open>
  Changes committed while the listen loop has no connection are never announced: after a lost
  connection the loop listens for what is committed from then on, so a subscriber receives the later
  events and none of those in between, and nothing makes it read the store again.
\<close>

theorem listen_gap:
  assumes "pg_subscribed c s" and "\<not> pg_stopped s" and "listens (length seen) s"
    and "db_notes db1 = seen @ missed" and "db_notes db2 = db_notes db1 @ later"
    and "length (pg_buffer c s) + length (note_events later) \<le> watch_capacity" and "length (db_notes db2) \<le> n"
  shows "pg_buffer c (runListen n db2 (start_listen db1 (listen_lost s))) = pg_buffer c s @ note_events later \<and>
    listens (length (db_notes db2)) (runListen n db2 (start_listen db1 (listen_lost s)))"
  using listen_delivers [of "length (db_notes db1)" "start_listen db1 (listen_lost s)" c db2 n]
    start_listens [of "listen_lost s" db1] assms by simp_all

theorem listen_gap_witness:
  "pg_buffer 0 (runListen 9 (snd (PutFunction_pg demo_server Answered 6 demo_pg_fn (snd (DeleteFunction_pg Answered ''hello''
       (snd (PutFunction_pg demo_server Answered 5 demo_pg_fn demo_db))))))
     (start_listen (snd (DeleteFunction_pg Answered ''hello'' (snd (PutFunction_pg demo_server Answered 5 demo_pg_fn demo_db))))
       (listen_lost (start_listen demo_db (snd (projr (Watch_pg new_pg_store))))))) = [function_put ''hello'']"
proof -
  let ?s = "start_listen demo_db (snd (projr (Watch_pg new_pg_store)))"
  let ?db1 = "snd (DeleteFunction_pg Answered ''hello'' (snd (PutFunction_pg demo_server Answered 5 demo_pg_fn demo_db)))"
  let ?db2 = "snd (PutFunction_pg demo_server Answered 6 demo_pg_fn ?db1)"
  have sub: "pg_subscribed 0 ?s" and buf: "pg_buffer 0 ?s = []"
    and live: "\<not> pg_stopped ?s" and n: "db_notes demo_db = []"
    and d1: "db_notes ?db1 = [] @ [(''cfunc_functions'', ''put:hello''), (''cfunc_functions'', ''delete:hello'')]"
    and d2: "db_notes ?db2 = db_notes ?db1 @ [(''cfunc_functions'', ''put:hello'')]"
    and ev: "note_events [(''cfunc_functions'', ''put:hello'')] = [function_put ''hello'']"
    and room: "length (pg_buffer 0 ?s) + length (note_events [(''cfunc_functions'', ''put:hello'')]) \<le> watch_capacity"
    and len: "length (db_notes ?db2) \<le> 9"
    by code_simp+
  have "listens (length ([] :: (string \<times> string) list)) ?s"
    using start_listens [of "snd (projr (Watch_pg new_pg_store))" demo_db] live n by simp
  note r = listen_gap [OF sub live this d1 d2 room len, unfolded buf ev append_Nil]
  show ?thesis by (rule conjunct1 [OF r])
qed

end
