(* ===== verification/Flags.thy ===== *)
theory Flags
  imports Prelude
begin

text \<open>
  What the commands use of packages \<open>flag\<close> and \<open>strconv\<close>: parsing of the arguments of a subcommand
  into the values of its flags and the arguments after them, and integers in the notation of Go
  literals. The flags of the program's subcommands are strings and integers.
\<close>

section \<open>Definitions\<close>

subsection \<open>Integers\<close>

definition lower_ascii :: "char \<Rightarrow> char" where
  "lower_ascii c = to_lower_ascii c"

text \<open>The value of a digit up to base 16; an underscore is no digit.\<close>

definition digit_of :: "char \<Rightarrow> int option" where
  "digit_of c =
     (if is_digit c then Some (of_char c - 48)
      else if CHR ''a'' \<le> lower_ascii c \<and> lower_ascii c \<le> CHR ''z'' then Some (of_char (lower_ascii c) - 97 + 10)
      else None)"

fun parse_digits :: "int \<Rightarrow> string \<Rightarrow> int \<Rightarrow> int option" where
  "parse_digits base [] acc = Some acc"
| "parse_digits base (c # cs) acc =
     (if c = CHR ''_'' then parse_digits base cs acc
      else (case digit_of c of
          None \<Rightarrow> None
        | Some d \<Rightarrow> if base \<le> d then None else parse_digits base cs (acc * base + d)))"

text \<open>\<open>underscoreOK\<close>: an underscore stands between digits, or after a base prefix.\<close>

datatype saw = SawStart | SawDigit | SawUnderscore | SawOther

fun underscore_run :: "bool \<Rightarrow> saw \<Rightarrow> string \<Rightarrow> bool" where
  "underscore_run hex w [] \<longleftrightarrow> w \<noteq> SawUnderscore"
| "underscore_run hex w (c # cs) \<longleftrightarrow>
     (if is_digit c \<or> hex \<and> CHR ''a'' \<le> lower_ascii c \<and> lower_ascii c \<le> CHR ''f'' then underscore_run hex SawDigit cs
      else if c = CHR ''_'' then w = SawDigit \<and> underscore_run hex SawUnderscore cs
      else w \<noteq> SawUnderscore \<and> underscore_run hex SawOther cs)"

definition base_prefix :: "string \<Rightarrow> (int \<times> string) option" where
  "base_prefix s =
     (case s of
        z # b # r \<Rightarrow>
          if z \<noteq> CHR ''0'' then None
          else if lower_ascii b = CHR ''b'' then Some (2, r)
          else if lower_ascii b = CHR ''o'' then Some (8, r)
          else if lower_ascii b = CHR ''x'' then Some (16, r)
          else None
      | _ \<Rightarrow> None)"

definition underscoreOK :: "string \<Rightarrow> bool" where
  "underscoreOK s =
     (case base_prefix s of
        None \<Rightarrow> underscore_run False SawStart s
      | Some (b, r) \<Rightarrow> underscore_run (b = 16) SawDigit r)"

text \<open>\<open>ParseUint\<close> with base 0, before its range check.\<close>

definition parse_uint :: "string \<Rightarrow> int option" where
  "parse_uint s =
     (if s = [] then None
      else
       (let (base, ds) =
          (if hd s \<noteq> CHR ''0'' then (10, s)
           else (case base_prefix s of
               Some (b, r) \<Rightarrow> if r \<noteq> [] then (b, r) else (8, tl s)
             | None \<Rightarrow> (8, tl s)))
        in case parse_digits base ds 0 of
             None \<Rightarrow> None
           | Some n \<Rightarrow> if CHR ''_'' \<in> set ds \<and> \<not> underscoreOK s then None else Some n))"

definition ParseInt :: "string \<Rightarrow> int option" where
  "ParseInt s =
     (let neg = (take 1 s = ''-''); s' = (if neg \<or> take 1 s = ''+'' then drop 1 s else s)
      in case parse_uint s' of
           None \<Rightarrow> None
         | Some n \<Rightarrow>
             (let i = (if neg then - n else n) in if int64 i then Some i else None))"

subsection \<open>Flags\<close>

datatype flag_value = VString string | VInt int

type_synonym flags = "(string, flag_value) gomap"

text \<open>\<open>Parse\<close> with \<open>ExitOnError\<close>: the values and the remaining arguments, or the exit status.\<close>

datatype parsed = Parsed flags "string list" | FlagExit int

definition set_flag :: "flag_value \<Rightarrow> string \<Rightarrow> flag_value option" where
  "set_flag old text =
     (case old of
        VString _ \<Rightarrow> Some (VString text)
      | VInt _ \<Rightarrow> map_option VInt (ParseInt text))"

text \<open>The name of a flag and the value after an equals sign, if there is one after the first byte.\<close>

definition flag_parts :: "string \<Rightarrow> string \<times> string option" where
  "flag_parts name =
     (if CHR ''='' \<in> set (tl name)
      then (hd name # takeWhile (\<lambda>c. c \<noteq> CHR ''='') (tl name), Some (tl (dropWhile (\<lambda>c. c \<noteq> CHR ''='') (tl name))))
      else (name, None))"

text \<open>What an argument is: not a flag, the end of flags, malformed, or a flag.\<close>

datatype arg = Positional | EndOfFlags | BadFlag | FlagArg string "string option"

definition classify_arg :: "string \<Rightarrow> arg" where
  "classify_arg s =
     (if length s < 2 \<or> hd s \<noteq> CHR ''-'' then Positional
      else if s = ''--'' then EndOfFlags
      else
       (let name = (if s ! 1 = CHR ''-'' then drop 2 s else drop 1 s)
        in if name = [] \<or> hd name = CHR ''-'' \<or> hd name = CHR ''='' then BadFlag
           else (case flag_parts name of (n, v) \<Rightarrow> FlagArg n v)))"

fun parse_flags :: "flags \<Rightarrow> string list \<Rightarrow> parsed" where
  "parse_flags vals [] = Parsed vals []"
| "parse_flags vals (s # args) =
     (case classify_arg s of
        Positional \<Rightarrow> Parsed vals (s # args)
      | EndOfFlags \<Rightarrow> Parsed vals args
      | BadFlag \<Rightarrow> FlagExit 2
      | FlagArg name given \<Rightarrow>
          (case map_of vals name of
             None \<Rightarrow> FlagExit (if name = ''help'' \<or> name = ''h'' then 0 else 2)
           | Some old \<Rightarrow>
               (case given of
                  Some text \<Rightarrow>
                    (case set_flag old text of None \<Rightarrow> FlagExit 2 | Some v \<Rightarrow> parse_flags (map_put name v vals) args)
                | None \<Rightarrow>
                    (case args of
                       [] \<Rightarrow> FlagExit 2
                     | text # rest \<Rightarrow>
                         (case set_flag old text of None \<Rightarrow> FlagExit 2 | Some v \<Rightarrow> parse_flags (map_put name v vals) rest)))))"

definition str_flag :: "flags \<Rightarrow> string \<Rightarrow> string" where
  "str_flag vals name = (case map_of vals name of Some (VString s) \<Rightarrow> s | _ \<Rightarrow> [])"

definition int_flag :: "flags \<Rightarrow> string \<Rightarrow> int" where
  "int_flag vals name = (case map_of vals name of Some (VInt i) \<Rightarrow> i | _ \<Rightarrow> 0)"

section \<open>Lemmas\<close>

text \<open>Parsing stops at the first argument that is not a flag, whatever follows it.\<close>

lemma parse_stops: "classify_arg s = Positional \<Longrightarrow> parse_flags vals (s # args) = Parsed vals (s # args)"
  by simp

text \<open>A flag and its value, in one argument or in two.\<close>

lemma parse_flag_two:
  "classify_arg s = FlagArg n None \<Longrightarrow> map_of vals n = Some old \<Longrightarrow> set_flag old text = Some v \<Longrightarrow>
   parse_flags vals (s # text # args) = parse_flags (map_put n v vals) args"
  by simp

lemma classify_long:
  assumes "n \<noteq> []" and "CHR ''='' \<notin> set n" and "hd n \<noteq> CHR ''-''"
  shows "classify_arg (''--'' @ n) = FlagArg n None" and "classify_arg (''--'' @ n @ ''='' @ v) = FlagArg n (Some v)"
proof -
  obtain c r where n: "n = c # r" using assms(1) by (cases n) auto
  show "classify_arg (''--'' @ n) = FlagArg n None" using assms n by (auto simp: classify_arg_def flag_parts_def)
  have "\<forall>c \<in> set r. c \<noteq> CHR ''=''" using assms(2) n by auto
  then have "takeWhile (\<lambda>c. c \<noteq> CHR ''='') (r @ CHR ''='' # v) = r" "dropWhile (\<lambda>c. c \<noteq> CHR ''='') (r @ CHR ''='' # v) = CHR ''='' # v"
    using assms(2) n by (simp_all add: takeWhile_append2 dropWhile_append2)
  then show "classify_arg (''--'' @ n @ ''='' @ v) = FlagArg n (Some v)" using assms n by (auto simp: classify_arg_def flag_parts_def)
qed

lemma parse_literals:
  "ParseInt ''0'' = Some 0" "ParseInt ''-12'' = Some (- 12)" "ParseInt ''0x1F'' = Some 31" "ParseInt ''010'' = Some 8"
  "ParseInt ''1_000'' = Some 1000" "ParseInt ''1__0'' = None" "ParseInt ''08'' = None" "ParseInt ''9223372036854775808'' = None"
  "ParseInt ''-9223372036854775808'' = Some (- 9223372036854775808)"
  by code_simp+

end
