(* ===== verification/Postgres_Tenancy.thy ===== *)
theory Postgres_Tenancy
  imports Postgres_Store
begin

text \<open>
  Package \<open>internal/state\<close>, \<open>postgres_tenancy.go\<close>: projects, API keys, quotas, usage and the audit log
  in Postgres, with the constraints of \<open>0002_tenancy.sql\<close>. The lemmas show that every database the
  operations reach is consistent: whatever names a project names one that exists, tokens are unique,
  and deleting a project takes its keys, limits and usage with it or is refused.
\<close>

section \<open>Definitions\<close>

subsection \<open>Projects\<close>

definition insert_project :: "time \<Rightarrow> Project \<Rightarrow> pg_db \<Rightarrow> pg_error + pg_db" where
  "insert_project now p db =
     (if map_of (db_projects db) (pr_Name p) \<noteq> None then Inl UniqueViolation
      else Inr (db\<lparr>db_projects := map_put (pr_Name p)
        \<lparr>pr_Name = pr_Name p, pr_Description = pr_Description p, pr_CreatedAt = now\<rparr> (db_projects db)\<rparr>))"

definition CreateProject_pg :: "fate \<Rightarrow> time \<Rightarrow> Project \<Rightarrow> pg_db \<Rightarrow> pg_error option \<times> pg_db" where
  "CreateProject_pg l now p db = exec_stmt l (insert_project now p) db"

definition GetProject_pg :: "fate \<Rightarrow> pg_db \<Rightarrow> string \<Rightarrow> pg_error + Project" where
  "GetProject_pg l db name = query_row l (\<lambda>p. p) (map_of (db_projects db) name)"

definition ListProjects_pg :: "pg_server \<Rightarrow> fate \<Rightarrow> pg_db \<Rightarrow> pg_error + Project list" where
  "ListProjects_pg sv l db = run_query l (sort_key (\<lambda>p. sv_coll sv (pr_Name p)) (map snd (db_projects db)))"

text \<open>Functions and cron jobs restrict the deletion of their project; keys, quotas and usage go with it.\<close>

definition delete_project_row :: "string \<Rightarrow> pg_db \<Rightarrow> pg_error + pg_db" where
  "delete_project_row name db =
     (if map_of (db_projects db) name = None then Inr db
      else if list_ex (\<lambda>(_, r). fr_project r = name) (db_functions db) \<or> list_ex (\<lambda>(_, r). cr_project r = name) (db_crons db)
      then Inl ForeignKeyViolation
      else Inr (db\<lparr>db_projects := map_del name (db_projects db),
        db_keys := filter (\<lambda>(_, k). kr_project k \<noteq> name) (db_keys db),
        db_quotas := filter (\<lambda>(pk, _). fst pk \<noteq> name) (db_quotas db),
        db_usage := filter (\<lambda>(pk, _). fst pk \<noteq> name) (db_usage db)\<rparr>))"

definition DeleteProject_pg :: "fate \<Rightarrow> string \<Rightarrow> pg_db \<Rightarrow> pg_error option \<times> pg_db" where
  "DeleteProject_pg l name db = exec_stmt l (delete_project_row name) db"

subsection \<open>API keys\<close>

definition key_values :: "time \<Rightarrow> APIKey \<Rightarrow> string \<Rightarrow> key_row" where
  "key_values now k scopes =
     \<lparr>kr_id = ak_ID k, kr_project = ak_Project k, kr_description = ak_Description k, kr_token_sha256 = ak_TokenSHA256 k,
      kr_scopes = scopes, kr_created_at = now, kr_last_used_at = None\<rparr>"

definition insert_key :: "pg_server \<Rightarrow> time \<Rightarrow> APIKey \<Rightarrow> pg_db \<Rightarrow> pg_error + pg_db" where
  "insert_key sv now k db =
     (case sv_jsonb sv (marshal_strings (ak_Scopes k)) of
        None \<Rightarrow> Inl InvalidJson
      | Some scopes \<Rightarrow>
          if map_of (db_keys db) (ak_ID k) \<noteq> None then Inl UniqueViolation
          else if list_ex (\<lambda>(_, r). kr_token_sha256 r = ak_TokenSHA256 k) (db_keys db) then Inl UniqueViolation
          else if map_of (db_projects db) (ak_Project k) = None then Inl ForeignKeyViolation
          else Inr (db\<lparr>db_keys := map_put (ak_ID k) (key_values now k scopes) (db_keys db)\<rparr>))"

definition CreateAPIKey_pg :: "pg_server \<Rightarrow> fate \<Rightarrow> time \<Rightarrow> APIKey \<Rightarrow> pg_db \<Rightarrow> pg_error option \<times> pg_db" where
  "CreateAPIKey_pg sv l now k db =
     (if ak_Project k = ''*'' then (Some ReservedKeyProject, db) else exec_stmt l (insert_key sv now k) db)"

definition scanKey :: "key_row \<Rightarrow> APIKey" where
  "scanKey r =
     \<lparr>ak_ID = kr_id r, ak_Project = kr_project r, ak_Description = kr_description r, ak_TokenSHA256 = kr_token_sha256 r,
      ak_Scopes = (if 0 < length (kr_scopes r) then fst (unmarshal_strings (kr_scopes r)) else []),
      ak_CreatedAt = kr_created_at r, ak_LastUsedAt = kr_last_used_at r\<rparr>"

text \<open>One statement finds the row, stamps it and returns it.\<close>

definition touch_key :: "time \<Rightarrow> string \<Rightarrow> pg_db \<Rightarrow> key_row option \<times> pg_db" where
  "touch_key now h db =
     (case find (\<lambda>(_, r). kr_token_sha256 r = h) (db_keys db) of
        None \<Rightarrow> (None, db)
      | Some (kid, r) \<Rightarrow>
          (let r = r\<lparr>kr_last_used_at := Some now\<rparr> in (Some r, db\<lparr>db_keys := map_put kid r (db_keys db)\<rparr>)))"

definition LookupAPIKey_pg :: "fate \<Rightarrow> time \<Rightarrow> string \<Rightarrow> pg_db \<Rightarrow> (pg_error + APIKey) \<times> pg_db" where
  "LookupAPIKey_pg l now h db =
     (case exec_stmt l (\<lambda>db. Inr (snd (touch_key now h db))) db of
        (Some e, db') \<Rightarrow> (Inl e, db')
      | (None, db') \<Rightarrow>
          (case fst (touch_key now h db) of
             None \<Rightarrow> (Inl NoRows, db')
           | Some r \<Rightarrow> (Inr (scanKey r), db')))"

definition ListAPIKeys_pg :: "pg_server \<Rightarrow> fate \<Rightarrow> pg_db \<Rightarrow> string \<Rightarrow> pg_error + APIKey list" where
  "ListAPIKeys_pg sv l db project =
     run_query l (map scanKey (sort_key (\<lambda>r. sv_coll sv (kr_id r)) (filter (\<lambda>r. kr_project r = project) (map snd (db_keys db)))))"

definition DeleteAPIKey_pg :: "fate \<Rightarrow> string \<Rightarrow> pg_db \<Rightarrow> pg_error option \<times> pg_db" where
  "DeleteAPIKey_pg l kid db = exec_stmt l (\<lambda>db. Inr (db\<lparr>db_keys := map_del kid (db_keys db)\<rparr>)) db"

subsection \<open>Quotas and usage\<close>

definition upsert_quota :: "time \<Rightarrow> string \<Rightarrow> string \<Rightarrow> int \<Rightarrow> pg_db \<Rightarrow> pg_error + pg_db" where
  "upsert_quota now project kind value db =
     (if map_of (db_projects db) project = None then Inl ForeignKeyViolation
      else Inr (db\<lparr>db_quotas := map_put (project, kind)
        \<lparr>qt_Project = project, qt_Kind = kind, qt_Value = value, qt_UpdatedAt = now\<rparr> (db_quotas db)\<rparr>))"

definition SetQuota_pg :: "fate \<Rightarrow> time \<Rightarrow> string \<Rightarrow> string \<Rightarrow> int \<Rightarrow> pg_db \<Rightarrow> pg_error option \<times> pg_db" where
  "SetQuota_pg l now project kind value db = exec_stmt l (upsert_quota now project kind value) db"

definition GetQuota_pg :: "fate \<Rightarrow> pg_db \<Rightarrow> string \<Rightarrow> string \<Rightarrow> pg_error + int" where
  "GetQuota_pg l db project kind =
     (case query_row l qt_Value (map_of (db_quotas db) (project, kind)) of
        Inl NoRows \<Rightarrow> Inr 0
      | r \<Rightarrow> r)"

definition ListQuotas_pg :: "pg_server \<Rightarrow> fate \<Rightarrow> pg_db \<Rightarrow> string \<Rightarrow> pg_error + Quota list" where
  "ListQuotas_pg sv l db project =
     run_query l (sort_key (\<lambda>q. sv_coll sv (qt_Kind q)) (map snd (filter (\<lambda>(pk, _). fst pk = project) (db_quotas db))))"

text \<open>Adding to a \<open>BIGINT\<close> column fails where an \<open>int64\<close> would wrap around.\<close>

definition upsert_usage :: "string \<Rightarrow> string \<Rightarrow> time \<Rightarrow> int \<Rightarrow> pg_db \<Rightarrow> pg_error + pg_db" where
  "upsert_usage project kind bucket delta db =
     (let v = map_get 0 (db_usage db) (project, kind, bucket) + delta
      in if map_of (db_projects db) project = None then Inl ForeignKeyViolation
         else if \<not> int64 v then Inl ValueOutOfRange
         else Inr (db\<lparr>db_usage := map_put (project, kind, bucket) v (db_usage db)\<rparr>))"

definition AddQuotaUsage_pg :: "fate \<Rightarrow> string \<Rightarrow> string \<Rightarrow> time \<Rightarrow> int \<Rightarrow> pg_db \<Rightarrow> pg_error option \<times> pg_db" where
  "AddQuotaUsage_pg l project kind bucket delta db =
     (if delta < 0 then (Some NegativeUsage, db)
      else exec_stmt l (upsert_usage project kind (time_truncate bucket Minute) delta) db)"

text \<open>The sum is a \<open>NUMERIC\<close>; scanning it fails when it does not fit.\<close>

definition GetQuotaUsage_pg :: "fate \<Rightarrow> pg_db \<Rightarrow> string \<Rightarrow> string \<Rightarrow> time \<Rightarrow> pg_error + int" where
  "GetQuotaUsage_pg l db project kind since =
     (let since = time_truncate since Minute;
          total = sum_list (map snd (filter (\<lambda>((p, k, b), _). p = project \<and> k = kind \<and> since \<le> b) (db_usage db)))
      in case run_query l total of
           Inl e \<Rightarrow> Inl e
         | Inr total \<Rightarrow> if int64 total then Inr total else Inl ValueOutOfRange)"

subsection \<open>Audit log\<close>

definition audit_values :: "int \<Rightarrow> time \<Rightarrow> AuditEntry \<Rightarrow> string \<Rightarrow> audit_row" where
  "audit_values i now e meta =
     \<lparr>ar_id = i, ar_ts = now, ar_project = (if ae_Project e = '''' then None else Some (ae_Project e)),
      ar_actor = ae_Actor e, ar_action = ae_Action e, ar_target = ae_Target e, ar_metadata = meta\<rparr>"

text \<open>A nil map is written as an empty object.\<close>

definition insert_audit :: "pg_server \<Rightarrow> time \<Rightarrow> AuditEntry \<Rightarrow> pg_db \<Rightarrow> pg_error + pg_db" where
  "insert_audit sv now e db =
     (case sv_jsonb sv (encode_string_map (ae_Metadata e)) of
        None \<Rightarrow> Inl InvalidJson
      | Some meta \<Rightarrow>
          Inr (db\<lparr>db_audit := db_audit db @ [audit_values (db_audit_seq db) now e meta], db_audit_seq := db_audit_seq db + 1\<rparr>))"

definition AppendAudit_pg :: "pg_server \<Rightarrow> fate \<Rightarrow> time \<Rightarrow> AuditEntry \<Rightarrow> pg_db \<Rightarrow> pg_error option \<times> pg_db" where
  "AppendAudit_pg sv l now e db = exec_stmt l (insert_audit sv now e) db"

definition sinceOrEpoch :: "time \<Rightarrow> time" where
  "sinceOrEpoch t = (if t = 0 then unix_epoch else t)"

text \<open>A timestamp on its way to the server loses its nanoseconds.\<close>

definition pg_timestamp :: "time \<Rightarrow> time" where
  "pg_timestamp t = t - t mod 1000"

definition scanAudit :: "audit_row \<Rightarrow> AuditEntry" where
  "scanAudit r =
     \<lparr>ae_ID = ar_id r, ae_TS = ar_ts r, ae_Project = (case ar_project r of None \<Rightarrow> [] | Some p \<Rightarrow> p),
      ae_Actor = ar_actor r, ae_Action = ar_action r, ae_Target = ar_target r,
      ae_Metadata = (if 0 < length (ar_metadata r) then fst (unmarshal_map (ar_metadata r)) else [])\<rparr>"

definition ListAudit_pg :: "pg_server \<Rightarrow> fate \<Rightarrow> pg_db \<Rightarrow> string \<Rightarrow> time \<Rightarrow> int \<Rightarrow> pg_error + AuditEntry list" where
  "ListAudit_pg sv l db project since limit =
     (let limit = (if limit \<le> 0 then 100 else limit);
          since = pg_timestamp (sinceOrEpoch since);
          project = (if project = '''' then None else Some project);
          rows = filter (\<lambda>r. ar_project r = project \<and> since \<le> ar_ts r) (db_audit db)
      in run_query l (map scanAudit (take (nat limit) (sort_key (\<lambda>r. (- ar_ts r, sv_tie sv r)) rows))))"

subsection \<open>Consistent databases\<close>

definition project_rows_wf :: "pg_db \<Rightarrow> bool" where
  "project_rows_wf db \<longleftrightarrow> map_wf (db_projects db) \<and> (\<forall>p \<in> set (db_projects db). pr_Name (snd p) = fst p)"

definition key_rows_wf :: "pg_db \<Rightarrow> bool" where
  "key_rows_wf db \<longleftrightarrow>
     map_wf (db_keys db) \<and> (\<forall>p \<in> set (db_keys db). kr_id (snd p) = fst p) \<and>
     distinct (map (\<lambda>p. kr_token_sha256 (snd p)) (db_keys db)) \<and> (\<forall>p \<in> set (db_keys db). kr_project (snd p) \<noteq> ''*'')"

definition quota_rows_wf :: "pg_db \<Rightarrow> bool" where
  "quota_rows_wf db \<longleftrightarrow>
     map_wf (db_quotas db) \<and> (\<forall>p \<in> set (db_quotas db). (qt_Project (snd p), qt_Kind (snd p)) = fst p) \<and>
     map_wf (db_usage db) \<and> (\<forall>p \<in> set (db_usage db). time_truncate (snd (snd (fst p))) Minute = snd (snd (fst p)) \<and> int64 (snd p))"

text \<open>Whatever names a project names one that exists.\<close>

definition refs_wf :: "pg_db \<Rightarrow> bool" where
  "refs_wf db \<longleftrightarrow>
     (\<forall>p \<in> set (db_functions db). map_of (db_projects db) (fr_project (snd p)) \<noteq> None) \<and>
     (\<forall>p \<in> set (db_crons db). map_of (db_projects db) (cr_project (snd p)) \<noteq> None) \<and>
     (\<forall>p \<in> set (db_keys db). map_of (db_projects db) (kr_project (snd p)) \<noteq> None) \<and>
     (\<forall>p \<in> set (db_quotas db). map_of (db_projects db) (fst (fst p)) \<noteq> None) \<and>
     (\<forall>p \<in> set (db_usage db). map_of (db_projects db) (fst (fst p)) \<noteq> None)"

definition audit_rows_wf :: "pg_db \<Rightarrow> bool" where
  "audit_rows_wf db \<longleftrightarrow> sorted_wrt (<) (map ar_id (db_audit db)) \<and> (\<forall>r \<in> set (db_audit db). ar_id r < db_audit_seq db)"

definition db_wf :: "pg_db \<Rightarrow> bool" where
  "db_wf db \<longleftrightarrow> function_rows_wf db \<and> cron_rows_wf db \<and> project_rows_wf db \<and> key_rows_wf db \<and> quota_rows_wf db \<and>
     refs_wf db \<and> audit_rows_wf db \<and> 1 \<in> set (db_schema db) \<and> 2 \<in> set (db_schema db)"

text \<open>A database without the tenancy tables: new, or with functions and cron jobs of any projects.\<close>

definition untenanted :: "pg_db \<Rightarrow> bool" where
  "untenanted db \<longleftrightarrow> 2 \<notin> set (db_schema db) \<and> function_rows_wf db \<and> cron_rows_wf db \<and> db_projects db = [] \<and> db_keys db = [] \<and>
     db_quotas db = [] \<and> db_usage db = [] \<and> db_audit db = []"

text \<open>Every statement of the store, by any replica and with any fate.\<close>

inductive db_step :: "pg_server \<Rightarrow> pg_db \<Rightarrow> pg_db \<Rightarrow> bool" for sv where
  put_function: "db_step sv db (snd (PutFunction_pg sv l now d db))"
| delete_function: "db_step sv db (snd (DeleteFunction_pg l name db))"
| put_cron: "db_step sv db (snd (PutCronJob_pg sv l now j db))"
| delete_cron: "db_step sv db (snd (DeleteCronJob_pg l jid db))"
| create_project: "db_step sv db (snd (CreateProject_pg l now p db))"
| delete_project: "db_step sv db (snd (DeleteProject_pg l name db))"
| create_key: "db_step sv db (snd (CreateAPIKey_pg sv l now k db))"
| lookup_key: "db_step sv db (snd (LookupAPIKey_pg l now h db))"
| delete_key: "db_step sv db (snd (DeleteAPIKey_pg l kid db))"
| set_quota: "db_step sv db (snd (SetQuota_pg l now project kind value db))"
| add_usage: "db_step sv db (snd (AddQuotaUsage_pg l project kind bucket delta db))"
| append_audit: "db_step sv db (snd (AppendAudit_pg sv l now e db))"
| opened: "db_step sv db (snd (migrate l fates now db))"

inductive db_reachable :: "pg_server \<Rightarrow> pg_db \<Rightarrow> bool" for sv where
  migrated: "untenanted db0 \<Longrightarrow> migrate l fates now db0 = (None, db) \<Longrightarrow> db_reachable sv db"
| step: "db_reachable sv db \<Longrightarrow> db_step sv db db' \<Longrightarrow> db_reachable sv db'"

inductive_cases db_stepE: "db_step sv db db'"

declare map_of_eq_Some_iff [simp del] Some_eq_map_of_iff [simp del]

definition demo_keyed_db :: pg_db where
  "demo_keyed_db = snd (CreateAPIKey_pg demo_server Answered 8 demo_key
     (snd (CreateProject_pg Answered 7 \<lparr>pr_Name = ''acme'', pr_Description = [], pr_CreatedAt = 0\<rparr> demo_db)))"

section \<open>Lemmas\<close>

subsection \<open>Tables\<close>

lemma map_put_fresh: "map_of m k = None \<Longrightarrow> map_put k v m = m @ [(k, v)]"
  by (induction m) auto

lemma map_put_keeps:
  "map_of m k = Some v0 \<Longrightarrow> f v = f v0 \<Longrightarrow> map (\<lambda>p. f (snd p)) (map_put k v m) = map (\<lambda>p. f (snd p)) m"
  by (induction m) (auto split: if_splits)

lemma db_wfD:
  assumes "db_wf db"
  shows "function_rows_wf db" "cron_rows_wf db" "project_rows_wf db" "key_rows_wf db" "quota_rows_wf db" "refs_wf db"
    "audit_rows_wf db" "1 \<in> set (db_schema db)" "2 \<in> set (db_schema db)"
  using assms by (simp_all add: db_wf_def)

text \<open>Changes of one table.\<close>

lemma db_wf_functions:
  assumes wf: "db_wf db" and "function_rows_wf (db\<lparr>db_functions := f\<rparr>)"
    and "\<And>p. p \<in> set f \<Longrightarrow> map_of (db_projects db) (fr_project (snd p)) \<noteq> None"
  shows "db_wf (db\<lparr>db_functions := f, db_notes := n\<rparr>)"
  using wf assms(2,3)
  by (simp add: db_wf_def function_rows_wf_def cron_rows_wf_def project_rows_wf_def key_rows_wf_def quota_rows_wf_def refs_wf_def audit_rows_wf_def)

lemma db_wf_crons:
  assumes wf: "db_wf db" and "cron_rows_wf (db\<lparr>db_crons := f\<rparr>)"
    and "\<And>p. p \<in> set f \<Longrightarrow> map_of (db_projects db) (cr_project (snd p)) \<noteq> None"
  shows "db_wf (db\<lparr>db_crons := f, db_notes := n\<rparr>)"
  using wf assms(2,3)
  by (simp add: db_wf_def function_rows_wf_def cron_rows_wf_def project_rows_wf_def key_rows_wf_def quota_rows_wf_def refs_wf_def audit_rows_wf_def)

lemma db_wf_keys:
  assumes wf: "db_wf db" and "key_rows_wf (db\<lparr>db_keys := ks\<rparr>)"
    and "\<And>p. p \<in> set ks \<Longrightarrow> map_of (db_projects db) (kr_project (snd p)) \<noteq> None"
  shows "db_wf (db\<lparr>db_keys := ks\<rparr>)"
  using wf assms(2,3)
  by (simp add: db_wf_def function_rows_wf_def cron_rows_wf_def project_rows_wf_def key_rows_wf_def quota_rows_wf_def refs_wf_def audit_rows_wf_def)

lemma db_wf_quotas:
  assumes wf: "db_wf db" and "quota_rows_wf (db\<lparr>db_quotas := qs, db_usage := us\<rparr>)"
    and "\<And>p. p \<in> set qs \<Longrightarrow> map_of (db_projects db) (fst (fst p)) \<noteq> None"
    and "\<And>p. p \<in> set us \<Longrightarrow> map_of (db_projects db) (fst (fst p)) \<noteq> None"
  shows "db_wf (db\<lparr>db_quotas := qs, db_usage := us\<rparr>)"
  using wf assms(2-4)
  by (simp add: db_wf_def function_rows_wf_def cron_rows_wf_def project_rows_wf_def key_rows_wf_def quota_rows_wf_def refs_wf_def audit_rows_wf_def)

lemma db_wf_audit: "db_wf db \<Longrightarrow> audit_rows_wf (db\<lparr>db_audit := a, db_audit_seq := i\<rparr>) \<Longrightarrow> db_wf (db\<lparr>db_audit := a, db_audit_seq := i\<rparr>)"
  by (simp add: db_wf_def function_rows_wf_def cron_rows_wf_def project_rows_wf_def key_rows_wf_def quota_rows_wf_def refs_wf_def audit_rows_wf_def)

lemmas rows_wf_defs = function_rows_wf_def cron_rows_wf_def project_rows_wf_def key_rows_wf_def quota_rows_wf_def refs_wf_def audit_rows_wf_def

lemma functions_after_upsert:
  assumes "db_wf db" and "upsert_function sv now d db = Inr db'"
  shows "db_wf db'"
proof -
  obtain r where r: "map_of (db_projects db) (fr_project r) \<noteq> None" "fr_name r = sf_Name d"
      "db' = db\<lparr>db_functions := map_put (sf_Name d) r (db_functions db), db_notes := db_notes db @ [(''cfunc_functions'', ''put:'' @ sf_Name d)]\<rparr>"
    using assms(2) by (rule upsert_functionD)
  have "function_rows_wf db'" by (rule function_rows_wf_stmts(1) [OF db_wfD(1) [OF assms(1)] assms(2)])
  then have "function_rows_wf (db\<lparr>db_functions := map_put (sf_Name d) r (db_functions db)\<rparr>)" by (simp add: r(3) function_rows_wf_def)
  then show ?thesis
    unfolding r(3) using assms(1) r(1) by (intro db_wf_functions) (auto simp: db_wf_def refs_wf_def dest: set_map_put)
qed

lemma functions_after_delete:
  assumes "db_wf db" and "delete_function_row k db = Inr db'"
  shows "db_wf db'"
proof (cases "map_of (db_functions db) k")
  case None
  then show ?thesis using delete_function_rowD [OF assms(2)] assms(1) by simp
next
  case (Some r)
  then have d: "db' = db\<lparr>db_functions := map_del k (db_functions db), db_notes := db_notes db @ [(''cfunc_functions'', ''delete:'' @ fr_name r)]\<rparr>"
    using delete_function_rowD [OF assms(2)] by simp
  have "function_rows_wf db'" by (rule function_rows_wf_stmts(2) [OF db_wfD(1) [OF assms(1)] assms(2)])
  then have "function_rows_wf (db\<lparr>db_functions := map_del k (db_functions db)\<rparr>)" by (simp add: d function_rows_wf_def)
  then show ?thesis
    unfolding d using assms(1) by (intro db_wf_functions) (auto simp: db_wf_def refs_wf_def set_map_del)
qed

lemma crons_after_upsert:
  assumes "db_wf db" and "upsert_cron sv now j db = Inr db'"
  shows "db_wf db'"
proof -
  obtain r where r: "map_of (db_projects db) (cr_project r) \<noteq> None" "cr_id r = cj_ID j"
      "db' = db\<lparr>db_crons := map_put (cj_ID j) r (db_crons db), db_notes := db_notes db @ [(''cfunc_crons'', ''put:'' @ cj_ID j)]\<rparr>"
    using assms(2) by (rule upsert_cronD)
  have "cron_rows_wf db'" by (rule cron_rows_wf_stmts(1) [OF db_wfD(2) [OF assms(1)] assms(2)])
  then have "cron_rows_wf (db\<lparr>db_crons := map_put (cj_ID j) r (db_crons db)\<rparr>)" by (simp add: r(3) cron_rows_wf_def)
  then show ?thesis
    unfolding r(3) using assms(1) r(1) by (intro db_wf_crons) (auto simp: db_wf_def refs_wf_def dest: set_map_put)
qed

lemma crons_after_delete:
  assumes "db_wf db" and "delete_cron_row k db = Inr db'"
  shows "db_wf db'"
proof (cases "map_of (db_crons db) k")
  case None
  then show ?thesis using delete_cron_rowD [OF assms(2)] assms(1) by simp
next
  case (Some r)
  then have d: "db' = db\<lparr>db_crons := map_del k (db_crons db), db_notes := db_notes db @ [(''cfunc_crons'', ''delete:'' @ cr_id r)]\<rparr>"
    using delete_cron_rowD [OF assms(2)] by simp
  have "cron_rows_wf db'" by (rule cron_rows_wf_stmts(2) [OF db_wfD(2) [OF assms(1)] assms(2)])
  then have "cron_rows_wf (db\<lparr>db_crons := map_del k (db_crons db)\<rparr>)" by (simp add: d cron_rows_wf_def)
  then show ?thesis
    unfolding d using assms(1) by (intro db_wf_crons) (auto simp: db_wf_def refs_wf_def set_map_del)
qed

lemma db_wf_insert_project:
  assumes wf: "db_wf db" and "insert_project now p db = Inr db'"
  shows "db_wf db'"
proof -
  let ?p = "\<lparr>pr_Name = pr_Name p, pr_Description = pr_Description p, pr_CreatedAt = now\<rparr>"
  have d: "db' = db\<lparr>db_projects := map_put (pr_Name p) ?p (db_projects db)\<rparr>"
    using assms(2) by (simp add: insert_project_def split: if_splits)
  have "project_rows_wf db'"
    using db_wfD(3) [OF wf] keyed_put [of "db_projects db" pr_Name ?p] by (simp add: d project_rows_wf_def)
  then show ?thesis using wf by (simp add: d db_wf_def rows_wf_defs)
qed

lemma delete_project_rowD:
  assumes "delete_project_row name db = Inr db'"
  obtains "map_of (db_projects db) name = None" "db' = db"
  | "map_of (db_projects db) name \<noteq> None" "\<forall>p \<in> set (db_functions db). fr_project (snd p) \<noteq> name"
    "\<forall>p \<in> set (db_crons db). cr_project (snd p) \<noteq> name"
    "db' = db\<lparr>db_projects := map_del name (db_projects db),
      db_keys := filter (\<lambda>(_, k). kr_project k \<noteq> name) (db_keys db),
      db_quotas := filter (\<lambda>(pk, _). fst pk \<noteq> name) (db_quotas db),
      db_usage := filter (\<lambda>(pk, _). fst pk \<noteq> name) (db_usage db)\<rparr>"
  using assms by (auto simp: delete_project_row_def list_ex_iff case_prod_unfold split: if_splits)

lemma db_wf_delete_project:
  assumes wf: "db_wf db" and "delete_project_row name db = Inr db'"
  shows "db_wf db'"
  using assms(2)
proof (cases rule: delete_project_rowD)
  case 2
  note w = db_wfD [OF wf]
  have "project_rows_wf db'" using w(3) keyed_del [of "db_projects db" pr_Name name] by (simp add: 2(4) project_rows_wf_def)
  moreover have "key_rows_wf db'" using w(4) by (simp add: 2(4) key_rows_wf_def distinct_map_filter)
  moreover have "quota_rows_wf db'" using w(5) by (simp add: 2(4) quota_rows_wf_def)
  moreover have "refs_wf db'" using w(6) 2(2,3) by (simp add: 2(4) refs_wf_def case_prod_unfold)
  ultimately show ?thesis using w by (simp add: 2(4) db_wf_def function_rows_wf_def cron_rows_wf_def audit_rows_wf_def)
qed (simp add: wf)

lemma insert_keyD:
  assumes "insert_key sv now k db = Inr db'"
  obtains scopes where "sv_jsonb sv (marshal_strings (ak_Scopes k)) = Some scopes" "map_of (db_keys db) (ak_ID k) = None"
    "\<forall>p \<in> set (db_keys db). kr_token_sha256 (snd p) \<noteq> ak_TokenSHA256 k" "map_of (db_projects db) (ak_Project k) \<noteq> None"
    "db' = db\<lparr>db_keys := db_keys db @ [(ak_ID k, key_values now k scopes)]\<rparr>"
  using assms by (auto simp: insert_key_def list_ex_iff case_prod_unfold map_put_fresh split: option.splits if_splits)

lemma key_values_simps [simp]:
  "kr_id (key_values now k s) = ak_ID k" "kr_project (key_values now k s) = ak_Project k"
  "kr_token_sha256 (key_values now k s) = ak_TokenSHA256 k" "kr_scopes (key_values now k s) = s"
  by (simp_all add: key_values_def)

lemma db_wf_insert_key:
  assumes wf: "db_wf db" and "ak_Project k \<noteq> ''*''" and "insert_key sv now k db = Inr db'"
  shows "db_wf db'"
  using assms(3)
proof (rule insert_keyD)
  fix scopes
  let ?r = "key_values now k scopes"
  assume r: "map_of (db_keys db) (ak_ID k) = None" "\<forall>p \<in> set (db_keys db). kr_token_sha256 (snd p) \<noteq> ak_TokenSHA256 k"
    "map_of (db_projects db) (ak_Project k) \<noteq> None" "db' = db\<lparr>db_keys := db_keys db @ [(ak_ID k, ?r)]\<rparr>"
  show "db_wf db'"
    unfolding r(4)
  proof (rule db_wf_keys [OF wf])
    show "key_rows_wf (db\<lparr>db_keys := db_keys db @ [(ak_ID k, ?r)]\<rparr>)"
      using db_wfD(4) [OF wf] r(1,2) assms(2) by (auto simp: key_rows_wf_def map_of_eq_None_iff)
    fix p
    assume "p \<in> set (db_keys db @ [(ak_ID k, ?r)])"
    then show "map_of (db_projects db) (kr_project (snd p)) \<noteq> None" using db_wfD(6) [OF wf] r(3) by (auto simp: refs_wf_def)
  qed
qed

text \<open>The row with a token is the only one with it.\<close>

lemma find_token:
  assumes "key_rows_wf db"
  shows "find (\<lambda>(_, r). kr_token_sha256 r = h) (db_keys db) = Some (kid, r) \<longleftrightarrow>
    map_of (db_keys db) kid = Some r \<and> kr_token_sha256 r = h"
proof -
  have "find P m = Some p \<longleftrightarrow> p \<in> set m \<and> P p" if "distinct (map f m)" and "\<And>p. P p \<longleftrightarrow> f p = h" for P f and m :: "(string \<times> key_row) list" and p
    using that(1) by (induction m) (auto simp: that(2))
  from this [of "\<lambda>p. kr_token_sha256 (snd p)" "db_keys db" "\<lambda>(_, r). kr_token_sha256 r = h" "(kid, r)"] show ?thesis
    using assms by (simp add: key_rows_wf_def case_prod_unfold map_of_eq_Some_iff)
qed

lemma find_token_None:
  "find (\<lambda>(_, r). kr_token_sha256 r = h) m = None \<longleftrightarrow> (\<forall>p \<in> set m. kr_token_sha256 (snd p) \<noteq> h)"
  by (induction m) auto

lemma key_row_id: "key_rows_wf db \<Longrightarrow> map_of (db_keys db) kid = Some r \<Longrightarrow> kr_id r = kid"
  using keyed_lookup [of "db_keys db" kr_id kid r] by (simp add: key_rows_wf_def)

lemma db_wf_touch:
  assumes wf: "db_wf db"
  shows "db_wf (snd (touch_key now h db))"
proof (cases "find (\<lambda>(_, r). kr_token_sha256 r = h) (db_keys db)")
  case (Some p)
  obtain kid r where p: "p = (kid, r)" by (cases p)
  note k = db_wfD(4) [OF wf]
  have m: "map_of (db_keys db) kid = Some r" using Some p find_token [OF k] by simp
  let ?r = "r\<lparr>kr_last_used_at := Some now\<rparr>" and ?ks = "map_put kid (r\<lparr>kr_last_used_at := Some now\<rparr>) (db_keys db)"
  have id: "kr_id ?r = kid" using key_row_id [OF k m] by simp
  have "\<forall>p \<in> set ?ks. kr_id (snd p) = fst p" using k keyed_put [of "db_keys db" kr_id ?r] id by (simp add: key_rows_wf_def)
  moreover have "map (\<lambda>p. kr_token_sha256 (snd p)) ?ks = map (\<lambda>p. kr_token_sha256 (snd p)) (db_keys db)"
    by (rule map_put_keeps [OF m]) simp
  moreover have old: "(kid, r) \<in> set (db_keys db)" using m by (rule map_of_SomeD)
  moreover have "\<forall>p \<in> set ?ks. kr_project (snd p) \<noteq> ''*''" using k old by (auto simp: key_rows_wf_def dest!: set_map_put)
  ultimately have "key_rows_wf (db\<lparr>db_keys := ?ks\<rparr>)" using k by (simp add: key_rows_wf_def)
  moreover have "map_of (db_projects db) (kr_project (snd p)) \<noteq> None" if "p \<in> set ?ks" for p
    using that old db_wfD(6) [OF wf] by (auto simp: refs_wf_def dest!: set_map_put)
  ultimately have "db_wf (db\<lparr>db_keys := ?ks\<rparr>)" by (intro db_wf_keys wf)
  then show ?thesis using Some p by (simp add: touch_key_def Let_def)
qed (simp add: touch_key_def wf)

lemma db_wf_delete_key: "db_wf db \<Longrightarrow> db_wf (db\<lparr>db_keys := map_del kid (db_keys db)\<rparr>)"
proof -
  assume wf: "db_wf db"
  show ?thesis
    by (rule db_wf_keys [OF wf])
      (use db_wfD(4,6) [OF wf] in \<open>auto simp: key_rows_wf_def refs_wf_def AList.delete_eq distinct_map_filter\<close>)
qed

lemma db_wf_upsert_quota:
  assumes wf: "db_wf db" and "upsert_quota now project kind v db = Inr db'"
  shows "db_wf db'"
proof -
  let ?q = "\<lparr>qt_Project = project, qt_Kind = kind, qt_Value = v, qt_UpdatedAt = now\<rparr>"
  have d: "map_of (db_projects db) project \<noteq> None" "db' = db\<lparr>db_quotas := map_put (project, kind) ?q (db_quotas db), db_usage := db_usage db\<rparr>"
    using assms(2) by (simp_all add: upsert_quota_def split: if_splits)
  have "quota_rows_wf (db\<lparr>db_quotas := map_put (project, kind) ?q (db_quotas db), db_usage := db_usage db\<rparr>)"
    using db_wfD(5) [OF wf] keyed_put [of "db_quotas db" "\<lambda>q. (qt_Project q, qt_Kind q)" ?q] by (simp add: quota_rows_wf_def)
  then show ?thesis
    unfolding d(2) by (rule db_wf_quotas [OF wf]) (use d(1) db_wfD(6) [OF wf] in \<open>auto simp: refs_wf_def dest!: set_map_put\<close>)
qed

lemma truncate_idem: "time_truncate (time_truncate t Minute) Minute = time_truncate t Minute"
proof -
  have "(t - t mod Minute) mod Minute = 0" by (rule minus_mod_eq_mult_div [THEN ssubst]) simp
  then show ?thesis by (simp add: time_truncate_def)
qed

lemma db_wf_upsert_usage:
  assumes wf: "db_wf db" and "upsert_usage project kind (time_truncate b Minute) delta db = Inr db'"
  shows "db_wf db'"
proof -
  let ?k = "(project, kind, time_truncate b Minute)"
  let ?v = "map_get 0 (db_usage db) ?k + delta"
  have d: "map_of (db_projects db) project \<noteq> None" "int64 ?v" "db' = db\<lparr>db_quotas := db_quotas db, db_usage := map_put ?k ?v (db_usage db)\<rparr>"
    using assms(2) by (simp_all add: upsert_usage_def Let_def split: if_splits)
  have "\<forall>p \<in> set (map_put ?k ?v (db_usage db)). time_truncate (snd (snd (fst p))) Minute = snd (snd (fst p)) \<and> int64 (snd p)"
    using db_wfD(5) [OF wf] d(2) truncate_idem [of b] by (auto simp: quota_rows_wf_def dest!: set_map_put)
  then have "quota_rows_wf (db\<lparr>db_quotas := db_quotas db, db_usage := map_put ?k ?v (db_usage db)\<rparr>)"
    using db_wfD(5) [OF wf] by (simp add: quota_rows_wf_def)
  then show ?thesis
    unfolding d(3) by (rule db_wf_quotas [OF wf]) (use d(1) db_wfD(6) [OF wf] in \<open>auto simp: refs_wf_def dest!: set_map_put\<close>)
qed

lemma db_wf_insert_audit:
  assumes wf: "db_wf db" and "insert_audit sv now e db = Inr db'"
  shows "db_wf db'"
proof -
  obtain meta where d: "db' = db\<lparr>db_audit := db_audit db @ [audit_values (db_audit_seq db) now e meta], db_audit_seq := db_audit_seq db + 1\<rparr>"
    using assms(2) by (auto simp: insert_audit_def split: option.splits)
  show ?thesis
    unfolding d by (rule db_wf_audit [OF wf])
      (use db_wfD(7) [OF wf] in \<open>auto simp: audit_rows_wf_def audit_values_def sorted_wrt_append\<close>)
qed

subsection \<open>Migrations\<close>

lemma backfill_dom: "map_of (backfill_project now n m) x \<noteq> None \<longleftrightarrow> x = n \<or> map_of m x \<noteq> None"
  by (auto simp: backfill_project_def)

lemma fold_backfill_dom: "map_of (fold (backfill_project now) ns m) x \<noteq> None \<longleftrightarrow> x \<in> set ns \<or> map_of m x \<noteq> None"
  by (induction ns arbitrary: m) (auto simp: backfill_dom simp del: not_None_eq)

lemma backfill_wf:
  "map_wf m \<and> (\<forall>p \<in> set m. pr_Name (snd p) = fst p) \<Longrightarrow>
   map_wf (backfill_project now n m) \<and> (\<forall>p \<in> set (backfill_project now n m). pr_Name (snd p) = fst p)"
  by (auto simp: backfill_project_def dest: set_map_put)

lemma fold_backfill_wf:
  "map_wf m \<and> (\<forall>p \<in> set m. pr_Name (snd p) = fst p) \<Longrightarrow>
   map_wf (fold (backfill_project now) ns m) \<and> (\<forall>p \<in> set (fold (backfill_project now) ns m). pr_Name (snd p) = fst p)"
proof (induction ns arbitrary: m)
  case (Cons n ns)
  from Cons.IH [OF backfill_wf [OF Cons.prems]] show ?case by simp
qed simp

lemma migration_names:
  "migration_version ''0001_init.sql'' = Some 1" "migration_version ''0002_tenancy.sql'' = Some 2"
  "has_suffix ''0001_init.sql'' ''.sql''" "has_suffix ''0002_tenancy.sql'' ''.sql''"
  by code_simp+

text \<open>A migrated database is left alone.\<close>

lemma migrate_again:
  assumes "1 \<in> set (db_schema db)" and "2 \<in> set (db_schema db)"
  shows "snd (migrate l fates now db) = db"
proof -
  have "apply_migrations fates now migrationsFS db = (None, db)" using assms by (simp add: migrationsFS_def migration_names)
  then show ?thesis by (simp add: migrate_def exec_stmt_def split: fate.split)
qed

lemma apply_init:
  assumes "apply_migrations fates now ((''0001_init.sql'', init_migration) # ms) db = (None, db')"
  obtains sch where "apply_migrations fates now ms (db\<lparr>db_schema := sch\<rparr>) = (None, db')" "1 \<in> set sch"
    "set sch \<subseteq> insert 1 (set (db_schema db))"
proof (cases "1 \<in> set (db_schema db)")
  case True
  then show ?thesis using assms that [of "db_schema db"] by (simp add: migration_names subset_insertI)
next
  case False
  then have "migration_tx 1 (init_migration now) db = Inr (db\<lparr>db_schema := db_schema db @ [1]\<rparr>)"
    by (simp add: migration_tx_def init_migration_def)
  then show ?thesis
    using assms False that [of "db_schema db @ [1]"]
    by (auto simp: migration_names exec_stmt_def split: fate.splits)
qed

lemma apply_tenancy:
  assumes "apply_migrations fates now [(''0002_tenancy.sql'', tenancy_migration)] db = (None, db')" and "2 \<notin> set (db_schema db)"
  shows "db' = db\<lparr>db_projects := db_projects db', db_schema := db_schema db @ [2]\<rparr>"
    and "db_projects db' = fold (backfill_project now) (map (\<lambda>(_, r). cr_project r) (db_crons db))
      (fold (backfill_project now) (map (\<lambda>(_, r). fr_project r) (db_functions db)) (backfill_project now ''default'' (db_projects db)))"
  using assms by (auto simp: migration_names exec_stmt_def migration_tx_def tenancy_migration_def split: fate.splits)

lemma migrate_wf:
  assumes u: "untenanted db" and m: "migrate l fates now db = (None, db')"
  shows "db_wf db'" and "map_of (db_projects db') ''default'' \<noteq> None"
proof -
  have "apply_migrations fates now migrationsFS db = (None, db')" using m by (simp add: migrate_def exec_stmt_def split: fate.splits)
  then obtain sch where a: "apply_migrations fates now [(''0002_tenancy.sql'', tenancy_migration)] (db\<lparr>db_schema := sch\<rparr>) = (None, db')"
      "1 \<in> set sch" "set sch \<subseteq> insert 1 (set (db_schema db))"
    unfolding migrationsFS_def by (rule apply_init)
  have s: "2 \<notin> set (db_schema (db\<lparr>db_schema := sch\<rparr>))" using u a(3) by (auto simp: untenanted_def)
  note t = apply_tenancy [OF a(1) s]
  have p: "map_wf (db_projects db') \<and> (\<forall>p \<in> set (db_projects db'). pr_Name (snd p) = fst p)"
    unfolding t(2) by (intro fold_backfill_wf backfill_wf) (use u in \<open>simp add: untenanted_def\<close>)
  have d: "map_of (db_projects db') x \<noteq> None \<longleftrightarrow> x = ''default'' \<or> x \<in> fr_project ` snd ` set (db_functions db) \<or> x \<in> cr_project ` snd ` set (db_crons db)" for x
    using u unfolding t(2) fold_backfill_dom backfill_dom by (auto simp: untenanted_def image_iff case_prod_unfold)
  show "map_of (db_projects db') ''default'' \<noteq> None" by (simp only: d simp_thms)
  have "function_rows_wf db'" "cron_rows_wf db'" "key_rows_wf db'" "quota_rows_wf db'" "audit_rows_wf db'"
    using u by (subst t(1), simp add: untenanted_def rows_wf_defs)+
  moreover have "refs_wf db'" unfolding refs_wf_def d using u by (subst (1 2 3 4 5) t(1)) (simp add: untenanted_def)
  moreover have "db_schema db' = sch @ [2]" by (subst t(1)) simp
  ultimately show "db_wf db'" using p a(2) by (simp add: db_wf_def project_rows_wf_def)
qed

subsection \<open>Reachable databases\<close>

lemma lookup_pg_db: "snd (LookupAPIKey_pg l now h db) = (case l of Refused m \<Rightarrow> db | _ \<Rightarrow> snd (touch_key now h db))"
  by (simp add: LookupAPIKey_pg_def exec_stmt_def split: fate.split option.split)

lemma db_step_wf: "db_step sv db db' \<Longrightarrow> db_wf db \<Longrightarrow> db_wf db'"
proof (induction rule: db_step.induct)
  case (put_function db l now d)
  then show ?case unfolding PutFunction_pg_def by (rule exec_inv) (rule functions_after_upsert [OF put_function])
next
  case (delete_function db l name)
  then show ?case unfolding DeleteFunction_pg_def by (rule exec_inv) (rule functions_after_delete [OF delete_function])
next
  case (put_cron db l now j)
  then show ?case unfolding PutCronJob_pg_def by (rule exec_inv) (rule crons_after_upsert [OF put_cron])
next
  case (delete_cron db l jid)
  then show ?case unfolding DeleteCronJob_pg_def by (rule exec_inv) (rule crons_after_delete [OF delete_cron])
next
  case (create_project db l now p)
  then show ?case unfolding CreateProject_pg_def by (rule exec_inv) (rule db_wf_insert_project [OF create_project])
next
  case (delete_project db l name)
  then show ?case unfolding DeleteProject_pg_def by (rule exec_inv) (rule db_wf_delete_project [OF delete_project])
next
  case (create_key db l now k)
  have "db_wf (snd (exec_stmt l (insert_key sv now k) db))" if "ak_Project k \<noteq> ''*''"
    by (rule exec_inv [where P = db_wf, OF create_key]) (rule db_wf_insert_key [OF create_key that])
  then show ?case using create_key by (simp add: CreateAPIKey_pg_def)
next
  case (lookup_key db l now h)
  then show ?case using db_wf_touch [OF lookup_key, of now h] by (simp add: lookup_pg_db split: fate.split)
next
  case (delete_key db l kid)
  then show ?case unfolding DeleteAPIKey_pg_def by (rule exec_inv) (use db_wf_delete_key [OF delete_key] in auto)
next
  case (set_quota db l now project kind v)
  then show ?case unfolding SetQuota_pg_def by (rule exec_inv) (rule db_wf_upsert_quota [OF set_quota])
next
  case (add_usage db l project kind bucket delta)
  have "db_wf (snd (exec_stmt l (upsert_usage project kind (time_truncate bucket Minute) delta) db))"
    by (rule exec_inv [where P = db_wf, OF add_usage]) (rule db_wf_upsert_usage [OF add_usage])
  then show ?case using add_usage by (simp add: AddQuotaUsage_pg_def)
next
  case (append_audit db l now e)
  then show ?case unfolding AppendAudit_pg_def by (rule exec_inv) (rule db_wf_insert_audit [OF append_audit])
next
  case (opened db l fates now)
  then show ?case by (simp add: migrate_again db_wfD(8,9))
qed

lemma db_reachable_wf: "db_reachable sv db \<Longrightarrow> db_wf db"
  by (induction rule: db_reachable.induct) (auto intro: migrate_wf db_step_wf)

subsection \<open>Keys\<close>

lemma lookup_pg_answered:
  assumes "key_rows_wf db"
  shows "LookupAPIKey_pg Answered now h db = (Inr k, db') \<longleftrightarrow>
    (\<exists>kid r. map_of (db_keys db) kid = Some r \<and> kr_token_sha256 r = h \<and> k = scanKey (r\<lparr>kr_last_used_at := Some now\<rparr>) \<and>
       db' = db\<lparr>db_keys := map_put kid (r\<lparr>kr_last_used_at := Some now\<rparr>) (db_keys db)\<rparr>)"
proof (cases "find (\<lambda>(_, r). kr_token_sha256 r = h) (db_keys db)")
  case None
  then have "\<not> (map_of (db_keys db) kid = Some r \<and> kr_token_sha256 r = h)" for kid r using find_token [OF assms, of h kid r] by simp
  then show ?thesis using None by (auto simp: LookupAPIKey_pg_def exec_stmt_def touch_key_def)
next
  case (Some p)
  obtain kid r where p: "p = (kid, r)" by (cases p)
  have u: "map_of (db_keys db) kid' = Some r' \<and> kr_token_sha256 r' = h \<longleftrightarrow> kid' = kid \<and> r' = r" for kid' r'
    using find_token [OF assms, of h kid' r'] Some p by auto
  have "LookupAPIKey_pg Answered now h db = (Inr (scanKey (r\<lparr>kr_last_used_at := Some now\<rparr>)),
      db\<lparr>db_keys := map_put kid (r\<lparr>kr_last_used_at := Some now\<rparr>) (db_keys db)\<rparr>)"
    using Some p by (simp add: LookupAPIKey_pg_def exec_stmt_def touch_key_def Let_def)
  then show ?thesis unfolding conj_assoc [symmetric] u by auto
qed

lemma lookup_pg_missing:
  "(\<forall>p \<in> set (db_keys db). kr_token_sha256 (snd p) \<noteq> h) \<Longrightarrow> LookupAPIKey_pg Answered now h db = (Inl NoRows, db)"
  by (simp add: LookupAPIKey_pg_def exec_stmt_def touch_key_def find_token_None [THEN iffD2])

text \<open>A key just created is found by its token, with its project and its scopes.\<close>

lemma create_then_lookup_pg:
  assumes wf: "db_wf db" and laws: "jsonb_laws sv" and scopes: "list_all utf8_valid (ak_Scopes k)"
    and c: "CreateAPIKey_pg sv l now k db = (None, db')"
  shows "fst (LookupAPIKey_pg Answered now' (ak_TokenSHA256 k) db') = Inr (k\<lparr>ak_CreatedAt := now, ak_LastUsedAt := Some now'\<rparr>)"
proof -
  have ins: "ak_Project k \<noteq> ''*''" "insert_key sv now k db = Inr db'"
    using c by (auto simp: CreateAPIKey_pg_def dest: exec_None split: if_splits)
  obtain s where s: "sv_jsonb sv (marshal_strings (ak_Scopes k)) = Some s" "map_of (db_keys db) (ak_ID k) = None"
      "db' = db\<lparr>db_keys := db_keys db @ [(ak_ID k, key_values now k s)]\<rparr>"
    using ins(2) by (rule insert_keyD)
  have wf': "key_rows_wf db'" by (rule db_wfD(4) [OF db_wf_insert_key [OF wf ins]])
  have row: "map_of (db_keys db') (ak_ID k) = Some (key_values now k s)" using s(2) by (simp add: s(3) map_add_def)
  have "s \<noteq> []" "fst (unmarshal_strings s) = ak_Scopes k"
    using laws s(1) strings_roundtrip [OF scopes] by (auto simp: jsonb_laws_def)
  then have "scanKey ((key_values now k s)\<lparr>kr_last_used_at := Some now'\<rparr>) = k\<lparr>ak_CreatedAt := now, ak_LastUsedAt := Some now'\<rparr>"
    by (simp add: scanKey_def key_values_def)
  then have "LookupAPIKey_pg Answered now' (ak_TokenSHA256 k) db' = (Inr (k\<lparr>ak_CreatedAt := now, ak_LastUsedAt := Some now'\<rparr>),
      db'\<lparr>db_keys := map_put (ak_ID k) ((key_values now k s)\<lparr>kr_last_used_at := Some now'\<rparr>) (db_keys db')\<rparr>)"
    unfolding lookup_pg_answered [OF wf'] using row by (intro exI [of _ "ak_ID k"] exI [of _ "key_values now k s"]) simp
  then show ?thesis by simp
qed

subsection \<open>Properties\<close>

text \<open>
  (C30) Every database that any interleaving of statements by any replicas reaches from a migrated one,
  whatever becomes of each statement, is consistent: every function, cron job, API key, quota and usage
  row belongs to a project that exists, tokens and ids are unique, no key belongs to the reserved
  project, usage buckets are minutes within the int64 range, and audit ids grow.
\<close>

theorem pg_integrity:
  assumes "db_reachable sv db"
  shows "db_wf db"
  using assms by (rule db_reachable_wf)

theorem pg_integrity_witness: "db_wf demo_keyed_db \<and> length (db_keys demo_keyed_db) = 1"
proof -
  have u: "untenanted empty_db" and f: "fst (migrate Answered (\<lambda>_. Answered) 3 empty_db) = None" by code_simp+
  have "migrate Answered (\<lambda>_. Answered) 3 empty_db = (None, demo_db)" unfolding demo_db_def using f by (metis prod.collapse)
  from db_reachable.migrated [OF u this] have "db_reachable demo_server demo_db" .
  from db_reachable.step [OF db_reachable.step [OF this db_step.create_project] db_step.create_key]
  have "db_reachable demo_server demo_keyed_db" unfolding demo_keyed_db_def .
  moreover have "length (db_keys demo_keyed_db) = 1" by code_simp
  ultimately show ?thesis using pg_integrity by blast
qed

text \<open>
  (C31) Deleting a project that exists is refused, without effect, while it has a function or a cron job;
  otherwise the project, its keys, its limits and its usage are gone, so that no token finds a key of it,
  and everything that belongs to other projects is as before.
\<close>

theorem pg_delete_project:
  assumes wf: "db_wf db" and "map_of (db_projects db) name \<noteq> None"
    and del: "DeleteProject_pg Answered name db = (e, db')"
  shows "if (\<exists>p \<in> set (db_functions db). fr_project (snd p) = name) \<or> (\<exists>p \<in> set (db_crons db). cr_project (snd p) = name)
    then e = Some ForeignKeyViolation \<and> db' = db
    else e = None \<and> GetProject_pg Answered db' name = Inl NoRows \<and>
      (\<forall>now h k db''. LookupAPIKey_pg Answered now h db' = (Inr k, db'') \<longrightarrow> ak_Project k \<noteq> name) \<and>
      (\<forall>kind since. GetQuota_pg Answered db' name kind = Inr 0 \<and> GetQuotaUsage_pg Answered db' name kind since = Inr 0) \<and>
      (\<forall>p. p \<noteq> name \<longrightarrow> map_of (db_projects db') p = map_of (db_projects db) p \<and>
         filter (\<lambda>k. kr_project (snd k) = p) (db_keys db') = filter (\<lambda>k. kr_project (snd k) = p) (db_keys db) \<and>
         (\<forall>kind since. GetQuota_pg Answered db' p kind = GetQuota_pg Answered db p kind \<and>
            GetQuotaUsage_pg Answered db' p kind since = GetQuotaUsage_pg Answered db p kind since)) \<and>
      db_functions db' = db_functions db \<and> db_crons db' = db_crons db \<and> db_audit db' = db_audit db"
proof (cases "(\<exists>p \<in> set (db_functions db). fr_project (snd p) = name) \<or> (\<exists>p \<in> set (db_crons db). cr_project (snd p) = name)")
  case True
  then have "delete_project_row name db = Inl ForeignKeyViolation"
    using assms(2) by (auto simp: delete_project_row_def list_ex_iff case_prod_unfold)
  then show ?thesis using True del by (simp add: DeleteProject_pg_def exec_stmt_def)
next
  case False
  let ?db = "db\<lparr>db_projects := map_del name (db_projects db), db_keys := filter (\<lambda>(_, k). kr_project k \<noteq> name) (db_keys db),
    db_quotas := filter (\<lambda>(pk, _). fst pk \<noteq> name) (db_quotas db), db_usage := filter (\<lambda>(pk, _). fst pk \<noteq> name) (db_usage db)\<rparr>"
  have d: "delete_project_row name db = Inr ?db"
    using False assms(2) by (auto simp: delete_project_row_def list_ex_iff case_prod_unfold)
  then have r: "e = None" "db' = ?db" using del by (simp_all add: DeleteProject_pg_def exec_stmt_def)
  have wf': "key_rows_wf db'" using db_wfD(4) [OF db_wf_delete_project [OF wf d]] r by simp
  have "ak_Project k \<noteq> name" if found: "LookupAPIKey_pg Answered now h db' = (Inr k, db'')" for now h k db''
  proof -
    obtain kid row where row: "map_of (db_keys db') kid = Some row" "k = scanKey (row\<lparr>kr_last_used_at := Some now\<rparr>)"
      using found unfolding lookup_pg_answered [OF wf'] by blast
    from map_of_SomeD [OF row(1)] show ?thesis by (simp add: r(2) row(2) scanKey_def)
  qed
  moreover have "map_of (db_quotas db') (p, kind) = (if p = name then None else map_of (db_quotas db) (p, kind))" for p kind
    using db_wfD(5) [OF wf] by (simp add: r(2) quota_rows_wf_def map_of_filter split: option.split)
  moreover have "filter (\<lambda>((p, k, b), _). p = q \<and> k = kind \<and> since \<le> b) (db_usage db') =
      (if q = name then [] else filter (\<lambda>((p, k, b), _). p = q \<and> k = kind \<and> since \<le> b) (db_usage db))" for q kind since
    by (auto simp: r(2) filter_empty_conv intro!: filter_cong)
  moreover have "filter (\<lambda>k. kr_project (snd k) = p) (db_keys db') = filter (\<lambda>k. kr_project (snd k) = p) (db_keys db)" if "p \<noteq> name" for p
    using that by (auto simp: r(2) intro!: filter_cong)
  ultimately show ?thesis
    using False r by (simp add: GetProject_pg_def GetQuota_pg_def GetQuotaUsage_pg_def Let_def run_query_def)
qed

theorem pg_delete_project_witness:
  "DeleteProject_pg Answered ''acme'' demo_keyed_db = (None, snd (DeleteProject_pg Answered ''acme'' demo_keyed_db)) \<and>
   GetProject_pg Answered (snd (DeleteProject_pg Answered ''acme'' demo_keyed_db)) ''acme'' = Inl NoRows \<and>
   length (db_keys demo_keyed_db) = 1 \<and> db_keys (snd (DeleteProject_pg Answered ''acme'' demo_keyed_db)) = []"
proof -
  have h: "db_wf demo_keyed_db" "map_of (db_projects demo_keyed_db) ''acme'' \<noteq> None" "db_functions demo_keyed_db = []" "db_crons demo_keyed_db = []"
    "length (db_keys demo_keyed_db) = 1" "db_keys (snd (DeleteProject_pg Answered ''acme'' demo_keyed_db)) = []"
    by code_simp+
  have c: "DeleteProject_pg Answered ''acme'' demo_keyed_db =
      (fst (DeleteProject_pg Answered ''acme'' demo_keyed_db), snd (DeleteProject_pg Answered ''acme'' demo_keyed_db))" by simp
  note r = pg_delete_project [OF h(1,2) c]
  then have "fst (DeleteProject_pg Answered ''acme'' demo_keyed_db) = None"
    "GetProject_pg Answered (snd (DeleteProject_pg Answered ''acme'' demo_keyed_db)) ''acme'' = Inl NoRows"
    unfolding h(3,4) by (simp_all only: list.set bex_empty simp_thms if_False)
  then show ?thesis using h(5,6) by (metis prod.collapse)
qed

end
