(* ===== verification/Paths.thy ===== *)
theory Paths
  imports Prelude "HOL-Library.Sublist"
begin

text \<open>
  File paths and the file tree of the host, as the layer store, the layer resolver and the builder
  use them: \<open>filepath.Clean\<close>, \<open>Join\<close>, \<open>IsAbs\<close> and \<open>Dir\<close> of Go's standard library on Unix, and the
  calls of package \<open>os\<close> on a tree of directories and regular files. A path of the tree is the list
  of its components from the root. The tree has no symbolic links: the program refuses to create
  them, and links on the way to its directories are outside the model. The predicate \<open>hs_denied\<close>
  gives the paths at which the operating system refuses a change, for permissions or space.
\<close>

section \<open>Definitions\<close>

subsection \<open>Package filepath\<close>

text \<open>One component of a path, read after the reversed list of components so far.\<close>

definition clean_step :: "bool \<Rightarrow> string \<Rightarrow> string list \<Rightarrow> string list" where
  "clean_step rooted c out =
     (if c = '''' \<or> c = ''.'' then out
      else if c = ''..'' then
        (case out of
           [] \<Rightarrow> if rooted then [] else [''..'']
         | x # xs \<Rightarrow> if \<not> rooted \<and> x = ''..'' then ''..'' # out else xs)
      else c # out)"

definition IsAbs :: "string \<Rightarrow> bool" where
  "IsAbs p \<longleftrightarrow> has_prefix p ''/''"

definition clean_parts :: "string \<Rightarrow> string list" where
  "clean_parts p = rev (fold (clean_step (IsAbs p)) (split_on CHR ''/'' p) [])"

definition Clean :: "string \<Rightarrow> string" where
  "Clean p =
     (if IsAbs p then CHR ''/'' # join_with ''/'' (clean_parts p)
      else if clean_parts p = [] then ''.''
      else join_with ''/'' (clean_parts p))"

fun Join :: "string list \<Rightarrow> string" where
  "Join [] = ''''"
| "Join (e # es) = (if e = '''' then Join es else Clean (join_with ''/'' (e # es)))"

definition Dir_of :: "string \<Rightarrow> string" where
  "Dir_of p = Clean (case last_index p CHR ''/'' of None \<Rightarrow> '''' | Some i \<Rightarrow> take (Suc i) p)"

subsection \<open>The file tree\<close>

datatype node = Directory | Regular nat string

record host =
  hs_tree :: "(string list, node) gomap"
  hs_cwd :: "string list"
  hs_tmp :: string
  hs_denied :: "string list \<Rightarrow> bool"

datatype os_error = NotExist | NotDirectory | NotEmpty | Exists | InvalidPath | Denied

text \<open>The components a path leads to: from the root, or from the working directory.\<close>

definition walk :: "string list \<Rightarrow> string \<Rightarrow> string list" where
  "walk cwd p = rev (fold (clean_step True) (split_on CHR ''/'' p) (if IsAbs p then [] else rev cwd))"

abbreviation path_of :: "host \<Rightarrow> string \<Rightarrow> string list" where
  "path_of h p \<equiv> walk (hs_cwd h) p"

abbreviation node_at :: "host \<Rightarrow> string list \<rightharpoonup> node" where
  "node_at h \<equiv> map_of (hs_tree h)"

definition Stat :: "host \<Rightarrow> string \<Rightarrow> bool" where
  "Stat h p \<longleftrightarrow> node_at h (path_of h p) \<noteq> None"

definition put_node :: "string list \<Rightarrow> node \<Rightarrow> host \<Rightarrow> host" where
  "put_node q n h = h\<lparr>hs_tree := map_put q n (hs_tree h)\<rparr>"

fun mkdirs :: "string list \<Rightarrow> string list \<Rightarrow> host \<Rightarrow> os_error option \<times> host" where
  "mkdirs d [] h = (None, h)"
| "mkdirs d (c # cs) h =
     (let p = d @ [c]
      in case node_at h p of
           Some Directory \<Rightarrow> mkdirs p cs h
         | Some (Regular m b) \<Rightarrow> (Some NotDirectory, h)
         | None \<Rightarrow> if hs_denied h p then (Some Denied, h) else mkdirs p cs (put_node p Directory h))"

definition MkdirAll :: "string \<Rightarrow> host \<Rightarrow> os_error option \<times> host" where
  "MkdirAll p h = mkdirs [] (path_of h p) h"

definition has_entries :: "host \<Rightarrow> string list \<Rightarrow> bool" where
  "has_entries h q \<longleftrightarrow> list_ex (\<lambda>(r, n). strict_prefix q r) (hs_tree h)"

text \<open>\<open>os.Remove\<close>: a file, or a directory without entries.\<close>

definition Remove :: "string \<Rightarrow> host \<Rightarrow> os_error option \<times> host" where
  "Remove p h =
     (let q = path_of h p
      in case node_at h q of
           None \<Rightarrow> (Some NotExist, h)
         | Some n \<Rightarrow>
             if n = Directory \<and> has_entries h q then (Some NotEmpty, h)
             else if q = [] \<or> hs_denied h q then (Some Denied, h)
             else (None, h\<lparr>hs_tree := map_del q (hs_tree h)\<rparr>))"

definition RemoveAll :: "string \<Rightarrow> host \<Rightarrow> host" where
  "RemoveAll p h = h\<lparr>hs_tree := filter (\<lambda>(q, n). \<not> prefix (path_of h p) q) (hs_tree h)\<rparr>"

text \<open>
  \<open>os.OpenFile\<close> with \<open>O_CREATE\<close>, \<open>O_WRONLY\<close> and \<open>O_TRUNC\<close>, the writing of \<open>b\<close> and the closing.
\<close>

definition write_file :: "string \<Rightarrow> nat \<Rightarrow> string \<Rightarrow> host \<Rightarrow> os_error option \<times> host" where
  "write_file p mode b h =
     (let q = path_of h p
      in if hs_denied h q then (Some Denied, h)
         else case node_at h q of
           Some Directory \<Rightarrow> (Some InvalidPath, h)
         | Some (Regular m b') \<Rightarrow> (None, put_node q (Regular m b) h)
         | None \<Rightarrow>
             if q = [] \<or> node_at h (butlast q) \<noteq> Some Directory then (Some NotExist, h)
             else (None, put_node q (Regular mode b) h))"

text \<open>
  \<open>os.Rename\<close>: the subtree moves; a directory replaces only a directory without entries, a file
  only a file.
\<close>

definition moved :: "string list \<Rightarrow> string list \<Rightarrow> (string list, node) gomap \<Rightarrow> (string list, node) gomap" where
  "moved a b t =
     map (\<lambda>(q, n). (if prefix a q then b @ drop (length a) q else q, n)) (filter (\<lambda>(q, n). \<not> prefix b q) t)"

definition Rename :: "string \<Rightarrow> string \<Rightarrow> host \<Rightarrow> os_error option \<times> host" where
  "Rename p p' h =
     (let a = path_of h p; b = path_of h p'; h' = h\<lparr>hs_tree := moved a b (hs_tree h)\<rparr>
      in case node_at h a of
           None \<Rightarrow> (Some NotExist, h)
         | Some n \<Rightarrow>
             if hs_denied h a \<or> hs_denied h b then (Some Denied, h)
             else if a = b then (None, h)
             else if prefix a b then (Some InvalidPath, h)
             else if b = [] \<or> node_at h (butlast b) \<noteq> Some Directory then (Some NotExist, h)
             else case node_at h b of
               None \<Rightarrow> (None, h')
             | Some Directory \<Rightarrow>
                 if n \<noteq> Directory then (Some Exists, h)
                 else if has_entries h b then (Some NotEmpty, h)
                 else (None, h')
             | Some (Regular m x) \<Rightarrow>
                 if n = Directory then (Some NotDirectory, h) else (None, h'))"

text \<open>
  \<open>os.MkdirTemp\<close> with the name \<open>base\<close> its pattern becomes; the library tries random names until one
  is unused.
\<close>

definition temp_path :: "string \<Rightarrow> string \<Rightarrow> string \<Rightarrow> string" where
  "temp_path tmp dir base =
     (let d = (if dir = '''' then tmp else dir)
      in if has_suffix d ''/'' then d @ base else d @ ''/'' @ base)"

definition MkdirTemp :: "string \<Rightarrow> string \<Rightarrow> host \<Rightarrow> (os_error + string) \<times> host" where
  "MkdirTemp dir base h =
     (let p = temp_path (hs_tmp h) dir base; q = path_of h p
      in if node_at h q \<noteq> None then (Inl Exists, h)
         else if q = [] \<or> node_at h (butlast q) \<noteq> Some Directory then (Inl NotExist, h)
         else if hs_denied h q then (Inl Denied, h)
         else (Inr p, put_node q Directory h))"

text \<open>Every node other than the root stands in a directory.\<close>

definition host_wf :: "host \<Rightarrow> bool" where
  "host_wf h \<longleftrightarrow> map_wf (hs_tree h) \<and> node_at h [] = Some Directory \<and>
     (\<forall>q c. node_at h (q @ [c]) \<noteq> None \<longrightarrow> node_at h q = Some Directory)"

definition room :: "string list \<Rightarrow> host \<Rightarrow> bool" where
  "room p h \<longleftrightarrow> host_wf h \<and> p \<noteq> [] \<and> node_at h (butlast p) = Some Directory"

abbreviation proper :: "string \<Rightarrow> bool" where
  "proper c \<equiv> c \<noteq> '''' \<and> c \<noteq> ''.'' \<and> c \<noteq> ''..''"

text \<open>Two hosts that differ in their trees only, and there only below a path.\<close>

definition same_host :: "host \<Rightarrow> host \<Rightarrow> bool" where
  "same_host h h' \<longleftrightarrow> hs_cwd h' = hs_cwd h \<and> hs_tmp h' = hs_tmp h \<and> hs_denied h' = hs_denied h"

definition differ_below :: "string list \<Rightarrow> host \<Rightarrow> host \<Rightarrow> bool" where
  "differ_below p h h' \<longleftrightarrow> same_host h h' \<and> (\<forall>q. \<not> prefix p q \<longrightarrow> node_at h' q = node_at h q)"

text \<open>A change that keeps the tree well formed and concerns it below \<open>p\<close> only.\<close>

definition stays :: "string list \<Rightarrow> host \<Rightarrow> host \<Rightarrow> bool" where
  "stays p h h' \<longleftrightarrow> host_wf h' \<and> differ_below p h h'"

definition dirs_made :: "string list \<Rightarrow> string list \<Rightarrow> host \<Rightarrow> host \<Rightarrow> bool" where
  "dirs_made d p h h' \<longleftrightarrow> host_wf h' \<and> same_host h h' \<and>
     (\<forall>q. node_at h' q = node_at h q \<or>
        strict_prefix d q \<and> prefix q p \<and> node_at h q = None \<and> node_at h' q = Some Directory)"

definition renamed :: "string list \<Rightarrow> string list \<Rightarrow> host \<Rightarrow> host \<Rightarrow> bool" where
  "renamed a b h h' \<longleftrightarrow> host_wf h' \<and> same_host h h' \<and>
     (\<forall>q. node_at h' q = (if prefix b q then node_at h (a @ drop (length b) q) else if prefix a q then None else node_at h q))"

section \<open>Lemmas\<close>

subsection \<open>Clean paths\<close>

lemma step_proper [simp]: "proper c \<Longrightarrow> clean_step r c out = c # out"
  by (simp add: clean_step_def)

lemma step_dot [simp]: "clean_step r '''' out = out" "clean_step r ''.'' out = out"
  by (simp_all add: clean_step_def)

lemma fold_proper: "list_all proper cs \<Longrightarrow> fold (clean_step r) cs out = rev cs @ out"
  by (induction cs arbitrary: out) auto

lemma fold_no_dots:
  "''..'' \<notin> set cs \<Longrightarrow> fold (clean_step r) cs out = rev (filter proper cs) @ out"
  by (induction cs arbitrary: out) (auto simp: clean_step_def)

text \<open>Cleaning keeps where the components lead.\<close>

lemma nav_clean:
  assumes "''''\<notin> set out" "''.'' \<notin> set out" "r \<longrightarrow> s = [] \<and> ''..'' \<notin> set out"
  shows "fold (clean_step True) (rev (fold (clean_step r) cs out)) s =
    fold (clean_step True) cs (fold (clean_step True) (rev out) s)"
  using assms
proof (induction cs arbitrary: out)
  case (Cons c cs)
  have "fold (clean_step True) (rev (clean_step r c out)) s = clean_step True c (fold (clean_step True) (rev out) s)"
    using Cons.prems by (cases out) (auto simp: clean_step_def)
  moreover have "'''' \<notin> set (clean_step r c out)" "''.'' \<notin> set (clean_step r c out)"
    "r \<longrightarrow> ''..'' \<notin> set (clean_step r c out)"
    using Cons.prems by (auto simp: clean_step_def split: if_splits list.splits)
  ultimately show ?case using Cons.IH [of "clean_step r c out"] Cons.prems(3) by simp
qed simp

lemma clean_parts_slash: "c \<in> set (clean_parts p) \<Longrightarrow> CHR ''/'' \<notin> set c"
proof -
  have "set (clean_step r c out) \<subseteq> insert c (set out)" for r c out
    by (auto simp: clean_step_def split: list.splits)
  then have "set (fold (clean_step r) cs out) \<subseteq> set cs \<union> set out" for r cs out
    by (induction cs arbitrary: out) fastforce+
  then have "set (clean_parts p) \<subseteq> set (split_on CHR ''/'' p)" by (fastforce simp: clean_parts_def)
  then show "c \<in> set (clean_parts p) \<Longrightarrow> CHR ''/'' \<notin> set c" using split_on_no_sep by blast
qed

lemma clean_parts_step: "'''' \<notin> set (clean_parts p)" "''.'' \<notin> set (clean_parts p)"
proof -
  have step: "'''' \<notin> set out \<and> ''.'' \<notin> set out \<Longrightarrow>
      '''' \<notin> set (clean_step r c out) \<and> ''.'' \<notin> set (clean_step r c out)" for r c out
    by (auto simp: clean_step_def split: list.split)
  have "'''' \<notin> set out \<and> ''.'' \<notin> set out \<Longrightarrow>
      '''' \<notin> set (fold (clean_step r) cs out) \<and> ''.'' \<notin> set (fold (clean_step r) cs out)" for r cs out
  proof (induction cs arbitrary: out)
    case (Cons c cs)
    then show ?case using step [of out r c] by simp
  qed simp
  from this [of "[]"] show "'''' \<notin> set (clean_parts p)" "''.'' \<notin> set (clean_parts p)"
    by (simp_all add: clean_parts_def)
qed

lemma split_join_path: "cs \<noteq> [] \<Longrightarrow> (\<And>c. c \<in> set cs \<Longrightarrow> CHR ''/'' \<notin> set c) \<Longrightarrow> split_on CHR ''/'' (join_with ''/'' cs) = cs"
  using split_join [of cs "CHR ''/''"] by simp

lemma join_abs:
  assumes "cs \<noteq> []" "''''\<notin> set cs" "\<And>c. c \<in> set cs \<Longrightarrow> CHR ''/'' \<notin> set c"
  shows "\<not> IsAbs (join_with ''/'' cs)"
proof -
  obtain c ds where cs: "cs = c # ds" using assms(1) by (cases cs) auto
  moreover obtain x c' where "c = x # c'" using assms(2) cs by (cases c) auto
  ultimately show ?thesis using assms(3) [of c] by (cases ds) (auto simp: IsAbs_def has_prefix_iff)
qed

lemma Clean_split:
  "IsAbs (Clean p) = IsAbs p"
  "fold (clean_step r) (split_on CHR ''/'' (Clean p)) s = fold (clean_step r) (clean_parts p) s"
proof -
  let ?cs = "clean_parts p"
  have "IsAbs (Clean p) = IsAbs p \<and>
    fold (clean_step r) (split_on CHR ''/'' (Clean p)) s = fold (clean_step r) ?cs s"
  proof (cases "?cs = []")
    case True
    then show ?thesis by (auto simp: Clean_def IsAbs_def has_prefix_def)
  next
    case False
    note sp = split_join_path [OF False clean_parts_slash] and ab = join_abs [OF False clean_parts_step(1) clean_parts_slash]
    show ?thesis
    proof (cases "IsAbs p")
      case True
      then show ?thesis using False sp by (simp add: Clean_def) (simp add: IsAbs_def has_prefix_def)
    next
      case F: False
      then show ?thesis using False sp ab by (simp add: Clean_def)
    qed
  qed
  then show "IsAbs (Clean p) = IsAbs p"
    "fold (clean_step r) (split_on CHR ''/'' (Clean p)) s = fold (clean_step r) ?cs s" by auto
qed

lemma walk_Clean [simp]: "walk cwd (Clean p) = walk cwd p"
  using nav_clean [of "[]" "IsAbs p" "if IsAbs p then [] else rev cwd" "split_on CHR ''/'' p"]
  by (simp add: walk_def Clean_split clean_parts_def)

lemma split_on_split: "split_on c (a @ c # b) = split_on c a @ split_on c b"
proof (induction a)
  case (Cons x a)
  then show ?case by (cases "split_on c a") (auto split: list.splits)
qed simp

lemma IsAbs_append [simp]: "a \<noteq> '''' \<Longrightarrow> IsAbs (a @ b) = IsAbs a"
  by (cases a) (auto simp: IsAbs_def has_prefix_def)

lemma walk_append: "a \<noteq> '''' \<Longrightarrow>
    walk cwd (a @ CHR ''/'' # b) = rev (fold (clean_step True) (split_on CHR ''/'' b) (rev (walk cwd a)))"
  using split_on_split [of "CHR ''/''" a b] by (simp add: walk_def)

lemma walk_below: "a \<noteq> '''' \<Longrightarrow> ''..'' \<notin> set (split_on CHR ''/'' b) \<Longrightarrow>
    walk cwd (a @ CHR ''/'' # b) = walk cwd a @ filter proper (split_on CHR ''/'' b)"
  by (simp add: walk_append fold_no_dots)

lemma walk_Join: "a \<noteq> '''' \<Longrightarrow> walk cwd (Join [a, b]) = walk cwd (a @ CHR ''/'' # b)"
  by simp

lemma proper_split: "CHR ''/'' \<notin> set c \<Longrightarrow> proper c \<Longrightarrow> filter proper (split_on CHR ''/'' c) = [c]"
  by (simp add: split_on_atom)

lemma last_component:
  "\<exists>a b. p = a @ b \<and> CHR ''/'' \<notin> set b \<and> Dir_of p = Clean a \<and>
     (a = '''' \<or> (\<exists>d. a = d @ ''/'')) \<and> b = last (split_on CHR ''/'' p)"
proof (cases "last_index p CHR ''/''")
  case None
  then have "CHR ''/'' \<notin> set p" by simp
  then show ?thesis
    by (intro exI [of _ "''''"] exI [of _ p]) (simp add: Dir_of_def None split_on_atom del: last_index_None)
next
  case (Some i)
  define q where "q = take i p"
  define b where "b = drop (Suc i) p"
  have i: "i < length p" "p ! i = CHR ''/''" and b: "CHR ''/'' \<notin> set b"
    using last_index_SomeD [OF Some] by (simp_all add: b_def) (metis nth_append_length length_take min.absorb4)
  have p: "p = q @ CHR ''/'' # b" using id_take_nth_drop [OF i(1)] i(2) by (simp add: q_def b_def)
  have t: "take (Suc i) p = q @ ''/''" using i by (simp add: take_Suc_conv_app_nth q_def)
  show ?thesis using b
    by (intro exI [of _ "q @ ''/''"] exI [of _ b]) (simp add: Dir_of_def Some t, simp add: p split_on_split split_on_atom)
qed

lemma walk_Dir:
  assumes "proper (last (split_on CHR ''/'' p))"
  shows "walk cwd (Dir_of p) = butlast (walk cwd p) \<and> walk cwd p \<noteq> []"
proof -
  obtain a b where p: "p = a @ b" "CHR ''/'' \<notin> set b" "Dir_of p = Clean a" "a = '''' \<or> (\<exists>d. a = d @ ''/'')"
    "b = last (split_on CHR ''/'' p)" using last_component [of p] by metis
  have b: "proper b" using p(5) assms by simp
  have "walk cwd p = walk cwd a @ [b]"
  proof (cases "a = ''''")
    case True
    moreover have "\<not> IsAbs b" using p(2) b by (cases b) (auto simp: IsAbs_def has_prefix_def)
    moreover have "walk cwd a = cwd" using True by (simp add: walk_def IsAbs_def has_prefix_def)
    ultimately show ?thesis using p(1,2) b True by (simp add: walk_def split_on_atom)
  next
    case False
    then obtain d where d: "a = d @ ''/''" using p(4) by auto
    have "split_on CHR ''/'' p = split_on CHR ''/'' d @ [b]" "split_on CHR ''/'' a = split_on CHR ''/'' d @ ['''']"
      using split_on_split [of "CHR ''/''" d b] split_on_split [of "CHR ''/''" d "''''"] p(1,2) d by (simp_all add: split_on_atom)
    moreover have "IsAbs p = IsAbs a" using p(1) False by simp
    ultimately show ?thesis using b by (simp add: walk_def)
  qed
  then show ?thesis using p(3) by simp
qed

subsection \<open>The file tree\<close>

lemma put_node_frame [simp]:
  "hs_cwd (put_node q n h) = hs_cwd h" "hs_tmp (put_node q n h) = hs_tmp h" "hs_denied (put_node q n h) = hs_denied h"
  "node_at (put_node q n h) = (node_at h)(q \<mapsto> n)"
  by (simp_all add: put_node_def)

lemma same_host_refl [simp]: "same_host h h"
  by (simp add: same_host_def)

lemma differ_refl [simp]: "differ_below p h h"
  by (simp add: differ_below_def)

lemma differ_trans: "differ_below p h h' \<Longrightarrow> differ_below p h' h'' \<Longrightarrow> differ_below p h h''"
  by (simp add: differ_below_def same_host_def)

lemma differ_mono: "differ_below (p @ q) h h' \<Longrightarrow> differ_below p h h'"
  by (auto simp: differ_below_def prefix_def)

lemma differ_put: "prefix p q \<Longrightarrow> differ_below p h (put_node q n h)"
  by (auto simp: differ_below_def same_host_def)

lemma host_parent: "host_wf h \<Longrightarrow> node_at h (q @ [c]) = Some n \<Longrightarrow> node_at h q = Some Directory"
  unfolding host_wf_def by blast

lemma host_wf_put:
  assumes "host_wf h" "q \<noteq> []" "node_at h (butlast q) = Some Directory" "n = Directory \<or> node_at h q \<noteq> Some Directory"
  shows "host_wf (put_node q n h)"
  unfolding host_wf_def
proof (intro conjI allI impI)
  show "map_wf (hs_tree (put_node q n h))" "node_at (put_node q n h) [] = Some Directory"
    using assms(1,2) by (simp_all add: host_wf_def put_node_def)
next
  fix r c assume r: "node_at (put_node q n h) (r @ [c]) \<noteq> None"
  show "node_at (put_node q n h) r = Some Directory"
  proof (cases "r @ [c] = q")
    case True
    then show ?thesis using assms(3) by auto
  next
    case False
    then have "node_at h r = Some Directory" using r host_parent [OF assms(1), of r c] by auto
    then show ?thesis using assms(4) by auto
  qed
qed

lemma node_ancestor: "host_wf h \<Longrightarrow> node_at h (q @ r) \<noteq> None \<Longrightarrow> r \<noteq> [] \<Longrightarrow> node_at h q = Some Directory"
proof (induction r rule: rev_induct)
  case (snoc c r)
  then have "node_at h (q @ r) = Some Directory" unfolding host_wf_def by (metis append_assoc)
  then show ?case using snoc by (cases "r = []") auto
qed simp

lemma no_node_below: "host_wf h \<Longrightarrow> node_at h q = None \<Longrightarrow> prefix q r \<Longrightarrow> node_at h r = None"
  using node_ancestor by (fastforce simp: prefix_def)

lemma dirs_made_step:
  assumes "dirs_made (d @ [c]) p (put_node (d @ [c]) Directory h) h'" "node_at h (d @ [c]) = None" "prefix (d @ [c]) p"
  shows "dirs_made d p h h'"
proof -
  have "node_at h' q = node_at h q \<or> strict_prefix d q \<and> prefix q p \<and> node_at h q = None \<and> node_at h' q = Some Directory" for q
  proof (cases "q = d @ [c]")
    case True
    then have "node_at h' q = Some Directory"
      using assms(1) unfolding dirs_made_def by (metis fun_upd_same put_node_frame(4))
    then show ?thesis using True assms(2,3) by (simp add: strict_prefix_def)
  next
    case False
    then have "node_at h' q = node_at h q \<or>
        strict_prefix (d @ [c]) q \<and> prefix q p \<and> node_at h q = None \<and> node_at h' q = Some Directory"
      using assms(1) unfolding dirs_made_def by (metis fun_upd_other put_node_frame(4))
    moreover have "strict_prefix (d @ [c]) q \<Longrightarrow> strict_prefix d q" by (auto simp: strict_prefix_def prefix_def)
    ultimately show ?thesis by blast
  qed
  then show ?thesis using assms(1) by (simp add: dirs_made_def same_host_def)
qed

lemma mkdirs_facts:
  assumes "mkdirs d cs h = (e, h')" "host_wf h" "node_at h d = Some Directory"
  shows "dirs_made d (d @ cs) h h' \<and> (e = None \<longrightarrow> node_at h' (d @ cs) = Some Directory)"
  using assms
proof (induction d cs h arbitrary: h' rule: mkdirs.induct)
  case (2 d c cs h)
  let ?p = "d @ [c]"
  show ?case
  proof (cases "node_at h ?p")
    case None
    show ?thesis
    proof (cases "hs_denied h ?p")
      case False
      let ?h = "put_node ?p Directory h"
      have "mkdirs ?p cs ?h = (e, h')" using 2(3) None False by (simp add: Let_def)
      moreover have "host_wf ?h" using 2(4,5) None by (intro host_wf_put) auto
      ultimately show ?thesis using 2(1) [OF refl None False] dirs_made_step [OF _ None] by simp
    qed (use 2 None in \<open>auto simp: dirs_made_def\<close>)
  next
    case (Some n)
    then show ?thesis
    proof (cases n)
      case Directory
      then have "mkdirs ?p cs h = (e, h')" using 2(3) Some by (simp add: Let_def)
      then have *: "dirs_made ?p (d @ c # cs) h h' \<and> (e = None \<longrightarrow> node_at h' (d @ c # cs) = Some Directory)"
        using 2(2) [OF refl Some Directory] 2(4) Some Directory by simp
      then show ?thesis unfolding dirs_made_def by (metis append_prefixD prefixI prefix_order.le_less_trans)
    qed (use 2 Some in \<open>auto simp: dirs_made_def\<close>)
  qed
qed (auto simp: dirs_made_def)

lemma MkdirAll_facts:
  assumes "MkdirAll p h = (e, h')" "host_wf h"
  shows "dirs_made [] (path_of h p) h h'" "e = None \<Longrightarrow> node_at h' (path_of h p) = Some Directory"
  using mkdirs_facts [of "[]" "path_of h p" h e h'] assms by (auto simp: MkdirAll_def host_wf_def)

lemma has_entries_iff: "has_entries h q \<longleftrightarrow> (\<exists>r. strict_prefix q r \<and> node_at h r \<noteq> None)"
proof -
  have "has_entries h q \<longleftrightarrow> (\<exists>r \<in> fst ` set (hs_tree h). strict_prefix q r)"
    by (force simp: has_entries_def list_ex_iff)
  then show ?thesis unfolding dom_map_of_conv_image_fst [symmetric] by auto
qed

lemma host_wf_del:
  assumes "host_wf h" "q \<noteq> []" "\<And>r. strict_prefix q r \<Longrightarrow> node_at h r = None"
  shows "host_wf (h\<lparr>hs_tree := map_del q (hs_tree h)\<rparr>)"
  unfolding host_wf_def
proof (intro conjI allI impI)
  fix r c assume r: "node_at (h\<lparr>hs_tree := map_del q (hs_tree h)\<rparr>) (r @ [c]) \<noteq> None"
  then have "node_at h r = Some Directory" using host_parent [OF assms(1), of r c] by (auto split: if_splits)
  moreover have "r \<noteq> q" using assms(3) [of "q @ [c]"] r by (auto simp: strict_prefix_def split: if_splits)
  ultimately show "node_at (h\<lparr>hs_tree := map_del q (hs_tree h)\<rparr>) r = Some Directory" by simp
qed (use assms in \<open>auto simp: host_wf_def\<close>)

lemma Remove_facts:
  assumes "Remove p h = (e, h')" "host_wf h"
  shows "host_wf h'" "same_host h h'"
    "node_at h' = (if e = None then (node_at h)(path_of h p := None) else node_at h)"
proof -
  let ?q = "path_of h p"
  show "same_host h h'" "node_at h' = (if e = None then (node_at h)(?q := None) else node_at h)"
    using assms(1) by (auto simp: Remove_def Let_def same_host_def split: option.splits if_splits)
  show "host_wf h'"
  proof (cases "e = None")
    case True
    then obtain n where n: "node_at h ?q = Some n" "\<not> (n = Directory \<and> has_entries h ?q)" "?q \<noteq> []"
      "h' = h\<lparr>hs_tree := map_del ?q (hs_tree h)\<rparr>"
      using assms(1) by (auto simp: Remove_def Let_def split: option.splits if_splits)
    have "node_at h r = None" if sp: "strict_prefix ?q r" for r
    proof (cases "n = Directory")
      case True
      then show ?thesis using n(2) sp has_entries_iff [of h ?q] by auto
    next
      case False
      obtain x where "r = ?q @ x" "x \<noteq> []" using sp by (auto simp: strict_prefix_def prefix_def)
      then show ?thesis using node_ancestor [OF assms(2), of ?q x] n(1) False by (cases "node_at h r") auto
    qed
    then show ?thesis using host_wf_del [OF assms(2) n(3)] n(4) by blast
  next
    case False
    then show ?thesis using assms by (auto simp: Remove_def Let_def split: option.splits if_splits)
  qed
qed

lemma RemoveAll_facts:
  "node_at (RemoveAll p h) q = (if prefix (path_of h p) q then None else node_at h q)"
  "same_host h (RemoveAll p h)"
proof -
  have "map_of (filter (\<lambda>(q, n). P q) t) q = (if P q then map_of t q else None)" for P :: "string list \<Rightarrow> bool" and t :: "(string list, node) gomap"
    by (induction t) auto
  from this [of "\<lambda>q. \<not> prefix (path_of h p) q" "hs_tree h"]
  show "node_at (RemoveAll p h) q = (if prefix (path_of h p) q then None else node_at h q)" by (simp add: RemoveAll_def)
qed (simp add: RemoveAll_def same_host_def)

lemma RemoveAll_wf:
  assumes "host_wf h" "path_of h p \<noteq> []"
  shows "host_wf (RemoveAll p h)"
  unfolding host_wf_def
proof (intro conjI allI impI)
  show "map_wf (hs_tree (RemoveAll p h))"
    using assms(1) by (auto simp: host_wf_def RemoveAll_def distinct_map_filter)
next
  fix r c assume r: "node_at (RemoveAll p h) (r @ [c]) \<noteq> None"
  then show "node_at (RemoveAll p h) r = Some Directory"
    using host_parent [OF assms(1), of r c] by (auto simp: RemoveAll_facts split: if_splits)
qed (use assms in \<open>auto simp: host_wf_def RemoveAll_facts\<close>)

lemma write_file_facts:
  assumes "write_file p m b h = (e, h')" "host_wf h"
  shows "host_wf h'" "same_host h h'" "e \<noteq> None \<Longrightarrow> h' = h"
    "e = None \<Longrightarrow> \<exists>m'. node_at h' = (node_at h)(path_of h p \<mapsto> Regular m' b) \<and> (node_at h (path_of h p) = None \<longrightarrow> m' = m)"
proof -
  have root: "path_of h p \<noteq> []" if "node_at h (path_of h p) = Some (Regular m' b')" for m' b'
    using that assms(2) by (auto simp: host_wf_def)
  have parent: "node_at h (butlast (path_of h p)) = Some Directory" if "node_at h (path_of h p) = Some (Regular m' b')" for m' b'
    using host_parent [OF assms(2), of "butlast (path_of h p)" "last (path_of h p)"] that root [OF that] by simp
  show "host_wf h'" using assms host_wf_put [OF assms(2)] root parent
    by (fastforce simp: write_file_def Let_def split: if_splits option.splits node.splits)
  show "same_host h h'" "e \<noteq> None \<Longrightarrow> h' = h"
    using assms by (auto simp: write_file_def Let_def same_host_def split: if_splits option.splits node.splits)
  show "e = None \<Longrightarrow> \<exists>m'. node_at h' = (node_at h)(path_of h p \<mapsto> Regular m' b) \<and> (node_at h (path_of h p) = None \<longrightarrow> m' = m)"
    using assms by (auto simp: write_file_def Let_def split: if_splits option.splits node.splits)
qed

lemma map_of_moved:
  assumes "\<not> prefix a b" "\<not> prefix b a"
  shows "map_of (moved a b t) q =
    (if prefix b q then map_of t (a @ drop (length b) q) else if prefix a q then None else map_of t q)"
proof (induction t)
  case (Cons e t)
  obtain k n where e: "e = (k, n)" by (cases e)
  have inc: "\<not> (prefix a x \<and> prefix b x)" for x using assms prefix_same_cases by blast
  show ?case
  proof (cases "prefix b k")
    case True
    then have "k \<noteq> a @ x" for x using inc [of k] by (auto simp: prefix_def)
    then show ?thesis using Cons e True by (auto simp: moved_def) metis
  next
    case False
    then show ?thesis using Cons e inc [of q] assms
      by (auto simp: moved_def prefix_def)
  qed
qed (simp add: moved_def)

lemma map_wf_moved:
  assumes "map_wf t" "\<not> prefix a b" "\<not> prefix b a"
  shows "map_wf (moved a b t)"
proof -
  let ?f = "\<lambda>q. if prefix a q then b @ drop (length a) q else q"
  let ?t = "filter (\<lambda>(q, n). \<not> prefix b q) t"
  have "inj_on ?f (set (map fst ?t))"
    by (rule inj_onI) (auto simp: prefix_def split: if_splits)
  moreover have "distinct (map fst ?t)" using assms(1) by (simp add: distinct_map_filter)
  ultimately have "distinct (map ?f (map fst ?t))" unfolding distinct_map [of ?f] by blast
  moreover have "map fst (moved a b t) = map ?f (map fst ?t)" by (auto simp: moved_def)
  ultimately show ?thesis by (simp only:)
qed

lemma host_wf_moved:
  assumes wf: "host_wf h" and b: "b \<noteq> []" "node_at h (butlast b) = Some Directory" and inc: "\<not> prefix a b" "\<not> prefix b a"
  shows "renamed a b h (h\<lparr>hs_tree := moved a b (hs_tree h)\<rparr>)"
proof -
  let ?h = "h\<lparr>hs_tree := moved a b (hs_tree h)\<rparr>"
  note at = map_of_moved [OF inc, of "hs_tree h"]
  have parent: "node_at ?h r = Some Directory" if r: "node_at ?h (r @ [c]) \<noteq> None" for r c
  proof (cases "r @ [c] = b")
    case True
    then have "\<not> prefix a r" "\<not> prefix b r" using inc(1) prefix_order.trans [of a r b] by (auto simp: prefix_def)
    then show ?thesis using True b(2) by (auto simp: at)
  next
    case False
    then have "prefix b (r @ [c]) \<longleftrightarrow> prefix b r" by auto
    then show ?thesis using r host_parent [OF wf, of "a @ drop (length b) r" c] host_parent [OF wf, of r c]
      by (auto simp: at prefix_length_le split: if_splits)
  qed
  have "a \<noteq> []" using inc(1) by auto
  then have "node_at ?h [] = Some Directory" using wf b(1) by (simp add: at host_wf_def)
  moreover have "map_wf (hs_tree ?h)" using wf map_wf_moved [OF _ inc, of "hs_tree h"] by (simp add: host_wf_def)
  ultimately have "host_wf ?h" unfolding host_wf_def using parent by blast
  then show ?thesis using at by (simp add: renamed_def same_host_def)
qed

lemma Rename_facts:
  assumes "Rename p p' h = (e, h')" "host_wf h"
  shows "e \<noteq> None \<Longrightarrow> h' = h"
    "e = None \<Longrightarrow> path_of h p \<noteq> path_of h p' \<Longrightarrow> renamed (path_of h p) (path_of h p') h h'"
    "e = None \<Longrightarrow> path_of h p = path_of h p' \<Longrightarrow> h' = h"
proof -
  let ?a = "path_of h p" and ?b = "path_of h p'"
  show "e \<noteq> None \<Longrightarrow> h' = h" "e = None \<Longrightarrow> ?a = ?b \<Longrightarrow> h' = h"
    using assms(1) by (auto simp: Rename_def Let_def split: option.splits if_splits node.splits)
  assume e: "e = None" "?a \<noteq> ?b"
  then have f: "node_at h ?a \<noteq> None" "\<not> prefix ?a ?b" "?b \<noteq> []" "node_at h (butlast ?b) = Some Directory"
    "h' = h\<lparr>hs_tree := moved ?a ?b (hs_tree h)\<rparr>" "\<not> has_entries h ?b \<or> (\<exists>m x. node_at h ?b = Some (Regular m x)) \<or> node_at h ?b = None"
    using assms(1) by (auto simp: Rename_def Let_def split: option.splits if_splits node.splits)
  have "\<not> prefix ?b ?a"
  proof
    assume pre: "prefix ?b ?a"
    then obtain r where "?a = ?b @ r" "r \<noteq> []" using e(2) by (auto simp: prefix_def)
    then have "node_at h ?b = Some Directory" using node_ancestor [OF assms(2)] f(1) by metis
    moreover have "has_entries h ?b" using pre e(2) f(1) unfolding has_entries_iff strict_prefix_def by metis
    ultimately show False using f(6) by simp
  qed
  then show "renamed ?a ?b h h'" using host_wf_moved [OF assms(2) f(3,4,2)] f(5) by simp
qed

lemma MkdirTemp_facts:
  assumes "MkdirTemp d base h = (r, h')" "host_wf h"
  shows "(case r of
      Inl e \<Rightarrow> h' = h
    | Inr p \<Rightarrow> p = temp_path (hs_tmp h) d base \<and> h' = put_node (path_of h p) Directory h \<and> host_wf h' \<and>
        path_of h p \<noteq> [] \<and> node_at h (path_of h p) = None \<and> node_at h (butlast (path_of h p)) = Some Directory \<and>
        \<not> hs_denied h (path_of h p))"
  using assms host_wf_put [OF assms(2)] by (auto simp: MkdirTemp_def Let_def split: if_splits)

subsection \<open>Changes below a path\<close>

lemma room_above: "room p h \<Longrightarrow> prefix q t \<Longrightarrow> prefix p t \<Longrightarrow> \<not> prefix p q \<Longrightarrow> node_at h q = Some Directory"
proof -
  assume r: "room p h" and "prefix q t" "prefix p t" "\<not> prefix p q"
  then have "strict_prefix q p" using prefix_same_cases by (auto simp: strict_prefix_def)
  then obtain zs where "p = q @ zs" "zs \<noteq> []" by (auto simp: strict_prefix_def prefix_def)
  then obtain s where "butlast p = q @ s" by (auto simp: butlast_append)
  then show "node_at h q = Some Directory"
    using r node_ancestor [of h q s] by (cases "s = []") (auto simp: room_def)
qed

lemma differ_room: "room p h \<Longrightarrow> differ_below p h h' \<Longrightarrow> host_wf h' \<Longrightarrow> room p h'"
proof -
  assume "room p h" "differ_below p h h'" "host_wf h'"
  moreover have "\<not> prefix p (butlast p)" if "p \<noteq> []" using that prefix_length_le [of p "butlast p"] by (cases p) auto
  ultimately show "room p h'" by (auto simp: room_def differ_below_def)
qed

lemma stays_refl: "room p h \<Longrightarrow> stays p h h"
  by (simp add: stays_def room_def)

lemma stays_trans: "stays p h h' \<Longrightarrow> stays p h' h'' \<Longrightarrow> stays p h h''"
  by (auto simp: stays_def intro: differ_trans)

lemma stays_room: "room p h \<Longrightarrow> stays p h h' \<Longrightarrow> room p h'"
  by (auto simp: stays_def intro: differ_room)

lemma stays_path: "stays p h h' \<Longrightarrow> path_of h' t = path_of h t"
  by (simp add: stays_def differ_below_def same_host_def)

lemma MkdirAll_stays:
  assumes "MkdirAll t h = (e, h')" "room p h" "prefix p (path_of h t) \<or> path_of h t = butlast p"
  shows "stays p h h'" "node_at h p \<noteq> None \<Longrightarrow> node_at h' p \<noteq> None"
    "e = None \<Longrightarrow> node_at h' (path_of h t) = Some Directory"
proof -
  have wf: "host_wf h" using assms(2) by (simp add: room_def)
  note m = MkdirAll_facts [OF assms(1) wf]
  have "node_at h' q = node_at h q" if q: "\<not> prefix p q" for q
  proof (rule ccontr)
    assume "node_at h' q \<noteq> node_at h q"
    then have d: "prefix q (path_of h t)" "node_at h q = None" using m(1) by (auto simp: dirs_made_def)
    have "prefix q p" if "path_of h t = butlast p" using d(1) that by (metis prefix_order.trans prefixeq_butlast)
    then show False using room_above [OF assms(2), of q "path_of h t"] room_above [OF assms(2), of q p] d q assms(3) by auto
  qed
  then show "stays p h h'" using m(1) by (auto simp: stays_def dirs_made_def differ_below_def)
  show "node_at h p \<noteq> None \<Longrightarrow> node_at h' p \<noteq> None" using m(1) unfolding dirs_made_def by (metis option.distinct(1))
  show "e = None \<Longrightarrow> node_at h' (path_of h t) = Some Directory" by (rule m(2))
qed

lemma Remove_stays:
  assumes "Remove t h = (e, h')" "room p h" "prefix p (path_of h t)"
  shows "stays p h h'" "e \<noteq> None \<Longrightarrow> h' = h" "e = None \<Longrightarrow> node_at h' = (node_at h)(path_of h t := None)"
proof -
  have wf: "host_wf h" using assms(2) by (simp add: room_def)
  note m = Remove_facts [OF assms(1) wf]
  show "e \<noteq> None \<Longrightarrow> h' = h"
    using assms(1) by (auto simp: Remove_def Let_def split: option.splits if_splits)
  show "e = None \<Longrightarrow> node_at h' = (node_at h)(path_of h t := None)" using m(3) by simp
  show "stays p h h'" using m assms(3) by (auto simp: stays_def differ_below_def)
qed

lemma write_file_stays:
  assumes "write_file t m b h = (e, h')" "room p h" "prefix p (path_of h t)"
  shows "stays p h h'" "e = None \<Longrightarrow> \<exists>m'. node_at h' = (node_at h)(path_of h t \<mapsto> Regular m' b) \<and> (node_at h (path_of h t) = None \<longrightarrow> m' = m)"
proof -
  have wf: "host_wf h" using assms(2) by (simp add: room_def)
  note m = write_file_facts [OF assms(1) wf]
  show "e = None \<Longrightarrow> \<exists>m'. node_at h' = (node_at h)(path_of h t \<mapsto> Regular m' b) \<and> (node_at h (path_of h t) = None \<longrightarrow> m' = m)"
    by (rule m(4))
  show "stays p h h'"
  proof (cases "e = None")
    case True
    then show ?thesis using m(1,2,4) assms(3) by (auto simp: stays_def differ_below_def)
  next
    case False
    then show ?thesis using m(3) stays_refl [OF assms(2)] by simp
  qed
qed

end
