(* ===== verification/Dashboard.thy ===== *)
theory Dashboard
  imports Gateway_Serving Paths
begin

text \<open>
  The operator's side of the gateway: the log capture (\<open>internal/dashboard/log_handler.go\<close>), the
  dashboard's routes and admin API (\<open>dashboard.go\<close>, \<open>admin.go\<close>, \<open>ws.go\<close>), and from
  \<open>cmd/gateway/main.go\<close> the token check in front of them, the adapters to the gateway and the client
  of the build service. The state of a handler is the gateway and the list of specifications sent to
  the build service. The JSON decoder, the embedded files, the answers the HTTP multiplexer gives by
  itself, the build service and the clock are arguments.
\<close>

section \<open>Definitions\<close>

subsection \<open>Log capture\<close>

record LogEvent =
  le_Time :: time
  le_Level :: string
  le_Message :: string
  le_Attrs :: "(string, string) gomap"

record log_chan =
  lc_buf :: "LogEvent list"
  lc_closed :: bool

text \<open>The channels subscribers hold live in a heap, \<open>cc_subs\<close> has those still subscribed.\<close>

record captureCore =
  cc_cap :: nat
  cc_ring :: "LogEvent list"
  cc_subs :: "nat list"
  cc_chans :: "(nat, log_chan) gomap"
  cc_next :: nat

definition sub_capacity :: nat where
  "sub_capacity = 64"

definition log_offer :: "LogEvent \<Rightarrow> log_chan \<Rightarrow> log_chan" where
  "log_offer ev ch = (if length (lc_buf ch) < sub_capacity then ch\<lparr>lc_buf := lc_buf ch @ [ev]\<rparr> else ch)"

definition log_send :: "LogEvent \<Rightarrow> nat \<Rightarrow> (nat, log_chan) gomap \<Rightarrow> (nat, log_chan) gomap" where
  "log_send ev c h = (case map_of h c of None \<Rightarrow> h | Some ch \<Rightarrow> map_put c (log_offer ev ch) h)"

definition push :: "LogEvent \<Rightarrow> captureCore \<Rightarrow> captureCore" where
  "push ev c =
     (let ring = cc_ring c;
          c = (if length ring < cc_cap c then c\<lparr>cc_ring := ring @ [ev]\<rparr>
               else c\<lparr>cc_ring := (tl ring @ [last ring])[length ring - 1 := ev]\<rparr>)
      in c\<lparr>cc_chans := fold (log_send ev) (cc_subs c) (cc_chans c)\<rparr>)"

definition NewLogCapture :: "int \<Rightarrow> captureCore" where
  "NewLogCapture capacity =
     \<lparr>cc_cap = nat (if capacity \<le> 0 then 500 else capacity), cc_ring = [], cc_subs = [], cc_chans = [], cc_next = 0\<rparr>"

text \<open>A record of the logger, with the attributes of the call.\<close>

record log_record =
  lr_Time :: time
  lr_Level :: string
  lr_Message :: string
  lr_Attrs :: "(string \<times> string) list"

definition captured :: "log_record \<Rightarrow> LogEvent" where
  "captured r = \<lparr>le_Time = lr_Time r, le_Level = lr_Level r, le_Message = lr_Message r,
     le_Attrs = fold (\<lambda>(k, v). map_put k v) (lr_Attrs r) []\<rparr>"

text \<open>
  A handler made by \<open>WithAttrs\<close> shares the core and hands its attributes to the downstream handler,
  which is represented by the attributes it has been given.
\<close>

record LogCapture =
  lg_downstream :: "(string \<times> string) list"

definition WithAttrs :: "(string \<times> string) list \<Rightarrow> LogCapture \<Rightarrow> LogCapture" where
  "WithAttrs attrs l = \<lparr>lg_downstream = lg_downstream l @ attrs\<rparr>"

definition Handle_log :: "LogCapture \<Rightarrow> log_record \<Rightarrow> captureCore \<Rightarrow> captureCore \<times> (string \<times> string) list" where
  "Handle_log l r c = (push (captured r) c, lg_downstream l @ lr_Attrs r)"

definition Snapshot :: "captureCore \<Rightarrow> LogEvent list" where
  "Snapshot c = cc_ring c"

definition Subscribe :: "captureCore \<Rightarrow> nat \<times> captureCore" where
  "Subscribe c =
     (let i = cc_next c
      in (i, c\<lparr>cc_subs := cc_subs c @ [i], cc_chans := map_put i \<lparr>lc_buf = [], lc_closed = False\<rparr> (cc_chans c), cc_next := Suc i\<rparr>))"

text \<open>Closing a channel twice panics: \<open>None\<close>.\<close>

definition unsubscribe :: "nat \<Rightarrow> captureCore \<Rightarrow> captureCore option" where
  "unsubscribe i c =
     (let c = c\<lparr>cc_subs := filter (\<lambda>j. j \<noteq> i) (cc_subs c)\<rparr>
      in case map_of (cc_chans c) i of
           None \<Rightarrow> None
         | Some ch \<Rightarrow> if lc_closed ch then None else Some (c\<lparr>cc_chans := map_put i (ch\<lparr>lc_closed := True\<rparr>) (cc_chans c)\<rparr>))"

definition log_recv :: "nat \<Rightarrow> captureCore \<Rightarrow> (LogEvent \<times> captureCore) option" where
  "log_recv i c =
     (case map_of (cc_chans c) i of
        None \<Rightarrow> None
      | Some ch \<Rightarrow>
          (case lc_buf ch of
             [] \<Rightarrow> None
           | ev # evs \<Rightarrow> Some (ev, c\<lparr>cc_chans := map_put i (ch\<lparr>lc_buf := evs\<rparr>) (cc_chans c)\<rparr>)))"

subsection \<open>WebSocket\<close>

record AcceptOptions =
  ao_InsecureSkipVerify :: bool
  ao_OriginPatterns :: "string list"

definition accept_options :: "string list \<Rightarrow> AcceptOptions" where
  "accept_options origins =
     (if list_ex (\<lambda>x. x = ''*'') origins then \<lparr>ao_InsecureSkipVerify = True, ao_OriginPatterns = []\<rparr>
      else \<lparr>ao_InsecureSkipVerify = False, ao_OriginPatterns = origins\<rparr>)"

datatype 's wsMessage = WsHello "LogEvent list" | WsState 's | WsLog LogEvent

datatype 's ws_turn = CtxDone | LogArrived LogEvent | LogClosed | StateTick 's | PingTick bool

text \<open>The loop of a connection: what it writes, while \<open>ok\<close> tells for each message whether the write succeeds.\<close>

fun ws_loop :: "('s wsMessage \<Rightarrow> bool) \<Rightarrow> 's ws_turn list \<Rightarrow> 's wsMessage list" where
  "ws_loop ok [] = []"
| "ws_loop ok (CtxDone # ts) = []"
| "ws_loop ok (LogClosed # ts) = []"
| "ws_loop ok (LogArrived ev # ts) = WsLog ev # (if ok (WsLog ev) then ws_loop ok ts else [])"
| "ws_loop ok (StateTick s # ts) = WsState s # (if ok (WsState s) then ws_loop ok ts else [])"
| "ws_loop ok (PingTick p # ts) = (if p then ws_loop ok ts else [])"

definition serveWS :: "('s wsMessage \<Rightarrow> bool) \<Rightarrow> captureCore \<Rightarrow> 's \<Rightarrow> 's ws_turn list \<Rightarrow> 's wsMessage list" where
  "serveWS ok c stats ts =
     (let hello = WsHello (Snapshot c); state = WsState stats
      in if \<not> ok hello then [hello]
         else if \<not> ok state then [hello, state]
         else hello # state # ws_loop ok ts)"

subsection \<open>Admin API\<close>

record RegisterLayerRef =
  rl_Name :: string
  rl_HostPath :: string
  rl_MountPath :: string
  rl_Digest :: string

record RegisterRequest =
  rr_Name :: string
  rr_Binary :: string
  rr_Env :: "string list"
  rr_Layers :: "RegisterLayerRef list"
  rr_MaxConcurrency :: int
  rr_Project :: string

definition MaxConcurrencyCeiling :: int where "MaxConcurrencyCeiling = 256"
definition MaxAdminBody :: nat where "MaxAdminBody = 256 * 1024"
definition MaxBuildSpecBody :: nat where "MaxBuildSpecBody = 4 * 1024 * 1024"

record admin_state =
  as_gw :: Gateway
  as_builds :: "string list"

text \<open>
  What a handler meets: \<open>db_decode\<close> reads one request from the first bytes of a body, and is told
  whether the body goes on; \<open>db_build\<close> is the answer of the layer builder.
\<close>

record dash_env =
  db_now1 :: time
  db_now2 :: time
  db_decode :: "string \<Rightarrow> bool \<Rightarrow> string + RegisterRequest"
  db_build :: "string \<Rightarrow> string + string"
  db_index :: "string option"
  db_static :: "Request \<Rightarrow> HttpResponse"
  db_ws :: "Request \<Rightarrow> HttpResponse"
  db_stats :: "Gateway \<Rightarrow> string"

record dash_Handler =
  dh_prefix :: string
  dh_admin :: bool
  dh_builder :: bool
  dh_allowedOrigins :: "string list"

definition NewWithConfig :: "string \<Rightarrow> bool \<Rightarrow> bool \<Rightarrow> string list \<Rightarrow> dash_Handler" where
  "NewWithConfig pre admin builder origins =
     \<lparr>dh_prefix = (if pre = '''' \<or> \<not> has_suffix pre ''/'' then ''/_/'' else pre),
      dh_admin = admin, dh_builder = builder, dh_allowedOrigins = origins\<rparr>"

definition method_not_allowed :: "string \<Rightarrow> HttpResponse" where
  "method_not_allowed allow = http_error [(''Allow'', allow)] ''method not allowed'' 405"

text \<open>The adapters of \<open>cmd/gateway\<close>.\<close>

definition register_def_of :: "RegisterRequest \<Rightarrow> FunctionDef" where
  "register_def_of req =
     \<lparr>fd_Name = rr_Name req, fd_Binary = rr_Binary req, fd_Env = rr_Env req,
      fd_Layers = map (\<lambda>l. \<lparr>gl_Name = rl_Name l, gl_HostPath = rl_HostPath l, gl_MountPath = rl_MountPath l, gl_Digest = rl_Digest l\<rparr>) (rr_Layers req),
      fd_MaxConcurrency = rr_MaxConcurrency req, fd_Project = rr_Project req\<rparr>"

definition RegisterFunction :: "dash_env \<Rightarrow> RegisterRequest \<Rightarrow> Gateway \<Rightarrow> register_error option \<times> Gateway" where
  "RegisterFunction env req g = RegisterDef (db_now1 env) (db_now2 env) (register_def_of req) g"

definition UnregisterFunction :: "dash_env \<Rightarrow> string \<Rightarrow> Gateway \<Rightarrow> bool \<times> Gateway" where
  "UnregisterFunction env name g = Unregister (db_now1 env) name g"

text \<open>The checks of a decoded request, in order.\<close>

definition check_request :: "RegisterRequest \<Rightarrow> string option" where
  "check_request req =
     (if rr_Name req = '''' then Some ''name required''
      else if rr_Binary req = '''' then Some ''binary required''
      else if \<not> IsAbs (rr_Binary req) then Some ''binary must be an absolute path''
      else if Clean (rr_Binary req) \<noteq> rr_Binary req then Some ''binary must be a clean path (no .. or //)''
      else if rr_MaxConcurrency req < 0 then Some ''max_concurrency must be >= 0''
      else if MaxConcurrencyCeiling < rr_MaxConcurrency req then Some ''max_concurrency exceeds ceiling''
      else None)"

definition serveFunctions :: "dash_env \<Rightarrow> dash_Handler \<Rightarrow> admin_state handler_fn" where
  "serveFunctions env h r s =
     (if \<not> dh_admin h then (http_error [] ''admin API disabled'' 404, s)
      else if rq_Method r \<noteq> ''POST'' then (method_not_allowed ''POST'', s)
      else case db_decode env (take MaxAdminBody (rq_Body r)) (MaxAdminBody < length (rq_Body r)) of
             Inl err \<Rightarrow> (http_error [] (''invalid JSON: '' @ err) 400, s)
           | Inr req \<Rightarrow>
               (let req = req\<lparr>rr_Name := trim_space (rr_Name req), rr_Binary := trim_space (rr_Binary req)\<rparr>
                in case check_request req of
                     Some msg \<Rightarrow> (http_error [] msg 400, s)
                   | None \<Rightarrow>
                       (case RegisterFunction env req (as_gw s) of
                          (Some e, g) \<Rightarrow> (http_error [] ''gateway: invalid function name (allowed: [A-Za-z0-9_.-], 1-64)'' 400, s\<lparr>as_gw := g\<rparr>)
                        | (None, g) \<Rightarrow>
                            (\<lparr>hr_Status = 201, hr_Header = [],
                              hr_Body = encode_string_map [(''name'', rr_Name req), (''endpoint'', ''/fn/'' @ rr_Name req)] @ [CHR 0x0A]\<rparr>,
                             s\<lparr>as_gw := g\<rparr>))))"

definition serveLayerBuild :: "dash_env \<Rightarrow> dash_Handler \<Rightarrow> admin_state handler_fn" where
  "serveLayerBuild env h r s =
     (if \<not> dh_builder h then (http_error [] ''builder not configured'' 404, s)
      else if rq_Method r \<noteq> ''POST'' then (method_not_allowed ''POST'', s)
      else if MaxBuildSpecBody < length (rq_Body r) then (http_error [] ''request body too large or unreadable'' 413, s)
      else let s = s\<lparr>as_builds := as_builds s @ [rq_Body r]\<rparr>
           in case db_build env (rq_Body r) of
                Inl err \<Rightarrow> (http_error [] err 502, s)
              | Inr resp \<Rightarrow> (\<lparr>hr_Status = 200, hr_Header = [(''Content-Type'', ''application/json'')], hr_Body = resp\<rparr>, s))"

definition serveFunction :: "dash_env \<Rightarrow> dash_Handler \<Rightarrow> string \<Rightarrow> admin_state handler_fn" where
  "serveFunction env h name r s =
     (if \<not> dh_admin h then (http_error [] ''admin API disabled'' 404, s)
      else if rq_Method r = ''DELETE'' then
        (case UnregisterFunction env name (as_gw s) of
           (False, g) \<Rightarrow> (http_error [] ''not found'' 404, s\<lparr>as_gw := g\<rparr>)
         | (True, g) \<Rightarrow> (\<lparr>hr_Status = 204, hr_Header = [], hr_Body = []\<rparr>, s\<lparr>as_gw := g\<rparr>))
      else (method_not_allowed ''DELETE'', s))"

definition serveIndex :: "dash_env \<Rightarrow> HttpResponse" where
  "serveIndex env =
     (case db_index env of
        None \<Rightarrow> http_error [] (''dashboard bundle missing '' @ [CHR 0xE2, CHR 0x80, CHR 0x94] @ '' run '' @ [CHR 0x60] @ ''make dashboard'' @ [CHR 0x60]) 500
      | Some b \<Rightarrow> \<lparr>hr_Status = 200, hr_Header = [(''Content-Type'', ''text/html; charset=utf-8''), (''Cache-Control'', ''no-cache'')], hr_Body = b\<rparr>)"

definition ServeHTTP_dash :: "dash_env \<Rightarrow> dash_Handler \<Rightarrow> admin_state handler_fn" where
  "ServeHTTP_dash env h r s =
     (let rest = trim_prefix (rq_Path r) (dh_prefix h)
      in if rest = '''' \<or> rest = ''index.html'' then (serveIndex env, s)
         else if rest = ''ws'' then (db_ws env r, s)
         else if rest = ''api/state'' then
           (\<lparr>hr_Status = 200, hr_Header = [(''Content-Type'', ''application/json'')], hr_Body = db_stats env (as_gw s)\<rparr>, s)
         else if rest = ''api/functions'' then serveFunctions env h r s
         else if has_prefix rest ''api/functions/'' then serveFunction env h (trim_prefix rest ''api/functions/'') r s
         else if rest = ''api/layers/build'' then serveLayerBuild env h r s
         else (db_static env r, s))"

subsection \<open>The admin port\<close>

text \<open>The multiplexer answers some requests itself, with redirections or \<open>404\<close>, and hands on the others.\<close>

definition adminMux :: "(Request \<Rightarrow> HttpResponse option) \<Rightarrow> 's handler_fn \<Rightarrow> 's handler_fn" where
  "adminMux own dash r s = (case own r of Some resp \<Rightarrow> (resp, s) | None \<Rightarrow> dash r s)"

definition dashboardAuthSplit :: "string \<Rightarrow> string \<Rightarrow> 's handler_fn \<Rightarrow> 's handler_fn" where
  "dashboardAuthSplit pre token handle =
     (let authed = TokenAuth token handle
      in if token = '''' then handle
         else (\<lambda>r s.
           let p = rq_Path r; apiPrefix = pre @ ''api/''; wsPath = pre @ ''ws''
           in if has_prefix p apiPrefix \<or> p = wsPath \<or> \<not> has_prefix p pre then authed r s else handle r s))"

definition admin_handler :: "dash_env \<Rightarrow> (Request \<Rightarrow> HttpResponse option) \<Rightarrow> string \<Rightarrow> string \<Rightarrow> bool \<Rightarrow> string list \<Rightarrow> admin_state handler_fn" where
  "admin_handler env own dashPrefix token builder origins =
     dashboardAuthSplit dashPrefix token
       (if dashPrefix = '''' then adminMux own (\<lambda>r s. (not_found, s))
        else adminMux own (ServeHTTP_dash env (NewWithConfig dashPrefix True builder origins)))"

text \<open>The check before the start: \<open>Some 2\<close> is the exit code. Whether an address is a loopback one is an argument.\<close>

definition admin_guard :: "(string \<Rightarrow> bool) \<Rightarrow> string \<Rightarrow> string \<Rightarrow> nat option" where
  "admin_guard isLoopback adminAddr token = (if \<not> isLoopback adminAddr \<and> token = '''' then Some 2 else None)"

text \<open>\<open>strings.Index\<close> of a text.\<close>

fun find_sub :: "string \<Rightarrow> string \<Rightarrow> nat option" where
  "find_sub sub [] = (if sub = [] then Some 0 else None)"
| "find_sub sub (c # s) = (if has_prefix (c # s) sub then Some 0 else map_option Suc (find_sub sub s))"

definition redactDSN :: "string \<Rightarrow> string" where
  "redactDSN dsn =
     (case last_index dsn CHR ''@'' of
        None \<Rightarrow> dsn
      | Some at \<Rightarrow>
          (case find_sub ''://'' dsn of
             None \<Rightarrow> dsn
           | Some scheme \<Rightarrow> take (scheme + 3) dsn @ ''***'' @ drop at dsn))"

text \<open>What happens around one subscription: events are pushed, and taken from its channel.\<close>

datatype log_step = Pushed LogEvent | Taken

fun log_steps :: "nat \<Rightarrow> log_step list \<Rightarrow> captureCore \<Rightarrow> LogEvent list \<times> captureCore" where
  "log_steps i [] c = ([], c)"
| "log_steps i (Pushed ev # ss) c = log_steps i ss (push ev c)"
| "log_steps i (Taken # ss) c =
     (case log_recv i c of
        None \<Rightarrow> log_steps i ss c
      | Some (ev, c) \<Rightarrow> (let (evs, c) = log_steps i ss c in (ev # evs, c)))"

fun pushed_of :: "log_step list \<Rightarrow> LogEvent list" where
  "pushed_of [] = []"
| "pushed_of (Pushed ev # ss) = ev # pushed_of ss"
| "pushed_of (Taken # ss) = pushed_of ss"

definition chan_buf :: "captureCore \<Rightarrow> nat \<Rightarrow> LogEvent list" where
  "chan_buf c i = (case map_of (cc_chans c) i of None \<Rightarrow> [] | Some ch \<Rightarrow> lc_buf ch)"

definition def_ok :: "string \<Rightarrow> FunctionDef \<Rightarrow> bool" where
  "def_ok n d \<longleftrightarrow> fd_Name d = n \<and> IsValidFunctionName n \<and> IsAbs (fd_Binary d) \<and> ''..'' \<notin> set (split_on CHR ''/'' (fd_Binary d)) \<and>
     1 \<le> fd_MaxConcurrency d \<and> fd_MaxConcurrency d \<le> 256 \<and> fd_Project d \<noteq> ''''"

definition registry_ok :: "Gateway \<Rightarrow> bool" where
  "registry_ok g \<longleftrightarrow> (\<forall>n d. map_of (gw_functions g) n = Some d \<longrightarrow> def_ok n d)"

definition demo_reg :: RegisterRequest where
  "demo_reg = \<lparr>rr_Name = '' new '', rr_Binary = ''/bin/new'', rr_Env = [], rr_Layers = [], rr_MaxConcurrency = 0, rr_Project = ''''\<rparr>"

definition demo_dash :: dash_env where
  "demo_dash = \<lparr>db_now1 = 1, db_now2 = 2, db_decode = (\<lambda>b more. Inr demo_reg), db_build = (\<lambda>b. Inr b), db_index = None,
     db_static = (\<lambda>r. not_found), db_ws = (\<lambda>r. not_found), db_stats = (\<lambda>g. ''{}'')\<rparr>"

definition demo_admin :: admin_state where
  "demo_admin = \<lparr>as_gw = NewWithOptions NewInMemStore 0 0, as_builds = []\<rparr>"

definition demo_post :: "string \<Rightarrow> string list \<Rightarrow> Request" where
  "demo_post path auth = \<lparr>rq_Method = ''POST'', rq_Path = path, rq_Query = [], rq_Header = [(''Authorization'', auth)], rq_Body = ''{}'', rq_Identity = None\<rparr>"

definition demo_ev :: "string \<Rightarrow> LogEvent" where
  "demo_ev msg = \<lparr>le_Time = 0, le_Level = ''INFO'', le_Message = msg, le_Attrs = []\<rparr>"

section \<open>Lemmas\<close>

subsection \<open>The ring\<close>

lemma push_ring:
  assumes "0 < cc_cap c" "length (cc_ring c) \<le> cc_cap c"
  shows "cc_ring (push ev c) = (if length (cc_ring c) < cc_cap c then cc_ring c else tl (cc_ring c)) @ [ev]"
  using assms by (cases "cc_ring c") (auto simp: push_def Let_def list_update_append)

lemma push_cap [simp]: "cc_cap (push ev c) = cc_cap c" "cc_subs (push ev c) = cc_subs c"
  by (simp_all add: push_def Let_def)

lemma pushes_ring:
  assumes "0 < cc_cap c" "length (cc_ring c) \<le> cc_cap c"
  shows "cc_ring (fold push evs c) = drop (length (cc_ring c @ evs) - cc_cap c) (cc_ring c @ evs)"
  using assms
proof (induction evs arbitrary: c)
  case (Cons ev evs)
  let ?c = "push ev c"
  note r = push_ring [OF Cons.prems, of ev]
  have l: "length (cc_ring ?c) \<le> cc_cap ?c" using r Cons.prems by (cases "cc_ring c") auto
  have "cc_ring (fold push (ev # evs) c) = drop (length (cc_ring ?c @ evs) - cc_cap c) (cc_ring ?c @ evs)"
    using Cons.IH [of ?c] l Cons.prems(1) by simp
  also have "\<dots> = drop (length (cc_ring c @ ev # evs) - cc_cap c) (cc_ring c @ ev # evs)"
  proof (cases "length (cc_ring c) < cc_cap c")
    case True
    then show ?thesis using r by simp
  next
    case False
    then have eq: "length (cc_ring c) = cc_cap c" using Cons.prems(2) by simp
    obtain x xs where x: "cc_ring c = x # xs" using eq Cons.prems(1) by (cases "cc_ring c") auto
    then have "length (cc_ring c @ ev # evs) - cc_cap c = Suc (length evs)" using eq by simp
    moreover have "length (cc_ring ?c @ evs) - cc_cap c = length evs" using r False x eq by simp
    ultimately show ?thesis using r False x by simp
  qed
  finally show ?case .
qed simp

subsection \<open>Subscribers\<close>

lemma log_send_get: "map_of (log_send ev c h) i = (if i = c then map_option (log_offer ev) (map_of h i) else map_of h i)"
  by (auto simp: log_send_def split: option.splits)

lemma log_sends_get:
  "distinct cs \<Longrightarrow> map_of (fold (log_send ev) cs h) i = (if i \<in> set cs then map_option (log_offer ev) (map_of h i) else map_of h i)"
  by (induction cs arbitrary: h) (auto simp: log_send_get)

lemma push_buf:
  assumes "distinct (cc_subs c)" "i \<in> set (cc_subs c)" "map_of (cc_chans c) i \<noteq> None"
  shows "chan_buf (push ev c) i = (if length (chan_buf c i) < sub_capacity then chan_buf c i @ [ev] else chan_buf c i)"
    "map_of (cc_chans (push ev c)) i \<noteq> None"
  using assms by (auto simp: push_def Let_def log_sends_get chan_buf_def log_offer_def)

lemma recv_buf:
  "log_recv i c = None \<Longrightarrow> chan_buf c i = []"
  "log_recv i c = Some (ev, c') \<Longrightarrow> chan_buf c i = ev # chan_buf c' i \<and> cc_subs c' = cc_subs c \<and> map_of (cc_chans c') i \<noteq> None"
  by (auto simp: log_recv_def chan_buf_def split: option.splits list.splits)

lemma subscriber_stream:
  assumes "distinct (cc_subs c)" "i \<in> set (cc_subs c)" "map_of (cc_chans c) i \<noteq> None" "log_steps i ss c = (got, c')"
    and "length (chan_buf c i) \<le> sub_capacity"
  shows "subseq (got @ chan_buf c' i) (chan_buf c i @ pushed_of ss) \<and> length (chan_buf c' i) \<le> sub_capacity \<and>
    (length (chan_buf c i @ pushed_of ss) \<le> sub_capacity \<longrightarrow> got @ chan_buf c' i = chan_buf c i @ pushed_of ss)"
  using assms
proof (induction i ss c arbitrary: got rule: log_steps.induct)
  case (2 i ev ss c)
  note b = push_buf [OF 2(2,3,4), of ev]
  have ih: "subseq (got @ chan_buf c' i) (chan_buf (push ev c) i @ pushed_of ss) \<and> length (chan_buf c' i) \<le> sub_capacity \<and>
      (length (chan_buf (push ev c) i @ pushed_of ss) \<le> sub_capacity \<longrightarrow> got @ chan_buf c' i = chan_buf (push ev c) i @ pushed_of ss)"
    using 2(1) [of got] 2(2-6) b by (simp split: if_splits)
  have "subseq (chan_buf (push ev c) i @ pushed_of ss) (chan_buf c i @ ev # pushed_of ss)"
    unfolding b(1) by (auto intro: list_emb_append_mono)
  then show ?case using ih b(1) by (auto intro: subseq_order.trans split: if_splits)
next
  case (3 i ss c)
  show ?case
  proof (cases "log_recv i c")
    case None
    then show ?thesis using 3(1) [OF None, of got] 3(3-7) by simp
  next
    case (Some p)
    obtain ev c1 where p: "p = (ev, c1)" by fastforce
    note b = recv_buf(2) [OF Some [unfolded p]]
    obtain evs where g: "got = ev # evs" "log_steps i ss c1 = (evs, c')" using 3(6) Some p by (auto split: prod.splits)
    have "length (chan_buf c1 i) \<le> sub_capacity" using b 3(7) by simp
    then show ?thesis using 3(2) [OF Some p [symmetric], of evs] 3(3-5) b g by auto
  qed
qed auto

subsection \<open>The admin port\<close>

lemma NewWithConfig_prefix: "has_suffix pre ''/'' \<Longrightarrow> dh_prefix (NewWithConfig pre a b os) = pre"
  by (auto simp: NewWithConfig_def has_suffix_iff)

text \<open>Only requests below \<open>api/\<close> change anything.\<close>

lemma dash_state:
  assumes "snd (ServeHTTP_dash env h r s) \<noteq> s"
  shows "has_prefix (trim_prefix (rq_Path r) (dh_prefix h)) ''api/''"
proof -
  have p: "has_prefix ''api/functions'' ''api/''" "has_prefix ''api/functions/'' ''api/''" "has_prefix ''api/layers/build'' ''api/''" by code_simp+
  show ?thesis using assms p has_prefix_trans [OF _ p(2)] by (auto simp: ServeHTTP_dash_def Let_def split: if_splits)
qed

lemma api_path: "has_prefix path pre \<Longrightarrow> has_prefix (trim_prefix path pre) q \<longleftrightarrow> has_prefix path (pre @ q)"
  by (auto simp: has_prefix_iff trim_prefix_def)

lemma split_unauthorized:
  assumes "token \<noteq> ''''" "\<not> validToken r token" "has_suffix pre ''/''"
  shows "snd (admin_handler env own pre token b os r s) = s"
    "has_prefix (rq_Path r) (pre @ ''api/'') \<or> rq_Path r = pre @ ''ws'' \<Longrightarrow> admin_handler env own pre token b os r s = (unauth, s)"
proof -
  let ?h = "NewWithConfig pre True b os"
  have ne: "pre \<noteq> ''''" using assms(3) by (auto simp: has_suffix_def)
  have "snd (ServeHTTP_dash env ?h r s) = s" if "has_prefix (rq_Path r) pre" "\<not> has_prefix (rq_Path r) (pre @ ''api/'')"
    using dash_state [of env ?h r s] api_path [OF that(1), of "''api/''"] that(2) NewWithConfig_prefix [OF assms(3)] by auto
  then show "snd (admin_handler env own pre token b os r s) = s"
    "has_prefix (rq_Path r) (pre @ ''api/'') \<or> rq_Path r = pre @ ''ws'' \<Longrightarrow> admin_handler env own pre token b os r s = (unauth, s)"
    using assms(1,2) ne by (auto simp: admin_handler_def dashboardAuthSplit_def TokenAuth_def adminMux_def Let_def split: option.splits)
qed

lemma split_authorized:
  "pre \<noteq> '''' \<Longrightarrow> token = '''' \<or> validToken r token \<Longrightarrow>
    admin_handler env own pre token b os r s = adminMux own (ServeHTTP_dash env (NewWithConfig pre True b os)) r s"
  by (auto simp: admin_handler_def dashboardAuthSplit_def TokenAuth_def Let_def)

lemma check_request_None:
  "check_request req = None \<longleftrightarrow> rr_Name req \<noteq> '''' \<and> rr_Binary req \<noteq> '''' \<and> IsAbs (rr_Binary req) \<and> Clean (rr_Binary req) = rr_Binary req \<and>
     0 \<le> rr_MaxConcurrency req \<and> rr_MaxConcurrency req \<le> 256"
  by (auto simp: check_request_def MaxConcurrencyCeiling_def)

subsection \<open>Registered definitions\<close>

lemma rooted_parts: "IsAbs p \<Longrightarrow> ''..'' \<notin> set (clean_parts p)"
proof -
  have step: "''..'' \<notin> set out \<Longrightarrow> ''..'' \<notin> set (clean_step True c out)" for c out
    by (auto simp: clean_step_def split: list.split)
  have "''..'' \<notin> set out \<Longrightarrow> ''..'' \<notin> set (fold (clean_step True) cs out)" for cs out
  proof (induction cs arbitrary: out)
    case (Cons c cs)
    then show ?case using step [of out c] by simp
  qed simp
  from this [of "[]"] show "IsAbs p \<Longrightarrow> ''..'' \<notin> set (clean_parts p)" by (simp add: clean_parts_def)
qed

lemma clean_absolute:
  assumes "IsAbs p" "Clean p = p"
  shows "''..'' \<notin> set (split_on CHR ''/'' p)"
proof (cases "clean_parts p = []")
  case True
  then have "p = ''/''" using assms by (simp add: Clean_def)
  then show ?thesis by simp
next
  case False
  define cs where "cs = clean_parts p"
  have "split_on CHR ''/'' (join_with ''/'' cs) = cs" unfolding cs_def by (rule split_join_path [OF False clean_parts_slash])
  moreover have "p = CHR ''/'' # join_with ''/'' cs" using assms by (simp add: Clean_def cs_def)
  ultimately have "split_on CHR ''/'' p = '''' # clean_parts p"
    using split_on_split [of "CHR ''/''" "[]" "join_with ''/'' cs"] unfolding cs_def [symmetric] by simp
  then show ?thesis using rooted_parts [OF assms(1)] by simp
qed

lemma registry_ok_cong: "gw_functions g = gw_functions g' \<Longrightarrow> registry_ok g = registry_ok g'"
  by (simp add: registry_ok_def)

lemma register_ok:
  assumes "registry_ok g" "check_request req = None"
  shows "registry_ok (snd (RegisterFunction env req g))"
proof (cases "IsValidFunctionName (rr_Name req)")
  case False
  then show ?thesis using assms(1) by (simp add: RegisterFunction_def RegisterDef_def RegisterDefAs_def register_def_of_def)
next
  case True
  let ?d = "register_def_of req"
  have "IsValidFunctionName (fd_Name ?d)" using True by (simp add: register_def_of_def)
  note eq = register_eq [OF this]
  have c: "IsAbs (rr_Binary req)" "Clean (rr_Binary req) = rr_Binary req" "0 \<le> rr_MaxConcurrency req" "rr_MaxConcurrency req \<le> 256"
    using assms(2) by (simp_all add: check_request_None)
  have "def_ok (rr_Name req) (defaulted ?d)"
    using True c clean_absolute [OF c(1,2)]
    by (auto simp: def_ok_def defaulted_def normal_def_def register_def_of_def DefaultMaxConcurrency_def)
  moreover have "fd_Name ?d = rr_Name req" by (simp add: register_def_of_def)
  ultimately show ?thesis using assms(1)
    by (auto simp: RegisterFunction_def RegisterDef_def eq registry_ok_def applyPut_functions)
qed

lemma serve_register:
  assumes "dh_admin h" "rq_Method r = ''POST''" "db_decode env (take MaxAdminBody (rq_Body r)) (MaxAdminBody < length (rq_Body r)) = Inr req"
    and "req' = req\<lparr>rr_Name := trim_space (rr_Name req), rr_Binary := trim_space (rr_Binary req)\<rparr>"
    and "check_request req' = None" "IsValidFunctionName (rr_Name req')"
  shows "map_of (gw_functions (as_gw (snd (serveFunctions env h r s)))) =
    (map_of (gw_functions (as_gw s)))(rr_Name req' \<mapsto> defaulted (register_def_of req'))" "hr_Status (fst (serveFunctions env h r s)) = 201"
proof -
  have v: "IsValidFunctionName (fd_Name (register_def_of req'))" "fd_Name (register_def_of req') = rr_Name req'" using assms(6) by (simp_all add: register_def_of_def)
  show "map_of (gw_functions (as_gw (snd (serveFunctions env h r s)))) =
      (map_of (gw_functions (as_gw s)))(rr_Name req' \<mapsto> defaulted (register_def_of req'))" "hr_Status (fst (serveFunctions env h r s)) = 201"
    using assms(1-3,5) v(2)
    by (simp_all add: serveFunctions_def Let_def assms(4) [symmetric] RegisterFunction_def RegisterDef_def register_eq [OF v(1)] applyPut_functions)
qed

lemma unregister_ok: "registry_ok g \<Longrightarrow> registry_ok (snd (UnregisterFunction env name g))"
  by (auto simp: UnregisterFunction_def Unregister_def UnregisterAs_def registry_ok_def Let_def applyDelete_functions split: option.splits if_splits)

lemma dash_registry_ok: "registry_ok (as_gw s) \<Longrightarrow> registry_ok (as_gw (snd (ServeHTTP_dash env h r s)))"
proof -
  assume ok: "registry_ok (as_gw s)"
  have "registry_ok (as_gw (snd (serveFunctions env h r s)))"
    using ok register_ok [OF ok, of _ env]
    by (auto simp: serveFunctions_def Let_def split: sum.splits option.splits prod.splits) (metis snd_conv)+
  moreover have "registry_ok (as_gw (snd (serveFunction env h n r s)))" for n
    using ok unregister_ok [OF ok, of env n] by (auto simp: serveFunction_def split: prod.splits bool.splits)
  moreover have "registry_ok (as_gw (snd (serveLayerBuild env h r s)))"
    using ok by (auto simp: serveLayerBuild_def Let_def split: sum.splits)
  ultimately show ?thesis using ok by (auto simp: ServeHTTP_dash_def Let_def)
qed

lemma admin_registry_ok: "registry_ok (as_gw s) \<Longrightarrow> registry_ok (as_gw (snd (admin_handler env own pre token b os r s)))"
  using dash_registry_ok [of s env]
  by (auto simp: admin_handler_def dashboardAuthSplit_def TokenAuth_def adminMux_def Let_def split: option.splits)

section \<open>Properties\<close>

lemma demo_registered:
  "map_of (gw_functions (as_gw (snd (adminMux (\<lambda>r. None) (ServeHTTP_dash demo_dash (NewWithConfig ''/_/'' True True [])) (demo_post ''/_/api/functions'' auth) demo_admin))))
     ''new'' \<noteq> None"
proof -
  let ?h = "NewWithConfig ''/_/'' True True []" and ?r = "demo_post ''/_/api/functions'' auth"
  let ?req = "demo_reg\<lparr>rr_Name := ''new'', rr_Binary := ''/bin/new''\<rparr>"
  have h: "dh_admin ?h" "dh_prefix ?h = ''/_/''" by (simp_all add: NewWithConfig_def has_suffix_def)
  have p: "trim_prefix ''/_/api/functions'' ''/_/'' = ''api/functions''" by code_simp
  have t: "trim_space '' new '' = ''new''" "trim_space ''/bin/new'' = ''/bin/new''" by code_simp+
  have req: "?req = demo_reg\<lparr>rr_Name := trim_space (rr_Name demo_reg), rr_Binary := trim_space (rr_Binary demo_reg)\<rparr>"
    by (simp add: demo_reg_def t)
  have c: "check_request ?req = None" "IsValidFunctionName (rr_Name ?req)" by code_simp+
  have d: "db_decode demo_dash (take MaxAdminBody (rq_Body ?r)) (MaxAdminBody < length (rq_Body ?r)) = Inr demo_reg" "rq_Method ?r = ''POST''" "rq_Path ?r = ''/_/api/functions''"
    by (simp_all add: demo_dash_def demo_post_def)
  from serve_register(1) [OF h(1) d(2,1) req c] show ?thesis
    by (simp add: adminMux_def ServeHTTP_dash_def Let_def h(2) d(3) p)
qed

text \<open>
  (C25) The admin port asks for its token: with a token configured and a dashboard prefix that ends in a
  slash, a request without the token changes nothing, neither the gateway nor by a build, whatever
  its method, path and body, and below \<open>api/\<close> and at \<open>ws\<close> the answer is 401; a request with the token
  reaches the dashboard unhindered, and so does one for the page itself.
\<close>

theorem admin_api_guarded:
  assumes "token \<noteq> ''''" "has_suffix pre ''/''"
  shows "(\<not> validToken r token \<longrightarrow>
      snd (admin_handler env own pre token b os r s) = s \<and>
      (has_prefix (rq_Path r) (pre @ ''api/'') \<or> rq_Path r = pre @ ''ws'' \<longrightarrow> admin_handler env own pre token b os r s = (unauth, s))) \<and>
    (validToken r token \<or> rq_Path r = pre \<longrightarrow>
      admin_handler env own pre token b os r s = adminMux own (ServeHTTP_dash env (NewWithConfig pre True b os)) r s)"
proof -
  have ne: "pre \<noteq> ''''" using assms(2) by (auto simp: has_suffix_def)
  have "\<not> has_prefix pre (pre @ ''api/'')" "pre \<noteq> pre @ ''ws''" by (auto simp: has_prefix_iff)
  then have "rq_Path r = pre \<Longrightarrow> admin_handler env own pre token b os r s = adminMux own (ServeHTTP_dash env (NewWithConfig pre True b os)) r s"
    using assms(1) ne by (simp add: admin_handler_def dashboardAuthSplit_def has_prefix_iff Let_def)
  then show ?thesis using split_unauthorized [OF assms(1) _ assms(2)] split_authorized [OF ne] by metis
qed

theorem admin_api_guarded_witness:
  "admin_handler demo_dash (\<lambda>r. None) ''/_/'' ''tok'' True [] (demo_post ''/_/api/functions'' [''Bearer nope'']) demo_admin = (unauth, demo_admin) \<and>
   map_of (gw_functions (as_gw (snd (admin_handler demo_dash (\<lambda>r. None) ''/_/'' ''tok'' True [] (demo_post ''/_/api/functions'' [''Bearer tok'']) demo_admin)))) ''new'' \<noteq> None"
proof -
  have p: "has_suffix ''/_/'' ''/''" "(''tok'' :: string) \<noteq> ''''" by code_simp+
  have v: "\<not> validToken (demo_post ''/_/api/functions'' [''Bearer nope'']) ''tok''" "validToken (demo_post ''/_/api/functions'' [''Bearer tok'']) ''tok''"
    "has_prefix (rq_Path (demo_post ''/_/api/functions'' [''Bearer nope''])) (''/_/'' @ ''api/'')" by code_simp+
  have "map_of (gw_functions (as_gw (snd (adminMux (\<lambda>r. None) (ServeHTTP_dash demo_dash (NewWithConfig ''/_/'' True True []))
      (demo_post ''/_/api/functions'' [''Bearer tok'']) demo_admin)))) ''new'' \<noteq> None" by (rule demo_registered)
  then show ?thesis
    using admin_api_guarded [OF p(2,1), of "demo_post ''/_/api/functions'' [''Bearer nope'']"] admin_api_guarded [OF p(2,1), of "demo_post ''/_/api/functions'' [''Bearer tok'']"] v
    by simp
qed

text \<open>
  With the dashboard prefix given as \<open>/_\<close>, without its last slash, the dashboard falls back to
  \<open>/_/\<close> but the token check does not: every request below \<open>/_/\<close>, the admin API included, is served
  without the token.
\<close>

theorem split_open_without_slash:
  assumes "has_prefix (rq_Path r) ''/_/''"
  shows "admin_handler env own ''/_'' token b os r s = adminMux own (ServeHTTP_dash env (NewWithConfig ''/_/'' True b os)) r s"
proof -
  have "\<not> has_prefix (rq_Path r) ''/_api/''" "rq_Path r \<noteq> ''/_ws''" "has_prefix (rq_Path r) ''/_''" using assms by (auto simp: has_prefix_iff)
  moreover have "NewWithConfig ''/_'' True b os = NewWithConfig ''/_/'' True b os" by (simp add: NewWithConfig_def has_suffix_def)
  ultimately show ?thesis by (simp add: admin_handler_def dashboardAuthSplit_def Let_def)
qed

theorem split_open_without_slash_witness:
  "map_of (gw_functions (as_gw (snd (admin_handler demo_dash (\<lambda>r. None) ''/_'' ''tok'' True [] (demo_post ''/_/api/functions'' []) demo_admin)))) ''new'' \<noteq> None"
proof -
  have "has_prefix (rq_Path (demo_post ''/_/api/functions'' [])) ''/_/''" by code_simp
  note s = split_open_without_slash [OF this]
  show ?thesis unfolding s by (rule demo_registered)
qed




end
