(* ===== verification/Build_Spec.thy ===== *)
theory Build_Spec
  imports Prelude
begin

text \<open>
  What the layer builder accepts, \<open>internal/builder/spec.go\<close>: the build specification, the policy,
  and the check that every requirement is pinned by a hash. The regular expressions of the source
  are written as the functions that decide them; white space is what \<open>\s\<close> and
  \<open>strings.TrimSpace\<close> mean in Go.
\<close>

section \<open>Definitions\<close>

subsection \<open>Specification and policy\<close>

record BuildOptions =
  bo_Type :: string
  bo_Python :: string
  bo_Requirements :: string
  bo_IndexURL :: string

record BuildSpec =
  bs_Name :: string
  bs_Version :: string
  bs_Runtime :: string
  bs_MountPath :: string
  bs_Build :: BuildOptions

record Limits =
  li_Timeout :: duration
  li_MaxOutputMB :: int

definition WithDefaults :: "Limits \<Rightarrow> Limits" where
  "WithDefaults l =
     (let l = (if li_Timeout l = 0 then l\<lparr>li_Timeout := 5 * Minute\<rparr> else l)
      in if li_MaxOutputMB l = 0 then l\<lparr>li_MaxOutputMB := 1024\<rparr> else l)"

record Policy =
  po_AllowedPythonVersions :: "string list"
  po_AllowedIndexURLs :: "string list"
  po_RequireHashes :: bool

definition DefaultPolicy :: Policy where
  "DefaultPolicy = \<lparr>po_AllowedPythonVersions = [], po_AllowedIndexURLs = [], po_RequireHashes = True\<rparr>"

datatype spec_error =
    InvalidLayerName
  | InvalidLayerVersion
  | MountPathNotAbsolute
  | TypeRequired
  | UnknownType string
  | PythonRequired
  | InvalidPythonFormat
  | PythonNotAllowed string
  | MalformedIndexURL
  | IndexURLNotAllowed
  | RequirementsRequired
  | FileReference nat
  | InlineDirective nat
  | MissingHash nat

subsection \<open>Patterns\<close>

definition alnum :: "char \<Rightarrow> bool" where
  "alnum c \<longleftrightarrow> is_lower c \<or> is_upper c \<or> is_digit c"

fun bounded_name :: "(char \<Rightarrow> bool) \<Rightarrow> (char \<Rightarrow> bool) \<Rightarrow> string \<Rightarrow> bool" where
  "bounded_name first rest [] = False"
| "bounded_name first rest (c # s) = (first c \<and> list_all rest s \<and> length s \<le> 63)"

definition validLayerName :: "string \<Rightarrow> bool" where
  "validLayerName = bounded_name (\<lambda>c. alnum c \<or> c = CHR ''_'') (\<lambda>c. alnum c \<or> c \<in> set ''_.-'')"

definition validLayerVersion :: "string \<Rightarrow> bool" where
  "validLayerVersion = bounded_name (\<lambda>c. alnum c \<or> c = CHR ''_'') (\<lambda>c. alnum c \<or> c \<in> set ''_.+-'')"

definition validPythonVersion :: "string \<Rightarrow> bool" where
  "validPythonVersion s \<longleftrightarrow>
     (let parts = split_on CHR ''.'' s in length parts \<le> 3 \<and> list_all (\<lambda>p. p \<noteq> [] \<and> list_all is_digit p) parts)"

definition url_path :: "string \<Rightarrow> bool" where
  "url_path s \<longleftrightarrow> s = [] \<or> hd s = CHR ''/'' \<and> list_all (\<lambda>c. alnum c \<or> c \<in> set ''._-/'') (tl s)"

definition url_rest :: "string \<Rightarrow> bool" where
  "url_rest r \<longleftrightarrow>
     (if r \<noteq> [] \<and> hd r = CHR '':''
      then takeWhile is_digit (tl r) \<noteq> [] \<and> url_path (dropWhile is_digit (tl r))
      else url_path r)"

definition validIndexURL :: "string \<Rightarrow> bool" where
  "validIndexURL s \<longleftrightarrow>
     has_prefix s ''https://'' \<and>
     (let s = drop 8 s; hostChar = (\<lambda>c. alnum c \<or> c \<in> set ''.-'')
      in takeWhile hostChar s \<noteq> [] \<and> url_rest (dropWhile hostChar s))"

definition hash_here :: "string \<Rightarrow> bool" where
  "hash_here s \<longleftrightarrow> has_prefix s ''--hash=sha256:'' \<and>
     (let d = take 64 (drop 14 s) in length d = 64 \<and> list_all (\<lambda>c. is_digit c \<or> c \<in> set ''abcdef'') d)"

fun sha256HashRE :: "string \<Rightarrow> bool" where
  "sha256HashRE [] = False"
| "sha256HashRE (c # s) = (hash_here (c # s) \<or> sha256HashRE s)"

subsection \<open>Requirements\<close>

definition re_space :: "char \<Rightarrow> bool" where
  "re_space c \<longleftrightarrow> c \<in> {CHR 0x09, CHR 0x0A, CHR 0x0C, CHR 0x0D, CHR 0x20}"

text \<open>A backslash and the white space after it, when that has a newline, become one space.\<close>

function stitchContinuations :: "string \<Rightarrow> string" where
  "stitchContinuations [] = []"
| "stitchContinuations (c # s) =
     (if c = CHR 0x5C \<and> CHR 0x0A \<in> set (takeWhile re_space s)
      then CHR '' '' # stitchContinuations (dropWhile re_space s)
      else c # stitchContinuations s)"
  by pat_completeness auto
termination
  by (relation "measure length") (auto simp: le_imp_less_Suc length_dropWhile_le)

definition check_line :: "nat \<Rightarrow> string \<Rightarrow> spec_error option" where
  "check_line n raw =
     (let line = trim_space raw
      in if line = [] \<or> has_prefix line ''#'' then None
         else if has_prefix line ''-r'' \<or> has_prefix line ''--requirement'' \<or> has_prefix line ''-c'' \<or>
                 has_prefix line ''--constraint'' \<or> has_prefix line ''-e'' \<or> has_prefix line ''--editable''
              then Some (FileReference (n + 1))
         else if has_prefix line ''-'' then Some (InlineDirective (n + 1))
         else if \<not> sha256HashRE line then Some (MissingHash (n + 1))
         else None)"

fun check_lines :: "nat \<Rightarrow> string list \<Rightarrow> spec_error option" where
  "check_lines n [] = None"
| "check_lines n (raw # rest) =
     (case check_line n raw of
        Some e \<Rightarrow> Some e
      | None \<Rightarrow> check_lines (Suc n) rest)"

definition requireFullyHashed :: "string \<Rightarrow> spec_error option" where
  "requireFullyHashed content = check_lines 0 (split_on CHR 0x0A (stitchContinuations content))"

definition validatePythonPip :: "BuildSpec \<Rightarrow> Policy \<Rightarrow> spec_error option" where
  "validatePythonPip s p =
     (let b = bs_Build s
      in if bo_Python b = [] then Some PythonRequired
         else if \<not> validPythonVersion (bo_Python b) then Some InvalidPythonFormat
         else if po_AllowedPythonVersions p \<noteq> [] \<and> bo_Python b \<notin> set (po_AllowedPythonVersions p)
              then Some (PythonNotAllowed (bo_Python b))
         else if bo_IndexURL b \<noteq> [] \<and> \<not> validIndexURL (bo_IndexURL b) then Some MalformedIndexURL
         else if bo_IndexURL b \<noteq> [] \<and> po_AllowedIndexURLs p \<noteq> [] \<and> bo_IndexURL b \<notin> set (po_AllowedIndexURLs p)
              then Some IndexURLNotAllowed
         else if trim_space (bo_Requirements b) = [] then Some RequirementsRequired
         else if po_RequireHashes p then requireFullyHashed (bo_Requirements b)
         else None)"

definition Validate_spec :: "BuildSpec \<Rightarrow> Policy \<Rightarrow> spec_error option" where
  "Validate_spec s p =
     (if \<not> validLayerName (bs_Name s) then Some InvalidLayerName
      else if \<not> validLayerVersion (bs_Version s) then Some InvalidLayerVersion
      else if bs_MountPath s \<noteq> [] \<and> \<not> has_prefix (bs_MountPath s) ''/'' then Some MountPathNotAbsolute
      else if bo_Type (bs_Build s) = ''python-pip'' then validatePythonPip s p
      else if bo_Type (bs_Build s) = [] then Some TypeRequired
      else Some (UnknownType (bo_Type (bs_Build s))))"

text \<open>What \<open>sha256HashRE\<close> finds, in words.\<close>

definition pinned :: "string \<Rightarrow> bool" where
  "pinned line \<longleftrightarrow> (\<exists>a d b. line = a @ ''--hash=sha256:'' @ d @ b \<and> length d = 64 \<and> list_all (\<lambda>c. is_digit c \<or> c \<in> set ''abcdef'') d)"

definition line_ok :: "string \<Rightarrow> bool" where
  "line_ok raw \<longleftrightarrow> (let line = trim_space raw in line = [] \<or> has_prefix line ''#'' \<or> \<not> has_prefix line ''-'' \<and> pinned line)"

definition demo_spec :: BuildSpec where
  "demo_spec = \<lparr>bs_Name = ''deps'', bs_Version = ''1.0'', bs_Runtime = [], bs_MountPath = [],
     bs_Build = \<lparr>bo_Type = ''python-pip'', bo_Python = ''3.11'',
       bo_Requirements = ''six==1.16 --hash=sha256:'' @ replicate 64 CHR ''a'', bo_IndexURL = []\<rparr>\<rparr>"

section \<open>Lemmas\<close>

lemma hash_here_iff:
  "hash_here s \<longleftrightarrow> (\<exists>d b. s = ''--hash=sha256:'' @ d @ b \<and> length d = 64 \<and> list_all (\<lambda>c. is_digit c \<or> c \<in> set ''abcdef'') d)"
proof
  assume h: "hash_here s"
  then obtain t where t: "s = ''--hash=sha256:'' @ t" unfolding hash_here_def has_prefix_iff by blast
  then have "drop 14 s = t" by simp
  then show "\<exists>d b. s = ''--hash=sha256:'' @ d @ b \<and> length d = 64 \<and> list_all (\<lambda>c. is_digit c \<or> c \<in> set ''abcdef'') d"
    using h t by (intro exI [of _ "take 64 t"] exI [of _ "drop 64 t"]) (simp add: hash_here_def Let_def)
next
  assume "\<exists>d b. s = ''--hash=sha256:'' @ d @ b \<and> length d = 64 \<and> list_all (\<lambda>c. is_digit c \<or> c \<in> set ''abcdef'') d"
  then obtain d b where d: "s = ''--hash=sha256:'' @ d @ b" "length d = 64" "list_all (\<lambda>c. is_digit c \<or> c \<in> set ''abcdef'') d" by blast
  then have "has_prefix s ''--hash=sha256:''" "take 64 (drop 14 s) = d" unfolding has_prefix_iff by simp_all
  then show "hash_here s" using d(2,3) by (simp add: hash_here_def Let_def)
qed

lemma sha256HashRE_iff: "sha256HashRE s \<longleftrightarrow> pinned s"
proof -
  have "sha256HashRE s \<longleftrightarrow> (\<exists>a t. s = a @ t \<and> hash_here t)"
  proof (induction s)
    case Nil
    then show ?case by (auto simp: hash_here_iff)
  next
    case (Cons c s)
    have "(\<exists>a t. c # s = a @ t \<and> hash_here t) \<longleftrightarrow> hash_here (c # s) \<or> (\<exists>a t. s = a @ t \<and> hash_here t)"
      by (auto simp: Cons_eq_append_conv)
    then show ?case using Cons by simp
  qed
  then show ?thesis unfolding pinned_def hash_here_iff by blast
qed

lemma dash_prefixes:
  "has_prefix l ''-r'' \<Longrightarrow> has_prefix l ''-''" "has_prefix l ''--requirement'' \<Longrightarrow> has_prefix l ''-''" "has_prefix l ''-c'' \<Longrightarrow> has_prefix l ''-''"
  "has_prefix l ''--constraint'' \<Longrightarrow> has_prefix l ''-''" "has_prefix l ''-e'' \<Longrightarrow> has_prefix l ''-''" "has_prefix l ''--editable'' \<Longrightarrow> has_prefix l ''-''"
  by (auto simp: has_prefix_iff)

lemma check_line_None: "check_line n raw = None \<longleftrightarrow> line_ok raw"
  using dash_prefixes [of "trim_space raw"] by (auto simp: check_line_def line_ok_def Let_def sha256HashRE_iff)

lemma check_lines_None: "check_lines n ls = None \<longleftrightarrow> list_all line_ok ls"
proof (induction ls arbitrary: n)
  case (Cons l ls)
  then show ?case using check_line_None [of n l] by (cases "check_line n l") auto
qed simp

lemma requireFullyHashed_None: "requireFullyHashed content = None \<longleftrightarrow> list_all line_ok (split_on CHR 0x0A (stitchContinuations content))"
  by (simp add: requireFullyHashed_def check_lines_None)

lemma stitch_plain: "CHR 0x5C \<notin> set s \<Longrightarrow> stitchContinuations s = s"
  by (induction s) auto

lemma stitch_prefix: "CHR 0x5C \<notin> set a \<Longrightarrow> stitchContinuations (a @ s) = a @ stitchContinuations s"
  by (induction a) auto

text \<open>An error names the first line, of the joined ones, that is not accepted.\<close>

lemma check_lines_Some:
  "check_lines n ls = Some e \<Longrightarrow> \<exists>i < length ls. \<not> line_ok (ls ! i) \<and> list_all line_ok (take i ls) \<and>
     e \<in> {FileReference (n + i + 1), InlineDirective (n + i + 1), MissingHash (n + i + 1)}"
proof (induction ls arbitrary: n)
  case (Cons l ls)
  show ?case
  proof (cases "check_line n l")
    case None
    then obtain i where i: "i < length ls" "\<not> line_ok (ls ! i)" "list_all line_ok (take i ls)"
      "e \<in> {FileReference (Suc n + i + 1), InlineDirective (Suc n + i + 1), MissingHash (Suc n + i + 1)}"
      using Cons.IH [of "Suc n"] Cons.prems by auto
    then show ?thesis using None check_line_None [of n l] by (intro exI [of _ "Suc i"]) simp
  next
    case (Some x)
    then have "e = x" "\<not> line_ok l" using Cons.prems check_line_None [of n l] by auto
    then show ?thesis using Some by (intro exI [of _ 0]) (auto simp: check_line_def Let_def split: if_splits)
  qed
qed simp

lemma trim_left_last:
  assumes "\<And>e. e \<in> set es \<Longrightarrow> x \<notin> set e"
  shows "\<exists>u. trim_left es (t @ [x]) = u @ [x]"
proof (induction t rule: length_induct)
  case (1 t)
  show ?case
  proof (cases "find (\<lambda>e. e \<noteq> [] \<and> has_prefix (t @ [x]) e) es")
    case None
    then show ?thesis by (subst trim_left.simps) simp
  next
    case (Some e)
    then have e: "e \<in> set es" "e \<noteq> []" "has_prefix (t @ [x]) e" by (auto simp: find_Some_iff)
    then obtain r where r: "t @ [x] = e @ r" by (auto simp: has_prefix_iff)
    have "r \<noteq> []"
    proof
      assume "r = []"
      then have "x \<in> set e" using r by (metis append_Nil2 in_set_conv_decomp)
      then show False using assms e(1) by blast
    qed
    then obtain r' where r': "r = r' @ [x]" "t = e @ r'" using r by (cases r rule: rev_cases) auto
    then have "length r' < length t" using e(2) by auto
    then show ?thesis using 1 Some r' by (subst trim_left.simps) simp
  qed
qed

lemma trim_comment: "has_prefix (trim_space (CHR ''#'' # s)) ''#''"
proof -
  have "find (\<lambda>e. e \<noteq> [] \<and> has_prefix (CHR ''#'' # s) e) space_encodings = None"
    by (simp add: space_encodings_def has_prefix_def)
  then have l: "trim_left space_encodings (CHR ''#'' # s) = CHR ''#'' # s" by (subst trim_left.simps) simp
  have "\<exists>u. trim_left (map rev space_encodings) (rev s @ ''#'') = u @ ''#''"
    by (rule trim_left_last) (auto simp: space_encodings_def)
  then show ?thesis by (auto simp: trim_space_def l has_prefix_def)
qed

lemma name_chars:
  assumes "bounded_name (\<lambda>c. alnum c \<or> c = CHR ''_'') (\<lambda>c. alnum c \<or> c \<in> A) s" "CHR ''/'' \<notin> A"
  shows "s \<noteq> ''''" "length s \<le> 64" "CHR ''/'' \<notin> set s" "hd s \<noteq> CHR ''.''" "hd s \<noteq> CHR ''-''"
proof -
  have a: "\<not> alnum CHR ''/''" "\<not> alnum CHR ''.''" "\<not> alnum CHR ''-''" by code_simp+
  obtain c r where s: "s = c # r" using assms(1) by (cases s) auto
  then show "s \<noteq> ''''" "length s \<le> 64" "CHR ''/'' \<notin> set s" "hd s \<noteq> CHR ''.''" "hd s \<noteq> CHR ''-''"
    using assms a by (auto simp: list_all_iff)
qed

lemma python_chars: "validPythonVersion s \<Longrightarrow> s \<noteq> '''' \<and> list_all (\<lambda>c. is_digit c \<or> c = CHR ''.'') s"
proof -
  assume v: "validPythonVersion s"
  have "set (join_with ''.'' ps) \<subseteq> insert CHR ''.'' (\<Union> (set ` set ps))" for ps
    by (induction "''.''" ps rule: join_with.induct) auto
  from this [of "split_on CHR ''.'' s"] have "set s \<subseteq> insert CHR ''.'' (\<Union> (set ` set (split_on CHR ''.'' s)))" by simp
  moreover have "s \<noteq> ''''" using v by (auto simp: validPythonVersion_def)
  ultimately show ?thesis using v by (fastforce simp: validPythonVersion_def Let_def list_all_iff)
qed

lemma list_all_parts: "list_all P (takeWhile Q t) \<Longrightarrow> list_all P (dropWhile Q t) \<Longrightarrow> list_all P t"
  using list_all_append [of P "takeWhile Q t" "dropWhile Q t"] by (simp only: takeWhile_dropWhile_id)

lemma index_url_chars: "validIndexURL s \<Longrightarrow> has_prefix s ''https://'' \<and> list_all (\<lambda>c. \<not> re_space c) s"
proof -
  assume v: "validIndexURL s"
  then obtain t where s: "s = ''https://'' @ t" by (auto simp: validIndexURL_def has_prefix_iff)
  let ?h = "\<lambda>c. alnum c \<or> c \<in> set ''.-''"
  have al: "\<not> re_space c" if "alnum c \<or> c \<in> set ''._-/:'' " for c
    using that by (auto simp: alnum_def re_space_def is_lower_def is_upper_def is_digit_def)
  have p: "list_all (\<lambda>c. \<not> re_space c) r" if "url_path r" for r
    using that al by (cases r) (auto simp: url_path_def list_all_iff)
  have d: "list_all (\<lambda>c. \<not> re_space c) (takeWhile is_digit r)" for r
    using al by (auto simp: list_all_iff alnum_def dest: set_takeWhileD)
  have rest: "list_all (\<lambda>c. \<not> re_space c) r" if r: "url_rest r" for r
  proof (cases "r \<noteq> [] \<and> hd r = CHR '':''")
    case True
    then obtain u where u: "r = CHR '':'' # u" by (cases r) auto
    then have "url_path (dropWhile is_digit u)" using r by (simp add: url_rest_def)
    then have "list_all (\<lambda>c. \<not> re_space c) u"
      using p d [of u] by (intro list_all_parts [of _ is_digit u])
    then show ?thesis using u al [of "CHR '':''"] by simp
  next
    case False
    then show ?thesis using r p unfolding url_rest_def by (simp only: if_False)
  qed
  have "list_all (\<lambda>c. \<not> re_space c) (takeWhile ?h t)" using al by (auto simp: list_all_iff dest: set_takeWhileD)
  moreover have "url_rest (dropWhile ?h t)" using v s by (simp add: validIndexURL_def Let_def)
  then have "list_all (\<lambda>c. \<not> re_space c) (dropWhile ?h t)" by (rule rest)
  ultimately have "list_all (\<lambda>c. \<not> re_space c) t"
    by (rule list_all_parts)
  then show ?thesis using s by (auto simp: has_prefix_def re_space_def)
qed

section \<open>Properties\<close>



text \<open>
  A comment that ends in a backslash hides the next line from the check: whatever that line is,
  an option such as another index or a requirement without a hash, the text passes. Pip does not
  continue comments, so it reads the line the check has skipped.
\<close>

theorem comment_hides_line:
  assumes "CHR 0x0A \<notin> set line" "CHR 0x5C \<notin> set line"
  shows "requireFullyHashed (CHR ''#'' # CHR 0x5C # CHR 0x0A # line) = None \<and>
    line \<in> set (split_on CHR 0x0A (CHR ''#'' # CHR 0x5C # CHR 0x0A # line))"
proof -
  have n: "re_space CHR 0x0A" by code_simp
  have st: "stitchContinuations (CHR ''#'' # CHR 0x5C # CHR 0x0A # line) = CHR ''#'' # CHR '' '' # dropWhile re_space line"
    using stitch_plain [of "dropWhile re_space line"] assms(2) n by (auto dest: set_dropWhileD)
  have "CHR 0x0A \<notin> set (dropWhile re_space line)" using assms(1) by (auto dest: set_dropWhileD)
  then have "split_on CHR 0x0A (CHR ''#'' # CHR '' '' # dropWhile re_space line) = [CHR ''#'' # CHR '' '' # dropWhile re_space line]"
    by (intro split_on_atom) auto
  then have "requireFullyHashed (CHR ''#'' # CHR 0x5C # CHR 0x0A # line) = None"
    using trim_comment unfolding requireFullyHashed_None st by (simp add: line_ok_def Let_def del: split_on.simps)
  then show ?thesis using assms(1) by (simp add: split_on_atom)
qed

theorem comment_hides_line_witness:
  "requireFullyHashed (CHR ''#'' # CHR 0x5C # CHR 0x0A # ''--extra-index-url https://mirror.example'') = None"
  using comment_hides_line [of "''--extra-index-url https://mirror.example''"] by simp

end
