(* ===== verification/Layer_Resolver.thy ===== *)
theory Layer_Resolver
  imports Gateway Paths
begin

text \<open>
  The layer resolvers of the gateway, \<open>internal/gateway/layers.go\<close>: \<open>NopResolver\<close>, and
  \<open>StoreResolver\<close>, which pulls a missing layer from a layer store, extracts it into a temporary
  directory, compares the digest and moves the directory to its place. The layer store
  (\<open>layerstore.Store\<close>) is an argument, and so are SHA-256 and the decoding of a gzipped tar archive
  to its entries, of which the program only uses the results. The random part of the temporary
  directory's name is an argument as well.
\<close>

section \<open>Definitions\<close>

subsection \<open>Archives\<close>

datatype typeflag = TypeDir | TypeReg | TypeRegA | TypeSymlink | TypeOther

record tar_entry =
  hdr_Name :: string
  hdr_Typeflag :: typeflag
  hdr_Mode :: int
  te_body :: string
  te_readErr :: bool

text \<open>What a reader delivers, and the error it ends with if it does not end with EOF.\<close>

record reader =
  rd_bytes :: string
  rd_err :: "string option"

datatype join_error = EmptyName | AbsolutePath | ContainsDotDot | EscapesRoot

datatype layer_error =
    NoHostPath string
  | LayerMissing string
  | LayerFailed string string layer_error
  | StoreFailed string
  | OsError os_error
  | BadArchive string
  | UnsafeEntry string join_error
  | SymlinkEntry string
  | ReadFailed
  | DigestMismatch string string
  | Cancelled

record StoreResolver =
  sr_Get :: "string \<Rightarrow> string + reader"
  sr_CacheDir :: string
  sr_sha256 :: "string \<Rightarrow> string"
  sr_untar :: "string \<Rightarrow> string + tar_entry list \<times> string option"

definition safeJoin :: "string \<Rightarrow> string \<Rightarrow> join_error + string" where
  "safeJoin dst name =
     (if name = '''' then Inl EmptyName
      else if IsAbs name \<or> has_prefix name ''/'' then Inl AbsolutePath
      else if list_ex (\<lambda>part. part = ''..'') (split_on CHR ''/'' name) then Inl ContainsDotDot
      else let target = Join [dst, Clean name]; dstAbs = Clean dst
           in if \<not> has_prefix target (dstAbs @ ''/'') \<and> target \<noteq> dstAbs then Inl EscapesRoot
              else Inr target)"

definition file_mode :: "int \<Rightarrow> nat" where
  "file_mode m = nat (m mod 512)"

definition writeEntry :: "string \<Rightarrow> tar_entry \<Rightarrow> host \<Rightarrow> layer_error option \<times> host" where
  "writeEntry dst hdr h =
     (case safeJoin dst (hdr_Name hdr) of
        Inl e \<Rightarrow> (Some (UnsafeEntry (hdr_Name hdr) e), h)
      | Inr target \<Rightarrow>
          (case hdr_Typeflag hdr of
             TypeDir \<Rightarrow> (let (e, h) = MkdirAll target h in (map_option OsError e, h))
           | TypeSymlink \<Rightarrow> (Some (SymlinkEntry (hdr_Name hdr)), h)
           | TypeOther \<Rightarrow> (None, h)
           | _ \<Rightarrow>
               (case MkdirAll (Dir_of target) h of
                  (Some e, h) \<Rightarrow> (Some (OsError e), h)
                | (None, h) \<Rightarrow>
                    (case Remove target h of
                       (e, h) \<Rightarrow>
                         if e \<noteq> None \<and> e \<noteq> Some NotExist then (map_option OsError e, h)
                         else case write_file target (file_mode (hdr_Mode hdr)) (te_body hdr) h of
                           (Some e, h) \<Rightarrow> (Some (OsError e), h)
                         | (None, h) \<Rightarrow> (if te_readErr hdr then Some ReadFailed else None, h)))))"

fun extract_entries :: "string \<Rightarrow> tar_entry list \<Rightarrow> host \<Rightarrow> layer_error option \<times> host" where
  "extract_entries dst [] h = (None, h)"
| "extract_entries dst (e # es) h =
     (case writeEntry dst e h of
        (Some err, h) \<Rightarrow> (Some err, h)
      | (None, h) \<Rightarrow> extract_entries dst es h)"

definition extractTarGz :: "StoreResolver \<Rightarrow> reader \<Rightarrow> string \<Rightarrow> host \<Rightarrow> (layer_error + string) \<times> host" where
  "extractTarGz r rc dst h =
     (case sr_untar r (rd_bytes rc) of
        Inl msg \<Rightarrow> (Inl (BadArchive msg), h)
      | Inr (es, tarErr) \<Rightarrow>
          (case extract_entries dst es h of
             (Some err, h) \<Rightarrow> (Inl err, h)
           | (None, h) \<Rightarrow>
               (case tarErr of
                  Some msg \<Rightarrow> (Inl (BadArchive msg), h)
                | None \<Rightarrow>
                    if rd_err rc \<noteq> None then (Inl ReadFailed, h)
                    else (Inr (''sha256:'' @ sr_sha256 r (rd_bytes rc)), h))))"

subsection \<open>Pulling a layer\<close>

definition sanitiseDigest :: "string \<Rightarrow> string" where
  "sanitiseDigest d = map (\<lambda>c. if c = CHR '':'' then CHR ''-'' else c) d"

text \<open>Only letters of ASCII become hexadecimal digits by lowering, so the case of others does not matter.\<close>

definition digest_norm :: "string \<Rightarrow> string" where
  "digest_norm s = map to_lower_ascii (trim_prefix s ''sha256:'')"

definition digestMatches :: "string \<Rightarrow> string \<Rightarrow> bool" where
  "digestMatches declared got \<longleftrightarrow> digest_norm declared = digest_norm got"

definition layer_target :: "StoreResolver \<Rightarrow> string \<Rightarrow> string" where
  "layer_target r digest = Join [sr_CacheDir r, sanitiseDigest digest]"

text \<open>The part of \<open>ensureLocal\<close> that owns the slot of the digest.\<close>

definition pull :: "StoreResolver \<Rightarrow> nat \<Rightarrow> string \<Rightarrow> host \<Rightarrow> (layer_error + string) \<times> host" where
  "pull r rnd digest h =
     (let target = layer_target r digest
      in if Stat h target then (Inr target, h)
         else case sr_Get r digest of
           Inl msg \<Rightarrow> (Inl (StoreFailed msg), h)
         | Inr rc \<Rightarrow>
             (case MkdirTemp (sr_CacheDir r) (''.pulling-'' @ decimal rnd) h of
                (Inl e, h) \<Rightarrow> (Inl (OsError e), h)
              | (Inr tmp, h) \<Rightarrow>
                  (case extractTarGz r rc tmp h of
                     (Inl err, h) \<Rightarrow> (Inl err, RemoveAll tmp h)
                   | (Inr gotDigest, h) \<Rightarrow>
                       if \<not> digestMatches digest gotDigest
                       then (Inl (DigestMismatch digest gotDigest), RemoveAll tmp h)
                       else case Rename tmp target h of
                         (None, h) \<Rightarrow> (Inr target, h)
                       | (Some e, h) \<Rightarrow>
                           if Stat h target then (Inr target, RemoveAll tmp h)
                           else (Inl (OsError e), RemoveAll tmp h))))"

text \<open>\<open>ensureLocal\<close> of a caller that meets no other pull of the digest.\<close>

definition ensureLocal :: "StoreResolver \<Rightarrow> nat \<Rightarrow> string \<Rightarrow> host \<Rightarrow> (layer_error + string) \<times> host" where
  "ensureLocal r rnd digest h =
     (if Stat h (layer_target r digest) then (Inr (layer_target r digest), h) else pull r rnd digest h)"

subsection \<open>The resolvers\<close>

fun NopResolver_Resolve :: "LayerMount list \<Rightarrow> host \<Rightarrow> layer_error option" where
  "NopResolver_Resolve [] h = None"
| "NopResolver_Resolve (m # ms) h =
     (if gl_HostPath m = '''' then Some (NoHostPath (gl_Name m))
      else if \<not> Stat h (gl_HostPath m) then Some (LayerMissing (gl_Name m))
      else NopResolver_Resolve ms h)"

fun StoreResolver_Resolve :: "StoreResolver \<Rightarrow> (nat \<Rightarrow> nat) \<Rightarrow> nat \<Rightarrow> LayerMount list \<Rightarrow> host \<Rightarrow> layer_error option \<times> LayerMount list \<times> host" where
  "StoreResolver_Resolve r rnd i [] h = (None, [], h)"
| "StoreResolver_Resolve r rnd i (m # ms) h =
     (if gl_Digest m = '''' then
        (if gl_HostPath m = '''' then (Some (NoHostPath (gl_Name m)), m # ms, h)
         else if \<not> Stat h (gl_HostPath m) then (Some (LayerMissing (gl_Name m)), m # ms, h)
         else let (e, ms', h') = StoreResolver_Resolve r rnd (Suc i) ms h in (e, m # ms', h'))
      else
        (case ensureLocal r (rnd i) (gl_Digest m) h of
           (Inl err, h') \<Rightarrow> (Some (LayerFailed (gl_Name m) (gl_Digest m) err), m # ms, h')
         | (Inr path, h') \<Rightarrow>
             (let (e, ms', h'') = StoreResolver_Resolve r rnd (Suc i) ms h'
              in (e, m\<lparr>gl_HostPath := path\<rparr> # ms', h''))))"

subsection \<open>Concurrent callers\<close>

text \<open>
  Calls of \<open>ensureLocal\<close> by several goroutines. A call looks for the layer (\<open>Starting\<close>), then takes
  the slot of its digest or waits for the channel of the pull that has it (\<open>Missed\<close>); the deferred
  function of a pull frees the slot (\<open>Leaving\<close>) and then closes the channel (\<open>Closing\<close>). The work of
  the owner of a slot is one step.
\<close>

datatype call =
    Idle
  | Starting string
  | Missed string
  | Waiting string nat
  | Pulling string nat
  | Leaving string nat "layer_error + string"
  | Closing string nat "layer_error + string"
  | Returned string "layer_error + string"

record pull_state =
  ps_host :: host
  ps_pulling :: "(string, nat) gomap"
  ps_closed :: "nat set"
  ps_next :: nat
  ps_calls :: "nat \<Rightarrow> call"

definition set_call :: "nat \<Rightarrow> call \<Rightarrow> pull_state \<Rightarrow> pull_state" where
  "set_call i c s = s\<lparr>ps_calls := (ps_calls s)(i := c)\<rparr>"

definition pull_init :: "host \<Rightarrow> pull_state" where
  "pull_init h = \<lparr>ps_host = h, ps_pulling = [], ps_closed = {}, ps_next = 0, ps_calls = (\<lambda>i. Idle)\<rparr>"

inductive pull_step :: "StoreResolver \<Rightarrow> pull_state \<Rightarrow> pull_state \<Rightarrow> bool" for r where
  start: "ps_calls s i = Idle \<Longrightarrow> pull_step r s (set_call i (Starting d) s)"
| found: "ps_calls s i = Starting d \<Longrightarrow> Stat (ps_host s) (layer_target r d) \<Longrightarrow>
    pull_step r s (set_call i (Returned d (Inr (layer_target r d))) s)"
| missed: "ps_calls s i = Starting d \<Longrightarrow> \<not> Stat (ps_host s) (layer_target r d) \<Longrightarrow>
    pull_step r s (set_call i (Missed d) s)"
| queue: "ps_calls s i = Missed d \<Longrightarrow> map_of (ps_pulling s) d = Some ch \<Longrightarrow>
    pull_step r s (set_call i (Waiting d ch) s)"
| slot: "ps_calls s i = Missed d \<Longrightarrow> map_of (ps_pulling s) d = None \<Longrightarrow> ch = ps_next s \<Longrightarrow>
    pull_step r s (set_call i (Pulling d ch) (s\<lparr>ps_pulling := map_put d ch (ps_pulling s), ps_next := Suc ch\<rparr>))"
| work: "ps_calls s i = Pulling d ch \<Longrightarrow> pull r rnd d (ps_host s) = (res, h) \<Longrightarrow>
    pull_step r s (set_call i (Leaving d ch res) (s\<lparr>ps_host := h\<rparr>))"
| leave: "ps_calls s i = Leaving d ch res \<Longrightarrow>
    pull_step r s (set_call i (Closing d ch res) (s\<lparr>ps_pulling := map_del d (ps_pulling s)\<rparr>))"
| close: "ps_calls s i = Closing d ch res \<Longrightarrow>
    pull_step r s (set_call i (Returned d res) (s\<lparr>ps_closed := insert ch (ps_closed s)\<rparr>))"
| wake: "ps_calls s i = Waiting d ch \<Longrightarrow> ch \<in> ps_closed s \<Longrightarrow>
    pull_step r s (set_call i (Returned d (Inr (layer_target r d))) s)"
| cancel: "ps_calls s i = Waiting d ch \<Longrightarrow>
    pull_step r s (set_call i (Returned d (Inl Cancelled)) s)"

inductive pull_run :: "StoreResolver \<Rightarrow> host \<Rightarrow> pull_state \<Rightarrow> bool" for r h where
  pull_nil: "pull_run r h (pull_init h)"
| pull_cons: "pull_run r h s \<Longrightarrow> pull_step r s s' \<Longrightarrow> pull_run r h s'"

inductive_cases pull_stepE: "pull_step r s s'"

text \<open>The channel of a call that has not closed it yet, and the digest whose slot a call has.\<close>

fun owns_chan :: "call \<Rightarrow> nat option" where
  "owns_chan (Pulling d ch) = Some ch"
| "owns_chan (Leaving d ch res) = Some ch"
| "owns_chan (Closing d ch res) = Some ch"
| "owns_chan _ = None"

fun owns_slot :: "call \<Rightarrow> (string \<times> nat) option" where
  "owns_slot (Pulling d ch) = Some (d, ch)"
| "owns_slot (Leaving d ch res) = Some (d, ch)"
| "owns_slot _ = None"

definition pull_inv :: "pull_state \<Rightarrow> bool" where
  "pull_inv s \<longleftrightarrow>
     (\<forall>i ch. owns_chan (ps_calls s i) = Some ch \<longrightarrow> ch < ps_next s) \<and>
     (\<forall>i j ch. owns_chan (ps_calls s i) = Some ch \<longrightarrow> owns_chan (ps_calls s j) = Some ch \<longrightarrow> i = j) \<and>
     (\<forall>d ch. map_of (ps_pulling s) d = Some ch \<longleftrightarrow> (\<exists>i. owns_slot (ps_calls s i) = Some (d, ch))) \<and>
     (\<forall>i d ch. ps_calls s i = Waiting d ch \<longrightarrow> ch \<in> ps_closed s \<or> (\<exists>j. owns_chan (ps_calls s j) = Some ch))"

text \<open>The contract of the resolvers.\<close>

definition resolve_each ::
  "(LayerMount list \<Rightarrow> host \<Rightarrow> layer_error option \<times> LayerMount list \<times> host) \<Rightarrow> LayerMount list list \<Rightarrow> host \<Rightarrow> host" where
  "resolve_each resolve mss h = fold (\<lambda>ms h. snd (snd (resolve ms h))) mss h"

locale layer_resolver =
  fixes resolve :: "LayerMount list \<Rightarrow> host \<Rightarrow> layer_error option \<times> LayerMount list \<times> host"
    and ready :: "host \<Rightarrow> LayerMount \<Rightarrow> bool"
    and admitted :: "LayerMount \<Rightarrow> bool"
    and inv :: "host \<Rightarrow> bool"
  assumes resolve_ready: "inv h \<Longrightarrow> list_all admitted ms \<Longrightarrow> resolve ms h = (None, ms', h') \<Longrightarrow> list_all (ready h') ms'"
    and resolve_keeps: "inv h \<Longrightarrow> list_all admitted ms \<Longrightarrow> resolve ms h = (e, ms', h') \<Longrightarrow> ready h m \<Longrightarrow> ready h' m"
    and resolve_inv: "inv h \<Longrightarrow> list_all admitted ms \<Longrightarrow> resolve ms h = (e, ms', h') \<Longrightarrow> inv h' \<and> list_all admitted ms'"
    and resolve_done: "inv h \<Longrightarrow> list_all (ready h) ms \<Longrightarrow> resolve ms h = (None, ms, h)"
begin

lemma each_keeps:
  assumes "inv h" "list_all (list_all admitted) mss"
  shows "inv (resolve_each resolve mss h) \<and> (\<forall>m. ready h m \<longrightarrow> ready (resolve_each resolve mss h) m)"
  using assms
proof (induction mss arbitrary: h)
  case (Cons ms mss)
  obtain e ms' h' where r: "resolve ms h = (e, ms', h')" by (metis prod_cases3)
  have "list_all admitted ms" using Cons.prems(2) by simp
  then have "inv h'" "\<And>m. ready h m \<Longrightarrow> ready h' m"
    using resolve_inv [OF Cons.prems(1) _ r] resolve_keeps [OF Cons.prems(1) _ r] by auto
  then show ?case using Cons.IH [of h'] Cons.prems r by (simp add: resolve_each_def)
qed (simp add: resolve_each_def)

text \<open>What was resolved once is found again without work, whatever is resolved in between.\<close>

lemma resolved_stays:
  assumes "inv h" "list_all admitted ms" "resolve ms h = (None, ms', h')" "list_all (list_all admitted) mss"
  shows "resolve ms' (resolve_each resolve mss h') = (None, ms', resolve_each resolve mss h')"
proof -
  let ?h = "resolve_each resolve mss h'"
  have "inv h'" and ready: "list_all (ready h') ms'" using resolve_inv resolve_ready assms by blast+
  then have "inv ?h" "\<forall>m. ready h' m \<longrightarrow> ready ?h m" using each_keeps [OF _ assms(4)] by auto
  then show ?thesis using ready by (intro resolve_done) (auto simp: list_all_iff)
qed

end

text \<open>A directory whose name ends in a proper component, as the temporary ones do.\<close>

definition named_dir :: "string \<Rightarrow> bool" where
  "named_dir dst \<longleftrightarrow> dst \<noteq> '''' \<and> clean_parts dst \<noteq> [] \<and> proper (last (clean_parts dst))"

abbreviation pull_base :: "nat \<Rightarrow> string" where
  "pull_base rnd \<equiv> ''.pulling-'' @ decimal rnd"

definition pulled :: "StoreResolver \<Rightarrow> nat \<Rightarrow> string \<Rightarrow> host \<Rightarrow> host \<Rightarrow> bool" where
  "pulled r rnd digest h h' \<longleftrightarrow>
     (\<exists>rc tmp h1 h2 got. sr_Get r digest = Inr rc \<and>
        MkdirTemp (sr_CacheDir r) (pull_base rnd) h = (Inr tmp, h1) \<and>
        extractTarGz r rc tmp h1 = (Inr got, h2) \<and> digestMatches digest got \<and>
        (let t = path_of h (layer_target r digest)
         in \<forall>q. node_at h' q = (if prefix t q then node_at h2 (path_of h tmp @ drop (length t) q) else node_at h q)))"

definition nop_ready :: "host \<Rightarrow> LayerMount \<Rightarrow> bool" where
  "nop_ready h m \<longleftrightarrow> gl_HostPath m \<noteq> '''' \<and> Stat h (gl_HostPath m)"

definition store_ready :: "StoreResolver \<Rightarrow> host \<Rightarrow> LayerMount \<Rightarrow> bool" where
  "store_ready r h m \<longleftrightarrow>
     (if gl_Digest m = '''' then nop_ready h m
      else gl_HostPath m = layer_target r (gl_Digest m) \<and> Stat h (gl_HostPath m))"

definition plain_digest :: "LayerMount \<Rightarrow> bool" where
  "plain_digest m \<longleftrightarrow> CHR ''/'' \<notin> set (gl_Digest m)"

definition resolver_inv :: "StoreResolver \<Rightarrow> host \<Rightarrow> bool" where
  "resolver_inv r h \<longleftrightarrow> host_wf h \<and> sr_CacheDir r \<noteq> ''''"

text \<open>A host with a cache directory, a store with one layer, and its archive.\<close>

definition demo_host :: host where
  "demo_host = \<lparr>hs_tree = [([], Directory), ([''cache''], Directory), ([''etc''], Directory), ([''etc'', ''passwd''], Regular 420 ''root'')],
     hs_cwd = [], hs_tmp = ''/tmp'', hs_denied = (\<lambda>p. False)\<rparr>"

definition demo_entries :: "tar_entry list" where
  "demo_entries =
     [\<lparr>hdr_Name = ''lib/'', hdr_Typeflag = TypeDir, hdr_Mode = 493, te_body = [], te_readErr = False\<rparr>,
      \<lparr>hdr_Name = ''./lib//a.py'', hdr_Typeflag = TypeReg, hdr_Mode = 420, te_body = ''x = 1'', te_readErr = False\<rparr>]"

definition demo_resolver :: StoreResolver where
  "demo_resolver = \<lparr>
     sr_Get = (\<lambda>d. if d = ''sha256:AB'' then Inr \<lparr>rd_bytes = ''tgz'', rd_err = None\<rparr> else Inl ''no such layer''),
     sr_CacheDir = ''/cache'', sr_sha256 = (\<lambda>b. ''ab''),
     sr_untar = (\<lambda>b. Inr (demo_entries, None))\<rparr>"

definition demo_mount :: LayerMount where
  "demo_mount = \<lparr>gl_Name = ''deps'', gl_HostPath = '''', gl_MountPath = ''/opt/deps'', gl_Digest = ''sha256:AB''\<rparr>"

section \<open>Lemmas\<close>

subsection \<open>Names of entries\<close>

lemma clean_parts_below:
  assumes "a \<noteq> ''''" "''..'' \<notin> set (split_on CHR ''/'' b)"
  shows "clean_parts (a @ CHR ''/'' # b) = clean_parts a @ filter proper (split_on CHR ''/'' b)"
  using assms by (simp add: clean_parts_def split_on_split fold_no_dots)

lemma clean_parts_relative: "\<not> IsAbs b \<Longrightarrow> ''..'' \<notin> set (split_on CHR ''/'' b) \<Longrightarrow> clean_parts b = filter proper (split_on CHR ''/'' b)"
  by (simp add: clean_parts_def fold_no_dots)

lemma last_split_Clean: "clean_parts p \<noteq> [] \<Longrightarrow> last (split_on CHR ''/'' (Clean p)) = last (clean_parts p)"
  using split_join_path [of "clean_parts p"] clean_parts_slash [of _ p] by (auto simp: Clean_def)

lemma safeJoin_inside:
  assumes "safeJoin dst name = Inr target" "named_dir dst"
  shows "\<exists>rest. walk cwd target = walk cwd dst @ rest \<and> walk cwd (Dir_of target) = butlast (walk cwd target) \<and>
    rest = filter proper (split_on CHR ''/'' name) \<and> walk cwd dst \<noteq> []"
proof -
  let ?rest = "filter proper (split_on CHR ''/'' name)"
  have n: "\<not> IsAbs name" "''..'' \<notin> set (split_on CHR ''/'' name)" and t: "target = Join [dst, Clean name]"
    using assms(1) by (auto simp: safeJoin_def Let_def list_ex_iff split: if_splits)
  have parts: "clean_parts name = ?rest" by (rule clean_parts_relative [OF n])
  have dst: "dst \<noteq> ''''" "clean_parts dst \<noteq> []" "proper (last (clean_parts dst))" using assms(2) by (auto simp: named_dir_def)
  have t': "target = Clean (dst @ CHR ''/'' # Clean name)" using t dst by simp
  have w: "walk cwd target = walk cwd dst @ ?rest"
    unfolding t' walk_Clean walk_append [OF dst(1)] Clean_split(2) parts by (simp add: fold_proper list_all_iff)
  have "clean_parts (dst @ CHR ''/'' # Clean name) = clean_parts dst @ ?rest"
    using dst(1) parts by (simp add: clean_parts_def split_on_split Clean_split(2) fold_proper list_all_iff)
  then have "proper (last (split_on CHR ''/'' target))"
    using last_split_Clean [of "dst @ CHR ''/'' # Clean name"] dst(2,3) unfolding t'
    by (cases "?rest = []") (auto simp: last_append dest: last_in_set)
  from walk_Dir [OF this, of cwd] have d: "walk cwd (Dir_of target) = butlast (walk cwd target)" by simp
  have "walk cwd (Clean dst) \<noteq> []" by (rule walk_Dir [THEN conjunct2]) (use last_split_Clean [OF dst(2)] dst(3) in simp)
  then show ?thesis using w d by auto
qed

subsection \<open>Extraction stays below its directory\<close>

text \<open>A regular entry that is written without an error is the file of its name.\<close>

lemma writeEntry_regular:
  assumes "writeEntry dst hdr h = (e, h')" "room (path_of h dst) h" "named_dir dst"
    and "hdr_Typeflag hdr = TypeReg \<or> hdr_Typeflag hdr = TypeRegA" "safeJoin dst (hdr_Name hdr) = Inr target"
  shows "stays (path_of h dst) h h'"
    "e = None \<Longrightarrow> node_at h' (path_of h target) = Some (Regular (file_mode (hdr_Mode hdr)) (te_body hdr))"
proof -
  let ?p = "path_of h dst" and ?t = "path_of h target"
  obtain rest where t: "?t = ?p @ rest" "path_of h (Dir_of target) = butlast ?t" "?p \<noteq> []"
    using safeJoin_inside [OF assms(5,3), of "hs_cwd h"] by auto
  have dir: "prefix ?p (path_of h (Dir_of target)) \<or> path_of h (Dir_of target) = butlast ?p"
    using t by (cases "rest = []") (auto simp: butlast_append)
  obtain e1 h1 where m: "MkdirAll (Dir_of target) h = (e1, h1)" by fastforce
  note m' = MkdirAll_stays [OF m assms(2) dir]
  have r1: "room ?p h1" by (rule stays_room [OF assms(2) m'(1)])
  have p1: "path_of h1 x = path_of h x" for x by (rule stays_path [OF m'(1)])
  obtain e2 h2 where d: "Remove target h1 = (e2, h2)" by fastforce
  have pt: "prefix ?p (path_of h1 target)" using t p1 by simp
  note d' = Remove_stays [OF d r1 pt]
  have r2: "room ?p h2" by (rule stays_room [OF r1 d'(1)])
  have p2: "path_of h2 x = path_of h x" for x using stays_path [OF d'(1)] p1 by simp
  obtain e3 h3 where w: "write_file target (file_mode (hdr_Mode hdr)) (te_body hdr) h2 = (e3, h3)" by fastforce
  have "prefix ?p (path_of h2 target)" using t p2 by simp
  note w' = write_file_stays [OF w r2 this]
  have W: "writeEntry dst hdr h =
      (if e1 \<noteq> None then (map_option OsError e1, h1)
       else if e2 \<noteq> None \<and> e2 \<noteq> Some NotExist then (map_option OsError e2, h2)
       else if e3 \<noteq> None then (map_option OsError e3, h3)
       else (if te_readErr hdr then Some ReadFailed else None, h3))"
    using assms(4,5) by (cases e1; cases e3) (auto simp: writeEntry_def m d w split: if_splits)
  show "stays ?p h h'" using assms(1) W m'(1) d'(1) w'(1) by (auto intro: stays_trans split: if_splits)
  assume "e = None"
  then have ok: "e1 = None" "e2 = None \<or> e2 = Some NotExist" "e3 = None" "h' = h3"
    using assms(1) W by (auto split: if_splits)
  have "node_at h2 ?t = None"
    using ok(2) d'(2,3) p1 d by (auto simp: Remove_def Let_def split: option.splits if_splits)
  then show "node_at h' ?t = Some (Regular (file_mode (hdr_Mode hdr)) (te_body hdr))"
    using w'(2) [OF ok(3)] ok(4) p2 by auto
qed

lemma writeEntry_stays:
  assumes "writeEntry dst hdr h = (e, h')" "room (path_of h dst) h" "named_dir dst"
  shows "stays (path_of h dst) h h'" "e = None \<Longrightarrow> node_at h (path_of h dst) \<noteq> None \<Longrightarrow> node_at h' (path_of h dst) \<noteq> None"
proof -
  let ?p = "path_of h dst"
  have "stays ?p h h' \<and> (e = None \<longrightarrow> node_at h ?p \<noteq> None \<longrightarrow> node_at h' ?p \<noteq> None)"
  proof (cases "safeJoin dst (hdr_Name hdr)")
    case (Inl x)
    then show ?thesis using assms stays_refl by (auto simp: writeEntry_def)
  next
    case (Inr target)
    obtain rest where t: "path_of h target = ?p @ rest" "?p \<noteq> []"
      using safeJoin_inside [OF Inr assms(3), of "hs_cwd h"] by auto
    show ?thesis
    proof (cases "hdr_Typeflag hdr = TypeReg \<or> hdr_Typeflag hdr = TypeRegA")
      case True
      note reg = writeEntry_regular [OF assms True Inr]
      have "node_at h' ?p \<noteq> None" if "e = None"
        using reg(2) [OF that] node_ancestor [of h' ?p rest] reg(1) t(1) by (cases "rest = []") (auto simp: stays_def)
      then show ?thesis using reg(1) by blast
    next
      case False
      show ?thesis
      proof (cases "hdr_Typeflag hdr = TypeDir")
        case True
        obtain x h1 where m: "MkdirAll target h = (x, h1)" by fastforce
        have "h' = h1" using assms(1) Inr True m by (simp add: writeEntry_def)
        then show ?thesis using MkdirAll_stays [OF m assms(2)] t(1) by simp
      next
        case T: False
        then have "h' = h" using assms(1) Inr False by (cases "hdr_Typeflag hdr") (auto simp: writeEntry_def)
        then show ?thesis using stays_refl [OF assms(2)] by simp
      qed
    qed
  qed
  then show "stays ?p h h'" "e = None \<Longrightarrow> node_at h ?p \<noteq> None \<Longrightarrow> node_at h' ?p \<noteq> None" by auto
qed

lemma extract_entries_stays:
  assumes "extract_entries dst es h = (e, h')" "room (path_of h dst) h" "named_dir dst"
  shows "stays (path_of h dst) h h' \<and> (e = None \<longrightarrow> node_at h (path_of h dst) \<noteq> None \<longrightarrow> node_at h' (path_of h dst) \<noteq> None)"
  using assms
proof (induction es arbitrary: h)
  case (Cons x es)
  obtain y h1 where w: "writeEntry dst x h = (y, h1)" by fastforce
  note s = writeEntry_stays [OF w Cons.prems(2,3)]
  note p = stays_path [OF s(1), of dst]
  show ?case
  proof (cases y)
    case None
    then have "extract_entries dst es h1 = (e, h')" using Cons.prems(1) w by simp
    then have "stays (path_of h dst) h1 h' \<and> (e = None \<longrightarrow> node_at h1 (path_of h dst) \<noteq> None \<longrightarrow> node_at h' (path_of h dst) \<noteq> None)"
      using Cons.IH [of h1] Cons.prems(3) stays_room [OF Cons.prems(2) s(1)] p by simp
    then show ?thesis using stays_trans [OF s(1)] s(2) None by blast
  qed (use Cons.prems(1) w s in auto)
qed (simp add: stays_refl)

subsection \<open>A pull is all or nothing\<close>

lemma pull_base_proper: "proper (pull_base rnd)" "CHR ''/'' \<notin> set (pull_base rnd)"
proof -
  have "\<not> is_digit CHR ''/''" by (simp add: is_digit_def)
  then show "CHR ''/'' \<notin> set (pull_base rnd)" using decimal_digits [of rnd] by (auto simp: list_all_iff)
qed simp

lemma walk_child: "a \<noteq> '''' \<Longrightarrow> CHR ''/'' \<notin> set c \<Longrightarrow> proper c \<Longrightarrow> walk cwd (a @ CHR ''/'' # c) = walk cwd a @ [c]"
  by (simp add: walk_append split_on_atom)

lemma walk_trailing: "a \<noteq> '''' \<Longrightarrow> walk cwd (a @ ''/'') = walk cwd a"
  using walk_append [of a cwd "''''"] by simp

lemma child_named:
  assumes "CHR ''/'' \<notin> set c" "proper c"
  shows "named_dir (a @ CHR ''/'' # c)"
  using assms by (cases "a = ''''") (auto simp: named_dir_def clean_parts_def split_on_split split_on_atom)

lemma temp_path_facts:
  assumes "d \<noteq> ''''" "CHR ''/'' \<notin> set c" "proper c"
  shows "named_dir (temp_path tmp d c)" "walk cwd (temp_path tmp d c) = walk cwd d @ [c]"
proof -
  have "named_dir (temp_path tmp d c) \<and> walk cwd (temp_path tmp d c) = walk cwd d @ [c]"
  proof (cases "has_suffix d ''/''")
    case True
    then obtain a where d: "d = a @ ''/''" by (auto simp: has_suffix_iff)
    then have t: "temp_path tmp d c = a @ CHR ''/'' # c" using True by (simp add: temp_path_def)
    have "walk cwd (''/'' @ c) = [c]" "walk cwd ''/'' = []"
      using assms by (simp_all add: walk_def split_on_atom IsAbs_def has_prefix_def)
    then show ?thesis using t d assms child_named [OF assms(2,3), of a] walk_child walk_trailing by (cases "a = ''''") auto
  next
    case False
    then show ?thesis using assms child_named [OF assms(2,3), of d] walk_child [OF assms] by (simp add: temp_path_def)
  qed
  then show "named_dir (temp_path tmp d c)" "walk cwd (temp_path tmp d c) = walk cwd d @ [c]" by auto
qed

lemma target_not_below:
  assumes "sr_CacheDir r \<noteq> ''''" "CHR ''/'' \<notin> set digest" "prefix (walk cwd (sr_CacheDir r) @ [c]) (walk cwd (layer_target r digest))"
  shows "walk cwd (layer_target r digest) = walk cwd (sr_CacheDir r) @ [c]"
proof -
  let ?s = "sanitiseDigest digest" and ?c = "walk cwd (sr_CacheDir r)"
  have s: "CHR ''/'' \<notin> set ?s" using assms(2) by (auto simp: sanitiseDigest_def)
  then have w: "walk cwd (layer_target r digest) = rev (clean_step True ?s (rev ?c))"
    using assms(1) by (simp add: layer_target_def walk_append split_on_atom)
  show ?thesis
  proof (cases "proper ?s")
    case False
    then have "length (walk cwd (layer_target r digest)) \<le> length ?c"
      unfolding w by (cases "rev ?c") (auto simp: clean_step_def)
    then show ?thesis using prefix_length_le [OF assms(3)] by simp
  qed (use assms(3) w in \<open>auto simp: prefix_def\<close>)
qed

lemma extractTarGz_stays:
  assumes "extractTarGz r rc dst h = (res, h')" "room (path_of h dst) h" "named_dir dst"
  shows "stays (path_of h dst) h h'"
    "\<exists>got. res = Inr got \<Longrightarrow> node_at h (path_of h dst) \<noteq> None \<Longrightarrow> node_at h' (path_of h dst) \<noteq> None"
proof -
  have "stays (path_of h dst) h h' \<and> ((\<exists>got. res = Inr got) \<longrightarrow> node_at h (path_of h dst) \<noteq> None \<longrightarrow> node_at h' (path_of h dst) \<noteq> None)"
    using assms(1) extract_entries_stays [OF _ assms(2,3)] stays_refl [OF assms(2)]
    by (auto simp: extractTarGz_def split: sum.splits prod.splits option.splits if_splits)
  then show "stays (path_of h dst) h h'"
    "\<exists>got. res = Inr got \<Longrightarrow> node_at h (path_of h dst) \<noteq> None \<Longrightarrow> node_at h' (path_of h dst) \<noteq> None" by auto
qed

text \<open>Removing what was put below a path that was free gives the old tree back.\<close>

lemma RemoveAll_undo:
  assumes "stays p h1 h2" "path_of h2 tmp = p" "h1 = put_node p n h" "host_wf h" "node_at h p = None" "p \<noteq> []"
  shows "node_at (RemoveAll tmp h2) = node_at h" "host_wf (RemoveAll tmp h2)" "same_host h (RemoveAll tmp h2)"
proof -
  have "node_at (RemoveAll tmp h2) q = node_at h q" for q
    using assms(1,2,3) no_node_below [OF assms(4,5), of q] by (auto simp: RemoveAll_facts stays_def differ_below_def)
  then show "node_at (RemoveAll tmp h2) = node_at h" by blast
  show "host_wf (RemoveAll tmp h2)" using assms by (intro RemoveAll_wf) (auto simp: stays_def)
  show "same_host h (RemoveAll tmp h2)"
    using assms(1,3) RemoveAll_facts(2) [of h2 tmp] by (simp add: same_host_def stays_def differ_below_def)
qed

lemma rename_stage:
  assumes st: "stays p (put_node p Directory h) h2" and wf: "host_wf h"
    and free: "node_at h p = None" "\<not> hs_denied h p" "node_at h2 p \<noteq> None" and paths: "path_of h tmp = p" "path_of h target = t"
    and no: "node_at h t = None" and below: "prefix p t \<Longrightarrow> t = p"
    and rn: "Rename tmp target h2 = (e, h3)"
  shows "e \<noteq> None \<Longrightarrow> h3 = h2 \<and> \<not> Stat h2 target"
    "e = None \<Longrightarrow> host_wf h3 \<and> same_host h h3 \<and> Stat h3 target \<and>
      (\<forall>q. node_at h3 q = (if prefix t q then node_at h2 (p @ drop (length t) q) else node_at h q))"
proof -
  have wf2: "host_wf h2" and same: "same_host h h2" and out: "\<And>q. \<not> prefix p q \<Longrightarrow> node_at h2 q = node_at h q"
    using st by (auto simp: stays_def differ_below_def same_host_def)
  have p2: "path_of h2 tmp = p" "path_of h2 target = t" "hs_denied h2 = hs_denied h" using same paths by (auto simp: same_host_def)
  note f = Rename_facts [OF rn wf2, unfolded p2]
  have eq: "e = None" if "p = t" using rn free(2,3) p2 that by (auto simp: Rename_def Let_def)
  have "node_at h2 t = None" if "p \<noteq> t" using out [of t] below no that by (cases "prefix p t") auto
  then show "e \<noteq> None \<Longrightarrow> h3 = h2 \<and> \<not> Stat h2 target" using f(1) eq p2 by (auto simp: Stat_def)
  assume e: "e = None"
  show "host_wf h3 \<and> same_host h h3 \<and> Stat h3 target \<and>
      (\<forall>q. node_at h3 q = (if prefix t q then node_at h2 (p @ drop (length t) q) else node_at h q))"
  proof (cases "p = t")
    case True
    then have h3: "h3 = h2" using f(3) e by simp
    have "node_at h2 q = (if prefix t q then node_at h2 (p @ drop (length t) q) else node_at h q)" for q
    proof (cases "prefix p q")
      case pre: True
      then obtain x where "q = p @ x" by (auto simp: prefix_def)
      then show ?thesis using True by simp
    qed (use True out [of q] in simp)
    moreover have "Stat h3 target" using h3 free(3) True p2(2) by (simp add: Stat_def)
    ultimately show ?thesis using h3 wf2 same by blast
  next
    case False
    have ren: "renamed p t h2 h3" by (rule f(2) [OF e False])
    then have "node_at h3 q = (if prefix t q then node_at h2 (p @ drop (length t) q) else node_at h q)" for q
      using out [of q] no_node_below [OF wf free(1), of q] unfolding renamed_def by (cases "prefix p q") simp_all
    moreover have "same_host h h3" using ren same by (auto simp: renamed_def same_host_def)
    moreover from calculation have "path_of h3 target = t" "node_at h3 t = node_at h2 p" using paths(2) by (simp_all add: same_host_def)
    then have "Stat h3 target" using free(3) by (simp add: Stat_def)
    ultimately show ?thesis using ren unfolding renamed_def by blast
  qed
qed

lemma pull_facts:
  assumes "pull r rnd digest h = (res, h')" "host_wf h" "sr_CacheDir r \<noteq> ''''" "CHR ''/'' \<notin> set digest"
  shows "host_wf h' \<and> same_host h h' \<and>
    (case res of
       Inl e \<Rightarrow> node_at h' = node_at h
     | Inr t \<Rightarrow> t = layer_target r digest \<and> Stat h' t \<and> (if Stat h t then h' = h else pulled r rnd digest h h'))"
proof (cases "Stat h (layer_target r digest)")
  case True
  then show ?thesis using assms(1,2) by (auto simp: pull_def Let_def)
next
  case no: False
  let ?t = "layer_target r digest"
  show ?thesis
  proof (cases "sr_Get r digest")
    case (Inl e)
    then show ?thesis using no assms(1,2) by (auto simp: pull_def Let_def)
  next
    case rc: (Inr rc)
    obtain tres h1 where mk: "MkdirTemp (sr_CacheDir r) (pull_base rnd) h = (tres, h1)" by fastforce
    show ?thesis
    proof (cases tres)
      case (Inl e)
      then show ?thesis using no rc mk assms(1,2) MkdirTemp_facts [OF mk assms(2)] by (auto simp: pull_def Let_def)
    next
      case tmp: (Inr tmp)
      have m: "tmp = temp_path (hs_tmp h) (sr_CacheDir r) (pull_base rnd)" "h1 = put_node (path_of h tmp) Directory h" "host_wf h1"
        "path_of h tmp \<noteq> []" "node_at h (path_of h tmp) = None" "node_at h (butlast (path_of h tmp)) = Some Directory"
        "\<not> hs_denied h (path_of h tmp)"
        using MkdirTemp_facts [OF mk assms(2)] tmp by auto
      have nd: "named_dir tmp" and tw: "path_of h tmp = path_of h (sr_CacheDir r) @ [pull_base rnd]"
        using temp_path_facts [OF assms(3) pull_base_proper(2,1)] m(1) by metis+
      have p1: "path_of h1 x = path_of h x" for x by (simp add: m(2))
      have "butlast (path_of h tmp) \<noteq> path_of h tmp" using m(4) by (metis append_butlast_last_id append_self_conv not_Cons_self2)
      then have "room (path_of h1 tmp) h1" using m by (simp add: room_def)
      obtain xres h2 where ex: "extractTarGz r rc tmp h1 = (xres, h2)" by fastforce
      note st = extractTarGz_stays [OF ex \<open>room (path_of h1 tmp) h1\<close> nd, unfolded p1]
      have p2: "path_of h2 x = path_of h x" for x using stays_path [OF st(1)] p1 by simp
      note undo = RemoveAll_undo [OF st(1) p2 m(2) assms(2) m(5,4)]
      have P: "pull r rnd digest h = (case xres of
          Inl err \<Rightarrow> (Inl err, RemoveAll tmp h2)
        | Inr got \<Rightarrow>
            if \<not> digestMatches digest got then (Inl (DigestMismatch digest got), RemoveAll tmp h2)
            else case Rename tmp ?t h2 of
              (None, h3) \<Rightarrow> (Inr ?t, h3)
            | (Some e, h3) \<Rightarrow> if Stat h3 ?t then (Inr ?t, RemoveAll tmp h3) else (Inl (OsError e), RemoveAll tmp h3))"
        using no rc mk tmp ex by (auto simp: pull_def Let_def)
      show ?thesis
      proof (cases xres)
        case (Inl e)
        then show ?thesis using P assms(1) undo by auto
      next
        case got: (Inr got)
        have free: "node_at h2 (path_of h tmp) \<noteq> None" using st(2) got m(2) by simp
        have no': "node_at h (path_of h ?t) = None" using no by (simp add: Stat_def)
        obtain e h3 where rn: "Rename tmp ?t h2 = (e, h3)" by fastforce
        have below: "path_of h ?t = path_of h tmp" if "prefix (path_of h tmp) (path_of h ?t)"
          using target_not_below [OF assms(3,4)] that tw by simp
        note stage = rename_stage [OF st(1) [unfolded m(2)] assms(2) m(5,7) free refl refl no' below rn]
        show ?thesis
        proof (cases "digestMatches digest got \<and> e = None")
          case True
          then have "res = Inr ?t" "h' = h3" using P assms(1) got rn by auto
          moreover have "pulled r rnd digest h h3"
            unfolding pulled_def Let_def using rc mk tmp ex got stage(2) True by blast
          ultimately show ?thesis using stage(2) True no by simp
        next
          case False
          then have "\<exists>x. res = Inl x" "h' = RemoveAll tmp h2" using P assms(1) got rn stage(1) by (auto split: if_splits)
          then show ?thesis using undo by auto
        qed
      qed
    qed
  qed
qed

lemma ensureLocal_pull: "ensureLocal r rnd digest h = pull r rnd digest h"
  by (simp add: ensureLocal_def pull_def Let_def)

lemma pull_keeps:
  assumes "pull r rnd digest h = (res, h')" "host_wf h" "sr_CacheDir r \<noteq> ''''" "CHR ''/'' \<notin> set digest" "node_at h q = Some n"
  shows "node_at h' q = Some n"
proof (cases res)
  case (Inl e)
  then show ?thesis using pull_facts [OF assms(1-4)] assms(5) by simp
next
  case (Inr t)
  show ?thesis
  proof (cases "Stat h t")
    case False
    then have "pulled r rnd digest h h'" "node_at h (path_of h (layer_target r digest)) = None"
      using pull_facts [OF assms(1-4)] Inr by (auto simp: Stat_def)
    then show ?thesis using no_node_below [OF assms(2)] assms(5) unfolding pulled_def Let_def by (metis option.distinct(1))
  qed (use pull_facts [OF assms(1-4)] Inr assms(5) in simp)
qed

lemma nop_resolve_iff: "NopResolver_Resolve ms h = None \<longleftrightarrow> list_all (nop_ready h) ms"
  by (induction ms) (auto simp: nop_ready_def)

interpretation nop: layer_resolver "\<lambda>ms h. (NopResolver_Resolve ms h, ms, h)" nop_ready "\<lambda>m. True" "\<lambda>h. True"
  by unfold_locales (auto simp: nop_resolve_iff list_all_iff)

lemma store_resolve_facts:
  assumes "StoreResolver_Resolve r rnd i ms h = (e, ms', h')" "resolver_inv r h" "list_all plain_digest ms"
  shows "resolver_inv r h' \<and> same_host h h' \<and> list_all plain_digest ms' \<and>
    (\<forall>q n. node_at h q = Some n \<longrightarrow> node_at h' q = Some n) \<and> (e = None \<longrightarrow> list_all (store_ready r h') ms') \<and>
    map (\<lambda>m. (gl_Name m, gl_MountPath m, gl_Digest m)) ms' = map (\<lambda>m. (gl_Name m, gl_MountPath m, gl_Digest m)) ms"
  using assms
proof (induction ms arbitrary: i h ms' e h')
  case (Cons m ms)
  have inv: "host_wf h" "sr_CacheDir r \<noteq> ''''" and md: "CHR ''/'' \<notin> set (gl_Digest m)"
    using Cons.prems by (auto simp: resolver_inv_def plain_digest_def)
  show ?case
  proof (cases "gl_Digest m = ''''")
    case True
    obtain x ms1 h1 where rec: "StoreResolver_Resolve r rnd (Suc i) ms h = (x, ms1, h1)" by (metis prod_cases3)
    note ih = Cons.IH [OF rec Cons.prems(2)]
    show ?thesis
    proof (cases "nop_ready h m")
      case ok: True
      then have eq: "e = x" "ms' = m # ms1" "h' = h1" using Cons.prems(1) True rec by (auto simp: nop_ready_def)
      have "nop_ready h1 m" using ih ok Cons.prems(3) by (auto simp: nop_ready_def Stat_def same_host_def)
      then show ?thesis using ih eq Cons.prems(3) True by (auto simp: store_ready_def)
    next
      case False
      then have "e \<noteq> None" "ms' = m # ms" "h' = h" using Cons.prems(1) True by (auto simp: nop_ready_def split: if_splits)
      then show ?thesis using Cons.prems by auto
    qed
  next
    case False
    obtain res h1 where p: "pull r (rnd i) (gl_Digest m) h = (res, h1)" by fastforce
    note f = pull_facts [OF p inv md] and k = pull_keeps [OF p inv md]
    have inv1: "resolver_inv r h1" using f inv by (simp add: resolver_inv_def)
    show ?thesis
    proof (cases res)
      case (Inl err)
      then have "e \<noteq> None" "ms' = m # ms" "h' = h1" using Cons.prems(1) False p by (auto simp: ensureLocal_pull)
      then show ?thesis using f k inv1 Cons.prems(3) by auto
    next
      case (Inr path)
      obtain x ms1 h2 where rec: "StoreResolver_Resolve r rnd (Suc i) ms h1 = (x, ms1, h2)" by (metis prod_cases3)
      have eq: "e = x" "ms' = m\<lparr>gl_HostPath := path\<rparr> # ms1" "h' = h2" using Cons.prems(1) False p Inr rec by (auto simp: ensureLocal_pull)
      note ih = Cons.IH [OF rec inv1]
      have "store_ready r h2 (m\<lparr>gl_HostPath := path\<rparr>)"
        using f ih Inr False Cons.prems(3) by (auto simp: store_ready_def Stat_def same_host_def)
      then show ?thesis using ih eq f k Cons.prems(3) by (auto simp: plain_digest_def same_host_def)
    qed
  qed
qed auto

lemma store_resolve_done: "list_all (store_ready r h) ms \<Longrightarrow> StoreResolver_Resolve r rnd i ms h = (None, ms, h)"
  by (induction ms arbitrary: i) (auto simp: store_ready_def nop_ready_def ensureLocal_def)

lemma store_ready_keeps: "same_host h h' \<Longrightarrow> (\<forall>q n. node_at h q = Some n \<longrightarrow> node_at h' q = Some n) \<Longrightarrow> store_ready r h m \<Longrightarrow> store_ready r h' m"
  by (auto simp: store_ready_def nop_ready_def Stat_def same_host_def split: if_splits)

interpretation sr: layer_resolver "StoreResolver_Resolve r rnd 0" "store_ready r" plain_digest "resolver_inv r" for r rnd
proof (unfold_locales, goal_cases)
  case (1 h ms ms' h')
  then show ?case using store_resolve_facts by blast
next
  case (2 h ms e ms' h' m)
  then show ?case using store_resolve_facts [OF 2(3,1,2)] store_ready_keeps by blast
next
  case (3 h ms e ms' h')
  then show ?case using store_resolve_facts by blast
qed (simp add: store_resolve_done)

subsection \<open>One pull per digest\<close>

lemma set_call_frame [simp]:
  "ps_calls (set_call i c s) = (ps_calls s)(i := c)" "ps_pulling (set_call i c s) = ps_pulling s"
  "ps_closed (set_call i c s) = ps_closed s" "ps_next (set_call i c s) = ps_next s" "ps_host (set_call i c s) = ps_host s"
  by (simp_all add: set_call_def)

lemma slot_chan: "owns_slot c = Some (d, ch) \<Longrightarrow> owns_chan c = Some ch"
  by (cases c) auto

lemma pull_inv_plain:
  assumes "pull_inv s" "owns_chan (ps_calls s i) = owns_chan c" "owns_slot (ps_calls s i) = owns_slot c"
    and "\<And>d ch. c = Waiting d ch \<Longrightarrow> map_of (ps_pulling s) d = Some ch"
  shows "pull_inv (set_call i c s)"
proof -
  have e: "owns_chan (ps_calls (set_call i c s) j) = owns_chan (ps_calls s j)"
    "owns_slot (ps_calls (set_call i c s) j) = owns_slot (ps_calls s j)" for j
    by (cases "j = i"; simp add: assms(2,3))+
  have w: "ch \<in> ps_closed s \<or> (\<exists>j. owns_chan (ps_calls s j) = Some ch)" if "ps_calls (set_call i c s) j = Waiting d ch" for j d ch
  proof (cases "j = i")
    case True
    then have "map_of (ps_pulling s) d = Some ch" using that assms(4) by simp
    then obtain k where "owns_slot (ps_calls s k) = Some (d, ch)" using assms(1) by (auto simp: pull_inv_def)
    then show ?thesis using slot_chan by blast
  qed (use that assms(1) in \<open>auto simp: pull_inv_def\<close>)
  show ?thesis using assms(1) w unfolding pull_inv_def e by simp
qed

lemma pull_inv_slot:
  assumes "pull_inv s" "ps_calls s i = Missed d" "map_of (ps_pulling s) d = None"
  shows "pull_inv (set_call i (Pulling d (ps_next s)) (s\<lparr>ps_pulling := map_put d (ps_next s) (ps_pulling s), ps_next := Suc (ps_next s)\<rparr>))"
    (is "pull_inv ?s")
proof -
  have lt: "owns_chan (ps_calls s j) = Some ch \<Longrightarrow> ch < ps_next s" for j ch using assms(1) by (auto simp: pull_inv_def)
  have chan: "owns_chan (ps_calls ?s j) = (if j = i then Some (ps_next s) else owns_chan (ps_calls s j))"
    "owns_slot (ps_calls ?s j) = (if j = i then Some (d, ps_next s) else owns_slot (ps_calls s j))" for j by simp_all
  have i: "owns_chan (ps_calls s i) = None" "owns_slot (ps_calls s i) = None" using assms(2) by simp_all
  have bound: "owns_chan (ps_calls ?s j) = Some ch \<Longrightarrow> ch < ps_next ?s" for j ch using lt [of j ch] by (cases "j = i") auto
  have uniq: "owns_chan (ps_calls ?s j) = Some ch \<Longrightarrow> owns_chan (ps_calls ?s k) = Some ch \<Longrightarrow> j = k" for j k ch
    using lt [of j ch] lt [of k ch] assms(1) unfolding chan pull_inv_def by (auto split: if_splits)
  have slots: "map_of (ps_pulling ?s) x = Some ch \<longleftrightarrow> (\<exists>j. owns_slot (ps_calls ?s j) = Some (x, ch))" for x ch
  proof (cases "x = d")
    case True
    have "owns_slot (ps_calls s j) \<noteq> Some (d, c)" for j c using assms(1,3) unfolding pull_inv_def by (metis option.distinct(1))
    then show ?thesis using True unfolding chan by auto
  next
    case False
    then show ?thesis using assms(1) i unfolding chan pull_inv_def by (auto split: if_splits) (metis option.distinct(1))
  qed
  have wait: "ps_calls ?s j = Waiting x ch \<Longrightarrow> ch \<in> ps_closed ?s \<or> (\<exists>k. owns_chan (ps_calls ?s k) = Some ch)" for j x ch
  proof (cases "j = i")
    case False
    assume "ps_calls ?s j = Waiting x ch"
    then have "ch \<in> ps_closed s \<or> (\<exists>k. owns_chan (ps_calls s k) = Some ch)" using assms(1) False by (auto simp: pull_inv_def)
    then show ?thesis using i unfolding chan by (auto split: if_splits) (metis option.distinct(1))
  qed simp
  show ?thesis unfolding pull_inv_def using bound uniq slots wait by blast
qed

lemma pull_inv_leave:
  assumes "pull_inv s" "ps_calls s i = Leaving d ch res"
  shows "pull_inv (set_call i (Closing d ch res) (s\<lparr>ps_pulling := map_del d (ps_pulling s)\<rparr>))" (is "pull_inv ?s")
proof -
  have chan: "owns_chan (ps_calls ?s j) = owns_chan (ps_calls s j)"
    "owns_slot (ps_calls ?s j) = (if j = i then None else owns_slot (ps_calls s j))" for j using assms(2) by simp_all
  have own: "map_of (ps_pulling s) d = Some ch"
    using assms unfolding pull_inv_def by (metis owns_slot.simps(2))
  have only: "owns_slot (ps_calls s j) = Some (d, c) \<Longrightarrow> j = i" for j c
  proof -
    assume a: "owns_slot (ps_calls s j) = Some (d, c)"
    then have "c = ch" using assms(1) own unfolding pull_inv_def by (metis option.inject)
    then have "owns_chan (ps_calls s j) = Some ch" "owns_chan (ps_calls s i) = Some ch" using slot_chan a assms(2) by auto
    then show "j = i" using assms(1) unfolding pull_inv_def by blast
  qed
  have slots: "map_of (ps_pulling ?s) x = Some c \<longleftrightarrow> (\<exists>j. owns_slot (ps_calls ?s j) = Some (x, c))" for x c
  proof (cases "x = d")
    case True
    then show ?thesis using only unfolding chan by auto
  next
    case False
    moreover have "owns_slot (ps_calls s i) = Some (d, ch)" using assms(2) by simp
    then have "j \<noteq> i" if "owns_slot (ps_calls s j) = Some (x, c)" for j using that False by auto
    ultimately show ?thesis using assms(1) unfolding chan pull_inv_def by (auto split: if_splits)
  qed
  have wait: "ps_calls ?s j = Waiting x c \<Longrightarrow> c \<in> ps_closed ?s \<or> (\<exists>k. owns_chan (ps_calls ?s k) = Some c)" for j x c
    using assms(1) unfolding chan pull_inv_def by (cases "j = i") auto
  show ?thesis using assms(1) slots wait unfolding pull_inv_def chan by simp
qed

lemma pull_inv_close:
  assumes "pull_inv s" "ps_calls s i = Closing d ch res"
  shows "pull_inv (set_call i (Returned d res) (s\<lparr>ps_closed := insert ch (ps_closed s)\<rparr>))" (is "pull_inv ?s")
proof -
  have chan: "owns_chan (ps_calls ?s j) = (if j = i then None else owns_chan (ps_calls s j))"
    "owns_slot (ps_calls ?s j) = owns_slot (ps_calls s j)" for j using assms(2) by simp_all
  have wait: "ps_calls ?s j = Waiting x c \<Longrightarrow> c \<in> ps_closed ?s \<or> (\<exists>k. owns_chan (ps_calls ?s k) = Some c)" for j x c
  proof (cases "j = i")
    case False
    assume "ps_calls ?s j = Waiting x c"
    then have "c \<in> ps_closed s \<or> (\<exists>k. owns_chan (ps_calls s k) = Some c)" using assms(1) False by (auto simp: pull_inv_def)
    then show ?thesis using assms(2) unfolding chan by (cases "c = ch") (auto, metis option.inject owns_chan.simps(3))
  qed simp
  show ?thesis using assms(1) wait unfolding pull_inv_def chan by simp
qed

lemma pull_inv_step:
  assumes "pull_step r s s'" "pull_inv s"
  shows "pull_inv s'"
  using assms(1)
proof (cases rule: pull_step.cases)
  case (work i d ch rnd res h)
  have "pull_inv (s\<lparr>ps_host := h\<rparr>)" using assms(2) by (simp add: pull_inv_def)
  then show ?thesis unfolding work using work(2) by (intro pull_inv_plain) simp_all
next
  case (slot i d ch)
  then show ?thesis using pull_inv_slot [OF assms(2)] by simp
qed (use assms(2) in \<open>auto intro!: pull_inv_plain pull_inv_leave pull_inv_close\<close>)

lemma pull_run_inv: "pull_run r h s \<Longrightarrow> pull_inv s"
proof (induction rule: pull_run.induct)
  case pull_nil
  then show ?case by (simp add: pull_inv_def pull_init_def)
qed (rule pull_inv_step)

lemma named_room: "host_wf h \<Longrightarrow> named_dir dst \<Longrightarrow> node_at h (butlast (path_of h dst)) = Some Directory \<Longrightarrow> room (path_of h dst) h"
  using walk_Dir [of "Clean dst" "hs_cwd h"] last_split_Clean [of dst] by (simp add: named_dir_def room_def)

lemma accepted_entry:
  assumes "writeEntry dst e h = (None, h')" "room (path_of h dst) h" "named_dir dst"
  shows "hdr_Name e \<noteq> ''''" "\<not> IsAbs (hdr_Name e)" "''..'' \<notin> set (split_on CHR ''/'' (hdr_Name e))" "hdr_Typeflag e \<noteq> TypeSymlink"
    "hdr_Typeflag e = TypeReg \<Longrightarrow>
       node_at h' (path_of h dst @ filter proper (split_on CHR ''/'' (hdr_Name e))) = Some (Regular (file_mode (hdr_Mode e)) (te_body e))"
proof -
  obtain t where t: "safeJoin dst (hdr_Name e) = Inr t"
    using assms(1) by (cases "safeJoin dst (hdr_Name e)") (auto simp: writeEntry_def)
  then show "hdr_Name e \<noteq> ''''" "\<not> IsAbs (hdr_Name e)" "''..'' \<notin> set (split_on CHR ''/'' (hdr_Name e))"
    by (auto simp: safeJoin_def Let_def list_ex_iff split: if_splits)
  show "hdr_Typeflag e \<noteq> TypeSymlink" using assms(1) t by (auto simp: writeEntry_def)
  show "hdr_Typeflag e = TypeReg \<Longrightarrow>
      node_at h' (path_of h dst @ filter proper (split_on CHR ''/'' (hdr_Name e))) = Some (Regular (file_mode (hdr_Mode e)) (te_body e))"
    using writeEntry_regular(2) [OF assms _ t refl] safeJoin_inside [OF t assms(3), of "hs_cwd h"] by auto
qed

section \<open>Properties\<close>

lemma demo_host_wf: "host_wf demo_host"
  by (auto simp: host_wf_def demo_host_def split: if_splits)

text \<open>
  (C17) Extraction cannot leave its directory: whatever the entries of an archive are called and
  whatever their types, extracting it into a directory changes nothing outside that directory; an
  entry whose name has a component \<open>..\<close> or is absolute, or that is a symbolic link, ends the
  extraction with an error; a regular entry that is accepted is afterwards the file of its name,
  cleaned, with its bytes and permission bits.
\<close>

theorem extraction_contained:
  assumes wf: "host_wf h" and dst: "named_dir dst" "node_at h (butlast (path_of h dst)) = Some Directory"
  shows "(\<forall>q. \<not> prefix (path_of h dst) q \<longrightarrow> node_at (snd (extractTarGz r rc dst h)) q = node_at h q) \<and>
    (fst (writeEntry dst e h) = None \<longrightarrow>
       hdr_Name e \<noteq> '''' \<and> \<not> IsAbs (hdr_Name e) \<and> ''..'' \<notin> set (split_on CHR ''/'' (hdr_Name e)) \<and> hdr_Typeflag e \<noteq> TypeSymlink \<and>
       (hdr_Typeflag e = TypeReg \<longrightarrow>
          node_at (snd (writeEntry dst e h)) (path_of h dst @ filter proper (split_on CHR ''/'' (hdr_Name e))) =
            Some (Regular (file_mode (hdr_Mode e)) (te_body e))))"
proof -
  have room: "room (path_of h dst) h" by (rule named_room [OF wf dst])
  obtain res h' where x: "extractTarGz r rc dst h = (res, h')" by fastforce
  have "\<forall>q. \<not> prefix (path_of h dst) q \<longrightarrow> node_at h' q = node_at h q"
    using extractTarGz_stays(1) [OF x room dst(1)] by (simp add: stays_def differ_below_def)
  then show ?thesis using x accepted_entry [OF _ room dst(1), of e] by (cases "writeEntry dst e h") auto
qed

theorem extraction_contained_witness:
  "node_at (snd (extractTarGz demo_resolver \<lparr>rd_bytes = ''tgz'', rd_err = None\<rparr> ''/cache/new'' demo_host)) [''etc'', ''passwd''] =
     Some (Regular 420 ''root'')"
proof -
  have d: "named_dir ''/cache/new''" "path_of demo_host ''/cache/new'' = [''cache'', ''new'']" by code_simp+
  have "node_at demo_host (butlast (path_of demo_host ''/cache/new'')) = Some Directory" unfolding d(2) by code_simp
  note c = extraction_contained [OF demo_host_wf d(1) this, of demo_resolver "\<lparr>rd_bytes = ''tgz'', rd_err = None\<rparr>"]
  have "node_at demo_host [''etc'', ''passwd''] = Some (Regular 420 ''root'')" by code_simp
  then show ?thesis using c by (simp add: d(2))
qed



text \<open>
  Resolved layers stay resolved: after a successful \<open>Resolve\<close> every mount points to a path that
  exists, under the name, the mount path and the digest it had; and however many other lists of
  mounts are resolved afterwards, with or without success, resolving the result again succeeds and
  changes neither the mounts nor the host.
\<close>

theorem resolved_layers_stay:
  assumes "host_wf h" "sr_CacheDir r \<noteq> ''''" "list_all plain_digest ms" "list_all (list_all plain_digest) mss"
    and "StoreResolver_Resolve r rnd 0 ms h = (None, ms', h')"
  shows "list_all (\<lambda>m. Stat h' (gl_HostPath m)) ms' \<and>
    map (\<lambda>m. (gl_Name m, gl_MountPath m, gl_Digest m)) ms' = map (\<lambda>m. (gl_Name m, gl_MountPath m, gl_Digest m)) ms \<and>
    (let later = resolve_each (StoreResolver_Resolve r rnd 0) mss h' in StoreResolver_Resolve r rnd 0 ms' later = (None, ms', later))"
proof -
  have inv: "resolver_inv r h" using assms(1,2) by (simp add: resolver_inv_def)
  note f = store_resolve_facts [OF assms(5) inv assms(3)]
  then have "list_all (\<lambda>m. Stat h' (gl_HostPath m)) ms'"
    by (auto simp: list_all_iff store_ready_def nop_ready_def split: if_splits)
  then show ?thesis using f sr.resolved_stays [OF inv assms(3,5,4)] by (simp add: Let_def)
qed

theorem resolved_layers_stay_witness:
  "let (e, ms', h') = StoreResolver_Resolve demo_resolver (\<lambda>i. 7) 0 [demo_mount] demo_host;
       later = resolve_each (StoreResolver_Resolve demo_resolver (\<lambda>i. 7) 0) [[demo_mount\<lparr>gl_Digest := ''sha256:CD''\<rparr>]] h'
   in e = None \<and> StoreResolver_Resolve demo_resolver (\<lambda>i. 7) 0 ms' later = (None, ms', later)"
proof -
  let ?R = "StoreResolver_Resolve demo_resolver (\<lambda>i. 7) 0"
  have c: "sr_CacheDir demo_resolver \<noteq> ''''" by (simp add: demo_resolver_def)
  have p: "list_all plain_digest [demo_mount]" "list_all (list_all plain_digest) [[demo_mount\<lparr>gl_Digest := ''sha256:CD''\<rparr>]]" by code_simp+
  have "fst (?R [demo_mount] demo_host) = None" by code_simp
  then obtain ms' h' where r: "?R [demo_mount] demo_host = (None, ms', h')" by (metis prod.collapse)
  then show ?thesis using resolved_layers_stay [OF demo_host_wf c p r] by (simp add: Let_def)
qed

text \<open>
  (C18) However calls of \<open>ensureLocal\<close> interleave, no digest is pulled by two of them at once, and a
  call that waits is never left alone: the channel it waits for is closed, or the call that will
  close it is still at work.
\<close>

theorem one_pull_per_digest:
  assumes "pull_run r h s"
  shows "(\<forall>i j d c c'. ps_calls s i = Pulling d c \<longrightarrow> ps_calls s j = Pulling d c' \<longrightarrow> i = j) \<and>
    (\<forall>i d c. ps_calls s i = Waiting d c \<longrightarrow>
       c \<in> ps_closed s \<or> (\<exists>j d' res. ps_calls s j \<in> {Pulling d' c, Leaving d' c res, Closing d' c res}))"
proof -
  note inv = pull_run_inv [OF assms, unfolded pull_inv_def]
  have "i = j" if a: "ps_calls s i = Pulling d c" "ps_calls s j = Pulling d c'" for i j d c c'
  proof -
    have "map_of (ps_pulling s) d = Some c" "map_of (ps_pulling s) d = Some c'" using inv a by (metis owns_slot.simps(1))+
    then show ?thesis using inv a by (metis option.inject owns_chan.simps(1))
  qed
  moreover have own: "\<exists>d' res. ps_calls s j \<in> {Pulling d' c, Leaving d' c res, Closing d' c res}" if "owns_chan (ps_calls s j) = Some c" for j c
    using that by (cases "ps_calls s j") auto
  have "c \<in> ps_closed s \<or> (\<exists>j d' res. ps_calls s j \<in> {Pulling d' c, Leaving d' c res, Closing d' c res})"
    if "ps_calls s i = Waiting d c" for i d c
  proof -
    have "c \<in> ps_closed s \<or> (\<exists>j. owns_chan (ps_calls s j) = Some c)" using inv that by metis
    then show ?thesis using own by metis
  qed
  ultimately show ?thesis by metis
qed

lemma demo_pull_missing:
  "\<exists>s. pull_run demo_resolver demo_host s \<and> ps_calls s 0 = Pulling ''sha256:CD'' 0 \<and> ps_calls s 1 = Waiting ''sha256:CD'' 0 \<and>
     ps_host s = demo_host"
proof -
  let ?d = "''sha256:CD''" and ?r = demo_resolver
  have no: "\<not> Stat demo_host (layer_target ?r ?d)" by code_simp
  define s1 where "s1 = set_call 1 (Missed ?d) (set_call 1 (Starting ?d) (set_call 0 (Missed ?d) (set_call 0 (Starting ?d) (pull_init demo_host))))"
  have f: "ps_calls s1 0 = Missed ?d" "ps_calls s1 1 = Missed ?d" "ps_host s1 = demo_host" "ps_pulling s1 = []" "ps_next s1 = 0"
    by (simp_all add: s1_def pull_init_def)
  have "pull_run ?r demo_host s1" unfolding s1_def
    by (intro pull_cons [OF _ missed] pull_cons [OF _ start] pull_nil) (use no in \<open>simp_all add: pull_init_def\<close>)
  then have "pull_run ?r demo_host (set_call 0 (Pulling ?d 0) (s1\<lparr>ps_pulling := map_put ?d 0 (ps_pulling s1), ps_next := Suc 0\<rparr>))"
    by (rule pull_cons [OF _ slot]) (use f in simp_all)
  then have "pull_run ?r demo_host (set_call 1 (Waiting ?d 0) (set_call 0 (Pulling ?d 0) (s1\<lparr>ps_pulling := map_put ?d 0 (ps_pulling s1), ps_next := Suc 0\<rparr>)))"
    (is "pull_run _ _ ?s") by (rule pull_cons [OF _ queue]) (use f in simp_all)
  then show ?thesis using f by (intro exI [of _ ?s]) simp
qed

theorem one_pull_per_digest_witness:
  "\<exists>s. pull_run demo_resolver demo_host s \<and> ps_calls s 1 = Waiting ''sha256:CD'' 0 \<and>
     (0 \<in> ps_closed s \<or> (\<exists>j d' res. ps_calls s j \<in> {Pulling d' 0, Leaving d' 0 res, Closing d' 0 res}))"
  using demo_pull_missing one_pull_per_digest by blast

text \<open>
  A failed pull is reported as a success to the calls that waited for it: when the store does
  not have a layer, the call that asked it fails and the waiting call returns the layer's path
  without an error, although there is nothing at that path.
\<close>

theorem waiter_gets_missing_layer:
  assumes "pull_run r h s" "ps_calls s i = Pulling d ch" "ps_calls s j = Waiting d ch" "i \<noteq> j"
    and "\<not> Stat (ps_host s) (layer_target r d)" "sr_Get r d = Inl msg"
  shows "\<exists>s'. pull_run r h s' \<and> ps_calls s' i = Returned d (Inl (StoreFailed msg)) \<and>
    ps_calls s' j = Returned d (Inr (layer_target r d)) \<and> \<not> Stat (ps_host s') (layer_target r d)"
proof -
  let ?e = "Inl (StoreFailed msg)"
  have p: "pull r 0 d (ps_host s) = (?e, ps_host s)" using assms(5,6) by (simp add: pull_def Let_def)
  define s1 where "s1 = set_call i (Leaving d ch ?e) (s\<lparr>ps_host := ps_host s\<rparr>)"
  define s2 where "s2 = set_call i (Closing d ch ?e) (s1\<lparr>ps_pulling := map_del d (ps_pulling s1)\<rparr>)"
  define s3 where "s3 = set_call i (Returned d ?e) (s2\<lparr>ps_closed := insert ch (ps_closed s2)\<rparr>)"
  have "pull_run r h s1" unfolding s1_def by (rule pull_cons [OF assms(1) work [OF assms(2) p]])
  then have "pull_run r h s2" unfolding s2_def by (rule pull_cons [OF _ leave]) (simp add: s1_def)
  then have "pull_run r h s3" unfolding s3_def by (rule pull_cons [OF _ close]) (simp add: s2_def)
  moreover have f: "ps_calls s3 j = Waiting d ch" "ch \<in> ps_closed s3" "ps_calls s3 i = Returned d ?e" "ps_host s3 = ps_host s"
    using assms(3,4) by (simp_all add: s3_def s2_def s1_def)
  ultimately have "pull_run r h (set_call j (Returned d (Inr (layer_target r d))) s3)" by (blast intro: pull_cons wake)
  then show ?thesis using f assms(4,5)
    by (intro exI [of _ "set_call j (Returned d (Inr (layer_target r d))) s3"]) simp
qed

theorem waiter_gets_missing_layer_witness:
  "\<exists>s'. pull_run demo_resolver demo_host s' \<and> ps_calls s' 1 = Returned ''sha256:CD'' (Inr ''/cache/sha256-CD'') \<and>
     \<not> Stat (ps_host s') ''/cache/sha256-CD''"
proof -
  obtain s where s: "pull_run demo_resolver demo_host s" "ps_calls s 0 = Pulling ''sha256:CD'' 0" "ps_calls s 1 = Waiting ''sha256:CD'' 0"
    "ps_host s = demo_host" using demo_pull_missing by blast
  have t: "layer_target demo_resolver ''sha256:CD'' = ''/cache/sha256-CD''" by code_simp
  have n: "\<not> Stat (ps_host s) (layer_target demo_resolver ''sha256:CD'')" unfolding s(4) by code_simp
  have g: "sr_Get demo_resolver ''sha256:CD'' = Inl ''no such layer''" by code_simp
  show ?thesis using waiter_gets_missing_layer [OF s(1,2,3) _ n g] unfolding t by auto
qed

end
