(* ===== verification/Layer_Store.thy ===== *)
theory Layer_Store
  imports Paths Json
begin

text \<open>
  The content-addressed layer store, \<open>internal/layers/store.go\<close>, on the file tree of the host. The
  source directory of \<open>Add\<close> is the list of entries \<open>filepath.Walk\<close> reports, with the file types the
  store refuses or skips. SHA-256 and the JSON text of the index and of a manifest are arguments
  (\<open>store_lib\<close>), with the laws \<open>lib_ok\<close>.
\<close>

section \<open>Definitions\<close>

record LayerManifest =
  lf_Name :: string
  lf_Version :: string
  lf_Runtime :: string
  lf_MountPath :: string
  lf_Digest :: string
  lf_Size :: nat

record LayerRef =
  rf_Name :: string
  rf_Version :: string

datatype layers_error =
    EmptyRef
  | NameAndVersionRequired
  | MountNotAbsolute string
  | SourceMissing
  | SourceNotDirectory
  | SourceUnreadable
  | SymlinkInSource string
  | IoError os_error
  | BadJson
  | NotFoundRef string

definition ref_String :: "LayerRef \<Rightarrow> string" where
  "ref_String r = rf_Name r @ ''@'' @ rf_Version r"

definition ParseRef :: "string \<Rightarrow> layers_error + LayerRef" where
  "ParseRef s =
     (if s = '''' then Inl EmptyRef
      else case last_index s CHR ''@'' of
             None \<Rightarrow> Inr \<lparr>rf_Name = s, rf_Version = ''''\<rparr>
           | Some i \<Rightarrow> Inr \<lparr>rf_Name = take i s, rf_Version = drop (Suc i) s\<rparr>)"

subsection \<open>The source tree\<close>

datatype file_kind = IsDir | IsRegular string | IsSymlink | IsSpecial

record walk_entry =
  we_rel :: "string list"
  we_perm :: nat
  we_size :: nat
  we_kind :: file_kind
  we_failed :: bool

datatype source = NoSource | SourceFile | SourceDir "walk_entry list"

text \<open>\<open>filepath.Rel\<close> of an entry to the directory that is walked.\<close>

definition rel_text :: "string list \<Rightarrow> string" where
  "rel_text cs = (if cs = [] then ''.'' else join_with ''/'' cs)"

text \<open>The text of \<open>%o\<close>.\<close>

fun octal :: "nat \<Rightarrow> string" where
  "octal n = (if n < 8 then [digit_char n] else octal (n div 8) @ [digit_char (n mod 8)])"

record store_lib =
  lb_sha256 :: "string \<Rightarrow> string"
  lb_index :: "(string, string) gomap \<Rightarrow> string"
  lb_unindex :: "string \<Rightarrow> (string, string) gomap option"
  lb_manifest :: "LayerManifest \<Rightarrow> string"
  lb_unmanifest :: "string \<Rightarrow> LayerManifest option"

definition entry_text :: "walk_entry \<Rightarrow> string" where
  "entry_text e = rel_text (we_rel e) @ [CHR 0x00] @ octal (we_perm e) @ [CHR 0x00] @ decimal (we_size e) @ [CHR 0x00] @
     (case we_kind e of IsRegular b \<Rightarrow> b | _ \<Rightarrow> [])"

fun hash_walk :: "walk_entry list \<Rightarrow> string \<Rightarrow> nat \<Rightarrow> layers_error + string \<times> nat" where
  "hash_walk [] h sz = Inr (h, sz)"
| "hash_walk (e # es) h sz =
     (if we_failed e then Inl SourceUnreadable
      else if we_kind e = IsSymlink then Inl (SymlinkInSource (rel_text (we_rel e)))
      else hash_walk es (h @ entry_text e) (sz + (case we_kind e of IsRegular b \<Rightarrow> length b | _ \<Rightarrow> 0)))"

definition hashTree :: "store_lib \<Rightarrow> walk_entry list \<Rightarrow> layers_error + string \<times> nat" where
  "hashTree lib es =
     (case hash_walk es [] 0 of
        Inl e \<Rightarrow> Inl e
      | Inr (h, sz) \<Rightarrow> Inr (lb_sha256 lib h, sz))"

definition copy_entry :: "string \<Rightarrow> walk_entry \<Rightarrow> host \<Rightarrow> layers_error option \<times> host" where
  "copy_entry dst e h =
     (let target = Join [dst, rel_text (we_rel e)]
      in if we_failed e then (Some SourceUnreadable, h)
         else case we_kind e of
           IsDir \<Rightarrow> (let (x, h) = MkdirAll target h in (map_option IoError x, h))
         | IsSymlink \<Rightarrow> (Some (SymlinkInSource (rel_text (we_rel e))), h)
         | IsSpecial \<Rightarrow> (None, h)
         | IsRegular b \<Rightarrow>
             (case MkdirAll (Dir_of target) h of
                (Some x, h) \<Rightarrow> (Some (IoError x), h)
              | (None, h) \<Rightarrow> (let (x, h) = write_file target (we_perm e) b h in (map_option IoError x, h))))"

fun copyTree :: "string \<Rightarrow> walk_entry list \<Rightarrow> host \<Rightarrow> layers_error option \<times> host" where
  "copyTree dst [] h = (None, h)"
| "copyTree dst (e # es) h =
     (case copy_entry dst e h of
        (Some x, h) \<Rightarrow> (Some x, h)
      | (None, h) \<Rightarrow> copyTree dst es h)"

subsection \<open>The files of the store\<close>

definition ReadFile :: "string \<Rightarrow> host \<Rightarrow> os_error + string" where
  "ReadFile p h =
     (case node_at h (path_of h p) of
        None \<Rightarrow> Inl NotExist
      | Some Directory \<Rightarrow> Inl InvalidPath
      | Some (Regular m b) \<Rightarrow> Inr b)"

definition atomicWrite :: "string \<Rightarrow> string \<Rightarrow> host \<Rightarrow> os_error option \<times> host" where
  "atomicWrite p data h =
     (case write_file (p @ ''.tmp'') 420 data h of
        (Some e, h) \<Rightarrow> (Some e, h)
      | (None, h) \<Rightarrow> Rename (p @ ''.tmp'') p h)"

definition indexPath :: "string \<Rightarrow> string" where
  "indexPath root = Join [root, ''index.json'']"

definition manifestPath :: "string \<Rightarrow> string \<Rightarrow> string" where
  "manifestPath root digest = Join [root, ''blobs'', digest @ ''.json'']"

definition blobPath :: "string \<Rightarrow> string \<Rightarrow> string" where
  "blobPath root digest = Join [root, ''blobs'', digest]"

definition readIndex :: "store_lib \<Rightarrow> string \<Rightarrow> host \<Rightarrow> layers_error + (string, string) gomap" where
  "readIndex lib root h =
     (case ReadFile (indexPath root) h of
        Inl e \<Rightarrow> Inl (IoError e)
      | Inr b \<Rightarrow> (case lb_unindex lib b of None \<Rightarrow> Inl BadJson | Some idx \<Rightarrow> Inr idx))"

definition writeIndex :: "store_lib \<Rightarrow> string \<Rightarrow> (string, string) gomap \<Rightarrow> host \<Rightarrow> os_error option \<times> host" where
  "writeIndex lib root idx h = atomicWrite (indexPath root) (lb_index lib idx) h"

definition writeManifest :: "store_lib \<Rightarrow> string \<Rightarrow> string \<Rightarrow> LayerManifest \<Rightarrow> host \<Rightarrow> os_error option \<times> host" where
  "writeManifest lib root digest m h = atomicWrite (manifestPath root digest) (lb_manifest lib m) h"

definition readManifest :: "store_lib \<Rightarrow> string \<Rightarrow> string \<Rightarrow> host \<Rightarrow> layers_error + LayerManifest" where
  "readManifest lib root digest h =
     (case ReadFile (manifestPath root digest) h of
        Inl e \<Rightarrow> Inl (IoError e)
      | Inr b \<Rightarrow> (case lb_unmanifest lib b of None \<Rightarrow> Inl BadJson | Some m \<Rightarrow> Inr m))"

subsection \<open>Operations\<close>

definition Open_store :: "store_lib \<Rightarrow> string \<Rightarrow> host \<Rightarrow> os_error option \<times> host" where
  "Open_store lib root h =
     (case MkdirAll (Join [root, ''blobs'']) h of
        (Some e, h) \<Rightarrow> (Some e, h)
      | (None, h) \<Rightarrow> if \<not> Stat h (indexPath root) then writeIndex lib root [] h else (None, h))"

text \<open>The permission bits without \<open>0o222\<close>.\<close>

definition drop_write :: "nat \<Rightarrow> nat" where
  "drop_write m = m - ((m div 128 mod 2) * 128 + (m div 16 mod 2) * 16 + (m div 2 mod 2) * 2)"

definition drop_write_node :: "node \<Rightarrow> node" where
  "drop_write_node n = (case n of Directory \<Rightarrow> Directory | Regular m b \<Rightarrow> Regular (drop_write m) b)"

definition chmod_tree :: "string \<Rightarrow> host \<Rightarrow> host" where
  "chmod_tree p h =
     h\<lparr>hs_tree := map (\<lambda>(q, n). (q, if prefix (path_of h p) q then drop_write_node n else n)) (hs_tree h)\<rparr>"

definition add_blob :: "string \<Rightarrow> walk_entry list \<Rightarrow> host \<Rightarrow> layers_error option \<times> host" where
  "add_blob blobDir es h =
     (let tmp = blobDir @ ''.incoming''; h = RemoveAll tmp h
      in case copyTree tmp es h of
           (Some e, h) \<Rightarrow> (Some e, RemoveAll tmp h)
         | (None, h) \<Rightarrow>
             (case Rename tmp blobDir h of
                (Some e, h) \<Rightarrow> (Some (IoError e), RemoveAll tmp h)
              | (None, h) \<Rightarrow> (None, chmod_tree blobDir h)))"

text \<open>The end of \<open>Add\<close>: manifest, then index.\<close>

definition add_entry :: "store_lib \<Rightarrow> string \<Rightarrow> string \<Rightarrow> LayerManifest \<Rightarrow> host \<Rightarrow> (layers_error + LayerManifest) \<times> host" where
  "add_entry lib root digest man h =
     (case writeManifest lib root digest man h of
        (Some e, h) \<Rightarrow> (Inl (IoError e), h)
      | (None, h) \<Rightarrow>
          (case readIndex lib root h of
             Inl e \<Rightarrow> (Inl e, h)
           | Inr idx \<Rightarrow>
               (let idx = map_put (ref_String \<lparr>rf_Name = lf_Name man, rf_Version = lf_Version man\<rparr>) digest idx
                in case writeIndex lib root idx h of
                     (Some e, h) \<Rightarrow> (Inl (IoError e), h)
                   | (None, h) \<Rightarrow> (Inr man, h))))"

definition Add_layer ::
  "store_lib \<Rightarrow> string \<Rightarrow> string \<Rightarrow> string \<Rightarrow> string \<Rightarrow> string \<Rightarrow> source \<Rightarrow> host \<Rightarrow> (layers_error + LayerManifest) \<times> host" where
  "Add_layer lib root name version mountPath runtime src h =
     (if name = '''' \<or> version = '''' then (Inl NameAndVersionRequired, h)
      else if \<not> IsAbs mountPath then (Inl (MountNotAbsolute mountPath), h)
      else case src of
        NoSource \<Rightarrow> (Inl SourceMissing, h)
      | SourceFile \<Rightarrow> (Inl SourceNotDirectory, h)
      | SourceDir es \<Rightarrow>
          (case hashTree lib es of
             Inl e \<Rightarrow> (Inl e, h)
           | Inr (digest, sz) \<Rightarrow>
               (let blobDir = blobPath root digest
                in case (if Stat h blobDir then (None, h) else add_blob blobDir es h) of
                     (Some e, h) \<Rightarrow> (Inl e, h)
                   | (None, h) \<Rightarrow>
                       add_entry lib root digest
                         \<lparr>lf_Name = name, lf_Version = version, lf_Runtime = runtime, lf_MountPath = mountPath,
                          lf_Digest = ''sha256:'' @ digest, lf_Size = sz\<rparr> h)))"

definition select_digest :: "LayerRef \<Rightarrow> (string, string) gomap \<Rightarrow> string" where
  "select_digest ref idx =
     (if rf_Version ref \<noteq> '''' then map_get '''' idx (ref_String ref)
      else case rev (sort (filter (\<lambda>k. has_prefix k (rf_Name ref @ ''@'')) (map fst idx))) of
             [] \<Rightarrow> ''''
           | k # _ \<Rightarrow> map_get '''' idx k)"

definition Resolve_layer :: "store_lib \<Rightarrow> string \<Rightarrow> LayerRef \<Rightarrow> host \<Rightarrow> layers_error + LayerManifest \<times> string" where
  "Resolve_layer lib root ref h =
     (case readIndex lib root h of
        Inl e \<Rightarrow> Inl e
      | Inr idx \<Rightarrow>
          (let digest = select_digest ref idx
           in if digest = '''' then Inl (NotFoundRef (ref_String ref))
              else case readManifest lib root digest h of
                     Inl e \<Rightarrow> Inl e
                   | Inr man \<Rightarrow> Inr (man, blobPath root digest)))"

fun read_manifests :: "store_lib \<Rightarrow> string \<Rightarrow> (string, string) gomap \<Rightarrow> string list \<Rightarrow> host \<Rightarrow> layers_error + LayerManifest list" where
  "read_manifests lib root idx [] h = Inr []"
| "read_manifests lib root idx (r # rs) h =
     (case readManifest lib root (map_get '''' idx r) h of
        Inl e \<Rightarrow> Inl e
      | Inr m \<Rightarrow>
          (case read_manifests lib root idx rs h of
             Inl e \<Rightarrow> Inl e
           | Inr ms \<Rightarrow> Inr (m # ms)))"

definition List_layers :: "store_lib \<Rightarrow> string \<Rightarrow> host \<Rightarrow> layers_error + LayerManifest list" where
  "List_layers lib root h =
     (case readIndex lib root h of
        Inl e \<Rightarrow> Inl e
      | Inr idx \<Rightarrow> read_manifests lib root idx (sort (map fst idx)) h)"

subsection \<open>Laws of the library\<close>

definition hex_digest :: "string \<Rightarrow> bool" where
  "hex_digest d \<longleftrightarrow> d \<noteq> '''' \<and> list_all (\<lambda>c. is_digit c \<or> c \<in> set ''abcdef'') d"

definition manifest_utf8 :: "LayerManifest \<Rightarrow> bool" where
  "manifest_utf8 m \<longleftrightarrow> utf8_valid (lf_Name m) \<and> utf8_valid (lf_Version m) \<and> utf8_valid (lf_Runtime m) \<and>
     utf8_valid (lf_MountPath m) \<and> utf8_valid (lf_Digest m)"

text \<open>
  SHA-256 in hexadecimal, and JSON that reads back what was written: manifests and string maps whose
  strings are valid UTF-8, the maps up to the order of their entries.
\<close>

definition lib_ok :: "store_lib \<Rightarrow> bool" where
  "lib_ok lib \<longleftrightarrow>
     (\<forall>b. hex_digest (lb_sha256 lib b)) \<and>
     (\<forall>m. manifest_utf8 m \<longrightarrow> lb_unmanifest lib (lb_manifest lib m) = Some m) \<and>
     (\<forall>idx. map_wf idx \<and> list_all (\<lambda>(k, v). utf8_valid k \<and> utf8_valid v) idx \<longrightarrow>
        (\<exists>idx'. lb_unindex lib (lb_index lib idx) = Some idx' \<and> map_wf idx' \<and> set idx' = set idx))"

definition rels_ok :: "walk_entry list \<Rightarrow> bool" where
  "rels_ok es \<longleftrightarrow> list_all (\<lambda>e. list_all (\<lambda>c. proper c \<and> CHR ''/'' \<notin> set c) (we_rel e)) es"

text \<open>The order of a walk: a directory comes before its entries, and nothing twice.\<close>

definition walk_order :: "walk_entry list \<Rightarrow> bool" where
  "walk_order es \<longleftrightarrow> sorted_wrt (\<lambda>a b. \<not> prefix (we_rel b) (we_rel a)) es \<and> (\<forall>e \<in> set es. we_rel e = [] \<longrightarrow> we_kind e = IsDir)"

definition entry_node :: "walk_entry \<Rightarrow> node option" where
  "entry_node e = (case we_kind e of IsDir \<Rightarrow> Some Directory | IsRegular b \<Rightarrow> Some (Regular (we_perm e) b) | _ \<Rightarrow> None)"

definition index_ok :: "(string, string) gomap \<Rightarrow> bool" where
  "index_ok idx \<longleftrightarrow> map_wf idx \<and> list_all (\<lambda>(k, v). utf8_valid k \<and> hex_digest v) idx"

definition store_ok :: "store_lib \<Rightarrow> string \<Rightarrow> host \<Rightarrow> (string, string) gomap \<Rightarrow> bool" where
  "store_ok lib root h idx \<longleftrightarrow> host_wf h \<and> root \<noteq> '''' \<and> node_at h (path_of h root @ [''blobs'']) = Some Directory \<and>
     readIndex lib root h = Inr idx \<and> index_ok idx"

abbreviation store_files :: "host \<Rightarrow> string \<Rightarrow> string \<Rightarrow> string list set" where
  "store_files h root d \<equiv> {path_of h root @ [''index.json''], path_of h root @ [''index.json.tmp''],
     path_of h root @ [''blobs'', d @ ''.json''], path_of h root @ [''blobs'', d @ ''.json.tmp'']}"

abbreviation layer_manifest :: "string \<Rightarrow> string \<Rightarrow> string \<Rightarrow> string \<Rightarrow> string \<Rightarrow> nat \<Rightarrow> LayerManifest" where
  "layer_manifest name version mountPath runtime d n \<equiv>
     \<lparr>lf_Name = name, lf_Version = version, lf_Runtime = runtime, lf_MountPath = mountPath, lf_Digest = ''sha256:'' @ d, lf_Size = n\<rparr>"

text \<open>What \<open>Add\<close> leaves: in any case a store, and on success the entry, its manifest and its content.\<close>

definition layer_added ::
  "store_lib \<Rightarrow> string \<Rightarrow> string \<Rightarrow> walk_entry list \<Rightarrow> host \<Rightarrow> (string, string) gomap \<Rightarrow> LayerManifest \<Rightarrow> host \<Rightarrow> bool" where
  "layer_added lib root d es h idx man h' \<longleftrightarrow>
     same_host h h' \<and> readManifest lib root d h' = Inr man \<and>
     (\<exists>idx'. store_ok lib root h' idx' \<and> map_of idx' = (map_of idx)(ref_String \<lparr>rf_Name = lf_Name man, rf_Version = lf_Version man\<rparr> \<mapsto> d)) \<and>
     (\<not> Stat h (blobPath root d) \<longrightarrow>
        (\<forall>e \<in> set es. entry_node e \<noteq> None \<longrightarrow>
           node_at h' (path_of h (blobPath root d) @ we_rel e) = map_option drop_write_node (entry_node e)))"

definition utf8_layer :: "string \<Rightarrow> string \<Rightarrow> string \<Rightarrow> string \<Rightarrow> bool" where
  "utf8_layer name version mountPath runtime \<longleftrightarrow> utf8_valid name \<and> utf8_valid version \<and> utf8_valid mountPath \<and> utf8_valid runtime \<and>
     utf8_valid (ref_String \<lparr>rf_Name = name, rf_Version = version\<rparr>)"

text \<open>A library that satisfies the laws: texts of lists of strings in which every character is marked.\<close>

definition enc_text :: "string \<Rightarrow> string" where
  "enc_text s = concat (map (\<lambda>c. [CHR ''1'', c]) s) @ ''0''"

fun dec_texts :: "string \<Rightarrow> string \<Rightarrow> string list" where
  "dec_texts acc (m # c # r) =
     (if m = CHR ''0'' then rev acc # dec_texts [] (c # r) else dec_texts (c # acc) r)"
| "dec_texts acc [m] = [rev acc]"
| "dec_texts acc [] = []"

fun pairs_of :: "string list \<Rightarrow> (string, string) gomap" where
  "pairs_of (k # v # r) = (k, v) # pairs_of r"
| "pairs_of _ = []"

definition demo_lib :: store_lib where
  "demo_lib = \<lparr>lb_sha256 = (\<lambda>b. ''ab''),
     lb_index = (\<lambda>idx. concat (map (\<lambda>(k, v). enc_text k @ enc_text v) idx)),
     lb_unindex = (\<lambda>b. Some (pairs_of (dec_texts [] b))),
     lb_manifest = (\<lambda>m. concat (map enc_text
       [lf_Name m, lf_Version m, lf_Runtime m, lf_MountPath m, lf_Digest m, replicate (lf_Size m) CHR ''x''])),
     lb_unmanifest = (\<lambda>b. case dec_texts [] b of
       [n, v, r, p, d, z] \<Rightarrow> Some \<lparr>lf_Name = n, lf_Version = v, lf_Runtime = r, lf_MountPath = p, lf_Digest = d, lf_Size = length z\<rparr>
     | _ \<Rightarrow> None)\<rparr>"

definition demo_layers :: host where
  "demo_layers = \<lparr>hs_tree = [([], Directory), ([''l''], Directory), ([''l'', ''blobs''], Directory), ([''l'', ''index.json''], Regular 420 [])],
     hs_cwd = [], hs_tmp = ''/tmp'', hs_denied = (\<lambda>p. False)\<rparr>"

definition demo_tree :: "walk_entry list" where
  "demo_tree =
     [\<lparr>we_rel = [], we_perm = 493, we_size = 4096, we_kind = IsDir, we_failed = False\<rparr>,
      \<lparr>we_rel = [''a.py''], we_perm = 420, we_size = 1, we_kind = IsRegular ''x'', we_failed = False\<rparr>]"

definition demo_added :: "(string list, node) gomap" where
  "demo_added =
     [([], Directory), ([''l''], Directory), ([''l'', ''blobs''], Directory), ([''l'', ''blobs'', ''ab''], Directory),
      ([''l'', ''blobs'', ''ab'', ''a.py''], Regular 292 ''x''),
      ([''l'', ''blobs'', ''ab.json''], Regular 420 ''1d1e1p1s01101a1n1y01/1o1p1t1/1d1e1p1s01s1h1a1215161:1a1b01x0''),
      ([''l'', ''index.json''], Regular 420 ''1d1e1p1s1@1101a1b0'')]"

section \<open>Lemmas\<close>

declare map_of_eq_Some_iff [simp del] Some_eq_map_of_iff [simp del] octal.simps [simp del]

subsection \<open>Paths of the store\<close>

lemma hex_digest_plain:
  assumes "hex_digest d"
  shows "d \<noteq> ''''" "CHR ''/'' \<notin> set d" "CHR ''.'' \<notin> set d"
  using assms by (auto simp: hex_digest_def list_all_iff is_digit_def)

lemma walk_file:
  assumes "a = '''' \<or> (\<exists>d. a = d @ ''/'')" "CHR ''/'' \<notin> set b" "proper b"
  shows "walk cwd (a @ b) = walk cwd a @ [b]"
proof (cases "a = ''''")
  case True
  moreover have "\<not> IsAbs b" using assms(2,3) by (cases b) (auto simp: IsAbs_def has_prefix_def)
  moreover have "walk cwd a = cwd" using True by (simp add: walk_def IsAbs_def has_prefix_def)
  ultimately show ?thesis using assms(2,3) by (simp add: walk_def split_on_atom)
next
  case False
  then obtain d where d: "a = d @ ''/''" using assms(1) by auto
  have "split_on CHR ''/'' (a @ b) = split_on CHR ''/'' d @ [b]" "split_on CHR ''/'' a = split_on CHR ''/'' d @ ['''']"
    using split_on_split [of "CHR ''/''" d b] split_on_split [of "CHR ''/''" d "''''"] assms(2) d by (simp_all add: split_on_atom)
  moreover have "IsAbs (a @ b) = IsAbs a" using False by simp
  ultimately show ?thesis using assms(3) by (simp add: walk_def)
qed

text \<open>A suffix on a clean path with a proper last component stays on that component.\<close>

lemma walk_suffix:
  assumes "clean_parts p \<noteq> []" "proper (last (clean_parts p))" "CHR ''/'' \<notin> set suf"
  shows "walk cwd (Clean p @ suf) = butlast (walk cwd p) @ [last (clean_parts p) @ suf]"
    "walk cwd p = butlast (walk cwd p) @ [last (clean_parts p)]"
proof -
  let ?b = "last (clean_parts p)"
  have l: "last (split_on CHR ''/'' (Clean p)) = ?b"
    using split_join_path [OF assms(1)] clean_parts_slash [of _ p] assms(1) by (auto simp: Clean_def)
  obtain a where a: "Clean p = a @ ?b" "a = '''' \<or> (\<exists>d. a = d @ ''/'')" "CHR ''/'' \<notin> set ?b"
    using last_component [of "Clean p"] unfolding l by auto
  have w: "walk cwd p = walk cwd a @ [?b]" using walk_file [OF a(2,3) assms(2), of cwd] a(1) walk_Clean [of cwd p] by metis
  have "proper (?b @ suf)" using assms(2) by (auto simp: append_eq_Cons_conv)
  then have "walk cwd (a @ (?b @ suf)) = walk cwd a @ [?b @ suf]" using a(3) assms(3) by (intro walk_file [OF a(2)]) auto
  then show "walk cwd (Clean p @ suf) = butlast (walk cwd p) @ [?b @ suf]" using a(1) w by simp
  show "walk cwd p = butlast (walk cwd p) @ [?b]" using w by simp
qed

lemma store_join:
  assumes "root \<noteq> ''''" "cs \<noteq> []" "list_all (\<lambda>c. proper c \<and> CHR ''/'' \<notin> set c) cs" "CHR ''/'' \<notin> set suf"
  shows "walk cwd (Join (root # cs)) = walk cwd root @ cs"
    "walk cwd (Join (root # cs) @ suf) = walk cwd root @ butlast cs @ [last cs @ suf]"
    "walk cwd (Dir_of (Join (root # cs))) = walk cwd root @ butlast cs"
proof -
  have split: "split_on CHR ''/'' (join_with ''/'' (root # cs)) = split_on CHR ''/'' root @ cs"
    using split_on_split [of "CHR ''/''" root "join_with ''/'' cs"] split_join_path [of cs] assms(2,3)
    by (cases cs) (auto simp: list_all_iff)
  have abs: "IsAbs (join_with ''/'' (root # cs)) = IsAbs root" using assms(1,2) by (cases cs) auto
  have J: "Join (root # cs) = Clean (join_with ''/'' (root # cs))" using assms(1) by simp
  have pr: "list_all proper cs" using assms(3) by (auto simp: list_all_iff)
  show w: "walk cwd (Join (root # cs)) = walk cwd root @ cs"
    unfolding J walk_Clean using pr by (simp add: walk_def split abs fold_proper)
  have parts: "clean_parts (join_with ''/'' (root # cs)) = clean_parts root @ cs"
    using pr by (simp add: clean_parts_def split abs fold_proper)
  then have c: "clean_parts (join_with ''/'' (root # cs)) \<noteq> []" "last (clean_parts (join_with ''/'' (root # cs))) = last cs" "proper (last cs)"
    using assms(2) pr by (auto simp: list_all_iff)
  note s = walk_suffix [OF c(1) c(3) [folded c(2)] assms(4), of cwd]
  have "walk cwd (join_with ''/'' (root # cs)) = walk cwd root @ cs" using w unfolding J walk_Clean .
  then show "walk cwd (Join (root # cs) @ suf) = walk cwd root @ butlast cs @ [last cs @ suf]"
    using s(1) assms(2) unfolding J c(2) by (simp add: butlast_append)
  have "proper (last (split_on CHR ''/'' (Join (root # cs))))"
    unfolding J using split_join_path [OF c(1)] clean_parts_slash c by (auto simp: Clean_def)
  then show "walk cwd (Dir_of (Join (root # cs))) = walk cwd root @ butlast cs"
    using walk_Dir [of "Join (root # cs)" cwd] w assms(2) by (simp add: butlast_append)
qed

subsection \<open>Files\<close>

lemma file_no_entries: "host_wf h \<Longrightarrow> node_at h a = Some (Regular m b) \<or> node_at h a = None \<Longrightarrow> x \<noteq> [] \<Longrightarrow> node_at h (a @ x) = None"
  using node_ancestor [of h a x] by fastforce

lemma Rename_file:
  assumes "Rename p p' h = (None, h')" "host_wf h" "node_at h (path_of h p) = Some (Regular m b)" "path_of h p \<noteq> path_of h p'"
  shows "host_wf h'" "same_host h h'" "node_at h' = (node_at h)(path_of h p := None, path_of h p' \<mapsto> Regular m b)"
proof -
  let ?a = "path_of h p" and ?b = "path_of h p'"
  have r: "renamed ?a ?b h h'" using Rename_facts(2) [OF assms(1,2) refl assms(4)] .
  then show "host_wf h'" "same_host h h'" by (auto simp: renamed_def)
  have nd: "(\<exists>m' b'. node_at h ?b = Some (Regular m' b')) \<or> node_at h ?b = None"
    using assms(1,3,4) by (auto simp: Rename_def Let_def split: option.splits if_splits node.splits)
  have "node_at h' q = ((node_at h)(?a := None, ?b \<mapsto> Regular m b)) q" for q
  proof (cases "prefix ?b q")
    case True
    then obtain x where x: "q = ?b @ x" by (auto simp: prefix_def)
    then have "node_at h' q = node_at h (?a @ x)" using r by (simp add: renamed_def)
    then show ?thesis using x assms(3) file_no_entries [OF assms(2)] nd by (cases "x = []") auto
  next
    case False
    then have e: "node_at h' q = (if prefix ?a q then None else node_at h q)" "q \<noteq> ?b" using r by (auto simp: renamed_def)
    show ?thesis
    proof (cases "prefix ?a q")
      case True
      then obtain x where "q = ?a @ x" by (auto simp: prefix_def)
      then show ?thesis using e True assms(3) file_no_entries [OF assms(2), of ?a m b x] by (cases "x = []") auto
    qed (use e in auto)
  qed
  then show "node_at h' = (node_at h)(?a := None, ?b \<mapsto> Regular m b)" by blast
qed

lemma atomicWrite_facts:
  assumes "atomicWrite p data h = (e, h')" "host_wf h" "path_of h (p @ ''.tmp'') \<noteq> path_of h p"
  shows "host_wf h' \<and> same_host h h' \<and>
    (if e = None then \<exists>m. node_at h' = (node_at h)(path_of h (p @ ''.tmp'') := None, path_of h p \<mapsto> Regular m data)
     else \<forall>q. q \<noteq> path_of h (p @ ''.tmp'') \<longrightarrow> node_at h' q = node_at h q)"
proof -
  obtain e1 h1 where w: "write_file (p @ ''.tmp'') 420 data h = (e1, h1)" by fastforce
  note f = write_file_facts [OF w assms(2)]
  show ?thesis
  proof (cases e1)
    case (Some x)
    then show ?thesis using assms(1,2) w f by (auto simp: atomicWrite_def)
  next
    case None
    then obtain m where m: "node_at h1 = (node_at h)(path_of h (p @ ''.tmp'') \<mapsto> Regular m data)" using f(4) by auto
    have same: "path_of h1 x = path_of h x" for x using f(2) by (simp add: same_host_def)
    have r: "Rename (p @ ''.tmp'') p h1 = (e, h')" using assms(1) w None by (simp add: atomicWrite_def)
    show ?thesis
    proof (cases e)
      case (Some x)
      then show ?thesis using Rename_facts(1) [OF r f(1)] f(1,2) m by auto
    next
      case e: None
      have "host_wf h'" "same_host h1 h'" "node_at h' = (node_at h1)(path_of h (p @ ''.tmp'') := None, path_of h p \<mapsto> Regular m data)"
        using Rename_file [OF r [unfolded e] f(1), unfolded same] m assms(3) by auto
      then show ?thesis using f(2) m e by (auto simp: same_host_def)
    qed
  qed
qed

subsection \<open>Copying a tree\<close>

text \<open>A directory below the store: where it is, and where a suffix of it is.\<close>

lemma walk_dot: "dst \<noteq> '''' \<Longrightarrow> walk cwd (Join [dst, ''.'']) = walk cwd dst"
  by (simp add: walk_append)

lemma rel_target:
  assumes "dst \<noteq> ''''" "list_all (\<lambda>c. proper c \<and> CHR ''/'' \<notin> set c) rel"
  shows "walk cwd (Join [dst, rel_text rel]) = walk cwd dst @ rel"
    "rel \<noteq> [] \<Longrightarrow> walk cwd (Dir_of (Join [dst, rel_text rel])) = walk cwd dst @ butlast rel"
proof -
  have "Join [dst, rel_text rel] = Join (dst # rel)" if "rel \<noteq> []"
    using assms(1) that by (cases rel) (simp_all add: rel_text_def)
  then show "walk cwd (Join [dst, rel_text rel]) = walk cwd dst @ rel"
    "rel \<noteq> [] \<Longrightarrow> walk cwd (Dir_of (Join [dst, rel_text rel])) = walk cwd dst @ butlast rel"
    using store_join [OF assms(1) _ assms(2), of "''''"] walk_dot [OF assms(1)] by (cases "rel = []"; auto simp: rel_text_def)+
qed

lemma copy_regular:
  assumes m: "MkdirAll (Dir_of t) h = (y, h1)" and w: "write_file t perm c h1 = (z, h2)" and room: "room p h"
    and t: "path_of h t = p @ rel" "path_of h (Dir_of t) = p @ butlast rel" "rel \<noteq> []"
  shows "stays p h h1" "stays p h h2"
    "node_at h1 q = node_at h q \<or> prefix q (p @ rel) \<and> (node_at h q = None \<or> q = p @ rel)"
    "node_at h2 q = node_at h q \<or> prefix q (p @ rel) \<and> (node_at h q = None \<or> q = p @ rel)"
    "z = None \<Longrightarrow> node_at h (p @ rel) = None \<Longrightarrow> node_at h2 (p @ rel) = Some (Regular perm c)"
proof -
  have wf: "host_wf h" using room by (simp add: room_def)
  note ms = MkdirAll_stays [OF m room] MkdirAll_facts(1) [OF m wf]
  show s1: "stays p h h1" using ms(1) t(2) by simp
  have k1: "node_at h1 q = node_at h q \<or> prefix q (p @ butlast rel) \<and> node_at h q = None" for q
    using ms(4) t(2) by (auto simp: dirs_made_def)
  moreover have "prefix (p @ butlast rel) (p @ rel)" by (simp add: prefixeq_butlast)
  ultimately show k: "node_at h1 q = node_at h q \<or> prefix q (p @ rel) \<and> (node_at h q = None \<or> q = p @ rel)" for q
    by (meson prefix_order.trans)
  have p1: "path_of h1 x = path_of h x" for x by (rule stays_path [OF s1])
  note f = write_file_stays [OF w stays_room [OF room s1]]
  have "stays p h1 h2" using f(1) t(1) p1 by simp
  then show "stays p h h2" by (rule stays_trans [OF s1])
  have "node_at h2 = node_at h1 \<or> (\<exists>m. node_at h2 = (node_at h1)(p @ rel \<mapsto> Regular m c))"
    using f(2) write_file_facts(3) [OF w] s1 t(1) p1 by (cases z) (auto simp: stays_def)
  then show "node_at h2 q = node_at h q \<or> prefix q (p @ rel) \<and> (node_at h q = None \<or> q = p @ rel)"
    using k [of q] by (cases "q = p @ rel") auto
  assume z: "z = None" "node_at h (p @ rel) = None"
  have "\<not> prefix (p @ rel) (p @ butlast rel)"
    using t(3) prefix_length_le [of rel "butlast rel"] by (cases rel) auto
  then have "node_at h1 (p @ rel) = None" using k1 [of "p @ rel"] z(2) by auto
  then show "node_at h2 (p @ rel) = Some (Regular perm c)" using f(2) z(1) t(1) p1 by auto
qed

lemma copy_entry_facts:
  assumes "copy_entry dst e h = (x, h')" "room (path_of h dst) h" "dst \<noteq> ''''"
    and rel: "list_all (\<lambda>c. proper c \<and> CHR ''/'' \<notin> set c) (we_rel e)" and dir: "we_rel e = [] \<longrightarrow> we_kind e = IsDir"
  shows "stays (path_of h dst) h h'" "\<And>q. node_at h' q = node_at h q \<or> prefix q (path_of h dst @ we_rel e) \<and> (node_at h q = None \<or> q = path_of h dst @ we_rel e)"
    "x = None \<Longrightarrow> we_kind e = IsRegular b \<Longrightarrow> node_at h (path_of h dst @ we_rel e) = None \<Longrightarrow> node_at h' (path_of h dst @ we_rel e) = Some (Regular (we_perm e) b)"
    "x = None \<Longrightarrow> we_kind e = IsDir \<Longrightarrow> node_at h' (path_of h dst @ we_rel e) = Some Directory"
proof -
  let ?p = "path_of h dst" and ?t = "Join [dst, rel_text (we_rel e)]"
  have t: "path_of h ?t = ?p @ we_rel e" using rel_target(1) [OF assms(3) rel] .
  have "stays ?p h h' \<and> (\<forall>q. node_at h' q = node_at h q \<or> prefix q (?p @ we_rel e) \<and> (node_at h q = None \<or> q = ?p @ we_rel e)) \<and>
    (x = None \<longrightarrow> we_kind e = IsRegular b \<longrightarrow> node_at h (?p @ we_rel e) = None \<longrightarrow> node_at h' (?p @ we_rel e) = Some (Regular (we_perm e) b)) \<and>
    (x = None \<longrightarrow> we_kind e = IsDir \<longrightarrow> node_at h' (?p @ we_rel e) = Some Directory)"
  proof (cases "we_failed e")
    case True
    then show ?thesis using assms(1) stays_refl [OF assms(2)] by (auto simp: copy_entry_def Let_def)
  next
    case ok: False
    have wf: "host_wf h" using assms(2) by (simp add: room_def)
    show ?thesis
    proof (cases "we_kind e")
      case IsDir
      obtain y h1 where m: "MkdirAll ?t h = (y, h1)" by fastforce
      then have "h' = h1" "x = None \<Longrightarrow> y = None" using assms(1) ok IsDir by (auto simp: copy_entry_def Let_def)
      then show ?thesis
        using MkdirAll_stays [OF m assms(2)] MkdirAll_facts(1) [OF m wf] t IsDir by (auto simp: dirs_made_def)
    next
      case (IsRegular c)
      then have ne: "we_rel e \<noteq> []" using dir by auto
      obtain y h1 where m: "MkdirAll (Dir_of ?t) h = (y, h1)" by fastforce
      obtain z h2 where w: "write_file ?t (we_perm e) c h1 = (z, h2)" by fastforce
      note c = copy_regular [OF m w assms(2) t rel_target(2) [OF assms(3) rel ne] ne]
      have "h' = (if y = None then h2 else h1)" "x = (if y = None then map_option IoError z else map_option IoError y)"
        using assms(1) ok IsRegular m w by (auto simp: copy_entry_def Let_def split: option.splits)
      then show ?thesis using c(1,2,5) c(3,4) [THEN allI] IsRegular by (cases y; cases z) simp_all
    qed (use assms(1) ok stays_refl [OF assms(2)] in \<open>auto simp: copy_entry_def Let_def\<close>)
  qed
  then show "stays ?p h h'" "\<And>q. node_at h' q = node_at h q \<or> prefix q (?p @ we_rel e) \<and> (node_at h q = None \<or> q = ?p @ we_rel e)"
    "x = None \<Longrightarrow> we_kind e = IsRegular b \<Longrightarrow> node_at h (?p @ we_rel e) = None \<Longrightarrow> node_at h' (?p @ we_rel e) = Some (Regular (we_perm e) b)"
    "x = None \<Longrightarrow> we_kind e = IsDir \<Longrightarrow> node_at h' (?p @ we_rel e) = Some Directory" by auto
qed

lemma copyTree_facts:
  assumes "copyTree dst es h = (x, h')" "room (path_of h dst) h" "dst \<noteq> ''''" "rels_ok es" "walk_order es"
    and "\<forall>e \<in> set es. node_at h (path_of h dst @ we_rel e) = None"
  shows "stays (path_of h dst) h h' \<and> (\<forall>q. node_at h q \<noteq> None \<longrightarrow> node_at h' q = node_at h q) \<and>
    (x = None \<longrightarrow> (\<forall>e \<in> set es. entry_node e \<noteq> None \<longrightarrow> node_at h' (path_of h dst @ we_rel e) = entry_node e))"
  using assms
proof (induction es arbitrary: h)
  case (Cons e es)
  let ?p = "path_of h dst"
  obtain y h1 where c: "copy_entry dst e h = (y, h1)" by fastforce
  have e: "list_all (\<lambda>c. proper c \<and> CHR ''/'' \<notin> set c) (we_rel e)" "we_rel e = [] \<longrightarrow> we_kind e = IsDir" "node_at h (?p @ we_rel e) = None"
    using Cons.prems(4,5,6) by (auto simp: rels_ok_def walk_order_def)
  note f = copy_entry_facts [OF c Cons.prems(2,3) e(1,2)]
  have p1: "path_of h1 z = path_of h z" for z by (rule stays_path [OF f(1)])
  have keep: "\<forall>q. node_at h q \<noteq> None \<longrightarrow> node_at h1 q = node_at h q" using f(2) e(3) by metis
  have here: "entry_node e \<noteq> None \<longrightarrow> node_at h1 (?p @ we_rel e) = entry_node e" if "y = None"
    using f(3,4) [OF that] e(3) by (cases "we_kind e") (auto simp: entry_node_def)
  show ?case
  proof (cases y)
    case (Some z)
    then show ?thesis using Cons.prems(1) c f(1) keep by auto
  next
    case None
    have "\<forall>e' \<in> set es. node_at h1 (?p @ we_rel e') = None"
    proof
      fix e' assume "e' \<in> set es"
      then have "\<not> prefix (we_rel e') (we_rel e)" "node_at h (?p @ we_rel e') = None"
        using Cons.prems(5,6) by (auto simp: walk_order_def)
      then show "node_at h1 (?p @ we_rel e') = None" using f(2) [of "?p @ we_rel e'"] by auto
    qed
    moreover have "copyTree dst es h1 = (x, h')" using Cons.prems(1) c None by simp
    ultimately have ih: "stays ?p h1 h' \<and> (\<forall>q. node_at h1 q \<noteq> None \<longrightarrow> node_at h' q = node_at h1 q) \<and>
        (x = None \<longrightarrow> (\<forall>e \<in> set es. entry_node e \<noteq> None \<longrightarrow> node_at h' (?p @ we_rel e) = entry_node e))"
      using Cons.IH [of h1] Cons.prems(3,4,5) stays_room [OF Cons.prems(2) f(1)] p1 by (simp add: rels_ok_def walk_order_def)
    then show ?thesis using stays_trans [OF f(1)] keep here [OF None] by (metis set_ConsD)
  qed
qed (simp add: stays_refl)

subsection \<open>Adding a blob\<close>

lemma store_paths:
  assumes "root \<noteq> ''''" "hex_digest d"
  shows "walk cwd (blobPath root d) = walk cwd root @ [''blobs'', d]"
    "walk cwd (blobPath root d @ ''.incoming'') = walk cwd root @ [''blobs'', d @ ''.incoming'']"
    "walk cwd (manifestPath root d) = walk cwd root @ [''blobs'', d @ ''.json'']"
    "walk cwd (manifestPath root d @ ''.tmp'') = walk cwd root @ [''blobs'', d @ ''.json.tmp'']"
    "walk cwd (indexPath root) = walk cwd root @ [''index.json'']"
    "walk cwd (indexPath root @ ''.tmp'') = walk cwd root @ [''index.json.tmp'']"
    "walk cwd (Join [root, ''blobs'']) = walk cwd root @ [''blobs'']"
proof -
  have "d \<noteq> ''.''" "d \<noteq> ''..''" using hex_digest_plain [OF assms(2)] by auto
  then have b: "list_all (\<lambda>c. proper c \<and> CHR ''/'' \<notin> set c) [''blobs'', d]" using hex_digest_plain [OF assms(2)] by simp
  have j: "list_all (\<lambda>c. proper c \<and> CHR ''/'' \<notin> set c) [''blobs'', d @ ''.json'']" using hex_digest_plain [OF assms(2)] by auto
  show "walk cwd (blobPath root d) = walk cwd root @ [''blobs'', d]"
    "walk cwd (blobPath root d @ ''.incoming'') = walk cwd root @ [''blobs'', d @ ''.incoming'']"
    using store_join(1,2) [OF assms(1) _ b, of "''.incoming''" cwd] unfolding blobPath_def by simp_all
  show "walk cwd (manifestPath root d) = walk cwd root @ [''blobs'', d @ ''.json'']"
    "walk cwd (manifestPath root d @ ''.tmp'') = walk cwd root @ [''blobs'', d @ ''.json.tmp'']"
    using store_join(1,2) [OF assms(1) _ j, of "''.tmp''" cwd] unfolding manifestPath_def by simp_all
  show "walk cwd (indexPath root) = walk cwd root @ [''index.json'']"
    "walk cwd (indexPath root @ ''.tmp'') = walk cwd root @ [''index.json.tmp'']"
    using store_join(1,2) [OF assms(1), of "[''index.json'']" "''.tmp''" cwd] unfolding indexPath_def by simp_all
  show "walk cwd (Join [root, ''blobs'']) = walk cwd root @ [''blobs'']"
    using store_join(1) [OF assms(1), of "[''blobs'']" "''''" cwd] by simp
qed

lemma chmod_tree_facts:
  "node_at (chmod_tree p h) q = (if prefix (path_of h p) q then map_option drop_write_node (node_at h q) else node_at h q)"
  "same_host h (chmod_tree p h)" "host_wf h \<Longrightarrow> host_wf (chmod_tree p h)"
proof -
  have m: "map_of (map (\<lambda>(q, n). (q, if P q then f n else n)) t) q = (if P q then map_option f (map_of t q) else map_of t q)"
    for P :: "string list \<Rightarrow> bool" and f and t :: "(string list, node) gomap" and q by (induction t) auto
  then show at: "node_at (chmod_tree p h) q = (if prefix (path_of h p) q then map_option drop_write_node (node_at h q) else node_at h q)" for q
    by (simp add: chmod_tree_def)
  show "same_host h (chmod_tree p h)" by (simp add: chmod_tree_def same_host_def)
  have k: "map fst (hs_tree (chmod_tree p h)) = map fst (hs_tree h)" by (auto simp: chmod_tree_def)
  have d: "node_at h q = Some Directory \<Longrightarrow> node_at (chmod_tree p h) q = Some Directory" for q by (simp add: at drop_write_node_def)
  have n: "node_at (chmod_tree p h) q \<noteq> None \<Longrightarrow> node_at h q \<noteq> None" for q by (auto simp: at split: if_splits)
  show "host_wf h \<Longrightarrow> host_wf (chmod_tree p h)" using d n unfolding host_wf_def k by blast
qed

lemma add_blob_facts:
  assumes add: "add_blob bd es h = (x, h')" and wf: "host_wf h" and bd: "bd \<noteq> ''''"
    and b: "path_of h bd = c @ [n]" and t: "path_of h (bd @ ''.incoming'') = c @ [n @ ''.incoming'']"
    and c: "node_at h c = Some Directory" and es: "rels_ok es" "walk_order es"
  shows "host_wf h' \<and> same_host h h' \<and>
    (\<forall>q. \<not> prefix (c @ [n]) q \<longrightarrow> \<not> prefix (c @ [n @ ''.incoming'']) q \<longrightarrow> node_at h' q = node_at h q) \<and>
    (if x = None then \<forall>e \<in> set es. entry_node e \<noteq> None \<longrightarrow> node_at h' (c @ n # we_rel e) = map_option drop_write_node (entry_node e)
     else \<forall>q. prefix (c @ [n]) q \<longrightarrow> node_at h' q = node_at h q)"
proof -
  let ?tmp = "bd @ ''.incoming''" and ?t = "c @ [n @ ''.incoming'']" and ?b = "c @ [n]"
  let ?h = "RemoveAll ?tmp h"
  have sep: "\<not> prefix ?t ?b" "\<not> prefix ?b ?t" "?t \<noteq> ?b" by (auto simp: prefix_def)
  have excl: "\<not> (prefix ?b q \<and> prefix ?t q)" for q using sep prefix_same_cases by blast
  have at: "node_at ?h q = (if prefix ?t q then None else node_at h q)" for q using RemoveAll_facts(1) [of ?tmp h q] t by simp
  have same1: "same_host h ?h" by (rule RemoveAll_facts(2))
  then have p1: "path_of ?h z = path_of h z" for z by (simp add: same_host_def)
  have room: "room (path_of ?h ?tmp) ?h"
    using RemoveAll_wf [OF wf, of ?tmp] t p1 c at [of c] by (auto simp: room_def prefix_def)
  have fresh: "\<forall>e \<in> set es. node_at ?h (path_of ?h ?tmp @ we_rel e) = None" using at t p1 by (auto simp: prefix_def)
  obtain y h2 where cp: "copyTree ?tmp es ?h = (y, h2)" by fastforce
  have ct: "stays ?t ?h h2" "y = None \<longrightarrow> (\<forall>e \<in> set es. entry_node e \<noteq> None \<longrightarrow> node_at h2 (?t @ we_rel e) = entry_node e)"
    using copyTree_facts [OF cp room _ es fresh] bd t p1 by simp_all
  have wf2: "host_wf h2" and same2: "same_host h h2" and out2: "\<And>q. \<not> prefix ?t q \<Longrightarrow> node_at h2 q = node_at h q"
    using ct(1) same1 at by (auto simp: stays_def differ_below_def same_host_def)
  have p2: "path_of h2 z = path_of h z" for z using same2 by (simp add: same_host_def)
  have undo: "host_wf (RemoveAll ?tmp h2)" "same_host h (RemoveAll ?tmp h2)" "\<And>q. \<not> prefix ?t q \<Longrightarrow> node_at (RemoveAll ?tmp h2) q = node_at h q"
    using RemoveAll_wf [OF wf2, of ?tmp] RemoveAll_facts [where p = ?tmp and h = h2] same2 out2 p2 t by (auto simp: same_host_def)
  obtain z h3 where rn: "Rename ?tmp bd h2 = (z, h3)" by fastforce
  show ?thesis
  proof (cases "y = None \<and> z = None")
    case True
    then have res: "x = None" "h' = chmod_tree bd h3" using add cp rn by (auto simp: add_blob_def Let_def)
    have ren: "renamed ?t ?b h2 h3" using Rename_facts(2) [OF rn wf2] True p2 b t sep(3) by simp
    then have same3: "same_host h h3" using same2 by (auto simp: renamed_def same_host_def)
    then have p3: "path_of h3 bd = ?b" using b by (simp add: same_host_def)
    have out: "node_at h' q = node_at h q" if "\<not> prefix ?b q" "\<not> prefix ?t q" for q
      using that ren out2 res(2) p3 by (simp add: chmod_tree_facts renamed_def)
    have "node_at h' (c @ n # we_rel e) = map_option drop_write_node (entry_node e)" if "e \<in> set es" "entry_node e \<noteq> None" for e
    proof -
      have "node_at h3 (c @ n # we_rel e) = node_at h2 (?t @ we_rel e)" using ren by (simp add: renamed_def)
      then show ?thesis using ct(2) True that res(2) p3 by (simp add: chmod_tree_facts)
    qed
    then show ?thesis using out res ren same3 chmod_tree_facts(2,3) [of h3 bd] by (auto simp: renamed_def same_host_def)
  next
    case False
    then have "x \<noteq> None" "h' = RemoveAll ?tmp h2 \<or> h' = RemoveAll ?tmp h3 \<and> h3 = h2"
      using add cp rn Rename_facts(1) [OF rn wf2] by (auto simp: add_blob_def Let_def split: option.splits)
    then have "x \<noteq> None" "h' = RemoveAll ?tmp h2" by auto
    then show ?thesis using undo excl by auto
  qed
qed

subsection \<open>Manifest and index\<close>

lemma hex_utf8: "hex_digest d \<Longrightarrow> utf8_valid d"
  by (rule utf8_valid_ascii) (auto simp: hex_digest_def list_all_iff is_digit_iff)

lemma index_round:
  assumes "lib_ok lib" "index_ok idx"
  shows "\<exists>idx'. lb_unindex lib (lb_index lib idx) = Some idx' \<and> index_ok idx' \<and> map_of idx' = map_of idx"
proof -
  have wf: "map_wf idx" "list_all (\<lambda>(k, v). utf8_valid k \<and> utf8_valid v) idx"
    using assms(2) hex_utf8 by (auto simp: index_ok_def list_all_iff)
  then obtain idx' where i: "lb_unindex lib (lb_index lib idx) = Some idx'" "map_wf idx'" "set idx' = set idx"
    using assms(1) unfolding lib_ok_def by blast
  have "map_of idx' = map_of idx"
    using map_of_eq_Some_iff [OF i(2)] map_of_eq_Some_iff [OF wf(1)] i(3) by (intro ext) (metis not_Some_eq)
  then show ?thesis using i assms(2) by (auto simp: index_ok_def list_all_iff)
qed

lemma ReadFile_cong: "same_host h h' \<Longrightarrow> node_at h' (path_of h p) = node_at h (path_of h p) \<Longrightarrow> ReadFile p h' = ReadFile p h"
  by (simp add: ReadFile_def same_host_def)

lemma readIndex_cong: "same_host h h' \<Longrightarrow> node_at h' (path_of h (indexPath root)) = node_at h (path_of h (indexPath root)) \<Longrightarrow>
    readIndex lib root h' = readIndex lib root h"
  by (simp add: readIndex_def ReadFile_cong)

lemma index_ok_put: "index_ok idx \<Longrightarrow> utf8_valid k \<Longrightarrow> hex_digest d \<Longrightarrow> index_ok (map_put k d idx)"
  by (auto simp: index_ok_def list_all_iff dest: set_map_put)

lemma atomicWrite_read:
  assumes "atomicWrite p data h = (e, h')" "host_wf h" "path_of h (p @ ''.tmp'') \<noteq> path_of h p"
  shows "host_wf h'" "same_host h h'" "ReadFile p h' = (if e = None then Inr data else ReadFile p h)"
    "q \<noteq> path_of h p \<Longrightarrow> q \<noteq> path_of h (p @ ''.tmp'') \<Longrightarrow> node_at h' q = node_at h q"
proof -
  note f = atomicWrite_facts [OF assms]
  show "host_wf h'" and s: "same_host h h'" using f by auto
  show "q \<noteq> path_of h p \<Longrightarrow> q \<noteq> path_of h (p @ ''.tmp'') \<Longrightarrow> node_at h' q = node_at h q"
    using f by (auto split: if_splits)
  have "path_of h' p = path_of h p" using s by (simp add: same_host_def)
  then show "ReadFile p h' = (if e = None then Inr data else ReadFile p h)"
    using f assms(3) by (auto simp: ReadFile_def split: if_splits)
qed

lemma add_entry_facts:
  assumes lib: "lib_ok lib" and ok: "store_ok lib root h idx" and d: "hex_digest d" and man: "manifest_utf8 man"
    and ref: "ref = ref_String \<lparr>rf_Name = lf_Name man, rf_Version = lf_Version man\<rparr>" "utf8_valid ref"
    and add: "add_entry lib root d man h = (res, h')"
  shows "host_wf h' \<and> same_host h h' \<and> (\<forall>q. q \<notin> store_files h root d \<longrightarrow> node_at h' q = node_at h q) \<and>
    (case res of
       Inl e \<Rightarrow> readIndex lib root h' = Inr idx
     | Inr m \<Rightarrow> m = man \<and> readManifest lib root d h' = Inr man \<and>
         (\<exists>idx'. readIndex lib root h' = Inr idx' \<and> index_ok idx' \<and> map_of idx' = (map_of idx)(ref \<mapsto> d)))"
proof -
  have root: "root \<noteq> ''''" and wf: "host_wf h" and idx: "readIndex lib root h = Inr idx" "index_ok idx"
    using ok by (auto simp: store_ok_def)
  note P = store_paths [OF root d]
  let ?idx = "map_put ref d idx"
  obtain e1 h1 where w: "writeManifest lib root d man h = (e1, h1)" by fastforce
  note a1 = atomicWrite_read [OF w [unfolded writeManifest_def] wf, unfolded P, simplified]
  have p1: "path_of h1 z = path_of h z" for z using a1(2) by (simp add: same_host_def)
  have i1: "readIndex lib root h1 = Inr idx" using readIndex_cong [OF a1(2)] a1(4) idx(1) by (simp add: P)
  obtain e2 h2 where v: "writeIndex lib root ?idx h1 = (e2, h2)" by fastforce
  note a2 = atomicWrite_read [OF v [unfolded writeIndex_def] a1(1), unfolded p1 P, simplified]
  have same: "same_host h h2" using a1(2) a2(2) by (simp add: same_host_def)
  have A: "add_entry lib root d man h = (case e1 of
      Some x \<Rightarrow> (Inl (IoError x), h1)
    | None \<Rightarrow> (case e2 of Some x \<Rightarrow> (Inl (IoError x), h2) | None \<Rightarrow> (Inr man, h2)))"
    using w i1 v by (auto simp: add_entry_def Let_def ref(1) split: option.splits)
  have i2: "readIndex lib root h2 = Inr idx" if "e2 \<noteq> None" using a2(3) that i1 by (simp add: readIndex_def)
  have "ReadFile (manifestPath root d) h2 = ReadFile (manifestPath root d) h1"
    using a2(4) by (intro ReadFile_cong [OF a2(2)]) (simp add: P p1)
  then have m2: "readManifest lib root d h2 = Inr man" if "e1 = None"
    using a1(3) that lib man by (simp add: readManifest_def lib_ok_def)
  have j2: "\<exists>idx'. readIndex lib root h2 = Inr idx' \<and> index_ok idx' \<and> map_of idx' = (map_of idx)(ref \<mapsto> d)" if "e2 = None"
    using index_round [OF lib index_ok_put [OF idx(2) ref(2) d]] a2(3) that by (auto simp: readIndex_def)
  show ?thesis
  proof (cases "e1 = None \<and> e2 = None")
    case True
    then have "res = Inr man" "h' = h2" using add A by auto
    then show ?thesis using a1(4) a2(1,4) same m2 j2 True by simp
  next
    case False
    then obtain x where "res = Inl x" "h' = h1 \<or> h' = h2 \<and> e2 \<noteq> None" using add A by (auto split: option.splits)
    then show ?thesis using a1(1,2,4) a2(1,4) same i1 i2 by auto
  qed
qed

subsection \<open>Adding a layer\<close>

lemma hash_walk_text:
  "hash_walk es b n = Inr (b', n') \<Longrightarrow> b' = b @ concat (map entry_text es)"
proof (induction es arbitrary: b n)
  case (Cons e es)
  then show ?case by (auto simp del: append_assoc simp: append_assoc [symmetric] split: if_splits)
qed simp

lemma hashTree_digest:
  assumes "hashTree lib es = Inr (d, n)"
  shows "d = lb_sha256 lib (concat (map entry_text es))" "lib_ok lib \<Longrightarrow> hex_digest d"
  using assms hash_walk_text [of es "[]" 0] by (auto simp: hashTree_def lib_ok_def split: sum.splits prod.splits)

lemma store_ok_other:
  assumes "store_ok lib root h idx" "host_wf h'" "same_host h h'"
    and "node_at h' (path_of h root @ [''index.json'']) = node_at h (path_of h root @ [''index.json''])"
    and "node_at h' (path_of h root @ [''blobs'']) = node_at h (path_of h root @ [''blobs''])"
  shows "store_ok lib root h' idx"
proof -
  have "walk (hs_cwd h) (indexPath root) = path_of h root @ [''index.json'']"
    using assms(1) store_join(1) [of root "[''index.json'']" "''''" "hs_cwd h"] by (simp add: store_ok_def indexPath_def)
  then have "readIndex lib root h' = readIndex lib root h" using assms(3,4) by (intro readIndex_cong) simp_all
  then show ?thesis using assms by (simp add: store_ok_def same_host_def)
qed

lemma digest_utf8: "hex_digest d \<Longrightarrow> utf8_valid (''sha256:'' @ d)"
  by (rule utf8_valid_ascii) (auto simp: hex_digest_def list_all_iff is_digit_iff)

text \<open>The first half of \<open>Add\<close>: the content is there afterwards, and the store is one as before.\<close>

lemma blob_stage:
  assumes ok: "store_ok lib root h idx" and hex: "hex_digest d" and es: "rels_ok es" "walk_order es"
    and blob: "(if Stat h (blobPath root d) then (None, h) else add_blob (blobPath root d) es h) = (x, h')"
  shows "store_ok lib root h' idx" "same_host h h'"
    "x = None \<Longrightarrow> \<not> Stat h (blobPath root d) \<Longrightarrow> e \<in> set es \<Longrightarrow> entry_node e \<noteq> None \<Longrightarrow>
       node_at h' (path_of h root @ ''blobs'' # d # we_rel e) = map_option drop_write_node (entry_node e)"
proof -
  have r: "root \<noteq> ''''" and wf: "host_wf h" and bs: "node_at h (path_of h root @ [''blobs'']) = Some Directory"
    using ok by (auto simp: store_ok_def)
  note P = store_paths [OF r hex]
  have "store_ok lib root h' idx \<and> same_host h h' \<and>
      (x = None \<longrightarrow> \<not> Stat h (blobPath root d) \<longrightarrow>
         (\<forall>e \<in> set es. entry_node e \<noteq> None \<longrightarrow> node_at h' (path_of h root @ ''blobs'' # d # we_rel e) = map_option drop_write_node (entry_node e)))"
  proof (cases "Stat h (blobPath root d)")
    case False
    then have bl: "add_blob (blobPath root d) es h = (x, h')" using blob by simp
    have ne: "blobPath root d \<noteq> ''''" using store_paths(1) [OF r hex, of "[]"] by (auto simp: walk_def IsAbs_def has_prefix_def)
    note f = add_blob_facts [OF bl wf ne, of "path_of h root @ [''blobs'']" d]
    have "store_ok lib root h' idx" using f P bs es by (intro store_ok_other [OF ok]) (auto simp: prefix_def)
    then show ?thesis using f P bs es by auto
  qed (use blob ok in auto)
  then show "store_ok lib root h' idx" "same_host h h'"
    "x = None \<Longrightarrow> \<not> Stat h (blobPath root d) \<Longrightarrow> e \<in> set es \<Longrightarrow> entry_node e \<noteq> None \<Longrightarrow>
       node_at h' (path_of h root @ ''blobs'' # d # we_rel e) = map_option drop_write_node (entry_node e)" by auto
qed

lemma Add_layer_facts:
  assumes lib: "lib_ok lib" and ok: "store_ok lib root h idx" and es: "rels_ok es" "walk_order es"
    and utf8: "utf8_valid name" "utf8_valid version" "utf8_valid mountPath" "utf8_valid runtime" "utf8_valid (ref_String \<lparr>rf_Name = name, rf_Version = version\<rparr>)"
    and add: "Add_layer lib root name version mountPath runtime (SourceDir es) h = (res, h')"
  shows "case res of
      Inl e \<Rightarrow> store_ok lib root h' idx
    | Inr man \<Rightarrow> version \<noteq> '''' \<and> (\<exists>n. let d = lb_sha256 lib (concat (map entry_text es))
        in man = layer_manifest name version mountPath runtime d n \<and> hex_digest d \<and> layer_added lib root d es h idx man h')"
proof (cases "name = '''' \<or> version = '''' \<or> \<not> IsAbs mountPath \<or> (\<exists>e. hashTree lib es = Inl e)")
  case True
  then show ?thesis using add ok by (auto simp: Add_layer_def split: if_splits)
next
  case False
  then obtain d n where hash: "hashTree lib es = Inr (d, n)" by (cases "hashTree lib es") auto
  note d = hashTree_digest [OF hash]
  have hex: "hex_digest d" by (rule d(2) [OF lib])
  have r: "root \<noteq> ''''" using ok by (simp add: store_ok_def)
  let ?man = "layer_manifest name version mountPath runtime d n" and ?R = "path_of h root"
  let ?ref = "ref_String \<lparr>rf_Name = name, rf_Version = version\<rparr>"
  obtain e1 h1 where blob: "(if Stat h (blobPath root d) then (None, h) else add_blob (blobPath root d) es h) = (e1, h1)" by fastforce
  note b = blob_stage [OF ok hex es blob]
  have p1: "path_of h1 z = path_of h z" for z using b(2) by (simp add: same_host_def)
  have A: "Add_layer lib root name version mountPath runtime (SourceDir es) h =
      (case e1 of Some e \<Rightarrow> (Inl e, h1) | None \<Rightarrow> add_entry lib root d ?man h1)"
    using False hash blob by (auto simp: Add_layer_def Let_def split: option.splits)
  show ?thesis
  proof (cases e1)
    case (Some e)
    then show ?thesis using add A b(1) by auto
  next
    case None
    then have ae: "add_entry lib root d ?man h1 = (res, h')" using add A by simp
    have mu: "manifest_utf8 ?man" using utf8 digest_utf8 [OF hex] by (simp add: manifest_utf8_def)
    have ref: "?ref = ref_String \<lparr>rf_Name = lf_Name ?man, rf_Version = lf_Version ?man\<rparr>" by simp
    note f = add_entry_facts [OF lib b(1) hex mu ref utf8(5) ae, unfolded p1]
    have blobs: "node_at h' (?R @ [''blobs'']) = Some Directory" using f b(1) by (auto simp: store_ok_def p1)
    show ?thesis
    proof (cases res)
      case (Inl e)
      then show ?thesis using f b(1) r blobs p1 by (auto simp: store_ok_def same_host_def)
    next
      case (Inr m)
      obtain idx' where i: "readIndex lib root h' = Inr idx'" "index_ok idx'" "map_of idx' = (map_of idx)(?ref \<mapsto> d)" using f Inr by auto
      have "store_ok lib root h' idx'" using f i r blobs p1 by (simp add: store_ok_def same_host_def)
      moreover have "node_at h' (?R @ ''blobs'' # d # we_rel e) = node_at h1 (?R @ ''blobs'' # d # we_rel e)" for e :: walk_entry
        using f by auto
      moreover have "same_host h h'" using f b(2) by (simp add: same_host_def)
      ultimately have "layer_added lib root d es h idx ?man h'"
        using f Inr i(3) b(3) [OF None] unfolding layer_added_def by (auto simp: store_paths [OF r hex])
      then show ?thesis using f Inr hex d(1) False by (auto simp: Let_def)
    qed
  qed
qed

lemma resolve_exact:
  assumes "store_ok lib root h idx" "map_of idx (ref_String r) = Some d" "rf_Version r \<noteq> ''''" "readManifest lib root d h = Inr man" "hex_digest d"
  shows "Resolve_layer lib root r h = Inr (man, blobPath root d)"
proof -
  have "d \<noteq> ''''" by (rule hex_digest_plain(1) [OF assms(5)])
  then show ?thesis using assms by (simp add: Resolve_layer_def store_ok_def select_digest_def map_get_def)
qed

lemma layer_added_resolves:
  assumes "layer_added lib root d es h idx man h'" "hex_digest d" "lf_Version man \<noteq> ''''"
  shows "Resolve_layer lib root \<lparr>rf_Name = lf_Name man, rf_Version = lf_Version man\<rparr> h' = Inr (man, blobPath root d)"
proof -
  obtain idx' where "store_ok lib root h' idx'" "map_of idx' = (map_of idx)(ref_String \<lparr>rf_Name = lf_Name man, rf_Version = lf_Version man\<rparr> \<mapsto> d)"
    "readManifest lib root d h' = Inr man" using assms(1) by (auto simp: layer_added_def)
  then show ?thesis using assms(2,3) by (intro resolve_exact) auto
qed

section \<open>Properties\<close>

lemma inr_pair: "\<not> isl (fst x) \<Longrightarrow> \<exists>m h. x = (Inr m, h)"
  by (cases x; cases "fst x") auto

lemma demo_add:
  "case Add_layer demo_lib ''/l'' ''deps'' ''1'' ''/opt/deps'' ''any'' (SourceDir demo_tree) demo_layers of
     (Inl e, h) \<Rightarrow> False | (Inr man, h) \<Rightarrow> hs_tree h = demo_added"
  by code_simp

lemma dec_enc_text: "dec_texts acc (enc_text s @ r) = (rev acc @ s) # dec_texts [] r"
proof (induction s arbitrary: acc)
  case Nil
  then show ?case by (cases r) (simp_all add: enc_text_def)
next
  case (Cons c s)
  then show ?case by (simp add: enc_text_def)
qed

lemma demo_index: "pairs_of (dec_texts [] (concat (map (\<lambda>(k, v). enc_text k @ enc_text v) idx))) = idx"
  by (induction idx) (auto simp: dec_enc_text)

lemma demo_lib_ok: "lib_ok demo_lib"
proof -
  have m: "lb_unmanifest demo_lib (lb_manifest demo_lib m) = Some m" for m
    using dec_enc_text [of _ _ "[]"] by (simp add: demo_lib_def dec_enc_text)
  have "hex_digest ''ab''" by code_simp
  then show ?thesis using m demo_index by (auto simp: lib_ok_def) (simp_all add: demo_lib_def)
qed

lemma demo_layers_ok: "store_ok demo_lib ''/l'' demo_layers []"
proof -
  have "host_wf demo_layers" by (auto simp: host_wf_def demo_layers_def split: if_splits)
  moreover have "path_of demo_layers ''/l'' = [''l'']" by code_simp
  moreover have "readIndex demo_lib ''/l'' demo_layers = Inr []" by code_simp
  ultimately show ?thesis by (simp add: store_ok_def index_ok_def) (simp add: demo_layers_def)
qed

lemma demo_tree_ok: "rels_ok demo_tree" "walk_order demo_tree"
  by (simp_all add: rels_ok_def walk_order_def demo_tree_def)

lemma demo_utf8: "utf8_layer ''deps'' ''1'' ''/opt/deps'' ''any''" "utf8_layer ''libs'' ''2'' ''/opt/libs'' ''any''"
  by code_simp+



text \<open>
  The manifest of a layer is stored under its content: when the same content is added under two
  names, \<open>Resolve\<close> of the first name returns the manifest of the second, with its name, its version
  and its mount path.
\<close>

theorem shared_content_swaps_manifest:
  assumes "lib_ok lib" "store_ok lib root h idx" "rels_ok es" "walk_order es"
    and "utf8_layer name version mountPath runtime" "utf8_layer name' version' mountPath' runtime'"
    and "name @ ''@'' @ version \<noteq> name' @ ''@'' @ version'"
    and "Add_layer lib root name version mountPath runtime (SourceDir es) h = (Inr man, h1)"
    and "Add_layer lib root name' version' mountPath' runtime' (SourceDir es) h1 = (Inr man', h2)"
  shows "\<exists>path. Resolve_layer lib root \<lparr>rf_Name = name, rf_Version = version\<rparr> h2 = Inr (man', path) \<and>
    lf_Name man' = name' \<and> lf_Version man' = version' \<and> lf_MountPath man' = mountPath'"
proof -
  let ?d = "lb_sha256 lib (concat (map entry_text es))"
  have a: "version \<noteq> ''''" "hex_digest ?d" "layer_added lib root ?d es h idx man h1" "lf_Name man = name" "lf_Version man = version"
    using Add_layer_facts [OF assms(1-4) _ _ _ _ _ assms(8)] assms(5) by (auto simp: utf8_layer_def Let_def)
  then obtain idx1 where i1: "store_ok lib root h1 idx1" "map_of idx1 = (map_of idx)(name @ ''@'' @ version \<mapsto> ?d)"
    by (auto simp: layer_added_def ref_String_def)
  have b: "layer_added lib root ?d es h1 idx1 man' h2" "lf_Name man' = name'" "lf_Version man' = version'" "lf_MountPath man' = mountPath'"
    using Add_layer_facts [OF assms(1) i1(1) assms(3,4) _ _ _ _ _ assms(9)] assms(6) by (auto simp: utf8_layer_def Let_def)
  then obtain idx2 where i2: "store_ok lib root h2 idx2" "map_of idx2 = (map_of idx1)(name' @ ''@'' @ version' \<mapsto> ?d)"
    "readManifest lib root ?d h2 = Inr man'" by (auto simp: layer_added_def ref_String_def)
  have "map_of idx2 (name @ ''@'' @ version) = Some ?d" using i1(2) i2(2) assms(7) by simp
  then have "Resolve_layer lib root \<lparr>rf_Name = name, rf_Version = version\<rparr> h2 = Inr (man', blobPath root ?d)"
    using resolve_exact [OF i2(1) _ _ i2(3) a(2)] a(1) by (simp add: ref_String_def)
  then show ?thesis using b by blast
qed

theorem shared_content_swaps_manifest_witness:
  "let h1 = snd (Add_layer demo_lib ''/l'' ''deps'' ''1'' ''/opt/deps'' ''any'' (SourceDir demo_tree) demo_layers);
       h2 = snd (Add_layer demo_lib ''/l'' ''libs'' ''2'' ''/opt/libs'' ''any'' (SourceDir demo_tree) h1)
   in \<exists>man path. Resolve_layer demo_lib ''/l'' \<lparr>rf_Name = ''deps'', rf_Version = ''1''\<rparr> h2 = Inr (man, path) \<and> lf_Name man = ''libs''"
proof -
  let ?a = "Add_layer demo_lib ''/l'' ''deps'' ''1'' ''/opt/deps'' ''any'' (SourceDir demo_tree) demo_layers"
  obtain man h1 where a: "?a = (Inr man, h1)" and t: "hs_tree h1 = demo_added"
    using demo_add by (auto split: prod.splits sum.splits)
  have "same_host demo_layers h1"
    using Add_layer_facts [OF demo_lib_ok demo_layers_ok demo_tree_ok _ _ _ _ _ a] demo_utf8(1)
    by (auto simp: utf8_layer_def layer_added_def Let_def)
  then have h1: "h1 = demo_layers\<lparr>hs_tree := demo_added\<rparr>" using t by (simp add: same_host_def)
  have "\<not> isl (fst (Add_layer demo_lib ''/l'' ''libs'' ''2'' ''/opt/libs'' ''any'' (SourceDir demo_tree) (demo_layers\<lparr>hs_tree := demo_added\<rparr>)))"
    by code_simp
  from inr_pair [OF this] obtain man' h2 where
    b: "Add_layer demo_lib ''/l'' ''libs'' ''2'' ''/opt/libs'' ''any'' (SourceDir demo_tree) h1 = (Inr man', h2)" unfolding h1 by blast
  show ?thesis
    using shared_content_swaps_manifest [OF demo_lib_ok demo_layers_ok demo_tree_ok demo_utf8 _ a b] a b by simp blast
qed

end
