(* ===== verification/Builder.thy ===== *)
theory Builder
  imports Build_Spec Layer_Resolver Layer_Store
begin

text \<open>
  The layer builder, \<open>internal/builder/builder.go\<close>: \<open>Build\<close> runs pip in a temporary directory,
  measures, hashes and archives its output; \<open>Extract\<close> unpacks such an archive. The program pip, the
  search for an interpreter, SHA-256, gzip and tar, base64 and the clock are arguments
  (\<open>build_lib\<close>); what pip leaves in the target directory is the list of entries a walk of it
  reports.
\<close>

section \<open>Definitions\<close>

record Builder =
  bu_Policy :: Policy
  bu_Limits :: Limits
  bu_Tag :: string

record BuildManifest =
  bm_Name :: string
  bm_Version :: string
  bm_Runtime :: string
  bm_MountPath :: string
  bm_Digest :: string
  bm_SizeBytes :: int
  bm_BuiltAt :: time
  bm_BuilderTag :: string
  bm_Spec :: BuildSpec

record BuildResult =
  br_Manifest :: BuildManifest
  br_TarGzBase64 :: string

datatype build_error =
    SpecError spec_error
  | UnsupportedType string
  | BuildOsError os_error
  | NoInterpreter "string list"
  | PipFailed string
  | OutputUnreadable
  | OutputTooLarge int
  | SymlinkInOutput string
  | TarFailed
  | BadTarGz string
  | EntryEscapes string
  | EntryUnreadable

record build_lib =
  bl_LookPath :: "string \<Rightarrow> string option"
  bl_Run :: "string list \<Rightarrow> string list \<Rightarrow> string + walk_entry list"
  bl_sha256 :: "string \<Rightarrow> string"
  bl_readFails :: "walk_entry \<Rightarrow> bool"
  bl_headerFails :: "walk_entry \<Rightarrow> bool"
  bl_targz :: "tar_entry list \<Rightarrow> string"
  bl_untar :: "string \<Rightarrow> string + tar_entry list \<times> string option"
  bl_base64 :: "string \<Rightarrow> string"
  bl_PATH :: string

definition New_builder :: "Policy \<Rightarrow> Limits \<Rightarrow> Builder" where
  "New_builder p l = \<lparr>bu_Policy = p, bu_Limits = WithDefaults l, bu_Tag = ''''\<rparr>"

fun first_found :: "(string \<Rightarrow> string option) \<Rightarrow> string list \<Rightarrow> string option" where
  "first_found look [] = None"
| "first_found look (c # cs) = (case look c of Some p \<Rightarrow> Some p | None \<Rightarrow> first_found look cs)"

definition resolvePython :: "build_lib \<Rightarrow> string \<Rightarrow> build_error + string" where
  "resolvePython lib version =
     (let candidates = [''python'' @ version, ''python3'', ''python'']
      in case first_found (bl_LookPath lib) candidates of
           Some p \<Rightarrow> Inr p
         | None \<Rightarrow> Inl (NoInterpreter candidates))"

text \<open>The running sum is an \<open>int64\<close>.\<close>

fun dirSize :: "walk_entry list \<Rightarrow> int \<Rightarrow> int \<Rightarrow> build_error + int" where
  "dirSize [] acc maxBytes = Inr acc"
| "dirSize (e # es) acc maxBytes =
     (if we_failed e then Inl OutputUnreadable
      else case we_kind e of
        IsRegular b \<Rightarrow>
          (let acc = wrap64 (acc + int (we_size e))
           in if maxBytes < acc then Inl (OutputTooLarge maxBytes) else dirSize es acc maxBytes)
      | _ \<Rightarrow> dirSize es acc maxBytes)"

definition sort_entries :: "walk_entry list \<Rightarrow> walk_entry list" where
  "sort_entries es = sort_key (\<lambda>e. rel_text (we_rel e)) es"

fun hash_entries :: "walk_entry list \<Rightarrow> build_error + walk_entry list" where
  "hash_entries [] = Inr []"
| "hash_entries (e # es) =
     (if we_failed e then Inl OutputUnreadable
      else if rel_text (we_rel e) = ''.'' then hash_entries es
      else if we_kind e = IsSymlink then Inl (SymlinkInOutput (rel_text (we_rel e)))
      else case hash_entries es of Inl x \<Rightarrow> Inl x | Inr rest \<Rightarrow> Inr (e # rest))"

fun is_regular :: "file_kind \<Rightarrow> bool" where
  "is_regular (IsRegular b) = True"
| "is_regular k = False"

definition hashDir :: "build_lib \<Rightarrow> walk_entry list \<Rightarrow> build_error + string" where
  "hashDir lib es =
     (case hash_entries es of
        Inl x \<Rightarrow> Inl x
      | Inr entries \<Rightarrow>
          if list_ex (\<lambda>e. is_regular (we_kind e) \<and> bl_readFails lib e) entries then Inl OutputUnreadable
          else Inr (bl_sha256 lib (concat (map entry_text (sort_entries entries)))))"

fun kind_flag :: "file_kind \<Rightarrow> typeflag" where
  "kind_flag IsDir = TypeDir"
| "kind_flag (IsRegular b) = TypeReg"
| "kind_flag IsSymlink = TypeSymlink"
| "kind_flag IsSpecial = TypeOther"

definition tar_header :: "walk_entry \<Rightarrow> tar_entry" where
  "tar_header e = \<lparr>hdr_Name = rel_text (we_rel e), hdr_Typeflag = kind_flag (we_kind e), hdr_Mode = int (we_perm e),
     te_body = (case we_kind e of IsRegular b \<Rightarrow> b | _ \<Rightarrow> []), te_readErr = False\<rparr>"

definition tarGz :: "build_lib \<Rightarrow> walk_entry list \<Rightarrow> build_error + string" where
  "tarGz lib es =
     (if list_ex we_failed es then Inl OutputUnreadable
      else let entries = sort_entries (filter (\<lambda>e. rel_text (we_rel e) \<noteq> ''.'') es)
           in if list_ex (\<lambda>e. bl_headerFails lib e \<or> is_regular (we_kind e) \<and> bl_readFails lib e) entries then Inl TarFailed
              else Inr (bl_targz lib (map tar_header entries)))"

text \<open>The message of a failed pip run is cut.\<close>

definition trim_stderr :: "string \<Rightarrow> string" where
  "trim_stderr s = (if 4 * 1024 < length s then take (4 * 1024) s @ ''...(truncated)'' else s)"

definition pip_args :: "Policy \<Rightarrow> BuildSpec \<Rightarrow> string \<Rightarrow> string \<Rightarrow> string list" where
  "pip_args p spec target reqPath =
     [''-m'', ''pip'', ''install'', ''--target'', target, ''--requirement'', reqPath,
      ''--disable-pip-version-check'', ''--no-compile'', ''--no-cache-dir'', ''--quiet''] @
     (if po_RequireHashes p then [''--require-hashes''] else []) @
     (if bo_IndexURL (bs_Build spec) \<noteq> [] then [''--index-url'', bo_IndexURL (bs_Build spec)] else [])"

definition build_manifest :: "Builder \<Rightarrow> BuildSpec \<Rightarrow> string \<Rightarrow> int \<Rightarrow> time \<Rightarrow> BuildManifest" where
  "build_manifest b spec digest sz now =
     \<lparr>bm_Name = bs_Name spec, bm_Version = bs_Version spec,
      bm_Runtime = (if bs_Runtime spec = [] then ''python-'' @ bo_Python (bs_Build spec) else bs_Runtime spec),
      bm_MountPath = (if bs_MountPath spec = [] then ''/opt/layers/'' @ bs_Name spec else bs_MountPath spec),
      bm_Digest = ''sha256:'' @ digest, bm_SizeBytes = sz, bm_BuiltAt = now, bm_BuilderTag = bu_Tag b, bm_Spec = spec\<rparr>"

text \<open>The part of \<open>buildPythonPip\<close> between the preparation and the removal of the work directory.\<close>

definition pip_output :: "build_lib \<Rightarrow> Builder \<Rightarrow> BuildSpec \<Rightarrow> string \<Rightarrow> string \<Rightarrow> string \<Rightarrow> build_error + walk_entry list" where
  "pip_output lib b spec work target reqPath =
     (case resolvePython lib (bo_Python (bs_Build spec)) of
        Inl e \<Rightarrow> Inl e
      | Inr pythonBin \<Rightarrow>
          (case bl_Run lib (pythonBin # pip_args (bu_Policy b) spec target reqPath)
                  [''PATH='' @ bl_PATH lib, ''HOME='' @ work, ''TMPDIR='' @ work, ''LANG=C.UTF-8''] of
             Inl stderr \<Rightarrow> Inl (PipFailed (trim_stderr stderr))
           | Inr es \<Rightarrow> Inr es))"

definition package :: "build_lib \<Rightarrow> Builder \<Rightarrow> BuildSpec \<Rightarrow> time \<Rightarrow> walk_entry list \<Rightarrow> build_error + BuildResult" where
  "package lib b spec now es =
     (case dirSize es 0 (wrap64 (li_MaxOutputMB (bu_Limits b) * 1024 * 1024)) of
        Inl e \<Rightarrow> Inl e
      | Inr sz \<Rightarrow>
          (case hashDir lib es of
             Inl e \<Rightarrow> Inl e
           | Inr digest \<Rightarrow>
               (case tarGz lib es of
                  Inl e \<Rightarrow> Inl e
                | Inr tarball \<Rightarrow>
                    Inr \<lparr>br_Manifest = build_manifest b spec digest sz now, br_TarGzBase64 = bl_base64 lib tarball\<rparr>)))"

definition buildPythonPip :: "build_lib \<Rightarrow> Builder \<Rightarrow> BuildSpec \<Rightarrow> nat \<Rightarrow> time \<Rightarrow> host \<Rightarrow> (build_error + BuildResult) \<times> host" where
  "buildPythonPip lib b spec rnd now h =
     (case MkdirTemp '''' (''cfunc-build-'' @ decimal rnd) h of
        (Inl e, h) \<Rightarrow> (Inl (BuildOsError e), h)
      | (Inr work, h) \<Rightarrow>
          (let target = Join [work, ''site''];
               reqPath = Join [work, ''requirements.txt'']
           in case MkdirAll target h of
                (Some e, h) \<Rightarrow> (Inl (BuildOsError e), RemoveAll work h)
              | (None, h) \<Rightarrow>
                  (case write_file reqPath 384 (bo_Requirements (bs_Build spec)) h of
                     (Some e, h) \<Rightarrow> (Inl (BuildOsError e), RemoveAll work h)
                   | (None, h) \<Rightarrow>
                       (case pip_output lib b spec work target reqPath of
                          Inl e \<Rightarrow> (Inl e, RemoveAll work h)
                        | Inr es \<Rightarrow> (package lib b spec now es, RemoveAll work h)))))"

definition Build :: "build_lib \<Rightarrow> Builder \<Rightarrow> BuildSpec \<Rightarrow> nat \<Rightarrow> time \<Rightarrow> host \<Rightarrow> (build_error + BuildResult) \<times> host" where
  "Build lib b spec rnd now h =
     (case Validate_spec spec (bu_Policy b) of
        Some e \<Rightarrow> (Inl (SpecError e), h)
      | None \<Rightarrow>
          if bo_Type (bs_Build spec) = ''python-pip'' then buildPythonPip lib b spec rnd now h
          else (Inl (UnsupportedType (bo_Type (bs_Build spec))), h))"

subsection \<open>Unpacking\<close>

definition extract_entry :: "string \<Rightarrow> tar_entry \<Rightarrow> host \<Rightarrow> build_error option \<times> host" where
  "extract_entry dest hdr h =
     (let clean = Clean (hdr_Name hdr)
      in if IsAbs clean \<or> clean = ''..'' \<or> has_prefix clean ''../'' then (Some (EntryEscapes (hdr_Name hdr)), h)
         else let target = Join [dest, clean]
              in case hdr_Typeflag hdr of
                   TypeDir \<Rightarrow> (let (e, h) = MkdirAll target h in (map_option BuildOsError e, h))
                 | TypeSymlink \<Rightarrow> (None, h)
                 | TypeOther \<Rightarrow> (None, h)
                 | _ \<Rightarrow>
                     (case MkdirAll (Dir_of target) h of
                        (Some e, h) \<Rightarrow> (Some (BuildOsError e), h)
                      | (None, h) \<Rightarrow>
                          (case write_file target (file_mode (hdr_Mode hdr)) (te_body hdr) h of
                             (Some e, h) \<Rightarrow> (Some (BuildOsError e), h)
                           | (None, h) \<Rightarrow> (if te_readErr hdr then Some EntryUnreadable else None, h))))"

fun extract_all :: "string \<Rightarrow> tar_entry list \<Rightarrow> host \<Rightarrow> build_error option \<times> host" where
  "extract_all dest [] h = (None, h)"
| "extract_all dest (e # es) h =
     (case extract_entry dest e h of
        (Some x, h) \<Rightarrow> (Some x, h)
      | (None, h) \<Rightarrow> extract_all dest es h)"

definition Extract :: "build_lib \<Rightarrow> string \<Rightarrow> string \<Rightarrow> host \<Rightarrow> build_error option \<times> host" where
  "Extract lib tgz dest h =
     (case MkdirAll dest h of
        (Some e, h) \<Rightarrow> (Some (BuildOsError e), h)
      | (None, h) \<Rightarrow>
          (case bl_untar lib tgz of
             Inl msg \<Rightarrow> (Some (BadTarGz msg), h)
           | Inr (es, tarErr) \<Rightarrow>
               (case extract_all dest es h of
                  (Some x, h) \<Rightarrow> (Some x, h)
                | (None, h) \<Rightarrow> (map_option BadTarGz tarErr, h))))"

text \<open>No file of the tree stands in the way of an entry.\<close>

definition no_file_above :: "string list \<Rightarrow> host \<Rightarrow> string list \<Rightarrow> bool" where
  "no_file_above p h rel \<longleftrightarrow> (\<forall>r m b. prefix r rel \<longrightarrow> node_at h (p @ r) \<noteq> Some (Regular m b))"

abbreviation rel_ok :: "string list \<Rightarrow> bool" where
  "rel_ok rel \<equiv> list_all (\<lambda>c. proper c \<and> CHR ''/'' \<notin> set c) rel"

fun as_build_error :: "layers_error \<Rightarrow> build_error" where
  "as_build_error (IoError x) = BuildOsError x"
| "as_build_error e = EntryUnreadable"

fun as_layer_error :: "layers_error \<Rightarrow> layer_error" where
  "as_layer_error (IoError x) = OsError x"
| "as_layer_error e = ReadFailed"

abbreviation packed :: "walk_entry \<Rightarrow> bool" where
  "packed e \<equiv> rel_ok (we_rel e) \<and> we_rel e \<noteq> [] \<and> \<not> we_failed e \<and> we_kind e \<noteq> IsSymlink \<and> we_perm e < 512"

text \<open>A walk of a tree: no path twice, nothing below a file, the walked directory itself a directory.\<close>

definition tree_ok :: "walk_entry list \<Rightarrow> bool" where
  "tree_ok es \<longleftrightarrow> distinct (map we_rel es) \<and> rels_ok es \<and> (\<forall>e \<in> set es. we_rel e = [] \<longrightarrow> we_kind e = IsDir) \<and>
     (\<forall>a \<in> set es. \<forall>b \<in> set es. is_regular (we_kind a) \<longrightarrow> \<not> strict_prefix (we_rel a) (we_rel b)) \<and>
     (\<forall>e \<in> set es. we_perm e < 512)"

abbreviation packing :: "walk_entry list \<Rightarrow> walk_entry list" where
  "packing es \<equiv> sort_entries (filter (\<lambda>e. rel_text (we_rel e) \<noteq> ''.'') es)"

text \<open>The directory exists and nothing is in it.\<close>

definition empty_dir :: "host \<Rightarrow> string \<Rightarrow> bool" where
  "empty_dir h dst \<longleftrightarrow> node_at h (path_of h dst) = Some Directory \<and> \<not> has_entries h (path_of h dst)"

abbreviation file_bytes :: "walk_entry list \<Rightarrow> int" where
  "file_bytes es \<equiv> (\<Sum>e\<leftarrow>es. if is_regular (we_kind e) then int (we_size e) else 0)"

text \<open>A result of the output \<open>out\<close> of a pip run in the work directory \<open>work\<close>.\<close>

definition built :: "build_lib \<Rightarrow> Builder \<Rightarrow> BuildSpec \<Rightarrow> BuildResult \<Rightarrow> string \<Rightarrow> string \<Rightarrow> walk_entry list \<Rightarrow> bool" where
  "built lib b spec res work python out \<longleftrightarrow>
     (let args = pip_args (bu_Policy b) spec (Join [work, ''site'']) (Join [work, ''requirements.txt'']);
          limit = wrap64 (li_MaxOutputMB (bu_Limits b) * 1024 * 1024); man = br_Manifest res
      in resolvePython lib (bo_Python (bs_Build spec)) = Inr python \<and>
         bl_Run lib (python # args) [''PATH='' @ bl_PATH lib, ''HOME='' @ work, ''TMPDIR='' @ work, ''LANG=C.UTF-8''] = Inr out \<and>
         (po_RequireHashes (bu_Policy b) \<longrightarrow> ''--require-hashes'' \<in> set args) \<and>
         (\<forall>e \<in> set out. rel_text (we_rel e) = ''.'' \<or> we_kind e \<noteq> IsSymlink) \<and>
         bm_Name man = bs_Name spec \<and> bm_Version man = bs_Version spec \<and> bm_MountPath man \<noteq> '''' \<and> bm_Runtime man \<noteq> '''' \<and>
         bm_Digest man = ''sha256:'' @ bl_sha256 lib (concat (map entry_text (packing out))) \<and>
         (0 \<le> limit \<and> file_bytes out < 2 ^ 63 \<longrightarrow> bm_SizeBytes man = file_bytes out \<and> file_bytes out \<le> limit))"

definition demo_out :: "walk_entry list" where
  "demo_out =
     [\<lparr>we_rel = [], we_perm = 493, we_size = 4096, we_kind = IsDir, we_failed = False\<rparr>,
      \<lparr>we_rel = [''pkg''], we_perm = 493, we_size = 4096, we_kind = IsDir, we_failed = False\<rparr>,
      \<lparr>we_rel = [''pkg'', ''a.py''], we_perm = 420, we_size = 5, we_kind = IsRegular ''x = 1'', we_failed = False\<rparr>,
      \<lparr>we_rel = [''pkg-1''], we_perm = 420, we_size = 2, we_kind = IsRegular ''ok'', we_failed = False\<rparr>]"

definition demo_build_lib :: build_lib where
  "demo_build_lib = \<lparr>bl_LookPath = (\<lambda>c. if c = ''python3'' then Some ''/usr/bin/python3'' else None),
     bl_Run = (\<lambda>cmd env. if list_ex (\<lambda>a. a = ''--require-hashes'') cmd then Inr demo_out else Inl ''no hashes''),
     bl_sha256 = (\<lambda>b. ''ab''), bl_readFails = (\<lambda>e. False), bl_headerFails = (\<lambda>e. False), bl_targz = (\<lambda>ts. ''tgz''),
     bl_untar = (\<lambda>b. Inr (map tar_header [demo_out ! 1, demo_out ! 3, demo_out ! 2], None)), bl_base64 = (\<lambda>b. b), bl_PATH = ''/usr/bin''\<rparr>"

definition demo_builder :: Builder where
  "demo_builder = New_builder DefaultPolicy \<lparr>li_Timeout = 0, li_MaxOutputMB = 0\<rparr>"

definition demo_build_host :: host where
  "demo_build_host = demo_host\<lparr>hs_tree := ([''tmp''], Directory) # hs_tree demo_host\<rparr>"

section \<open>Lemmas\<close>

declare map_of_eq_Some_iff [simp del] Some_eq_map_of_iff [simp del]

subsection \<open>Copies succeed\<close>

lemma mkdirs_succeed:
  assumes "\<And>q m b. prefix q (d @ cs) \<Longrightarrow> node_at h q \<noteq> Some (Regular m b)" "\<And>q. \<not> hs_denied h q"
  shows "fst (mkdirs d cs h) = None"
  using assms
proof (induction d cs h rule: mkdirs.induct)
  case (2 d c cs h)
  show ?case
  proof (cases "node_at h (d @ [c])")
    case None
    have "fst (mkdirs (d @ [c]) cs (put_node (d @ [c]) Directory h)) = None"
      using 2(1) [OF refl None] 2(3,4) by (auto split: if_splits)
    then show ?thesis using None 2(4) by (simp add: Let_def)
  next
    case (Some n)
    then have "n = Directory" using 2(3) [of "d @ [c]"] by (cases n) auto
    then show ?thesis using 2(2) [OF refl Some] 2(3,4) Some by (simp add: Let_def)
  qed
qed simp

lemma MkdirAll_succeeds:
  assumes "\<And>q m b. prefix q (path_of h t) \<Longrightarrow> node_at h q \<noteq> Some (Regular m b)" "\<And>q. \<not> hs_denied h q"
  shows "fst (MkdirAll t h) = None"
  using mkdirs_succeed [of "[]" "path_of h t" h] assms by (simp add: MkdirAll_def)

lemma MkdirAll_there:
  assumes "\<And>q. prefix q (path_of h t) \<Longrightarrow> node_at h q = Some Directory"
  shows "MkdirAll t h = (None, h)"
proof -
  have "mkdirs d cs h = (None, h)" if "\<And>q. prefix q (d @ cs) \<Longrightarrow> node_at h q = Some Directory" for d cs
    using that by (induction d cs h rule: mkdirs.induct) (simp_all add: Let_def)
  from this [of "[]" "path_of h t"] show ?thesis using assms by (simp add: MkdirAll_def)
qed

lemma write_file_succeeds:
  assumes "node_at h (path_of h t) = None" "path_of h t \<noteq> []" "node_at h (butlast (path_of h t)) = Some Directory" "\<not> hs_denied h (path_of h t)"
  shows "fst (write_file t m b h) = None"
  using assms by (simp add: write_file_def Let_def)

lemma no_file_prefix:
  assumes "room p h" "no_file_above p h rel" "prefix q (p @ rel)"
  shows "node_at h q \<noteq> Some (Regular m b)"
proof (cases "prefix p q")
  case True
  then obtain r where "q = p @ r" by (auto simp: prefix_def)
  then show ?thesis using assms(2,3) by (auto simp: no_file_above_def)
next
  case False
  then show ?thesis using room_above [OF assms(1,3)] by (simp add: prefix_def)
qed

lemma copy_entry_succeeds:
  assumes "room (path_of h dst) h" "dst \<noteq> ''''" "\<And>q. \<not> hs_denied h q" "no_file_above (path_of h dst) h (we_rel e)"
    and "list_all (\<lambda>c. proper c \<and> CHR ''/'' \<notin> set c) (we_rel e)" "we_rel e = [] \<longrightarrow> we_kind e = IsDir"
    and "\<not> we_failed e" "we_kind e \<noteq> IsSymlink" "we_kind e = IsDir \<or> node_at h (path_of h dst @ we_rel e) = None"
  shows "fst (copy_entry dst e h) = None"
proof -
  note [simp del] = Join.simps
  let ?p = "path_of h dst" and ?t = "Join [dst, rel_text (we_rel e)]"
  have t: "path_of h ?t = ?p @ we_rel e" using rel_target(1) [OF assms(2,5)] .
  note nf = no_file_prefix [OF assms(1,4)]
  show ?thesis
  proof (cases "we_kind e")
    case IsDir
    have "fst (MkdirAll ?t h) = None" using MkdirAll_succeeds [of h ?t] nf assms(3) unfolding t by blast
    then show ?thesis using IsDir assms(7) by (auto simp: copy_entry_def Let_def split: prod.splits)
  next
    case (IsRegular b)
    then have ne: "we_rel e \<noteq> []" and fresh: "node_at h (?p @ we_rel e) = None" using assms(6,9) by auto
    have d: "path_of h (Dir_of ?t) = ?p @ butlast (we_rel e)" using rel_target(2) [OF assms(2,5) ne] .
    have "prefix (?p @ butlast (we_rel e)) (?p @ we_rel e)" by (simp add: prefixeq_butlast)
    then have m: "fst (MkdirAll (Dir_of ?t) h) = None"
      using MkdirAll_succeeds [of h "Dir_of ?t"] nf assms(3) unfolding d by (meson prefix_order.trans)
    obtain h1 where h1: "MkdirAll (Dir_of ?t) h = (None, h1)" using m by (cases "MkdirAll (Dir_of ?t) h") auto
    have dir: "prefix ?p (path_of h (Dir_of ?t)) \<or> path_of h (Dir_of ?t) = butlast ?p" by (simp add: d)
    note s = MkdirAll_stays [OF h1 assms(1) dir] and f = MkdirAll_facts(1) [OF h1, unfolded d]
    have p1: "path_of h1 x = path_of h x" for x by (rule stays_path [OF s(1)])
    have "\<not> prefix (?p @ we_rel e) (?p @ butlast (we_rel e))"
      using ne prefix_length_le [of "we_rel e" "butlast (we_rel e)"] by (cases "we_rel e") auto
    then have "node_at h1 (?p @ we_rel e) = None" using f assms(1) fresh by (metis room_def dirs_made_def)
    moreover have "butlast (?p @ we_rel e) = ?p @ butlast (we_rel e)" using ne by (simp add: butlast_append)
    moreover have "\<not> hs_denied h1 q" for q using s(1) assms(3) by (simp add: stays_def differ_below_def same_host_def)
    ultimately have "fst (write_file ?t (we_perm e) b h1) = None"
      using write_file_succeeds [of h1 ?t] s(3) ne unfolding p1 t d by simp
    then show ?thesis using IsRegular assms(7) h1 by (auto simp: copy_entry_def Let_def split: prod.splits)
  qed (use assms(7,8) in \<open>simp_all add: copy_entry_def Let_def\<close>)
qed

subsection \<open>Archives and trees\<close>

lemma rel_text_split: "rel_ok rel \<Longrightarrow> rel \<noteq> [] \<Longrightarrow> split_on CHR ''/'' (rel_text rel) = rel"
  unfolding rel_text_def by (simp add: split_join_path list_all_iff)

lemma rel_text_facts:
  assumes "rel_ok rel" "rel \<noteq> []"
  shows "\<not> IsAbs (rel_text rel)" "clean_parts (rel_text rel) = rel" "Clean (rel_text rel) = rel_text rel"
    "rel_text rel \<noteq> ''..''" "\<not> has_prefix (rel_text rel) ''../''" "rel_text rel \<noteq> ''.''" "rel_text rel \<noteq> ''''"
proof -
  have p: "list_all proper rel" "''..'' \<notin> set rel" "''.'' \<notin> set rel" "'''' \<notin> set rel" using assms(1) by (auto simp: list_all_iff)
  note sp = rel_text_split [OF assms]
  show a: "\<not> IsAbs (rel_text rel)" using join_abs [OF assms(2) p(4)] assms by (simp add: rel_text_def list_all_iff)
  show c: "clean_parts (rel_text rel) = rel" using sp p by (simp add: clean_parts_def fold_proper)
  show "Clean (rel_text rel) = rel_text rel" using a c assms(2) by (simp add: Clean_def rel_text_def)
  show "rel_text rel \<noteq> ''..''" "rel_text rel \<noteq> ''.''" "rel_text rel \<noteq> ''''" using sp p by auto
  show "\<not> has_prefix (rel_text rel) ''../''"
  proof
    assume "has_prefix (rel_text rel) ''../''"
    then obtain r where "rel_text rel = ''..'' @ CHR ''/'' # r" by (auto simp: has_prefix_iff)
    then have "''..'' \<in> set rel" using sp split_on_split [of "CHR ''/''" "''..''" r] by (auto simp: split_on_atom)
    then show False using p by simp
  qed
qed

lemma rel_text_inj: "rel_ok a \<Longrightarrow> rel_ok b \<Longrightarrow> rel_text a = rel_text b \<Longrightarrow> a = b"
  using rel_text_split [of a] rel_text_split [of b] rel_text_facts(6) [of a] rel_text_facts(6) [of b]
  by (cases "a = []"; cases "b = []") (auto simp: rel_text_def)

lemma extract_entry_copy:
  assumes "packed e"
  shows "extract_entry dst (tar_header e) h = apfst (map_option as_build_error) (copy_entry dst e h)"
proof -
  note [simp del] = Join.simps
  have r: "rel_ok (we_rel e)" "we_rel e \<noteq> []" using assms by auto
  have m: "file_mode (int (we_perm e)) = we_perm e" using assms by (simp add: file_mode_def)
  show ?thesis
    using rel_text_facts [OF r] assms m
    by (cases "we_kind e") (auto simp: extract_entry_def tar_header_def copy_entry_def Let_def apfst_def option.map_comp comp_def split: prod.splits option.splits)
qed

lemma extract_all_copy:
  assumes "list_all packed es"
  shows "extract_all dst (map tar_header es) h = apfst (map_option as_build_error) (copyTree dst es h)"
  using assms
  by (induction es arbitrary: h) (auto simp: extract_entry_copy split: prod.splits option.splits)

lemma safeJoin_rel:
  assumes "rel_ok rel" "rel \<noteq> []" "named_dir dst"
  shows "safeJoin dst (rel_text rel) = Inr (Join [dst, rel_text rel])"
proof -
  note f = rel_text_facts [OF assms(1,2)] and sp = rel_text_split [OF assms(1,2)]
  have d: "dst \<noteq> ''''" "clean_parts dst \<noteq> []" using assms(3) by (auto simp: named_dir_def)
  have rel: "filter proper rel = rel" "''..'' \<notin> set rel" using assms(1) by (auto simp: list_all_iff filter_id_conv)
  have abs: "IsAbs (dst @ CHR ''/'' # r) = IsAbs dst" for r using d(1) by (cases dst) (auto simp: IsAbs_def has_prefix_iff)
  have parts: "clean_parts (dst @ CHR ''/'' # rel_text rel) = clean_parts dst @ rel"
    using clean_parts_below [OF d(1), of "rel_text rel"] sp rel by simp
  have join: "join_with ''/'' (a @ b) = join_with ''/'' a @ ''/'' @ join_with ''/'' b" if "a \<noteq> []" "b \<noteq> []" for a b :: "string list"
    using that by (induction a rule: induct_list012) (auto simp: neq_Nil_conv)
  have "Join [dst, rel_text rel] = Clean dst @ ''/'' @ rel_text rel"
    using d f(7) parts abs join [OF d(2) assms(2)] assms(2) by (simp add: Clean_def rel_text_def)
  then have "has_prefix (Join [dst, rel_text rel]) (Clean dst @ ''/'')" by (metis append.assoc has_prefix_iff)
  moreover have "\<not> list_ex (\<lambda>part. part = ''..'') (split_on CHR ''/'' (rel_text rel))" using sp rel(2) by (auto simp: list_ex_iff)
  ultimately show ?thesis using f(1,3,7) by (simp add: safeJoin_def Let_def IsAbs_def del: Join.simps)
qed

text \<open>The gateway's extraction removes the target first, which is no difference where nothing is.\<close>

lemma writeEntry_copy:
  assumes "packed e" "named_dir dst" "room (path_of h dst) h" "node_at h (path_of h dst @ we_rel e) = None"
  shows "writeEntry dst (tar_header e) h = apfst (map_option as_layer_error) (copy_entry dst e h)"
proof -
  note [simp del] = Join.simps
  let ?t = "Join [dst, rel_text (we_rel e)]" and ?p = "path_of h dst"
  have r: "rel_ok (we_rel e)" "we_rel e \<noteq> []" and dst: "dst \<noteq> ''''" using assms(1,2) by (auto simp: named_dir_def)
  have m: "file_mode (int (we_perm e)) = we_perm e" using assms(1) by (simp add: file_mode_def)
  note t = rel_target [OF dst r(1)]
  have rem: "Remove ?t h1 = (Some NotExist, h1)" if "MkdirAll (Dir_of ?t) h = (None, h1)" for h1
  proof -
    have wf: "host_wf h" using assms(3) by (simp add: room_def)
    note f = MkdirAll_facts(1) [OF that wf, unfolded t(2) [OF r(2)]]
    have "\<not> prefix (?p @ we_rel e) (?p @ butlast (we_rel e))"
      using r(2) prefix_length_le [of "we_rel e" "butlast (we_rel e)"] by (cases "we_rel e") auto
    then have "node_at h1 (?p @ we_rel e) = None" using f assms(4) by (metis dirs_made_def)
    moreover have "path_of h1 ?t = ?p @ we_rel e" using f t(1) by (simp add: dirs_made_def same_host_def)
    ultimately show ?thesis by (simp add: Remove_def)
  qed
  show ?thesis
    using safeJoin_rel [OF r assms(2)] assms(1) m rem
    by (cases "we_kind e")
      (auto simp: writeEntry_def tar_header_def copy_entry_def Let_def apfst_def option.map_comp comp_def split: prod.splits option.splits)
qed

lemma extract_entries_copy:
  assumes "list_all packed es" "named_dir dst" "room (path_of h dst) h" "walk_order es" "\<forall>e \<in> set es. node_at h (path_of h dst @ we_rel e) = None"
  shows "extract_entries dst (map tar_header es) h = apfst (map_option as_layer_error) (copyTree dst es h)"
  using assms
proof (induction es arbitrary: h)
  case (Cons e es)
  obtain y h1 where c: "copy_entry dst e h = (y, h1)" by fastforce
  have dst: "dst \<noteq> ''''" using Cons.prems(2) by (simp add: named_dir_def)
  have w: "writeEntry dst (tar_header e) h = (map_option as_layer_error y, h1)"
    using writeEntry_copy [of e dst h] Cons.prems c by simp
  note f = copy_entry_facts [OF c Cons.prems(3) dst]
  have s: "stays (path_of h dst) h h1" using f(1) Cons.prems(1) by simp
  have "node_at h1 (path_of h dst @ we_rel e') = None" if "e' \<in> set es" for e'
    using f(2) [of "path_of h dst @ we_rel e'"] Cons.prems(1,4,5) that by (auto simp: walk_order_def)
  then have "extract_entries dst (map tar_header es) h1 = apfst (map_option as_layer_error) (copyTree dst es h1)"
    using Cons.IH [of h1] Cons.prems stays_room [OF Cons.prems(3) s] stays_path [OF s] by (simp add: walk_order_def)
  then show ?case using w c by (cases y) simp_all
qed simp

subsection \<open>Copying a walked tree succeeds\<close>

lemma copy_entry_no_file:
  assumes "copy_entry dst e h = (None, h1)" "room (path_of h dst) h" "dst \<noteq> ''''" "packed e"
    and "no_file_above (path_of h dst) h rel" "is_regular (we_kind e) \<longrightarrow> \<not> prefix (we_rel e) rel"
    and "node_at h (path_of h dst @ we_rel e) = None"
  shows "no_file_above (path_of h dst) h1 rel"
  unfolding no_file_above_def
proof (intro allI impI notI)
  let ?p = "path_of h dst"
  fix r m b assume r: "prefix r rel" "node_at h1 (?p @ r) = Some (Regular m b)"
  have e: "rel_ok (we_rel e)" "we_rel e = [] \<longrightarrow> we_kind e = IsDir" using assms(4) by auto
  note f = copy_entry_facts [OF assms(1-3) e]
  have "node_at h1 (?p @ r) \<noteq> node_at h (?p @ r)" using r assms(5) by (metis no_file_above_def)
  then have pre: "prefix r (we_rel e)" using f(2) [of "?p @ r"] by simp
  show False
  proof (cases "is_regular (we_kind e) \<or> we_kind e = IsDir")
    case True
    then have at: "node_at h1 (?p @ we_rel e) = entry_node e" "entry_node e \<noteq> None"
      using f(3,4) [OF refl] assms(7) by (cases "we_kind e"; auto simp: entry_node_def)+
    obtain z where z: "we_rel e = r @ z" using pre by (auto simp: prefix_def)
    show False
    proof (cases "z = []")
      case True
      then show False using at(1) r z assms(6) by (cases "we_kind e") (auto simp: entry_node_def)
    next
      case False
      then show False using node_ancestor [of h1 "?p @ r" z] f(1) at r(2) z by (simp add: stays_def)
    qed
  next
    case False
    then have "h1 = h" using assms(1,4) by (cases "we_kind e") (auto simp: copy_entry_def Let_def)
    then show False using r assms(5) by (auto simp: no_file_above_def)
  qed
qed

lemma copyTree_succeeds:
  assumes "room (path_of h dst) h" "dst \<noteq> ''''" "\<And>q. \<not> hs_denied h q" "list_all packed es" "walk_order es"
    and "\<forall>e \<in> set es. node_at h (path_of h dst @ we_rel e) = None \<and> no_file_above (path_of h dst) h (we_rel e)"
    and "\<forall>a \<in> set es. \<forall>b \<in> set es. is_regular (we_kind a) \<longrightarrow> \<not> strict_prefix (we_rel a) (we_rel b)"
  shows "fst (copyTree dst es h) = None"
  using assms
proof (induction es arbitrary: h)
  case (Cons e es)
  let ?p = "path_of h dst"
  have "fst (copy_entry dst e h) = None" by (rule copy_entry_succeeds) (use Cons.prems in auto)
  then obtain h1 where c: "copy_entry dst e h = (None, h1)" by (cases "copy_entry dst e h") auto
  have s: "stays ?p h h1" using copy_entry_facts(1) [OF c Cons.prems(1,2)] Cons.prems(4) by simp
  have p1: "path_of h1 x = path_of h x" for x by (rule stays_path [OF s])
  have "node_at h1 (?p @ we_rel e') = None \<and> no_file_above ?p h1 (we_rel e')" if e': "e' \<in> set es" for e'
  proof
    have o: "\<not> prefix (we_rel e') (we_rel e)" using Cons.prems(5) e' by (simp add: walk_order_def)
    then show "node_at h1 (?p @ we_rel e') = None"
      using copy_entry_facts(2) [OF c Cons.prems(1,2), of "?p @ we_rel e'"] Cons.prems(4,6) e' by auto
    show "no_file_above ?p h1 (we_rel e')"
    proof (rule copy_entry_no_file [OF c Cons.prems(1,2)])
      show "is_regular (we_kind e) \<longrightarrow> \<not> prefix (we_rel e) (we_rel e')"
        using Cons.prems(7) e' o by (auto simp: strict_prefix_def)
    qed (use Cons.prems e' in auto)
  qed
  moreover have "\<not> hs_denied h1 q" for q using s Cons.prems(3) by (simp add: stays_def differ_below_def same_host_def)
  ultimately have "fst (copyTree dst es h1) = None"
    using Cons.IH [of h1] Cons.prems stays_room [OF Cons.prems(1) s] by (simp add: p1 walk_order_def)
  then show ?case using c by simp
qed simp

lemma rel_text_prefix:
  assumes "prefix a b" "rel_ok a" "rel_ok b" "a \<noteq> []"
  shows "rel_text a \<le> rel_text b"
proof -
  obtain c where b: "b = a @ c" using assms(1) by (auto simp: prefix_def)
  have join: "\<exists>r. join_with ''/'' (a @ c) = join_with ''/'' a @ r" for a c :: "string list"
    by (induction a rule: induct_list012) (auto simp: neq_Nil_conv, (cases c; auto)+)
  have le: "x \<le> x @ y" for x y :: string by (induction x) auto
  show ?thesis using join [of a c] b assms(4) le by (auto simp: rel_text_def)
qed

lemma sorted_walk_order:
  assumes "distinct (map we_rel es)" "\<forall>e \<in> set es. rel_ok (we_rel e) \<and> we_rel e \<noteq> []"
  shows "walk_order (sort_entries es)"
proof -
  let ?s = "sort_entries es" and ?k = "\<lambda>e. rel_text (we_rel e)"
  have set: "set ?s = set es" by (simp add: sort_entries_def)
  have "mset (map we_rel ?s) = mset (map we_rel es)" by (simp add: sort_entries_def)
  then have d: "distinct (map we_rel ?s)" using assms(1) mset_eq_imp_distinct_iff by blast
  have "sorted (map ?k ?s)" by (simp add: sort_entries_def)
  then have o: "?k (?s ! i) \<le> ?k (?s ! j)" if "i < j" "j < length ?s" for i j
    using that by (simp add: sorted_iff_nth_mono)
  have "\<not> prefix (we_rel (?s ! j)) (we_rel (?s ! i))" if "i < j" "j < length ?s" for i j
  proof
    assume p: "prefix (we_rel (?s ! j)) (we_rel (?s ! i))"
    have r: "rel_ok (we_rel (?s ! j))" "rel_ok (we_rel (?s ! i))" "we_rel (?s ! j) \<noteq> []"
      using assms(2) set that nth_mem [of j ?s] nth_mem [of i ?s] by auto
    have "we_rel (?s ! i) = we_rel (?s ! j)"
      using rel_text_inj [OF r(2,1)] rel_text_prefix [OF p r] o [OF that] by simp
    then show False using d that nth_eq_iff_index_eq [OF d, of i j] by simp
  qed
  then show ?thesis using assms(2) set by (auto simp: walk_order_def sorted_wrt_iff_nth_less)
qed

subsection \<open>What a build packs\<close>

lemma hash_entries_links:
  "hash_entries es = Inr xs \<Longrightarrow> e \<in> set es \<Longrightarrow> \<not> we_failed e \<and> (rel_text (we_rel e) = ''.'' \<or> we_kind e \<noteq> IsSymlink)"
  by (induction es arbitrary: xs) (auto split: if_splits sum.splits)

lemma hash_entries_filter: "hash_entries es = Inr xs \<Longrightarrow> xs = filter (\<lambda>e. rel_text (we_rel e) \<noteq> ''.'') es"
  by (induction es arbitrary: xs) (auto split: if_splits sum.splits)

lemma output_ok:
  assumes "tree_ok es" "hashDir lib es = Inr d"
  shows "list_all packed (packing es)" "walk_order (packing es)" "set (packing es) = {e \<in> set es. we_rel e \<noteq> []}"
    "\<forall>a \<in> set (packing es). \<forall>b \<in> set (packing es). is_regular (we_kind a) \<longrightarrow> \<not> strict_prefix (we_rel a) (we_rel b)"
proof -
  obtain xs where h: "hash_entries es = Inr xs" using assms(2) by (auto simp: hashDir_def split: sum.splits)
  have rel: "rel_ok (we_rel e)" if "e \<in> set es" for e using assms(1) that by (auto simp: tree_ok_def rels_ok_def list_all_iff)
  have dot: "rel_text (we_rel e) = ''.'' \<longleftrightarrow> we_rel e = []" if "e \<in> set es" for e
    using rel_text_facts(6) [OF rel [OF that]] by (auto simp: rel_text_def)
  show set: "set (packing es) = {e \<in> set es. we_rel e \<noteq> []}" using dot by (auto simp: sort_entries_def)
  then show "\<forall>a \<in> set (packing es). \<forall>b \<in> set (packing es). is_regular (we_kind a) \<longrightarrow> \<not> strict_prefix (we_rel a) (we_rel b)"
    using assms(1) by (simp add: tree_ok_def)
  have perm: "we_perm e < 512" if "e \<in> set es" for e using assms(1) that by (simp add: tree_ok_def)
  have "packed e" if "e \<in> set (packing es)" for e
  proof -
    have e: "e \<in> set es" "we_rel e \<noteq> []" using that unfolding set by auto
    show ?thesis using hash_entries_links [OF h e(1)] dot [OF e(1)] rel [OF e(1)] perm [OF e(1)] e(2) by simp
  qed
  then show "list_all packed (packing es)" unfolding list_all_iff [of packed] by blast
  have "distinct (map we_rel (filter (\<lambda>e. rel_text (we_rel e) \<noteq> ''.'') es))"
    using assms(1) by (simp add: tree_ok_def distinct_map_filter)
  then show "walk_order (packing es)" by (rule sorted_walk_order) (use rel dot in auto)
qed

lemma package_parts:
  assumes "package lib b spec now es = Inr res"
  obtains sz d tgz where "dirSize es 0 (wrap64 (li_MaxOutputMB (bu_Limits b) * 1024 * 1024)) = Inr sz" "hashDir lib es = Inr d" "tarGz lib es = Inr tgz"
    "res = \<lparr>br_Manifest = build_manifest b spec d sz now, br_TarGzBase64 = bl_base64 lib tgz\<rparr>"
  using assms by (auto simp: package_def split: sum.splits)

lemma tarGz_text: "tarGz lib es = Inr tgz \<Longrightarrow> tgz = bl_targz lib (map tar_header (packing es))"
  by (auto simp: tarGz_def Let_def split: if_splits)

lemma unpack_output:
  assumes "tree_ok es" "hashDir lib es = Inr d" "host_wf h" "named_dir dst" "empty_dir h dst" "\<And>q. \<not> hs_denied h q"
  obtains h' where "copyTree dst (packing es) h = (None, h')" "room (path_of h dst) h" "\<forall>e \<in> set (packing es). node_at h (path_of h dst @ we_rel e) = None"
    "stays (path_of h dst) h h'" "\<forall>e \<in> set es. we_rel e \<noteq> [] \<and> entry_node e \<noteq> None \<longrightarrow> node_at h' (path_of h dst @ we_rel e) = entry_node e"
proof -
  let ?p = "path_of h dst"
  note o = output_ok [OF assms(1,2)]
  have dst: "dst \<noteq> ''''" "node_at h ?p = Some Directory" using assms(4,5) by (auto simp: named_dir_def empty_dir_def)
  have ne: "?p \<noteq> []" using walk_Dir [of "Clean dst" "hs_cwd h"] last_split_Clean [of dst] assms(4) by (simp add: named_dir_def)
  have room: "room ?p h"
    using ne host_parent [OF assms(3), of "butlast ?p" "last ?p"] dst(2) assms(3) by (simp add: room_def)
  have below: "node_at h (?p @ r) = None" if "r \<noteq> []" for r
  proof -
    have "strict_prefix ?p (?p @ r)" using that by (simp add: strict_prefix_def)
    then show ?thesis using assms(5) unfolding empty_dir_def has_entries_iff by blast
  qed
  have packed: "packed e" if "e \<in> set (packing es)" for e using o(1) [unfolded list_all_iff [of packed]] that by blast
  have fresh: "\<forall>e \<in> set (packing es). node_at h (?p @ we_rel e) = None" using packed below by blast
  have "node_at h (?p @ r) \<noteq> Some (Regular m b)" for r m b using below [of r] dst(2) by (cases "r = []") auto
  then have "no_file_above ?p h rel" for rel unfolding no_file_above_def by blast
  then have "fst (copyTree dst (packing es) h) = None"
    using copyTree_succeeds [OF room dst(1) assms(6) o(1,2) _ o(4)] fresh by blast
  then obtain h' where c: "copyTree dst (packing es) h = (None, h')" by (cases "copyTree dst (packing es) h") auto
  have "rels_ok (packing es)" unfolding rels_ok_def list_all_iff [of "\<lambda>e. rel_ok (we_rel e)"] using packed by blast
  from copyTree_facts [OF c room dst(1) this o(2) fresh] show ?thesis
    using that [OF c room fresh] o(3) by auto
qed

subsection \<open>Sizes\<close>

lemma file_bytes_pos: "0 \<le> file_bytes es"
  by (induction es) auto

text \<open>As long as the sum is an \<open>int64\<close>, the size is that of the files, and at most the limit.\<close>

lemma dirSize_sum:
  assumes "0 \<le> acc" "acc \<le> m" "acc + file_bytes es < 2 ^ 63" "\<forall>e \<in> set es. \<not> we_failed e"
  shows "dirSize es acc m = (if acc + file_bytes es \<le> m then Inr (acc + file_bytes es) else Inl (OutputTooLarge m))"
  using assms
proof (induction es arbitrary: acc)
  case (Cons e es)
  note pos = file_bytes_pos [of es]
  show ?case
  proof (cases "is_regular (we_kind e)")
    case True
    then obtain b where k: "we_kind e = IsRegular b" by (cases "we_kind e") auto
    have "wrap64 (acc + int (we_size e)) = acc + int (we_size e)" using Cons.prems pos k by (intro wrap64_id) auto
    then show ?thesis using Cons.IH [of "acc + int (we_size e)"] Cons.prems k pos by (auto simp: Let_def)
  next
    case False
    then show ?thesis using Cons.IH [of acc] Cons.prems by (cases "we_kind e") auto
  qed
qed simp

lemma dirSize_walk: "dirSize es acc m = Inr sz \<Longrightarrow> e \<in> set es \<Longrightarrow> \<not> we_failed e"
  by (induction es acc m rule: dirSize.induct) (auto simp: Let_def split: if_splits file_kind.splits)

subsection \<open>The work directory\<close>

lemma build_base: "proper (''cfunc-build-'' @ decimal rnd)" "CHR ''/'' \<notin> set (''cfunc-build-'' @ decimal rnd)"
proof -
  have "\<not> is_digit CHR ''/''" by (simp add: is_digit_def)
  then show "CHR ''/'' \<notin> set (''cfunc-build-'' @ decimal rnd)" using decimal_digits [of rnd] by (auto simp: list_all_iff)
qed simp

lemma buildPythonPip_tree:
  assumes "buildPythonPip lib b spec rnd now h = (r, h')" "host_wf h" "hs_tmp h \<noteq> ''''"
  shows "node_at h' = node_at h" "host_wf h'" "same_host h h'"
proof -
  note [simp del] = Join.simps
  obtain t h1 where mk: "MkdirTemp '''' (''cfunc-build-'' @ decimal rnd) h = (t, h1)" by fastforce
  note tf = MkdirTemp_facts [OF mk assms(2)]
  have "node_at h' = node_at h \<and> host_wf h' \<and> same_host h h'"
  proof (cases t)
    case (Inl e)
    then show ?thesis using assms(1,2) mk tf by (simp add: buildPythonPip_def same_host_def)
  next
    case (Inr work)
    let ?p = "path_of h work"
    have t: "work = temp_path (hs_tmp h) '''' (''cfunc-build-'' @ decimal rnd)" "h1 = put_node ?p Directory h" "host_wf h1" "?p \<noteq> []"
      "node_at h ?p = None" "node_at h (butlast ?p) = Some Directory" using tf Inr by auto
    have work: "work \<noteq> ''''" using t(1) by (simp add: temp_path_def Let_def)
    have room: "room ?p h1" using t(2,3,4,6) by (auto simp: room_def)
    have p1: "path_of h1 x = path_of h x" for x using t(2) by (simp add: put_node_def)
    have j: "path_of h1 (Join [work, ''site'']) = ?p @ [''site'']" "path_of h1 (Join [work, ''requirements.txt'']) = ?p @ [''requirements.txt'']"
      using rel_target(1) [OF work, of "[''site'']"] rel_target(1) [OF work, of "[''requirements.txt'']"] by (simp_all add: rel_text_def p1)
    obtain e2 h2 where m: "MkdirAll (Join [work, ''site'']) h1 = (e2, h2)" by fastforce
    have s2: "stays ?p h1 h2" using MkdirAll_stays(1) [OF m room] j(1) by simp
    obtain e3 h3 where w: "write_file (Join [work, ''requirements.txt'']) 384 (bo_Requirements (bs_Build spec)) h2 = (e3, h3)" by fastforce
    have s3: "stays ?p h1 h3"
      using stays_trans [OF s2] write_file_stays(1) [OF w stays_room [OF room s2]] stays_path [OF s2] j(2) by simp
    have "h' = RemoveAll work h2 \<or> h' = RemoveAll work h3"
      using assms(1) mk Inr m w by (auto simp: buildPythonPip_def Let_def split: option.splits sum.splits)
    moreover have "node_at (RemoveAll work hx) = node_at h \<and> host_wf (RemoveAll work hx) \<and> same_host h (RemoveAll work hx)" if "stays ?p h1 hx" for hx
      using RemoveAll_undo [OF that _ t(2) assms(2) t(5,4)] stays_path [OF that] p1 by simp
    ultimately show ?thesis using s2 s3 by blast
  qed
  then show "node_at h' = node_at h" "host_wf h'" "same_host h h'" by auto
qed

lemma buildPythonPip_result:
  assumes "buildPythonPip lib b spec rnd now h = (Inr res, h')"
  obtains work python out where "resolvePython lib (bo_Python (bs_Build spec)) = Inr python"
    "bl_Run lib (python # pip_args (bu_Policy b) spec (Join [work, ''site'']) (Join [work, ''requirements.txt'']))
       [''PATH='' @ bl_PATH lib, ''HOME='' @ work, ''TMPDIR='' @ work, ''LANG=C.UTF-8''] = Inr out"
    "package lib b spec now out = Inr res"
  using assms by (auto simp: buildPythonPip_def pip_output_def Let_def simp del: Join.simps split: prod.splits sum.splits option.splits)

lemma buildPythonPip_built:
  assumes "buildPythonPip lib b spec rnd now h = (Inr res, h')"
  shows "\<exists>work python out. built lib b spec res work python out"
proof -
  obtain work python out where w: "resolvePython lib (bo_Python (bs_Build spec)) = Inr python"
    "bl_Run lib (python # pip_args (bu_Policy b) spec (Join [work, ''site'']) (Join [work, ''requirements.txt'']))
       [''PATH='' @ bl_PATH lib, ''HOME='' @ work, ''TMPDIR='' @ work, ''LANG=C.UTF-8''] = Inr out" "package lib b spec now out = Inr res"
    by (rule buildPythonPip_result [OF assms])
  define m where "m = wrap64 (li_MaxOutputMB (bu_Limits b) * 1024 * 1024)"
  obtain sz d tgz where k: "dirSize out 0 m = Inr sz" "hashDir lib out = Inr d"
    "res = \<lparr>br_Manifest = build_manifest b spec d sz now, br_TarGzBase64 = bl_base64 lib tgz\<rparr>"
    by (rule package_parts [OF w(3), folded m_def])
  have sz: "0 \<le> m \<and> file_bytes out < 2 ^ 63 \<longrightarrow> sz = file_bytes out \<and> file_bytes out \<le> m"
    using dirSize_sum [of 0 m out] dirSize_walk [OF k(1)] k(1) by (auto split: if_splits)
  obtain xs where x: "hash_entries out = Inr xs" using k(2) by (auto simp: hashDir_def split: sum.splits)
  have d: "d = bl_sha256 lib (concat (map entry_text (packing out)))"
    using k(2) x hash_entries_filter [OF x] by (auto simp: hashDir_def split: if_splits)
  have "built lib b spec res work python out"
    unfolding built_def Let_def m_def [symmetric]
    using w(1,2) hash_entries_links [OF x] sz by (intro conjI) (simp_all add: k(3) build_manifest_def d pip_args_def del: Join.simps)
  then show ?thesis by blast
qed

lemma Build_tree: "Build lib b spec rnd now h = (r, h') \<Longrightarrow> host_wf h \<Longrightarrow> hs_tmp h \<noteq> '''' \<Longrightarrow> node_at h' = node_at h"
  using buildPythonPip_tree(1) [of lib b spec rnd now h r h'] by (auto simp: Build_def split: option.splits if_splits)

lemma dir_there: "host_wf h \<Longrightarrow> node_at h (path_of h t) = Some Directory \<Longrightarrow> MkdirAll t h = (None, h)"
proof (rule MkdirAll_there)
  fix q assume h: "host_wf h" "node_at h (path_of h t) = Some Directory" "prefix q (path_of h t)"
  then obtain r where "path_of h t = q @ r" by (auto simp: prefix_def)
  then show "node_at h q = Some Directory" using node_ancestor [OF h(1), of q r] h(2) by (cases "r = []") auto
qed

section \<open>Properties\<close>

lemma demo_out_ok: "tree_ok demo_out"
  by (simp add: tree_ok_def rels_ok_def demo_out_def strict_prefix_def)

lemma demo_packing: "packing demo_out = [demo_out ! 1, demo_out ! 3, demo_out ! 2]"
  by code_simp

lemma demo_build_host_wf: "host_wf demo_build_host"
  by (auto simp: host_wf_def demo_build_host_def demo_host_def split: if_splits)

text \<open>
  (C21) What a build packs can be unpacked: for a tree as pip leaves one, packed without an error,
  both \<open>builder.Extract\<close> and the gateway's extraction of the archive into an empty directory succeed,
  with the same tree as result: every directory and every regular file of the output is at its
  relative path, with its bytes and permission bits, and nothing outside the directory has changed.
\<close>

theorem built_layer_extracts:
  assumes "tree_ok es" "package lib b spec now es = Inr res"
    and "\<And>ts. ts = map tar_header (packing es) \<Longrightarrow> bl_untar lib (bl_targz lib ts) = Inr (ts, None)" "sr_untar r = bl_untar lib"
    and "host_wf h" "named_dir dst" "empty_dir h dst" "\<And>q. \<not> hs_denied h q"
  shows "\<exists>tgz h'. br_TarGzBase64 res = bl_base64 lib tgz \<and> Extract lib tgz dst h = (None, h') \<and>
    extractTarGz r \<lparr>rd_bytes = tgz, rd_err = None\<rparr> dst h = (Inr (''sha256:'' @ sr_sha256 r tgz), h') \<and>
    (\<forall>e \<in> set es. we_rel e \<noteq> [] \<and> entry_node e \<noteq> None \<longrightarrow> node_at h' (path_of h dst @ we_rel e) = entry_node e) \<and>
    (\<forall>q. \<not> prefix (path_of h dst) q \<longrightarrow> node_at h' q = node_at h q)"
proof -
  obtain d tgz where p: "hashDir lib es = Inr d" "tarGz lib es = Inr tgz" "br_TarGzBase64 res = bl_base64 lib tgz"
    by (rule package_parts [OF assms(2)]) auto
  have u: "bl_untar lib tgz = Inr (map tar_header (packing es), None)"
    using assms(3) [OF refl] unfolding tarGz_text [OF p(2)] .
  note o = output_ok [OF assms(1) p(1)]
  obtain h' where c: "copyTree dst (packing es) h = (None, h')" "room (path_of h dst) h" "\<forall>e \<in> set (packing es). node_at h (path_of h dst @ we_rel e) = None"
    and s: "stays (path_of h dst) h h'" "\<forall>e \<in> set es. we_rel e \<noteq> [] \<and> entry_node e \<noteq> None \<longrightarrow> node_at h' (path_of h dst @ we_rel e) = entry_node e"
    by (rule unpack_output [OF assms(1) p(1) assms(5-8)]) blast
  have "Extract lib tgz dst h = (None, h')"
    using dir_there [OF assms(5)] assms(7) u c(1) extract_all_copy [OF o(1)] by (simp add: Extract_def empty_dir_def)
  moreover have "extractTarGz r \<lparr>rd_bytes = tgz, rd_err = None\<rparr> dst h = (Inr (''sha256:'' @ sr_sha256 r tgz), h')"
    using u c(1) extract_entries_copy [OF o(1) assms(6) c(2) o(2) c(3)] by (simp add: extractTarGz_def assms(4))
  ultimately show ?thesis using p(3) s by (auto simp: stays_def differ_below_def)
qed

theorem built_layer_extracts_witness:
  "\<exists>h'. Extract demo_build_lib ''tgz'' ''/cache'' demo_build_host = (None, h') \<and> node_at h' [''cache'', ''pkg'', ''a.py''] = Some (Regular 420 ''x = 1'') \<and>
     node_at h' [''etc'', ''passwd''] = node_at demo_build_host [''etc'', ''passwd'']"
proof -
  let ?r = "demo_resolver\<lparr>sr_untar := bl_untar demo_build_lib\<rparr>"
  have p: "path_of demo_build_host ''/cache'' = [''cache'']" by code_simp
  have "\<not> isl (package demo_build_lib demo_builder demo_spec 0 demo_out)" by code_simp
  then obtain res where res: "package demo_build_lib demo_builder demo_spec 0 demo_out = Inr res"
    by (cases "package demo_build_lib demo_builder demo_spec 0 demo_out") auto
  have u: "bl_untar demo_build_lib (bl_targz demo_build_lib ts) = Inr (ts, None)" if "ts = map tar_header (packing demo_out)" for ts
    unfolding that demo_packing by (simp add: demo_build_lib_def)
  have n: "named_dir ''/cache''" by code_simp
  have e: "empty_dir demo_build_host ''/cache''" unfolding empty_dir_def p by code_simp
  have d: "\<not> hs_denied demo_build_host q" for q by (simp add: demo_build_host_def demo_host_def)
  have b: "br_TarGzBase64 res = ''tgz''" "bl_base64 demo_build_lib x = x" for x
    by (rule package_parts [OF res]; simp add: demo_build_lib_def tarGz_def Let_def split: if_splits) (simp add: demo_build_lib_def)
  have a: "\<exists>e \<in> set demo_out. we_rel e = [''pkg'', ''a.py''] \<and> entry_node e = Some (Regular 420 ''x = 1'')"
    by (simp add: demo_out_def entry_node_def)
  from built_layer_extracts [OF demo_out_ok res u _ demo_build_host_wf n e d, of ?r] a show ?thesis
    unfolding b p by fastforce
qed

text \<open>
  What a build does: whether it succeeds or fails, the tree of the host is as before, since the work
  directory is removed. When it succeeds, the specification passed the validation; the one command
  that ran was pip installing the written requirements into the target directory, with
  \<open>--require-hashes\<close> where the policy demands hashes; the manifest carries the name and version of the
  specification, its defaults and the digest over the sorted entries; no entry of the output but the
  directory itself is a symbolic link; and the size, provided that it is an \<open>int64\<close>, is the number of
  bytes of the regular files and does not exceed the limit.
\<close>

theorem build_result:
  assumes "Build lib b spec rnd now h = (r, h')" "host_wf h" "hs_tmp h \<noteq> ''''"
  shows "node_at h' = node_at h \<and>
    (\<forall>res. r = Inr res \<longrightarrow> Validate_spec spec (bu_Policy b) = None \<and> (\<exists>work python out. built lib b spec res work python out))"
proof (intro conjI allI impI)
  show "node_at h' = node_at h" by (rule Build_tree [OF assms])
next
  fix res assume "r = Inr res"
  then have v: "Validate_spec spec (bu_Policy b) = None" and p: "buildPythonPip lib b spec rnd now h = (Inr res, h')"
    using assms(1) by (auto simp: Build_def split: option.splits if_splits)
  then show "Validate_spec spec (bu_Policy b) = None" "\<exists>work python out. built lib b spec res work python out"
    using buildPythonPip_built by auto
qed

theorem build_result_witness:
  "case Build demo_build_lib demo_builder demo_spec 7 0 demo_build_host of
     (Inl e, h') \<Rightarrow> False
   | (Inr res, h') \<Rightarrow> node_at h' = node_at demo_build_host \<and> bm_Name (br_Manifest res) = bs_Name demo_spec \<and> bm_MountPath (br_Manifest res) \<noteq> []"
proof -
  let ?B = "Build demo_build_lib demo_builder demo_spec 7 0 demo_build_host"
  obtain r h' where B: "?B = (r, h')" by fastforce
  have "\<not> isl (fst ?B)" by code_simp
  then obtain res where r: "r = Inr res" using B by (cases r) auto
  have "hs_tmp demo_build_host \<noteq> []" by (simp add: demo_build_host_def demo_host_def)
  from build_result [OF B demo_build_host_wf this] r B show ?thesis by (auto simp: built_def Let_def simp del: Join.simps)
qed

end
