(* ===== verification/Build_Service.thy ===== *)
theory Build_Service
  imports Dashboard Builder
begin

text \<open>
  The build daemon (\<open>cmd/builder/main.go\<close>) and the gateway's client of it (\<open>builderClient\<close> in
  \<open>cmd/gateway/main.go\<close>), and a layer build from the admin port of the gateway to the builder and
  back. The state of the daemon's handlers is the file tree of its host. The JSON forms of a
  specification and of a result, the texts of errors and the transport between the two processes are
  arguments.
\<close>

section \<open>Definitions\<close>

definition maxRequestBody :: nat where "maxRequestBody = 4 * 1024 * 1024"

definition splitCSV :: "string \<Rightarrow> string list" where
  "splitCSV s = filter (\<lambda>p. p \<noteq> '''') (map trim_space (split_on CHR '','' s))"

definition daemon_policy :: "string \<Rightarrow> string \<Rightarrow> Policy" where
  "daemon_policy allowPython allowIndex =
     (let p = DefaultPolicy;
          p = (if allowPython \<noteq> '''' then p\<lparr>po_AllowedPythonVersions := splitCSV allowPython\<rparr> else p)
      in if allowIndex \<noteq> '''' then p\<lparr>po_AllowedIndexURLs := splitCSV allowIndex\<rparr> else p)"

definition daemon_builder :: "string \<Rightarrow> string \<Rightarrow> duration \<Rightarrow> int \<Rightarrow> string \<Rightarrow> Builder" where
  "daemon_builder allowPython allowIndex timeout maxOutputMB tag =
     (New_builder (daemon_policy allowPython allowIndex) \<lparr>li_Timeout = timeout, li_MaxOutputMB = maxOutputMB\<rparr>)\<lparr>bu_Tag := tag\<rparr>"

record service_env =
  bs_decode :: "string \<Rightarrow> bool \<Rightarrow> string + BuildSpec"
  bs_encode :: "BuildResult \<Rightarrow> string"
  bs_errText :: "build_error \<Rightarrow> string"
  bs_lib :: build_lib
  bs_rnd :: nat
  bs_now :: time

definition buildHandler :: "service_env \<Rightarrow> Builder \<Rightarrow> host handler_fn" where
  "buildHandler env b r h =
     (if rq_Method r \<noteq> ''POST'' then (method_not_allowed ''POST'', h)
      else case bs_decode env (take maxRequestBody (rq_Body r)) (maxRequestBody < length (rq_Body r)) of
             Inl err \<Rightarrow> (http_error [] (''invalid JSON: '' @ err) 400, h)
           | Inr spec \<Rightarrow>
               (case Build (bs_lib env) b spec (bs_rnd env) (bs_now env) h of
                  (Inl e, h) \<Rightarrow> (http_error [] (bs_errText env e) 400, h)
                | (Inr res, h) \<Rightarrow>
                    (\<lparr>hr_Status = 200, hr_Header = [(''Content-Type'', ''application/json'')], hr_Body = bs_encode env res @ [CHR 0x0A]\<rparr>, h)))"

definition daemon_mux :: "service_env \<Rightarrow> (Request \<Rightarrow> HttpResponse option) \<Rightarrow> Builder \<Rightarrow> host handler_fn" where
  "daemon_mux env own b r h =
     (case own r of
        Some resp \<Rightarrow> (resp, h)
      | None \<Rightarrow>
          if rq_Path r = ''/healthz'' then (\<lparr>hr_Status = 200, hr_Header = [], hr_Body = ''ok''\<rparr>, h)
          else if rq_Path r = ''/build'' then buildHandler env b r h
          else (not_found, h))"

text \<open>Without a token the daemon does not start: \<open>None\<close>.\<close>

definition build_daemon :: "service_env \<Rightarrow> (Request \<Rightarrow> HttpResponse option) \<Rightarrow> string \<Rightarrow> Builder \<Rightarrow> host handler_fn option" where
  "build_daemon env own token b = (if token = '''' then None else Some (TokenAuth token (daemon_mux env own b)))"

record builderClient =
  bc_baseURL :: string
  bc_token :: string

definition build_request :: "builderClient \<Rightarrow> string \<Rightarrow> Request" where
  "build_request c spec =
     \<lparr>rq_Method = ''POST'', rq_Path = ''/build'', rq_Query = [],
      rq_Header = [(''Content-Type'', [''application/json'']), (''Authorization'', [''Bearer '' @ bc_token c])],
      rq_Body = spec, rq_Identity = None\<rparr>"

text \<open>The transport takes a URL and a request, and gives an error or the response.\<close>

definition BuildLayer :: "(string \<Rightarrow> Request \<Rightarrow> 's \<Rightarrow> (string + HttpResponse) \<times> 's) \<Rightarrow> builderClient \<Rightarrow> string \<Rightarrow> 's \<Rightarrow> (string + string) \<times> 's" where
  "BuildLayer transport c spec s =
     (case transport (bc_baseURL c @ ''/build'') (build_request c spec) s of
        (Inl err, s) \<Rightarrow> (Inl (''builder unreachable: '' @ err), s)
      | (Inr resp, s) \<Rightarrow>
          if hr_Status resp \<noteq> 200 then (Inl (''builder returned '' @ format_int (hr_Status resp) @ '': '' @ hr_Body resp), s)
          else (Inr (hr_Body resp), s))"

definition demo_service :: service_env where
  "demo_service = \<lparr>bs_decode = (\<lambda>b more. Inr demo_spec), bs_encode = br_TarGzBase64, bs_errText = (\<lambda>e. ''failed''),
     bs_lib = demo_build_lib, bs_rnd = 7, bs_now = 0\<rparr>"

definition demo_client :: builderClient where
  "demo_client = \<lparr>bc_baseURL = ''http://b'', bc_token = ''tok''\<rparr>"

definition demo_transport :: "string \<Rightarrow> Request \<Rightarrow> host \<Rightarrow> (string + HttpResponse) \<times> host" where
  "demo_transport url r h = apfst Inr (TokenAuth ''tok'' (daemon_mux demo_service (\<lambda>r. None) demo_builder) r h)"

section \<open>Lemmas\<close>

lemma bearer_of_client: "trim_space (bc_token c) = bc_token c \<Longrightarrow> bearer (build_request c spec) = bc_token c"
  by (simp add: bearer_def build_request_def header_get_def map_get_def has_prefix_def Let_def)

lemma client_token: "trim_space (bc_token c) = bc_token c \<Longrightarrow> bc_token c \<noteq> '''' \<Longrightarrow> validToken (build_request c spec) (bc_token c)"
  by (simp add: validToken_def bearer_of_client Let_def)

text \<open>The daemon's answer to a client with its token.\<close>

lemma daemon_answer:
  assumes "build_daemon env own (bc_token c) b = Some serve" "trim_space (bc_token c) = bc_token c" "own (build_request c body) = None"
    and "length body \<le> maxRequestBody" "bs_decode env body False = Inr spec"
  shows "serve (build_request c body) h =
    (case Build (bs_lib env) b spec (bs_rnd env) (bs_now env) h of
       (Inl e, h) \<Rightarrow> (http_error [] (bs_errText env e) 400, h)
     | (Inr res, h) \<Rightarrow> (\<lparr>hr_Status = 200, hr_Header = [(''Content-Type'', ''application/json'')], hr_Body = bs_encode env res @ [CHR 0x0A]\<rparr>, h))"
proof -
  have t: "bc_token c \<noteq> ''''" "serve = TokenAuth (bc_token c) (daemon_mux env own b)"
    using assms(1) by (auto simp: build_daemon_def split: if_splits)
  have "serve (build_request c body) h = daemon_mux env own b (build_request c body) h"
    using t client_token [OF assms(2) t(1)] by (simp add: TokenAuth_def)
  also have "\<dots> = buildHandler env b (build_request c body) h" using assms(3) by (simp add: daemon_mux_def) (simp add: build_request_def)
  finally show ?thesis using assms(4,5) by (simp add: buildHandler_def) (simp add: build_request_def)
qed

lemma client_answer:
  assumes "build_daemon env own (bc_token c) b = Some serve" "trim_space (bc_token c) = bc_token c" "own (build_request c body) = None"
    and "length body \<le> maxRequestBody" "bs_decode env body False = Inr spec"
    and "transport (bc_baseURL c @ ''/build'') (build_request c body) h = apfst Inr (serve (build_request c body) h)"
  shows "BuildLayer transport c body h =
    (case Build (bs_lib env) b spec (bs_rnd env) (bs_now env) h of
       (Inl e, h) \<Rightarrow> (Inl (''builder returned 400: '' @ bs_errText env e @ [CHR 0x0A]), h)
     | (Inr res, h) \<Rightarrow> (Inr (bs_encode env res @ [CHR 0x0A]), h))"
proof -
  have f: "format_int 400 = ''400''" by code_simp
  show ?thesis
    unfolding BuildLayer_def assms(6) daemon_answer [OF assms(1-5)]
    by (simp add: http_error_def f split: prod.splits sum.splits)
qed

lemma serve_build:
  assumes "has_suffix pre ''/''" "rq_Path r = pre @ ''api/layers/build''" "rq_Method r = ''POST''" "length (rq_Body r) \<le> MaxBuildSpecBody"
    and "token = '''' \<or> validToken r token" "muxown r = None"
  shows "admin_handler env muxown pre token True os r s =
    (case db_build env (rq_Body r) of
       Inl err \<Rightarrow> (http_error [] err 502, s\<lparr>as_builds := as_builds s @ [rq_Body r]\<rparr>)
     | Inr resp \<Rightarrow> (\<lparr>hr_Status = 200, hr_Header = [(''Content-Type'', ''application/json'')], hr_Body = resp\<rparr>, s\<lparr>as_builds := as_builds s @ [rq_Body r]\<rparr>))"
proof -
  let ?h = "NewWithConfig pre True True os"
  have rest: "trim_prefix (rq_Path r) (dh_prefix ?h) = ''api/layers/build''" using assms(2) NewWithConfig_prefix [OF assms(1)] by simp
  have "\<not> has_prefix ''api/layers/build'' ''api/functions/''" by code_simp
  moreover have "dh_builder ?h" by (simp add: NewWithConfig_def)
  moreover have "pre \<noteq> ''''" using assms(1) by (auto simp: has_suffix_def)
  ultimately show ?thesis
    unfolding split_authorized [OF \<open>pre \<noteq> ''''\<close> assms(5)] using assms(3,4,6)
    by (simp add: adminMux_def ServeHTTP_dash_def rest Let_def serveLayerBuild_def split: sum.splits)
qed

section \<open>Properties\<close>

text \<open>
  (C27) A layer build from the operator to the builder and back: an authorized \<open>POST\<close> of a specification
  to the admin port, forwarded to a daemon with the client's token over a transport that delivers
  it, is answered with the encoded result of \<open>Build\<close> and status 200, or with status 502 and the
  text of the build's error; the tree of the build host is as before, and the gateway is unchanged.
\<close>

theorem layer_build_end_to_end:
  assumes "has_suffix pre ''/''" "rq_Path r = pre @ ''api/layers/build''" "rq_Method r = ''POST''" "length (rq_Body r) \<le> 4 * 1024 * 1024"
    and "token = '''' \<or> validToken r token" "muxown r = None"
    and "build_daemon senv own (bc_token c) b = Some serve" "trim_space (bc_token c) = bc_token c" "own (build_request c (rq_Body r)) = None"
    and "bs_decode senv (rq_Body r) False = Inr spec"
    and "transport (bc_baseURL c @ ''/build'') (build_request c (rq_Body r)) h = apfst Inr (serve (build_request c (rq_Body r)) h)"
    and "BuildLayer transport c (rq_Body r) h = (answer, h')" "db_build env (rq_Body r) = answer"
    and "host_wf h" "hs_tmp h \<noteq> ''''"
  shows "node_at h' = node_at h \<and> as_gw (snd (admin_handler env muxown pre token True os r s)) = as_gw s \<and>
    (case fst (Build (bs_lib senv) b spec (bs_rnd senv) (bs_now senv) h) of
       Inl e \<Rightarrow> fst (admin_handler env muxown pre token True os r s) =
         http_error [] (''builder returned 400: '' @ bs_errText senv e @ [CHR 0x0A]) 502
     | Inr res \<Rightarrow> hr_Status (fst (admin_handler env muxown pre token True os r s)) = 200 \<and>
         hr_Body (fst (admin_handler env muxown pre token True os r s)) = bs_encode senv res @ [CHR 0x0A])"
proof -
  obtain x hb where B: "Build (bs_lib senv) b spec (bs_rnd senv) (bs_now senv) h = (x, hb)" by fastforce
  have l: "length (rq_Body r) \<le> maxRequestBody" "length (rq_Body r) \<le> MaxBuildSpecBody"
    using assms(4) by (simp_all add: maxRequestBody_def MaxBuildSpecBody_def)
  have tree: "node_at hb = node_at h" by (rule Build_tree [OF B assms(14,15)])
  show ?thesis
    using client_answer [where body = "rq_Body r" and own = own and transport = transport and h = h, OF assms(7-9) l(1) assms(10,11)] assms(12,13) tree serve_build [where muxown = muxown and r = r and env = env and os = os and s = s, OF assms(1-3) l(2) assms(5,6)] B
    by (auto split: sum.splits)
qed

theorem layer_build_end_to_end_witness:
  "\<exists>env. hr_Status (fst (admin_handler env (\<lambda>r. None) ''/_/'' '''' True [] (demo_post ''/_/api/layers/build'' []) demo_admin)) = 200 \<and>
     as_gw (snd (admin_handler env (\<lambda>r. None) ''/_/'' '''' True [] (demo_post ''/_/api/layers/build'' []) demo_admin)) = as_gw demo_admin"
proof -
  let ?r = "demo_post ''/_/api/layers/build'' []"
  obtain answer h' where a: "BuildLayer demo_transport demo_client (rq_Body ?r) demo_build_host = (answer, h')" by fastforce
  define env where "env = demo_dash\<lparr>db_build := (\<lambda>b. answer)\<rparr>"
  have r: "has_suffix ''/_/'' ''/''" "rq_Path ?r = ''/_/'' @ ''api/layers/build''" "rq_Method ?r = ''POST''" "length (rq_Body ?r) \<le> 4 * 1024 * 1024"
    by (simp_all add: demo_post_def has_suffix_def)
  have d: "build_daemon demo_service (\<lambda>r. None) (bc_token demo_client) demo_builder = Some (TokenAuth ''tok'' (daemon_mux demo_service (\<lambda>r. None) demo_builder))"
    by (simp add: build_daemon_def demo_client_def)
  have t: "trim_space (bc_token demo_client) = bc_token demo_client" by code_simp
  have s: "bs_decode demo_service (rq_Body ?r) False = Inr demo_spec" by (simp add: demo_service_def)
  have tr: "demo_transport (bc_baseURL demo_client @ ''/build'') (build_request demo_client (rq_Body ?r)) demo_build_host =
      apfst Inr (TokenAuth ''tok'' (daemon_mux demo_service (\<lambda>r. None) demo_builder) (build_request demo_client (rq_Body ?r)) demo_build_host)"
    by (simp add: demo_transport_def)
  have e: "db_build env (rq_Body ?r) = answer" by (simp add: env_def)
  have tmp: "hs_tmp demo_build_host \<noteq> ''''" by (simp add: demo_build_host_def demo_host_def)
  have "\<not> isl (fst (Build (bs_lib demo_service) demo_builder demo_spec (bs_rnd demo_service) (bs_now demo_service) demo_build_host))" by code_simp
  then obtain res where res: "fst (Build (bs_lib demo_service) demo_builder demo_spec (bs_rnd demo_service) (bs_now demo_service) demo_build_host) = Inr res"
    by (cases "fst (Build (bs_lib demo_service) demo_builder demo_spec (bs_rnd demo_service) (bs_now demo_service) demo_build_host)") auto
  from layer_build_end_to_end [where token = "''''" and muxown = "\<lambda>r. None" and own = "\<lambda>r. None" and transport = demo_transport and h = demo_build_host
      and env = env and os = "[]" and s = demo_admin, OF r _ _ d t _ s tr a e demo_build_host_wf tmp] res show ?thesis by auto
qed

end
