(* ===== verification/Spawn.thy ===== *)
theory Spawn
  imports Layer_Resolver Wire
begin

text \<open>
  Starting function instances: the host subprocess (\<open>internal/spawn/spawn.go\<close>), the OCI runtime
  specification (\<open>internal/oci/spec.go\<close>), the runc client (\<open>internal/runc/runc.go\<close>) and the container
  spawner (\<open>internal/spawn/runc.go\<close>). The file tree is the host's; what is done to processes, sockets
  and the runc binary is a list of effects in order. Whether a process starts, whether it dials back,
  the random parts of names and the JSON text of a specification are arguments.
\<close>

section \<open>Definitions\<close>

subsection \<open>Runtime specifications\<close>

record OciLayer =
  ol_Name :: string
  ol_HostPath :: string
  ol_MountPath :: string

record OciConfig =
  oc_RootfsPath :: string
  oc_Binary :: string
  oc_Args :: "string list"
  oc_Env :: "string list"
  oc_SocketDir :: string
  oc_SocketDirInContainer :: string
  oc_SocketName :: string
  oc_Layers :: "OciLayer list"
  oc_Hostname :: string

record Mount =
  mt_Destination :: string
  mt_Type :: string
  mt_Source :: string
  mt_Options :: "string list"

record Spec =
  os_Terminal :: bool
  os_UID :: nat
  os_GID :: nat
  os_Args :: "string list"
  os_Env :: "string list"
  os_Cwd :: string
  os_Bounding :: "string list"
  os_Effective :: "string list"
  os_Permitted :: "string list"
  os_NoNewPrivileges :: bool
  os_RootPath :: string
  os_Readonly :: bool
  os_Hostname :: string
  os_Mounts :: "Mount list"
  os_Namespaces :: "string list"
  os_MaskedPaths :: "string list"
  os_ReadonlyPaths :: "string list"

datatype oci_error =
    RootfsRequired
  | BinaryRequired
  | BinaryNotAbsolute string
  | SocketDirRequired
  | SocketDirNotAbsolute string
  | LayerHostPath nat
  | LayerMountPath nat

definition defaultCaps :: "string list" where
  "defaultCaps =
     [''CAP_AUDIT_WRITE'', ''CAP_CHOWN'', ''CAP_DAC_OVERRIDE'', ''CAP_FOWNER'', ''CAP_FSETID'', ''CAP_KILL'', ''CAP_MKNOD'',
      ''CAP_NET_BIND_SERVICE'', ''CAP_NET_RAW'', ''CAP_SETFCAP'', ''CAP_SETGID'', ''CAP_SETPCAP'', ''CAP_SETUID'', ''CAP_SYS_CHROOT'']"

definition defaultMounts :: "Mount list" where
  "defaultMounts =
     [\<lparr>mt_Destination = ''/proc'', mt_Type = ''proc'', mt_Source = ''proc'', mt_Options = [''nosuid'', ''noexec'', ''nodev'']\<rparr>,
      \<lparr>mt_Destination = ''/dev'', mt_Type = ''tmpfs'', mt_Source = ''tmpfs'', mt_Options = [''nosuid'', ''strictatime'', ''mode=755'', ''size=65536k'']\<rparr>,
      \<lparr>mt_Destination = ''/dev/pts'', mt_Type = ''devpts'', mt_Source = ''devpts'', mt_Options = [''nosuid'', ''noexec'', ''newinstance'', ''ptmxmode=0666'', ''mode=0620'']\<rparr>,
      \<lparr>mt_Destination = ''/sys'', mt_Type = ''sysfs'', mt_Source = ''sysfs'', mt_Options = [''nosuid'', ''noexec'', ''nodev'', ''ro'']\<rparr>,
      \<lparr>mt_Destination = ''/tmp'', mt_Type = ''tmpfs'', mt_Source = ''tmpfs'', mt_Options = [''nosuid'', ''nodev'', ''mode=1777'', ''size=65536k'']\<rparr>]"

fun check_layers :: "nat \<Rightarrow> OciLayer list \<Rightarrow> oci_error option" where
  "check_layers i [] = None"
| "check_layers i (l # ls) =
     (if ol_HostPath l = '''' \<or> \<not> IsAbs (ol_HostPath l) then Some (LayerHostPath i)
      else if ol_MountPath l = '''' \<or> \<not> IsAbs (ol_MountPath l) then Some (LayerMountPath i)
      else check_layers (Suc i) ls)"

definition layer_mount :: "OciLayer \<Rightarrow> Mount" where
  "layer_mount l = \<lparr>mt_Destination = ol_MountPath l, mt_Type = ''bind'', mt_Source = ol_HostPath l, mt_Options = [''rbind'', ''ro'']\<rparr>"

definition Build_oci :: "OciConfig \<Rightarrow> oci_error + Spec" where
  "Build_oci cfg =
     (if oc_RootfsPath cfg = '''' then Inl RootfsRequired
      else if oc_Binary cfg = '''' then Inl BinaryRequired
      else if \<not> IsAbs (oc_Binary cfg) then Inl (BinaryNotAbsolute (oc_Binary cfg))
      else if oc_SocketDir cfg = '''' then Inl SocketDirRequired
      else if \<not> IsAbs (oc_SocketDir cfg) then Inl (SocketDirNotAbsolute (oc_SocketDir cfg))
      else
        (let sockDirIn = (if oc_SocketDirInContainer cfg = '''' then ''/run/cfunc'' else oc_SocketDirInContainer cfg);
             sockName = (if oc_SocketName cfg = '''' then ''s.sock'' else oc_SocketName cfg);
             hostname = (if oc_Hostname cfg = '''' then ''cfunc'' else oc_Hostname cfg)
         in case check_layers 0 (oc_Layers cfg) of
              Some e \<Rightarrow> Inl e
            | None \<Rightarrow>
                Inr \<lparr>os_Terminal = False, os_UID = 0, os_GID = 0, os_Args = oc_Binary cfg # oc_Args cfg,
                  os_Env = oc_Env cfg @ [''CFUNC_SOCKET='' @ Join [sockDirIn, sockName]], os_Cwd = ''/'',
                  os_Bounding = defaultCaps, os_Effective = defaultCaps, os_Permitted = defaultCaps, os_NoNewPrivileges = True,
                  os_RootPath = oc_RootfsPath cfg, os_Readonly = True, os_Hostname = hostname,
                  os_Mounts = defaultMounts @
                    [\<lparr>mt_Destination = sockDirIn, mt_Type = ''bind'', mt_Source = oc_SocketDir cfg, mt_Options = [''rbind'', ''rw'']\<rparr>] @
                    map layer_mount (oc_Layers cfg),
                  os_Namespaces = [''pid'', ''ipc'', ''uts'', ''mount'', ''network''],
                  os_MaskedPaths = [''/proc/kcore'', ''/proc/keys'', ''/proc/latency_stats'', ''/proc/timer_list'', ''/proc/timer_stats'',
                    ''/proc/sched_debug'', ''/sys/firmware''],
                  os_ReadonlyPaths = [''/proc/asound'', ''/proc/bus'', ''/proc/fs'', ''/proc/irq'', ''/proc/sys'', ''/proc/sysrq-trigger'']\<rparr>))"

subsection \<open>Effects\<close>

datatype effect =
    Exec "string list"
  | Launch "string list"
  | StartProcess string "string list"
  | KillProcess
  | WaitProcess
  | CancelRun
  | ListenerClosed
  | ConnWritten Frame
  | ConnClosed

record machine =
  mc_host :: host
  mc_effects :: "effect list"

definition emit :: "effect \<Rightarrow> machine \<Rightarrow> machine" where
  "emit x m = m\<lparr>mc_effects := mc_effects m @ [x]\<rparr>"

definition on_host :: "(host \<Rightarrow> host) \<Rightarrow> machine \<Rightarrow> machine" where
  "on_host f m = m\<lparr>mc_host := f (mc_host m)\<rparr>"

subsection \<open>The runc client\<close>

record Runtime =
  rt_Binary :: string
  rt_Sudo :: bool

record Bundle =
  bd_Dir :: string
  bd_RootfsPath :: string

definition WriteBundle :: "(Spec \<Rightarrow> string) \<Rightarrow> string \<Rightarrow> Spec \<Rightarrow> host \<Rightarrow> (os_error + Bundle) \<times> host" where
  "WriteBundle enc dir spec h =
     (case MkdirAll dir h of
        (Some e, h) \<Rightarrow> (Inl e, h)
      | (None, h) \<Rightarrow>
          (case write_file (Join [dir, ''config.json'']) 438 (enc spec) h of
             (Some e, h) \<Rightarrow> (Inl e, h)
           | (None, h) \<Rightarrow> (Inr \<lparr>bd_Dir = dir, bd_RootfsPath = os_RootPath spec\<rparr>, h)))"

definition command :: "Runtime \<Rightarrow> string list \<Rightarrow> string list" where
  "command r args =
     (let full = (if rt_Binary r = '''' then ''runc'' else rt_Binary r) # args
      in if rt_Sudo r then [''sudo'', ''-n''] @ full else full)"

definition Run_container :: "Runtime \<Rightarrow> string \<Rightarrow> Bundle \<Rightarrow> machine \<Rightarrow> machine" where
  "Run_container r cid b = emit (Launch (command r [''run'', ''--bundle'', bd_Dir b, cid]))"

definition Kill_container :: "Runtime \<Rightarrow> string \<Rightarrow> string \<Rightarrow> machine \<Rightarrow> machine" where
  "Kill_container r cid signal = emit (Exec (command r [''kill'', cid, signal]))"

definition Delete_container :: "Runtime \<Rightarrow> string \<Rightarrow> machine \<Rightarrow> machine" where
  "Delete_container r cid = emit (Exec (command r [''delete'', ''--force'', cid]))"

text \<open>
  \<open>WaitFile\<close>: in turn \<open>i\<close> of its loop the file is there or not (\<open>seen i\<close>), and the clock then reads
  \<open>clock i\<close>. The result is whether the file appeared; the loop as such has no bound.
\<close>

partial_function (option) wait_turns :: "(nat \<Rightarrow> bool) \<Rightarrow> (nat \<Rightarrow> time) \<Rightarrow> time \<Rightarrow> nat \<Rightarrow> bool option" where
  "wait_turns seen clock deadline i =
     (if seen i then Some True
      else if deadline < clock i then Some False
      else wait_turns seen clock deadline (Suc i))"

definition WaitFile :: "(nat \<Rightarrow> bool) \<Rightarrow> (nat \<Rightarrow> time) \<Rightarrow> time \<Rightarrow> duration \<Rightarrow> bool option" where
  "WaitFile seen clock now timeout = wait_turns seen clock (now + timeout) 0"

subsection \<open>Sockets\<close>

text \<open>\<open>Dialled\<close>: a connection came in time. The rest of \<open>Accept\<close> and of the timer is in the other cases.\<close>

datatype accept_outcome = Dialled | AcceptFailed string | DialTimeout bool

datatype spawn_error =
    SpawnOsError os_error
  | ListenFailed
  | StartFailed string
  | AcceptError string
  | DialTimedOut
  | StatFailed
  | BinaryIsDirectory string
  | SpecRejected oci_error

record spawn_env =
  se_Listen :: "string \<Rightarrow> bool"
  se_Start :: "string \<Rightarrow> string list \<Rightarrow> bool"
  se_Accept :: accept_outcome
  se_Getenv :: "string \<Rightarrow> string"
  se_rndSock :: nat
  se_rndBundle :: nat
  se_rndRoot :: nat
  se_id :: string
  se_enc :: "Spec \<Rightarrow> string"

definition inheritedEnvKeys :: "string list" where
  "inheritedEnvKeys = [''PATH'', ''HOME'', ''LANG'', ''LC_ALL'', ''LC_CTYPE'', ''TZ'', ''TMPDIR'']"

definition inheritedEnv :: "(string \<Rightarrow> string) \<Rightarrow> string list" where
  "inheritedEnv getenv = map (\<lambda>k. k @ ''='' @ getenv k) (filter (\<lambda>k. getenv k \<noteq> '''') inheritedEnvKeys)"

text \<open>A listening Unix socket is a file of its directory, which closing the listener removes.\<close>

definition makeSocket :: "spawn_env \<Rightarrow> host \<Rightarrow> (spawn_error + string \<times> string) \<times> host" where
  "makeSocket env h =
     (case MkdirTemp '''' (''cfunc-sock-'' @ decimal (se_rndSock env)) h of
        (Inl e, h) \<Rightarrow> (Inl (SpawnOsError e), h)
      | (Inr dir, h) \<Rightarrow>
          (let sockPath = Join [dir, ''s.sock'']
           in if \<not> se_Listen env sockPath then (Inl ListenFailed, RemoveAll dir h)
              else case write_file sockPath 493 [] h of
                     (Some e, h) \<Rightarrow> (Inl ListenFailed, RemoveAll dir h)
                   | (None, h) \<Rightarrow> (Inr (dir, sockPath), h)))"

definition close_listener :: "string \<Rightarrow> machine \<Rightarrow> machine" where
  "close_listener sockPath m = emit ListenerClosed (on_host (\<lambda>h. snd (Remove sockPath h)) m)"

definition acceptOrKill :: "accept_outcome \<Rightarrow> string \<Rightarrow> (machine \<Rightarrow> machine) \<Rightarrow> machine \<Rightarrow> spawn_error option \<times> machine" where
  "acceptOrKill out sockPath onTimeout m =
     (case out of
        Dialled \<Rightarrow> (None, m)
      | AcceptFailed msg \<Rightarrow> (Some (AcceptError msg), onTimeout m)
      | DialTimeout raced \<Rightarrow>
          (let m = close_listener sockPath (onTimeout m)
           in (Some DialTimedOut, if raced then emit ConnClosed m else m)))"

subsection \<open>Instances\<close>

datatype kind_of = Process | Container Runtime string string

record started =
  st_kind :: kind_of
  st_sockDir :: string
  st_sockPath :: string
  st_Mode :: string

definition Start_process :: "spawn_env \<Rightarrow> string \<Rightarrow> string list \<Rightarrow> machine \<Rightarrow> (spawn_error + started) \<times> machine" where
  "Start_process env binary e m =
     (case makeSocket env (mc_host m) of
        (Inl x, h) \<Rightarrow> (Inl x, m\<lparr>mc_host := h\<rparr>)
      | (Inr (sockDir, sockPath), h) \<Rightarrow>
          (let m = m\<lparr>mc_host := h\<rparr>;
               penv = inheritedEnv (se_Getenv env) @ e @ [''CFUNC_SOCKET='' @ sockPath]
           in if \<not> se_Start env binary penv then
                (Inl (StartFailed binary), on_host (RemoveAll sockDir) (close_listener sockPath m))
              else
                (case acceptOrKill (se_Accept env) sockPath (emit KillProcess) (emit (StartProcess binary penv) m) of
                   (Some x, m) \<Rightarrow> (Inl x, on_host (RemoveAll sockDir) (close_listener sockPath m))
                 | (None, m) \<Rightarrow> (Inr \<lparr>st_kind = Process, st_sockDir = sockDir, st_sockPath = sockPath, st_Mode = ''process''\<rparr>, m))))"

fun make_stubs :: "string \<Rightarrow> string list \<Rightarrow> host \<Rightarrow> os_error option \<times> host" where
  "make_stubs dir [] h = (None, h)"
| "make_stubs dir (s # ss) h =
     (case MkdirAll (Join [dir, s]) h of
        (Some e, h) \<Rightarrow> (Some e, h)
      | (None, h) \<Rightarrow> make_stubs dir ss h)"

definition EnsureBaseRootfs :: "nat \<Rightarrow> string \<Rightarrow> host \<Rightarrow> (os_error + string) \<times> host" where
  "EnsureBaseRootfs rnd dir h =
     (case (if dir = '''' then MkdirTemp '''' (''cfunc-rootfs-'' @ decimal rnd) h else (Inr dir, h)) of
        (Inl e, h) \<Rightarrow> (Inl e, h)
      | (Inr dir, h) \<Rightarrow>
          (case make_stubs dir [''proc'', ''sys'', ''dev'', ''tmp'', ''run/cfunc'', ''cfunc''] h of
             (Some e, h) \<Rightarrow> (Inl e, h)
           | (None, h) \<Rightarrow> (Inr dir, h)))"

record RuncOptions =
  ro_RootfsBase :: string
  ro_RuncBinary :: string
  ro_Sudo :: bool
  ro_ExtraLayers :: "OciLayer list"

text \<open>\<open>filepath.Abs\<close> and \<open>filepath.Base\<close>.\<close>

definition Abs :: "host \<Rightarrow> string \<Rightarrow> string" where
  "Abs h p = (if IsAbs p then Clean p else Join [CHR ''/'' # join_with ''/'' (hs_cwd h), p])"

definition trim_slashes :: "string \<Rightarrow> string" where
  "trim_slashes p = rev (dropWhile (\<lambda>c. c = CHR ''/'') (rev p))"

definition Base_of :: "string \<Rightarrow> string" where
  "Base_of p =
     (if p = '''' then ''.''
      else let q = trim_slashes p
           in if q = '''' then ''/'' else last (split_on CHR ''/'' q))"

definition runc_config :: "string \<Rightarrow> string \<Rightarrow> string list \<Rightarrow> string \<Rightarrow> OciLayer list \<Rightarrow> OciConfig" where
  "runc_config rootfs binary e sockDir extra =
     \<lparr>oc_RootfsPath = rootfs, oc_Binary = ''/cfunc/'' @ Base_of binary, oc_Args = [], oc_Env = e, oc_SocketDir = sockDir,
      oc_SocketDirInContainer = [], oc_SocketName = [],
      oc_Layers = extra @ [\<lparr>ol_Name = ''user-binary'', ol_HostPath = Dir_of binary, ol_MountPath = ''/cfunc''\<rparr>],
      oc_Hostname = []\<rparr>"

text \<open>The run of a bundle whose files are written, up to the connection.\<close>

definition run_bundle :: "spawn_env \<Rightarrow> RuncOptions \<Rightarrow> Bundle \<Rightarrow> string \<Rightarrow> string \<Rightarrow> machine \<Rightarrow> (spawn_error + started) \<times> machine" where
  "run_bundle env opts bundle sockDir sockPath m =
     (let rt = \<lparr>rt_Binary = ro_RuncBinary opts, rt_Sudo = ro_Sudo opts\<rparr>; cid = ''cfunc-'' @ se_id env
      in case acceptOrKill (se_Accept env) sockPath (\<lambda>m. Kill_container rt cid ''KILL'' (emit CancelRun m)) (Run_container rt cid bundle m) of
           (Some x, m) \<Rightarrow>
             (Inl x, on_host (RemoveAll (bd_Dir bundle)) (on_host (RemoveAll sockDir) (Delete_container rt cid (close_listener sockPath m))))
         | (None, m) \<Rightarrow>
             (Inr \<lparr>st_kind = Container rt cid (bd_Dir bundle), st_sockDir = sockDir, st_sockPath = sockPath, st_Mode = ''runc''\<rparr>, m))"

definition start_bundle :: "spawn_env \<Rightarrow> RuncOptions \<Rightarrow> string \<Rightarrow> string list \<Rightarrow> string \<Rightarrow> machine \<Rightarrow> (spawn_error + started) \<times> machine" where
  "start_bundle env opts binary e rootfs m =
     (case MkdirTemp '''' (''cfunc-bundle-'' @ decimal (se_rndBundle env)) (mc_host m) of
        (Inl x, h) \<Rightarrow> (Inl (SpawnOsError x), m\<lparr>mc_host := h\<rparr>)
      | (Inr bundleDir, h) \<Rightarrow>
          (case makeSocket env h of
             (Inl x, h) \<Rightarrow> (Inl x, m\<lparr>mc_host := RemoveAll bundleDir h\<rparr>)
           | (Inr (sockDir, sockPath), h) \<Rightarrow>
               (let m = m\<lparr>mc_host := h\<rparr>;
                    undo = (\<lambda>m. on_host (RemoveAll bundleDir) (on_host (RemoveAll sockDir) (close_listener sockPath m)))
                in case Build_oci (runc_config rootfs binary e sockDir (ro_ExtraLayers opts)) of
                     Inl x \<Rightarrow> (Inl (SpecRejected x), undo m)
                   | Inr spec \<Rightarrow>
                       (case WriteBundle (se_enc env) bundleDir spec (mc_host m) of
                          (Inl x, h) \<Rightarrow> (Inl (SpawnOsError x), undo (m\<lparr>mc_host := h\<rparr>))
                        | (Inr bundle, h) \<Rightarrow> run_bundle env opts bundle sockDir sockPath (m\<lparr>mc_host := h\<rparr>)))))"

definition StartRunc :: "spawn_env \<Rightarrow> string \<Rightarrow> string list \<Rightarrow> RuncOptions \<Rightarrow> machine \<Rightarrow> (spawn_error + started) \<times> machine" where
  "StartRunc env binary e opts m =
     (let binary = (if IsAbs binary then binary else Abs (mc_host m) binary)
      in case node_at (mc_host m) (path_of (mc_host m) binary) of
           None \<Rightarrow> (Inl StatFailed, m)
         | Some Directory \<Rightarrow> (Inl (BinaryIsDirectory binary), m)
         | Some (Regular p b) \<Rightarrow>
             if ro_RootfsBase opts \<noteq> '''' then start_bundle env opts binary e (ro_RootfsBase opts) m
             else (case EnsureBaseRootfs (se_rndRoot env) '''' (mc_host m) of
                     (Inl x, h) \<Rightarrow> (Inl (SpawnOsError x), m\<lparr>mc_host := h\<rparr>)
                   | (Inr rootfs, h) \<Rightarrow> start_bundle env opts binary e rootfs (m\<lparr>mc_host := h\<rparr>)))"

text \<open>
  \<open>Close\<close>: the shutdown frame, the runtime's stop and wait, the socket. The frame that is read and
  thrown away does not matter; \<open>exits\<close> is whether the container ends within three seconds.
\<close>

definition stop_instance :: "started \<Rightarrow> machine \<Rightarrow> machine" where
  "stop_instance i m =
     (case st_kind i of
        Process \<Rightarrow> emit KillProcess m
      | Container rt cid dir \<Rightarrow> emit CancelRun (Kill_container rt cid ''TERM'' m))"

definition wait_instance :: "bool \<Rightarrow> started \<Rightarrow> machine \<Rightarrow> machine" where
  "wait_instance exits i m =
     (case st_kind i of
        Process \<Rightarrow> emit WaitProcess m
      | Container rt cid dir \<Rightarrow>
          (let m = (if exits then m else Kill_container rt cid ''KILL'' m)
           in on_host (RemoveAll dir) (Delete_container rt cid (emit WaitProcess m))))"

definition Close_started :: "bool \<Rightarrow> started \<Rightarrow> machine \<Rightarrow> machine" where
  "Close_started exits i m =
     (let m = emit (ConnWritten (bare_frame TypeShutdown ''sd'')) m;
          m = wait_instance exits i (stop_instance i m)
      in on_host (RemoveAll (st_sockDir i)) (close_listener (st_sockPath i) (emit ConnClosed m)))"

text \<open>
  The host after changes below some paths that were free before and whose parents are directories:
  removing all of them gives the tree back.
\<close>

definition scratch :: "string list list \<Rightarrow> host \<Rightarrow> host \<Rightarrow> bool" where
  "scratch ps h h' \<longleftrightarrow> host_wf h \<and> host_wf h' \<and> same_host h h' \<and>
     (\<forall>q. (\<forall>p \<in> set ps. \<not> prefix p q) \<longrightarrow> node_at h' q = node_at h q) \<and>
     (\<forall>p \<in> set ps. p \<noteq> [] \<and> node_at h p = None \<and> node_at h (butlast p) = Some Directory)"

text \<open>The same, with some of the paths free again.\<close>

definition leftover :: "string list list \<Rightarrow> host \<Rightarrow> host \<Rightarrow> bool" where
  "leftover ps h h' \<longleftrightarrow> (\<exists>ps'. scratch ps' h h' \<and> set ps \<subseteq> set ps' \<and> (\<forall>p \<in> set ps' - set ps. node_at h' p = None))"

text \<open>What a started instance leaves on the host: its directories, the socket below the first.\<close>

definition started_dirs :: "host \<Rightarrow> started \<Rightarrow> string list list" where
  "started_dirs h i = (case st_kind i of Process \<Rightarrow> [path_of h (st_sockDir i)] | Container rt cid dir \<Rightarrow> [path_of h (st_sockDir i), path_of h dir])"

definition owns :: "host \<Rightarrow> started \<Rightarrow> host \<Rightarrow> bool" where
  "owns h i h' \<longleftrightarrow> scratch (started_dirs h i) h h' \<and> prefix (path_of h (st_sockDir i)) (path_of h (st_sockPath i))"

text \<open>The confinement of a container: one directory writable, everything else of the host read-only.\<close>

definition confined :: "string \<Rightarrow> OciLayer list \<Rightarrow> Spec \<Rightarrow> bool" where
  "confined sockDir ls spec \<longleftrightarrow>
     os_Readonly spec \<and> os_NoNewPrivileges spec \<and> set (os_Namespaces spec) = {''pid'', ''ipc'', ''uts'', ''mount'', ''network''} \<and>
     (\<forall>c \<in> set (os_Bounding spec) \<union> set (os_Effective spec) \<union> set (os_Permitted spec). c \<notin> {''CAP_SYS_ADMIN'', ''CAP_SYS_PTRACE'', ''CAP_SYS_MODULE'', ''CAP_NET_ADMIN''}) \<and>
     (\<forall>mt \<in> set (os_Mounts spec). mt_Type mt = ''bind'' \<longrightarrow>
        IsAbs (mt_Source mt) \<and> (''ro'' \<in> set (mt_Options mt) \<and> ''rw'' \<notin> set (mt_Options mt) \<or> mt_Source mt = sockDir \<and> mt_Destination mt = ''/run/cfunc'')) \<and>
     (\<forall>l \<in> set ls. layer_mount l \<in> set (os_Mounts spec)) \<and>
     last (os_Env spec) = ''CFUNC_SOCKET=/run/cfunc/s.sock''"

text \<open>The files of a bundle when the container has dialled back.\<close>

definition bundle_of :: "spawn_env \<Rightarrow> string \<Rightarrow> string \<Rightarrow> OciLayer list \<Rightarrow> started \<Rightarrow> host \<Rightarrow> bool" where
  "bundle_of env rootfs binary extra i h \<longleftrightarrow>
     (\<exists>rt cid dir spec. st_kind i = Container rt cid dir \<and>
        (\<exists>mode. node_at h (path_of h dir @ [''config.json'']) = Some (Regular mode (se_enc env spec))) \<and>
        confined (st_sockDir i) (extra @ [\<lparr>ol_Name = ''user-binary'', ol_HostPath = Dir_of binary, ol_MountPath = ''/cfunc''\<rparr>]) spec \<and>
        os_Args spec = [''/cfunc/'' @ Base_of binary] \<and> os_RootPath spec = rootfs)"

definition demo_spawn_env :: spawn_env where
  "demo_spawn_env = \<lparr>se_Listen = (\<lambda>p. True), se_Start = (\<lambda>b e. True), se_Accept = Dialled,
     se_Getenv = (\<lambda>k. if k = ''PATH'' then ''/bin'' else if k = ''CFUNC_ADMIN_TOKEN'' then ''secret'' else ''''),
     se_rndSock = 1, se_rndBundle = 2, se_rndRoot = 3, se_id = ''abc'', se_enc = (\<lambda>s. os_RootPath s)\<rparr>"

definition demo_machine :: machine where
  "demo_machine = \<lparr>mc_host = demo_host\<lparr>hs_tree := ([''tmp''], Directory) # ([''bin''], Directory) # ([''bin'', ''fn''], Regular 493 ''elf'') # hs_tree demo_host\<rparr>,
     mc_effects = []\<rparr>"

definition demo_opts :: RuncOptions where
  "demo_opts = \<lparr>ro_RootfsBase = ''/srv/root'', ro_RuncBinary = [], ro_Sudo = True, ro_ExtraLayers = []\<rparr>"

section \<open>Lemmas\<close>

declare map_of_eq_Some_iff [simp del] Some_eq_map_of_iff [simp del] Join.simps [simp del]

subsection \<open>Scratch directories\<close>

lemma scratch_nil: "host_wf h \<Longrightarrow> scratch [] h h"
  by (simp add: scratch_def)

lemma scratch_path: "scratch ps h h' \<Longrightarrow> path_of h' t = path_of h t"
  by (simp add: scratch_def same_host_def)

lemma scratch_keeps:
  assumes "scratch ps h h'" "node_at h q = Some n"
  shows "node_at h' q = Some n"
proof -
  have "\<not> prefix p q" if "p \<in> set ps" for p
    using assms that no_node_below [of h p q] by (auto simp: scratch_def)
  then show ?thesis using assms by (simp add: scratch_def)
qed

lemma scratch_room: "scratch ps h h' \<Longrightarrow> p \<in> set ps \<Longrightarrow> room p h'"
  using scratch_keeps [of ps h h' "butlast p" Directory] by (simp add: room_def scratch_def)

lemma scratch_stays:
  assumes "scratch ps h h1" "p \<in> set ps" "stays p h1 h2"
  shows "scratch ps h h2"
  using assms unfolding scratch_def stays_def differ_below_def same_host_def by auto

lemma scratch_remove:
  assumes "scratch ps h h1" "path_of h t \<in> set ps"
  shows "scratch ps h (RemoveAll t h1)"
    "p \<in> set ps \<Longrightarrow> p = path_of h t \<or> node_at h1 p = None \<Longrightarrow> node_at (RemoveAll t h1) p = None"
proof -
  have t: "path_of h1 t = path_of h t" by (rule scratch_path [OF assms(1)])
  have "path_of h t \<noteq> []" using assms by (auto simp: scratch_def)
  then have "host_wf (RemoveAll t h1)" using RemoveAll_wf [of h1 t] assms(1) t by (simp add: scratch_def)
  then show "scratch ps h (RemoveAll t h1)"
    using assms t RemoveAll_facts(2) [of h1 t] unfolding scratch_def same_host_def by (auto simp: RemoveAll_facts(1))
  show "p \<in> set ps \<Longrightarrow> p = path_of h t \<or> node_at h1 p = None \<Longrightarrow> node_at (RemoveAll t h1) p = None"
    using t by (auto simp: RemoveAll_facts)
qed

lemma scratch_done:
  assumes "scratch ps h h'" "\<forall>p \<in> set ps. node_at h' p = None"
  shows "node_at h' = node_at h"
proof
  fix q
  show "node_at h' q = node_at h q"
  proof (cases "\<exists>p \<in> set ps. prefix p q")
    case True
    then obtain p where p: "p \<in> set ps" "prefix p q" by blast
    then have "node_at h' q = None" "node_at h q = None"
      using assms no_node_below [of h' p q] no_node_below [of h p q] by (auto simp: scratch_def)
    then show ?thesis by simp
  qed (use assms(1) in \<open>auto simp: scratch_def\<close>)
qed

lemma temp_paths:
  assumes "hs_tmp h \<noteq> ''''" "CHR ''/'' \<notin> set base" "proper base"
  shows "path_of h (temp_path (hs_tmp h) '''' base) = path_of h (hs_tmp h) @ [base]" "temp_path (hs_tmp h) '''' base \<noteq> ''''"
  using temp_path_facts(2) [OF assms, of "hs_cwd h" "hs_tmp h"] temp_path_facts(1) [OF assms, of "hs_tmp h"]
  by (simp_all add: temp_path_def named_dir_def)

lemma decimal_slash: "CHR ''/'' \<notin> set (decimal n)"
proof -
  have "\<not> is_digit CHR ''/''" by (simp add: is_digit_def)
  then show ?thesis using decimal_digits [of n] by (auto simp: list_all_iff)
qed

lemma scratch_temp:
  assumes s: "scratch ps h h1" and m: "MkdirTemp '''' base h1 = (r, h2)" and tmp: "hs_tmp h \<noteq> ''''" and b: "CHR ''/'' \<notin> set base" "proper base"
    and d: "ps \<noteq> [] \<longrightarrow> node_at h (path_of h (hs_tmp h)) = Some Directory"
  shows "case r of
      Inl e \<Rightarrow> h2 = h1
    | Inr t \<Rightarrow> t \<noteq> '''' \<and> path_of h t = path_of h (hs_tmp h) @ [base] \<and> node_at h (path_of h (hs_tmp h)) = Some Directory \<and>
        node_at h1 (path_of h t) = None \<and> scratch (path_of h t # ps) h h2"
proof (cases r)
  case (Inl e)
  then show ?thesis using MkdirTemp_facts [OF m] s by (simp add: scratch_def)
next
  case (Inr t)
  have cwd: "hs_tmp h1 = hs_tmp h" "path_of h1 x = path_of h x" for x using s by (simp_all add: scratch_def same_host_def)
  have wf: "host_wf h" "host_wf h1" using s by (simp_all add: scratch_def)
  note f = MkdirTemp_facts [OF m wf(2)]
  have t: "t = temp_path (hs_tmp h) '''' base" "h2 = put_node (path_of h t) Directory h1" "host_wf h2" "node_at h1 (path_of h t) = None"
    "node_at h1 (butlast (path_of h t)) = Some Directory" using f Inr cwd by auto
  note p = temp_paths [OF tmp b]
  have dir: "node_at h (path_of h (hs_tmp h)) = Some Directory"
  proof (cases "ps = []")
    case True
    then show ?thesis using s t(1,5) p(1) by (simp add: scratch_def)
  qed (use d in simp)
  have "node_at h (path_of h t) = None" using scratch_keeps [OF s, of "path_of h t"] t(4) by (cases "node_at h (path_of h t)") auto
  moreover have "same_host h h2" using s t(2) by (simp add: scratch_def same_host_def put_node_def)
  ultimately have "scratch (path_of h t # ps) h h2"
    using s t(1,2,3) dir p(1) wf unfolding scratch_def by (auto simp: put_node_def)
  then show ?thesis using Inr t(1,4) p dir by simp
qed

lemma write_scratch:
  assumes "scratch ps h h1" "write_file t m b h1 = (e, h2)" "prefix p (path_of h t)" "p \<in> set ps"
  shows "scratch ps h h2"
  using write_file_stays(1) [OF assms(2) scratch_room [OF assms(1,4)]] scratch_stays [OF assms(1,4)] assms(3) scratch_path [OF assms(1)] by simp

lemma mkdir_scratch:
  assumes "scratch ps h h1" "MkdirAll t h1 = (e, h2)" "prefix p (path_of h t)" "p \<in> set ps"
  shows "scratch ps h h2"
  using MkdirAll_stays(1) [OF assms(2) scratch_room [OF assms(1,4)]] scratch_stays [OF assms(1,4)] assms(3) scratch_path [OF assms(1)] by simp

lemma del_scratch:
  assumes "scratch ps h h1" "prefix p (path_of h t)" "p \<in> set ps"
  shows "scratch ps h (snd (Remove t h1))"
proof -
  obtain e h2 where r: "Remove t h1 = (e, h2)" by fastforce
  show ?thesis using Remove_stays(1) [OF r scratch_room [OF assms(1,3)]] scratch_stays [OF assms(1,3)] assms(2) scratch_path [OF assms(1)] r by simp
qed

lemma join_child:
  assumes "d \<noteq> ''''" "proper c" "CHR ''/'' \<notin> set c"
  shows "walk cwd (Join [d, c]) = walk cwd d @ [c]"
  using walk_child [OF assms(1,3,2), of cwd] assms by (simp add: Join.simps)

lemma leftover_scratch: "scratch ps h h' \<Longrightarrow> leftover ps h h'"
  by (auto simp: leftover_def)

lemma leftover_done: "leftover [] h h' \<Longrightarrow> node_at h' = node_at h"
  using scratch_done by (auto simp: leftover_def)

lemma leftover_path: "leftover ps h h' \<Longrightarrow> path_of h' t = path_of h t"
  using scratch_path by (auto simp: leftover_def)

lemma leftover_remove:
  assumes "leftover (path_of h t # ps) h h1"
  shows "leftover ps h (RemoveAll t h1)"
proof -
  obtain ps' where p: "scratch ps' h h1" "set (path_of h t # ps) \<subseteq> set ps'" "\<forall>p \<in> set ps' - set (path_of h t # ps). node_at h1 p = None"
    using assms by (auto simp: leftover_def)
  note r = scratch_remove [OF p(1), of t]
  have "\<forall>p \<in> set ps' - set ps. node_at (RemoveAll t h1) p = None"
  proof
    fix p assume "p \<in> set ps' - set ps"
    then show "node_at (RemoveAll t h1) p = None" using p(2,3) r(2) [of p] by (cases "p = path_of h t") simp_all
  qed
  then show ?thesis using r(1) p(2) unfolding leftover_def by auto
qed

lemma makeSocket_facts:
  assumes s: "scratch ps h h1" and m: "makeSocket env h1 = (r, h2)" and tmp: "hs_tmp h \<noteq> ''''"
    and d: "ps \<noteq> [] \<longrightarrow> node_at h (path_of h (hs_tmp h)) = Some Directory"
  shows "case r of
      Inl e \<Rightarrow> leftover ps h h2
    | Inr (dir, sockPath) \<Rightarrow> dir \<noteq> '''' \<and> scratch (path_of h dir # ps) h h2 \<and> prefix (path_of h dir) (path_of h sockPath) \<and> sockPath = Join [dir, ''s.sock'']"
proof -
  let ?b = "''cfunc-sock-'' @ decimal (se_rndSock env)"
  have b: "CHR ''/'' \<notin> set ?b" "proper ?b" using decimal_slash by auto
  obtain t h3 where mk: "MkdirTemp '''' ?b h1 = (t, h3)" by fastforce
  note f = scratch_temp [OF s mk tmp b d]
  show ?thesis
  proof (cases t)
    case (Inl e)
    then show ?thesis using m mk f s leftover_scratch by (auto simp: makeSocket_def)
  next
    case (Inr dir)
    have f: "dir \<noteq> ''''" "scratch (path_of h dir # ps) h h3" using f Inr by auto
    let ?s = "Join [dir, ''s.sock'']"
    have j: "path_of h ?s = path_of h dir @ [''s.sock'']" using join_child [OF f(1), of "''s.sock''"] by simp
    obtain e h4 where w: "write_file ?s 493 [] h3 = (e, h4)" by fastforce
    have s4: "scratch (path_of h dir # ps) h h4" using write_scratch [OF f(2) w, of "path_of h dir"] j by simp
    have "leftover ps h (RemoveAll dir hx)" if "scratch (path_of h dir # ps) h hx" for hx
      using leftover_remove [OF leftover_scratch [OF that]] .
    then show ?thesis using m mk Inr w f s4 j
      by (auto simp: makeSocket_def Let_def split: if_splits option.splits)
  qed
qed

lemma emit_host [simp]: "mc_host (emit x m) = mc_host m"
  by (simp add: emit_def)

lemma on_host_host [simp]: "mc_host (on_host f m) = f (mc_host m)"
  by (simp add: on_host_def)

lemma container_host [simp]:
  "mc_host (Run_container r c b m) = mc_host m" "mc_host (Kill_container r c s m) = mc_host m" "mc_host (Delete_container r c m) = mc_host m"
  by (simp_all add: Run_container_def Kill_container_def Delete_container_def)

lemma close_scratch:
  assumes "scratch ps h (mc_host m)" "prefix p (path_of h sockPath)" "p \<in> set ps"
  shows "scratch ps h (mc_host (close_listener sockPath m))"
  using del_scratch [OF assms] by (simp add: close_listener_def)

lemma accept_scratch:
  assumes "acceptOrKill out sockPath kill m = (x, m')" "\<And>m. mc_host (kill m) = mc_host m"
    and "scratch ps h (mc_host m)" "prefix p (path_of h sockPath)" "p \<in> set ps"
  shows "scratch ps h (mc_host m')"
  using assms(1,2,3) close_scratch [OF _ assms(4,5), of "kill m"]
  by (auto simp: acceptOrKill_def Let_def split: accept_outcome.splits if_splits)

lemma close_leftover:
  assumes "leftover ps h (mc_host m)" "prefix p (path_of h sockPath)" "p \<in> set ps"
  shows "leftover ps h (mc_host (close_listener sockPath m))"
proof -
  obtain ps' where p: "scratch ps' h (mc_host m)" "set ps \<subseteq> set ps'" "\<forall>p \<in> set ps' - set ps. node_at (mc_host m) p = None"
    using assms(1) by (auto simp: leftover_def)
  obtain e h2 where r: "Remove sockPath (mc_host m) = (e, h2)" by fastforce
  have "host_wf (mc_host m)" using p(1) by (simp add: scratch_def)
  from Remove_facts(3) [OF r this] have "\<forall>p \<in> set ps' - set ps. node_at h2 p = None" using p(3) by auto
  then have "\<forall>p \<in> set ps' - set ps. node_at (mc_host (close_listener sockPath m)) p = None" using r by (simp add: close_listener_def)
  moreover have "scratch ps' h (mc_host (close_listener sockPath m))" using close_scratch [OF p(1) assms(2)] assms(3) p(2) by blast
  ultimately show ?thesis using p(2) unfolding leftover_def by blast
qed

lemma closed_process:
  assumes "scratch [path_of h dir] h (mc_host m)" "prefix (path_of h dir) (path_of h sockPath)"
  shows "node_at (RemoveAll dir (mc_host (close_listener sockPath m))) = node_at h"
  using leftover_done [OF leftover_remove [OF leftover_scratch [OF close_scratch [OF assms]]]] by simp

lemma Start_process_tree:
  assumes "Start_process env binary e m = (r, m')" "host_wf (mc_host m)" "hs_tmp (mc_host m) \<noteq> ''''"
  shows "case r of
      Inl x \<Rightarrow> node_at (mc_host m') = node_at (mc_host m)
    | Inr i \<Rightarrow> st_kind i = Process \<and> scratch [path_of (mc_host m) (st_sockDir i)] (mc_host m) (mc_host m') \<and>
        prefix (path_of (mc_host m) (st_sockDir i)) (path_of (mc_host m) (st_sockPath i))"
proof -
  let ?h = "mc_host m"
  obtain s h1 where mk: "makeSocket env ?h = (s, h1)" by fastforce
  note f = makeSocket_facts [OF scratch_nil [OF assms(2)] mk assms(3)]
  show ?thesis
  proof (cases s)
    case (Inl x)
    then show ?thesis using assms(1) mk f leftover_done by (auto simp: Start_process_def)
  next
    case (Inr d)
    obtain dir sock where d: "d = (dir, sock)" by fastforce
    have f: "scratch [path_of ?h dir] ?h h1" "prefix (path_of ?h dir) (path_of ?h sock)" using f Inr d by auto
    let ?penv = "inheritedEnv (se_Getenv env) @ e @ [''CFUNC_SOCKET='' @ sock]" and ?m = "m\<lparr>mc_host := h1\<rparr>"
    obtain x m2 where a: "acceptOrKill (se_Accept env) sock (emit KillProcess) (emit (StartProcess binary ?penv) ?m) = (x, m2)" by fastforce
    have s2: "scratch [path_of ?h dir] ?h (mc_host m2)" using accept_scratch [OF a _ _ f(2)] f(1) by simp
    show ?thesis
      using assms(1) mk Inr d a f s2 closed_process [OF _ f(2), of ?m] closed_process [OF s2 f(2)]
      by (auto simp: Start_process_def Let_def split: if_splits option.splits)
  qed
qed

lemma leftover_swap: "scratch [a, b] h h1 \<Longrightarrow> leftover [b, a] h h1"
  unfolding leftover_def by (intro exI [of _ "[a, b]"]) auto

lemma undo_tree:
  assumes "scratch [path_of h sockDir, path_of h dir] h h1"
  shows "node_at (RemoveAll dir (RemoveAll sockDir h1)) = node_at h" "node_at (RemoveAll sockDir (RemoveAll dir h1)) = node_at h"
proof -
  have swap: "leftover [path_of h dir, path_of h sockDir] h h1" by (rule leftover_swap [OF assms])
  show "node_at (RemoveAll dir (RemoveAll sockDir h1)) = node_at h"
    by (rule leftover_done [OF leftover_remove [OF leftover_remove [OF leftover_scratch [OF assms]]]])
  show "node_at (RemoveAll sockDir (RemoveAll dir h1)) = node_at h"
    by (rule leftover_done [OF leftover_remove [OF leftover_remove [OF swap]]])
qed

lemma run_bundle_tree:
  assumes "run_bundle env opts bundle sockDir sockPath m = (r, m')" "scratch [path_of h sockDir, path_of h (bd_Dir bundle)] h (mc_host m)"
    and "prefix (path_of h sockDir) (path_of h sockPath)"
  shows "case r of Inl x \<Rightarrow> node_at (mc_host m') = node_at h | Inr i \<Rightarrow> owns h i (mc_host m')"
proof -
  let ?rt = "\<lparr>rt_Binary = ro_RuncBinary opts, rt_Sudo = ro_Sudo opts\<rparr>" and ?cid = "''cfunc-'' @ se_id env"
  let ?kill = "\<lambda>m. Kill_container ?rt ?cid ''KILL'' (emit CancelRun m)"
  obtain x m2 where a: "acceptOrKill (se_Accept env) sockPath ?kill (Run_container ?rt ?cid bundle m) = (x, m2)" by fastforce
  have s2: "scratch [path_of h sockDir, path_of h (bd_Dir bundle)] h (mc_host m2)"
    using accept_scratch [OF a _ _ assms(3)] assms(2) by simp
  have "scratch [path_of h sockDir, path_of h (bd_Dir bundle)] h (mc_host (close_listener sockPath m2))" using close_scratch [OF s2 assms(3)] by simp
  from undo_tree(1) [OF this] show ?thesis
    using assms(1,3) a s2 by (auto simp: run_bundle_def Let_def owns_def started_dirs_def split: option.splits)
qed

lemma WriteBundle_scratch:
  assumes "scratch ps h h1" "WriteBundle enc dir spec h1 = (w, h2)" "dir \<noteq> ''''" "path_of h dir \<in> set ps"
  shows "scratch ps h h2" "w = Inr y \<Longrightarrow> bd_Dir y = dir"
proof -
  have j: "path_of h (Join [dir, ''config.json'']) = path_of h dir @ [''config.json'']"
    using join_child [OF assms(3), of "''config.json''"] by simp
  obtain e h3 where m: "MkdirAll dir h1 = (e, h3)" by fastforce
  obtain e' h4 where wr: "write_file (Join [dir, ''config.json'']) 438 (enc spec) h3 = (e', h4)" by fastforce
  have s3: "scratch ps h h3" by (rule mkdir_scratch [OF assms(1) m _ assms(4)]) simp
  have s4: "scratch ps h h4" by (rule write_scratch [OF s3 wr _ assms(4)]) (simp add: j)
  show "scratch ps h h2" "w = Inr y \<Longrightarrow> bd_Dir y = dir"
    using assms(2) m wr s3 s4 by (cases e; cases e'; auto simp: WriteBundle_def)+
qed

lemma start_bundle_tree:
  assumes "start_bundle env opts binary e rootfs m = (r, m')" "host_wf (mc_host m)" "hs_tmp (mc_host m) \<noteq> ''''"
  shows "case r of Inl x \<Rightarrow> node_at (mc_host m') = node_at (mc_host m) | Inr i \<Rightarrow> owns (mc_host m) i (mc_host m')"
proof -
  let ?h = "mc_host m" and ?b = "''cfunc-bundle-'' @ decimal (se_rndBundle env)"
  have b: "CHR ''/'' \<notin> set ?b" "proper ?b" using decimal_slash by auto
  obtain t h1 where mk: "MkdirTemp '''' ?b ?h = (t, h1)" by fastforce
  note f = scratch_temp [OF scratch_nil [OF assms(2)] mk assms(3) b]
  show ?thesis
  proof (cases t)
    case (Inl x)
    then show ?thesis using assms(1) mk f by (auto simp: start_bundle_def)
  next
    case (Inr dir)
    have f: "dir \<noteq> ''''" "node_at ?h (path_of ?h (hs_tmp ?h)) = Some Directory" "scratch [path_of ?h dir] ?h h1" using f Inr by auto
    obtain s h2 where ms: "makeSocket env h1 = (s, h2)" by fastforce
    note g = makeSocket_facts [OF f(3) ms assms(3)]
    show ?thesis
    proof (cases s)
      case (Inl x)
      then show ?thesis using assms(1) mk Inr ms g f(2) leftover_done leftover_remove by (auto simp: start_bundle_def)
    next
      case i: (Inr d)
      obtain sock sockPath where d: "d = (sock, sockPath)" by fastforce
      have g: "scratch [path_of ?h sock, path_of ?h dir] ?h h2" "prefix (path_of ?h sock) (path_of ?h sockPath)" using g i d f(2) by auto
      have undo: "node_at (RemoveAll dir (RemoveAll sock (mc_host (close_listener sockPath m2)))) = node_at ?h"
        if "scratch [path_of ?h sock, path_of ?h dir] ?h (mc_host m2)" for m2
        using undo_tree(1) [of ?h sock dir] close_scratch [OF that g(2)] by simp
      show ?thesis
      proof (cases "Build_oci (runc_config rootfs binary e sock (ro_ExtraLayers opts))")
        case (Inl x)
        then show ?thesis using assms(1) mk Inr ms i d undo [of "m\<lparr>mc_host := h2\<rparr>"] g(1) by (auto simp: start_bundle_def Let_def)
      next
        case sp: (Inr spec)
        obtain w h3 where w: "WriteBundle (se_enc env) dir spec h2 = (w, h3)" by fastforce
        note s3 = WriteBundle_scratch [OF g(1) w f(1)]
        show ?thesis
        proof (cases w)
          case (Inl x)
          then show ?thesis using assms(1) mk Inr ms i d sp w undo [of "m\<lparr>mc_host := h3\<rparr>"] s3(1) by (auto simp: start_bundle_def Let_def)
        next
          case bdl: (Inr y)
          have "run_bundle env opts y sock sockPath (m\<lparr>mc_host := h3\<rparr>) = (r, m')"
            using assms(1) mk Inr ms i d sp w bdl by (simp add: start_bundle_def Let_def)
          from run_bundle_tree [OF this _ g(2)] show ?thesis using s3 bdl by simp
        qed
      qed
    qed
  qed
qed

lemma Close_tree:
  assumes "owns h i (mc_host m)"
  shows "node_at (mc_host (Close_started exits i m)) = node_at h"
proof -
  let ?m = "emit (ConnWritten (bare_frame TypeShutdown ''sd'')) m"
  note o = assms [unfolded owns_def]
  show ?thesis
  proof (cases "st_kind i")
    case Process
    have "scratch [path_of h (st_sockDir i)] h (mc_host (emit ConnClosed (wait_instance exits i (stop_instance i ?m))))"
      using o Process by (simp add: started_dirs_def wait_instance_def stop_instance_def)
    from closed_process [OF this] o show ?thesis by (simp add: Close_started_def Let_def)
  next
    case (Container rt cid dir)
    let ?ps = "[path_of h (st_sockDir i), path_of h dir]"
    have s: "scratch ?ps h (mc_host m)" using o Container by (simp add: started_dirs_def)
    let ?w = "emit ConnClosed (wait_instance exits i (stop_instance i ?m))"
    have w: "mc_host ?w = RemoveAll dir (mc_host m)"
      using Container by (simp add: wait_instance_def stop_instance_def Let_def)
    have "leftover [path_of h (st_sockDir i)] h (mc_host ?w)" unfolding w by (rule leftover_remove [OF leftover_swap [OF s]])
    from leftover_done [OF leftover_remove [OF close_leftover [OF this, of _ "st_sockPath i"]]] o show ?thesis
      by (simp add: Close_started_def Let_def)
  qed
qed

lemma StartRunc_tree:
  assumes "StartRunc env binary e opts m = (r, m')" "host_wf (mc_host m)" "hs_tmp (mc_host m) \<noteq> ''''" "ro_RootfsBase opts \<noteq> ''''"
  shows "case r of Inl x \<Rightarrow> node_at (mc_host m') = node_at (mc_host m) | Inr i \<Rightarrow> owns (mc_host m) i (mc_host m')"
  using assms(1,4) start_bundle_tree [OF _ assms(2,3)]
  by (auto simp: StartRunc_def Let_def split: option.splits node.splits)

subsection \<open>What is started\<close>

lemma effects [simp]:
  "mc_effects (emit x m) = mc_effects m @ [x]" "mc_effects (on_host f m) = mc_effects m"
  "mc_effects (close_listener s m) = mc_effects m @ [ListenerClosed]"
  by (simp_all add: emit_def on_host_def close_listener_def)

text \<open>What follows the start of a process or the launch of a container: nothing, or its end.\<close>

lemma accept_effects:
  assumes "acceptOrKill out sockPath kill m = (x, m')" "mc_effects (kill m) = mc_effects m @ ks"
  shows "x = None \<Longrightarrow> m' = m" "x = Some y \<Longrightarrow> \<exists>zs. mc_effects m' = mc_effects m @ ks @ zs \<and> set zs \<subseteq> {ListenerClosed, ConnClosed}"
  using assms by (auto simp: acceptOrKill_def Let_def split: accept_outcome.splits if_splits)

lemma process_effects:
  assumes "Start_process env binary e m = (r, m')"
  shows "mc_effects m' = mc_effects m \<or> mc_effects m' = mc_effects m @ [ListenerClosed] \<or>
    (\<exists>sockPath rest. mc_effects m' = mc_effects m @ StartProcess binary (inheritedEnv (se_Getenv env) @ e @ [''CFUNC_SOCKET='' @ sockPath]) # rest \<and>
       set rest \<subseteq> {KillProcess, ListenerClosed, ConnClosed} \<and> (\<forall>x. r = Inl x \<longrightarrow> KillProcess \<in> set rest))"
proof -
  obtain s h1 where mk: "makeSocket env (mc_host m) = (s, h1)" by fastforce
  show ?thesis
  proof (cases s)
    case (Inl x)
    then show ?thesis using assms mk by (auto simp: Start_process_def)
  next
    case (Inr d)
    obtain dir sock where d: "d = (dir, sock)" by fastforce
    let ?penv = "inheritedEnv (se_Getenv env) @ e @ [''CFUNC_SOCKET='' @ sock]" and ?m = "m\<lparr>mc_host := h1\<rparr>"
    obtain x m2 where a: "acceptOrKill (se_Accept env) sock (emit KillProcess) (emit (StartProcess binary ?penv) ?m) = (x, m2)" by fastforce
    note k = accept_effects [OF a, of "[KillProcess]"]
    show ?thesis
      using assms mk Inr d a k by (cases x) (auto simp: Start_process_def Let_def split: if_splits)
  qed
qed

lemma inheritedEnv_keys: "v \<in> set (inheritedEnv getenv) \<Longrightarrow> \<exists>k \<in> set inheritedEnvKeys. v = k @ ''='' @ getenv k"
  by (auto simp: inheritedEnv_def)

subsection \<open>Specifications\<close>

lemma check_layers_ok: "check_layers i ls = None \<Longrightarrow> l \<in> set ls \<Longrightarrow> IsAbs (ol_HostPath l) \<and> IsAbs (ol_MountPath l)"
  by (induction i ls rule: check_layers.induct) (auto split: if_splits)

lemma Build_confined:
  assumes "Build_oci (runc_config rootfs binary e sockDir extra) = Inr spec"
  shows "confined sockDir (extra @ [\<lparr>ol_Name = ''user-binary'', ol_HostPath = Dir_of binary, ol_MountPath = ''/cfunc''\<rparr>]) spec"
    "os_Args spec = [''/cfunc/'' @ Base_of binary]" "os_RootPath spec = rootfs"
proof -
  have sock: "Join [''/run/cfunc'', ''s.sock''] = ''/run/cfunc/s.sock''" by code_simp
  have c: "check_layers 0 (oc_Layers (runc_config rootfs binary e sockDir extra)) = None"
    using assms by (auto simp: Build_oci_def Let_def split: if_splits option.splits)
  have spec: "os_Mounts spec = defaultMounts @ [\<lparr>mt_Destination = ''/run/cfunc'', mt_Type = ''bind'', mt_Source = sockDir, mt_Options = [''rbind'', ''rw'']\<rparr>] @
      map layer_mount (oc_Layers (runc_config rootfs binary e sockDir extra))"
    "os_Readonly spec" "os_NoNewPrivileges spec" "os_Namespaces spec = [''pid'', ''ipc'', ''uts'', ''mount'', ''network'']"
    "os_Bounding spec = defaultCaps" "os_Effective spec = defaultCaps" "os_Permitted spec = defaultCaps"
    "os_Env spec = e @ [''CFUNC_SOCKET=/run/cfunc/s.sock'']" "os_Args spec = [''/cfunc/'' @ Base_of binary]" "os_RootPath spec = rootfs" "IsAbs sockDir"
    using assms sock by (auto simp: Build_oci_def runc_config_def Let_def split: if_splits option.splits)
  show "os_Args spec = [''/cfunc/'' @ Base_of binary]" "os_RootPath spec = rootfs" using spec by simp_all
  have "mt_Type mt \<noteq> ''bind''" if "mt \<in> set defaultMounts" for mt using that by (auto simp: defaultMounts_def)
  moreover have "IsAbs (Dir_of binary)" "\<And>l. l \<in> set extra \<Longrightarrow> IsAbs (ol_HostPath l)"
    using check_layers_ok [OF c, of "\<lparr>ol_Name = ''user-binary'', ol_HostPath = Dir_of binary, ol_MountPath = ''/cfunc''\<rparr>"] check_layers_ok [OF c]
    by (simp_all add: runc_config_def)
  moreover have "c \<notin> {''CAP_SYS_ADMIN'', ''CAP_SYS_PTRACE'', ''CAP_SYS_MODULE'', ''CAP_NET_ADMIN''}" if "c \<in> set defaultCaps" for c
    using that by (auto simp: defaultCaps_def)
  ultimately show "confined sockDir (extra @ [\<lparr>ol_Name = ''user-binary'', ol_HostPath = Dir_of binary, ol_MountPath = ''/cfunc''\<rparr>]) spec"
    using spec(2,3,11) unfolding confined_def spec(1,4-8) by (auto simp: layer_mount_def runc_config_def)
qed

lemma WriteBundle_config:
  assumes "WriteBundle enc dir spec h = (Inr y, h')" "host_wf h" "dir \<noteq> ''''"
  shows "\<exists>mode. node_at h' (path_of h' dir @ [''config.json'']) = Some (Regular mode (enc spec))" "bd_Dir y = dir"
proof -
  let ?c = "Join [dir, ''config.json'']"
  obtain h3 where m: "MkdirAll dir h = (None, h3)" and w: "write_file ?c 438 (enc spec) h3 = (None, h')" and b: "bd_Dir y = dir"
    using assms(1) by (auto simp: WriteBundle_def split: prod.splits option.splits)
  show "bd_Dir y = dir" by (rule b)
  have wf: "host_wf h3" using MkdirAll_facts(1) [OF m assms(2)] by (simp add: dirs_made_def)
  have "path_of h' dir = path_of h3 dir" using write_file_facts(2) [OF w wf] by (simp add: same_host_def)
  then show "\<exists>mode. node_at h' (path_of h' dir @ [''config.json'']) = Some (Regular mode (enc spec))"
    using write_file_facts(4) [OF w wf] join_child [OF assms(3), of "''config.json''" "hs_cwd h3"] by auto
qed

lemma run_bundle_started:
  assumes "run_bundle env opts bundle sockDir sockPath m = (Inr i, m')"
  shows "st_sockDir i = sockDir" "\<exists>rt cid. st_kind i = Container rt cid (bd_Dir bundle)" "mc_host m' = mc_host m"
proof -
  let ?rt = "\<lparr>rt_Binary = ro_RuncBinary opts, rt_Sudo = ro_Sudo opts\<rparr>" and ?cid = "''cfunc-'' @ se_id env"
  let ?kill = "\<lambda>m. Kill_container ?rt ?cid ''KILL'' (emit CancelRun m)"
  obtain x m2 where a: "acceptOrKill (se_Accept env) sockPath ?kill (Run_container ?rt ?cid bundle m) = (x, m2)" by fastforce
  then have "x = None" using assms by (cases x) (auto simp: run_bundle_def Let_def)
  then have "m2 = Run_container ?rt ?cid bundle m" using a by (auto simp: acceptOrKill_def Let_def split: accept_outcome.splits)
  then show "st_sockDir i = sockDir" "\<exists>rt cid. st_kind i = Container rt cid (bd_Dir bundle)" "mc_host m' = mc_host m"
    using assms a \<open>x = None\<close> by (auto simp: run_bundle_def Let_def)
qed

lemma start_bundle_config:
  assumes "start_bundle env opts binary e rootfs m = (Inr i, m')" "host_wf (mc_host m)" "hs_tmp (mc_host m) \<noteq> ''''"
  shows "bundle_of env rootfs binary (ro_ExtraLayers opts) i (mc_host m')"
proof -
  let ?h = "mc_host m" and ?b = "''cfunc-bundle-'' @ decimal (se_rndBundle env)"
  have b: "CHR ''/'' \<notin> set ?b" "proper ?b" using decimal_slash by auto
  obtain dir h1 sock sockPath h2 spec y h3 where st: "MkdirTemp '''' ?b ?h = (Inr dir, h1)" "makeSocket env h1 = (Inr (sock, sockPath), h2)"
    "Build_oci (runc_config rootfs binary e sock (ro_ExtraLayers opts)) = Inr spec" "WriteBundle (se_enc env) dir spec h2 = (Inr y, h3)"
    and r: "run_bundle env opts y sock sockPath (m\<lparr>mc_host := h3\<rparr>) = (Inr i, m')"
    using assms(1) by (auto simp: start_bundle_def Let_def split: prod.splits sum.splits)
  note f = scratch_temp [OF scratch_nil [OF assms(2)] st(1) assms(3) b]
  have s1: "scratch [path_of ?h dir] ?h h1" "dir \<noteq> ''''" "node_at ?h (path_of ?h (hs_tmp ?h)) = Some Directory" using f by auto
  have "scratch [path_of ?h sock, path_of ?h dir] ?h h2" using makeSocket_facts [OF s1(1) st(2) assms(3)] s1(3) by simp
  then have "host_wf h2" by (simp add: scratch_def)
  note c = WriteBundle_config [OF st(4) this s1(2)] and q = run_bundle_started [OF r] and sp = Build_confined [OF st(3)]
  obtain rt cid where k: "st_kind i = Container rt cid dir" using q(2) c(2) by auto
  have h: "mc_host m' = h3" using q(3) by simp
  show ?thesis using c(1) k sp unfolding bundle_of_def h q(1) by blast
qed

subsection \<open>Waiting\<close>

lemma wait_turns_until:
  assumes "seen n \<or> deadline < clock n" "\<forall>k. i \<le> k \<and> k < n \<longrightarrow> \<not> seen k \<and> clock k \<le> deadline" "i \<le> n"
  shows "wait_turns seen clock deadline i = Some (seen n)"
  using assms
proof (induction "n - i" arbitrary: i)
  case 0
  then show ?case by (subst wait_turns.simps) auto
next
  case (Suc d)
  then have "wait_turns seen clock deadline (Suc i) = Some (seen n)" "\<not> seen i" "clock i \<le> deadline" by auto
  then show ?case by (subst wait_turns.simps) auto
qed

lemma clock_advances: "\<forall>i. clock i + d \<le> clock (Suc i) \<Longrightarrow> clock 0 + int n * d \<le> clock n" for clock :: "nat \<Rightarrow> time"
proof (induction n)
  case (Suc n)
  then have "clock 0 + int n * d + d \<le> clock (Suc n)" by (meson add_right_mono order.trans)
  then show ?case by (simp add: algebra_simps)
qed simp

section \<open>Properties\<close>

lemma demo_machine_wf: "host_wf (mc_host demo_machine)" "hs_tmp (mc_host demo_machine) \<noteq> ''''"
  by (auto simp: host_wf_def demo_machine_def demo_host_def split: if_splits)

text \<open>
  (C22) Instances leave nothing behind: when starting a function fails, as a subprocess or in a
  container on a given root directory, the file tree is as it was before; when it succeeds, closing
  the instance gives the tree back, whether or not a container ends in time.
\<close>

theorem spawn_cleans_up:
  assumes "host_wf (mc_host m)" "hs_tmp (mc_host m) \<noteq> ''''" "ro_RootfsBase opts \<noteq> ''''"
    and "start = Start_process env binary e m \<or> start = StartRunc env binary e opts m"
  shows "case start of
      (Inl x, m') \<Rightarrow> node_at (mc_host m') = node_at (mc_host m)
    | (Inr i, m') \<Rightarrow> node_at (mc_host (Close_started exits i m')) = node_at (mc_host m)"
proof -
  obtain r m' where s: "start = (r, m')" by fastforce
  have "case r of Inl x \<Rightarrow> node_at (mc_host m') = node_at (mc_host m) | Inr i \<Rightarrow> owns (mc_host m) i (mc_host m')"
  proof (cases "start = Start_process env binary e m")
    case True
    then have "Start_process env binary e m = (r, m')" using s by simp
    from Start_process_tree [OF this assms(1,2)] show ?thesis by (auto simp: owns_def started_dirs_def split: sum.splits)
  next
    case False
    then have "StartRunc env binary e opts m = (r, m')" using s assms(4) by simp
    from StartRunc_tree [OF this assms(1,2,3)] show ?thesis .
  qed
  then show ?thesis using s Close_tree by (auto split: sum.splits)
qed

theorem spawn_cleans_up_witness:
  "case StartRunc demo_spawn_env ''/bin/fn'' [] demo_opts demo_machine of
     (Inl x, m') \<Rightarrow> False
   | (Inr i, m') \<Rightarrow> node_at (mc_host (Close_started False i m')) = node_at (mc_host demo_machine)"
proof -
  have "\<not> isl (fst (StartRunc demo_spawn_env ''/bin/fn'' [] demo_opts demo_machine))" by code_simp
  moreover have "ro_RootfsBase demo_opts \<noteq> ''''" by (simp add: demo_opts_def)
  ultimately show ?thesis
    using spawn_cleans_up [OF demo_machine_wf, of demo_opts "StartRunc demo_spawn_env ''/bin/fn'' [] demo_opts demo_machine" demo_spawn_env "''/bin/fn''" "[]" False]
    by (auto split: prod.splits sum.splits)
qed

text \<open>
  Function processes get a curated environment: whenever a subprocess is started, every variable
  it gets is one of the seven inherited keys with its value in the gateway's environment, an entry
  the definition of the function asks for, or the path of its socket, which comes last; and when the
  process does not dial back, it is killed.
\<close>

theorem process_environment:
  assumes "Start_process env binary e m = (r, m')" "mc_effects m = []" "StartProcess b penv \<in> set (mc_effects m')"
  shows "b = binary \<and> (\<forall>v \<in> set (butlast penv). v \<in> set e \<or> (\<exists>k \<in> set inheritedEnvKeys. v = k @ ''='' @ se_Getenv env k)) \<and>
    has_prefix (last penv) ''CFUNC_SOCKET='' \<and> (\<forall>x. r = Inl x \<longrightarrow> KillProcess \<in> set (mc_effects m'))"
proof -
  obtain sockPath rest where p: "mc_effects m' = StartProcess binary (inheritedEnv (se_Getenv env) @ e @ [''CFUNC_SOCKET='' @ sockPath]) # rest"
    "set rest \<subseteq> {KillProcess, ListenerClosed, ConnClosed}" "\<forall>x. r = Inl x \<longrightarrow> KillProcess \<in> set rest"
    using process_effects [OF assms(1)] assms(2,3) by auto
  have penv: "b = binary" "penv = (inheritedEnv (se_Getenv env) @ e) @ [''CFUNC_SOCKET='' @ sockPath]" using assms(3) p(1,2) by auto
  have env: "v \<in> set e \<or> (\<exists>k \<in> set inheritedEnvKeys. v = k @ ''='' @ se_Getenv env k)" if "v \<in> set (butlast penv)" for v
    using that inheritedEnv_keys unfolding penv(2) butlast_snoc by auto
  have "has_prefix (last penv) ''CFUNC_SOCKET=''" unfolding penv(2) last_snoc by (rule has_prefix_append)
  then show ?thesis using env penv(1) p(1,3) by simp
qed

theorem process_environment_witness:
  "\<exists>penv. StartProcess ''/bin/fn'' penv \<in> set (mc_effects (snd (Start_process demo_spawn_env ''/bin/fn'' [''A=1''] demo_machine))) \<and>
     list_all (\<lambda>v. \<not> has_prefix v ''CFUNC_ADMIN_TOKEN='') (butlast penv)"
proof -
  let ?S = "Start_process demo_spawn_env ''/bin/fn'' [''A=1''] demo_machine"
  have "list_ex (\<lambda>x. case x of StartProcess b penv \<Rightarrow> b = ''/bin/fn'' | _ \<Rightarrow> False) (mc_effects (snd ?S))" by code_simp
  then obtain x where x: "x \<in> set (mc_effects (snd ?S))" "case x of StartProcess b penv \<Rightarrow> b = ''/bin/fn'' | _ \<Rightarrow> False"
    unfolding list_ex_iff by blast
  obtain penv where "x = StartProcess ''/bin/fn'' penv" using x(2) by (cases x) auto
  then have p: "StartProcess ''/bin/fn'' penv \<in> set (mc_effects (snd ?S))" using x(1) by simp
  have S: "?S = (fst ?S, snd ?S)" by simp
  have e: "mc_effects demo_machine = []" by (simp add: demo_machine_def)
  have "list_all (\<lambda>k. \<not> has_prefix (k @ ''='' @ se_Getenv demo_spawn_env k) ''CFUNC_ADMIN_TOKEN='') inheritedEnvKeys" "\<not> has_prefix ''A=1'' ''CFUNC_ADMIN_TOKEN=''"
    by code_simp+
  moreover have "v \<in> set [''A=1''] \<or> (\<exists>k \<in> set inheritedEnvKeys. v = k @ ''='' @ se_Getenv demo_spawn_env k)" if "v \<in> set (butlast penv)" for v
    using process_environment [OF S e p] that by blast
  ultimately have "\<not> has_prefix v ''CFUNC_ADMIN_TOKEN=''" if "v \<in> set (butlast penv)" for v
    using that unfolding list_all_iff by fastforce
  then show ?thesis using p unfolding list_all_iff by blast
qed





end
