(* ===== verification/Command_Line.thy ===== *)
theory Command_Line
  imports Flags Postgres_Tenancy Scheduler Build_Service Spawn
begin

text \<open>
  The command line client, \<open>cmd/cfunc\<close>: the dispatch of subcommands, layers (\<open>layer add\<close>,
  \<open>build-python\<close>, \<open>list\<close>, \<open>show\<close>), cron jobs of the job file, and the tenancy commands of
  \<open>tenancy.go\<close> on the Postgres store. A command takes its arguments and the world it acts on and
  gives its output or its error, which decides the exit status. \<open>os.Exit\<close> does not run deferred
  calls, so a command that fails leaves what it would have cleaned up. Random bytes, hashes, the
  directory walk, HTTP and base64 are arguments, the fields of \<open>cli_env\<close>.
\<close>

section \<open>Definitions\<close>

record world =
  wd_db :: pg_db
  wd_host :: host
  wd_jobs :: job_file
  wd_jobs_missing :: bool

record cli_env =
  ce_getenv :: "string \<Rightarrow> string"
  ce_now :: time
  ce_date :: "time \<Rightarrow> string"
  ce_server :: pg_server
  ce_dial :: "string \<Rightarrow> pg_error option"
  ce_open :: fate
  ce_migrations :: "string \<Rightarrow> fate"
  ce_op :: fate
  ce_op2 :: fate
  ce_rand_id :: "string option"
  ce_rand_token :: "string option"
  ce_sha256 :: "string \<Rightarrow> string"
  ce_lib :: store_lib
  ce_walk :: "host \<Rightarrow> string \<Rightarrow> source"
  ce_blib :: build_lib
  ce_any_ok :: "string \<Rightarrow> bool"
  ce_unbase64 :: "string \<Rightarrow> string option"
  ce_tmpname :: string
  ce_url_ok :: "string \<Rightarrow> bool"
  ce_do :: "TriggerRequest \<Rightarrow> string + (int \<times> string)"
  ce_cron_ok :: "string \<Rightarrow> bool"
  ce_jobs_enc :: "Job list \<Rightarrow> string"
  ce_jobs_dec :: "string \<Rightarrow> Job list option"

datatype cli_error =
    ShowUsage
  | UnknownCommand string
  | MissingFlag string
  | FlagStatus int
  | StoreFailed pg_error
  | LayersFailed layers_error
  | OsFailed os_error
  | CronFailed sched_error
  | ExtractFailed build_error
  | NoRandom
  | CallGateway string
  | BuildFailed int string
  | BadReply
  | BadBase64
  | NilRequest

datatype cli_output =
    UsageText
  | SchemaApplied
  | Rows "string list list"
  | ManifestOut LayerManifest
  | BuiltOut LayerManifest "(string, string) gomap"
  | ShowOut LayerManifest string
  | JobOut Job
  | Silent
  | ProjectCreated string
  | ProjectDeleted string
  | KeyCreated string string
  | KeyRevoked string
  | QuotaSet string string int

type_synonym cli_command = "string list \<Rightarrow> world \<Rightarrow> (cli_error + cli_output) \<times> world"

text \<open>A nil dereference ends the process with status 2.\<close>

definition exit_status :: "cli_error + cli_output \<Rightarrow> int" where
  "exit_status r =
     (case r of
        Inr _ \<Rightarrow> 0
      | Inl e \<Rightarrow>
          (case e of
             ShowUsage \<Rightarrow> 2
           | UnknownCommand _ \<Rightarrow> 2
           | MissingFlag _ \<Rightarrow> 2
           | FlagStatus n \<Rightarrow> n
           | NilRequest \<Rightarrow> 2
           | _ \<Rightarrow> 1))"

definition with_flags :: "flags \<Rightarrow> (flags \<Rightarrow> string list \<Rightarrow> world \<Rightarrow> (cli_error + cli_output) \<times> world) \<Rightarrow> cli_command" where
  "with_flags spec run args w =
     (case parse_flags spec args of
        FlagExit n \<Rightarrow> (Inl (FlagStatus n), w)
      | Parsed v rest \<Rightarrow> run v rest w)"

subsection \<open>The tenancy store\<close>

definition openStore :: "cli_env \<Rightarrow> string \<Rightarrow> world \<Rightarrow> cli_error option \<times> world" where
  "openStore env dsn w =
     (if dsn = '''' then (Some (MissingFlag ''dsn''), w)
      else (case OpenPostgres (ce_dial env dsn) (ce_open env) (ce_migrations env) (ce_now env) (wd_db w) of
          (Inl e, db) \<Rightarrow> (Some (StoreFailed e), w\<lparr>wd_db := db\<rparr>)
        | (Inr _, db) \<Rightarrow> (None, w\<lparr>wd_db := db\<rparr>)))"

definition cli_entry :: "string \<Rightarrow> string \<Rightarrow> string \<Rightarrow> (string, string) gomap \<Rightarrow> AuditEntry" where
  "cli_entry project action target meta =
     \<lparr>ae_ID = 0, ae_TS = 0, ae_Project = project, ae_Actor = ''cli'', ae_Action = action, ae_Target = target, ae_Metadata = meta\<rparr>"

text \<open>A change of the store, then its audit entry, whose error is dropped.\<close>

definition change_store ::
  "cli_env \<Rightarrow> string \<Rightarrow> (pg_db \<Rightarrow> pg_error option \<times> pg_db) \<Rightarrow> AuditEntry \<Rightarrow> cli_output \<Rightarrow> world \<Rightarrow> (cli_error + cli_output) \<times> world" where
  "change_store env dsn change entry out w =
     (case openStore env dsn w of
        (Some e, w) \<Rightarrow> (Inl e, w)
      | (None, w) \<Rightarrow>
          (case change (wd_db w) of
             (Some e, db) \<Rightarrow> (Inl (StoreFailed e), w\<lparr>wd_db := db\<rparr>)
           | (None, db) \<Rightarrow>
               (Inr out, w\<lparr>wd_db := snd (AppendAudit_pg (ce_server env) (ce_op2 env) (ce_now env) entry db)\<rparr>)))"

definition read_store :: "cli_env \<Rightarrow> string \<Rightarrow> (pg_db \<Rightarrow> pg_error + cli_output) \<Rightarrow> world \<Rightarrow> (cli_error + cli_output) \<times> world" where
  "read_store env dsn query w =
     (case openStore env dsn w of
        (Some e, w) \<Rightarrow> (Inl e, w)
      | (None, w) \<Rightarrow> (case query (wd_db w) of Inl e \<Rightarrow> (Inl (StoreFailed e), w) | Inr out \<Rightarrow> (Inr out, w)))"

definition projectCreate :: "cli_env \<Rightarrow> cli_command" where
  "projectCreate env = with_flags [(''dsn'', VString ''''), (''name'', VString ''''), (''description'', VString '''')]
     (\<lambda>v rest w.
        let name = str_flag v ''name''
        in if name = '''' then (Inl (MissingFlag ''name''), w)
           else change_store env (str_flag v ''dsn'')
             (CreateProject_pg (ce_op env) (ce_now env)
                \<lparr>pr_Name = name, pr_Description = str_flag v ''description'', pr_CreatedAt = 0\<rparr>)
             (cli_entry '''' ''project.create'' name []) (ProjectCreated name) w)"

definition projectList :: "cli_env \<Rightarrow> cli_command" where
  "projectList env = with_flags [(''dsn'', VString '''')]
     (\<lambda>v rest. read_store env (str_flag v ''dsn'')
        (\<lambda>db. map_sum (\<lambda>e. e)
           (\<lambda>ps. Rows ([''NAME'', ''DESCRIPTION'', ''CREATED''] #
              map (\<lambda>p. [pr_Name p, pr_Description p, ce_date env (pr_CreatedAt p)]) ps))
           (ListProjects_pg (ce_server env) (ce_op env) db)))"

definition projectDelete :: "cli_env \<Rightarrow> cli_command" where
  "projectDelete env = with_flags [(''dsn'', VString ''''), (''name'', VString '''')]
     (\<lambda>v rest w.
        let name = str_flag v ''name''
        in if name = '''' then (Inl (MissingFlag ''name''), w)
           else change_store env (str_flag v ''dsn'') (DeleteProject_pg (ce_op env) name)
             (cli_entry '''' ''project.delete'' name []) (ProjectDeleted name) w)"

definition hex_encode :: "string \<Rightarrow> string" where
  "hex_encode s = concat (map (\<lambda>c. [hex_digit (of_char c div 16), hex_digit (of_char c mod 16)]) s)"

definition scope_list :: "string \<Rightarrow> string list" where
  "scope_list scopes = filter (\<lambda>t. t \<noteq> '''') (map trim_space (split_on CHR '','' scopes))"

definition new_key :: "cli_env \<Rightarrow> string \<Rightarrow> string \<Rightarrow> string \<Rightarrow> string \<Rightarrow> string \<Rightarrow> APIKey" where
  "new_key env kid plain project desc scopes =
     \<lparr>ak_ID = kid, ak_Project = project, ak_Description = desc, ak_TokenSHA256 = ce_sha256 env plain, ak_Scopes = scope_list scopes,
      ak_CreatedAt = 0, ak_LastUsedAt = None\<rparr>"

definition keyCreate :: "cli_env \<Rightarrow> cli_command" where
  "keyCreate env = with_flags [(''dsn'', VString ''''), (''project'', VString ''''), (''description'', VString ''''), (''scopes'', VString ''deploy,invoke'')]
     (\<lambda>v rest w.
        let project = str_flag v ''project''
        in if project = '''' then (Inl (MissingFlag ''project''), w)
           else (case ce_rand_id env of
               None \<Rightarrow> (Inl NoRandom, w)
             | Some idBytes \<Rightarrow>
                 let kid = ''ck_'' @ hex_encode idBytes
                 in case ce_rand_token env of
                      None \<Rightarrow> (Inl NoRandom, w)
                    | Some tokenBytes \<Rightarrow>
                        let plain = kid @ ''.'' @ hex_encode tokenBytes
                        in change_store env (str_flag v ''dsn'')
                             (CreateAPIKey_pg (ce_server env) (ce_op env) (ce_now env)
                                (new_key env kid plain project (str_flag v ''description'') (str_flag v ''scopes'')))
                             (cli_entry project ''key.create'' kid []) (KeyCreated kid plain) w))"

definition keyList :: "cli_env \<Rightarrow> cli_command" where
  "keyList env = with_flags [(''dsn'', VString ''''), (''project'', VString '''')]
     (\<lambda>v rest w.
        if str_flag v ''project'' = '''' then (Inl (MissingFlag ''project''), w)
        else read_store env (str_flag v ''dsn'')
          (\<lambda>db. map_sum (\<lambda>e. e)
             (\<lambda>ks. Rows ([''ID'', ''DESCRIPTION'', ''SCOPES'', ''CREATED'', ''LAST_USED''] #
                map (\<lambda>k. [ak_ID k, ak_Description k, join_with '','' (ak_Scopes k), ce_date env (ak_CreatedAt k),
                  (case ak_LastUsedAt k of None \<Rightarrow> ''-'' | Some t \<Rightarrow> ce_date env t)]) ks))
             (ListAPIKeys_pg (ce_server env) (ce_op env) db (str_flag v ''project''))) w)"

definition keyRevoke :: "cli_env \<Rightarrow> cli_command" where
  "keyRevoke env = with_flags [(''dsn'', VString ''''), (''id'', VString '''')]
     (\<lambda>v rest w.
        let kid = str_flag v ''id''
        in if kid = '''' then (Inl (MissingFlag ''id''), w)
           else change_store env (str_flag v ''dsn'') (DeleteAPIKey_pg (ce_op env) kid)
             (cli_entry '''' ''key.revoke'' kid []) (KeyRevoked kid) w)"

definition quotaSet :: "cli_env \<Rightarrow> cli_command" where
  "quotaSet env = with_flags [(''dsn'', VString ''''), (''project'', VString ''''), (''kind'', VString ''requests_per_min''), (''value'', VInt 0)]
     (\<lambda>v rest w.
        let project = str_flag v ''project''; kind = str_flag v ''kind''; value = int_flag v ''value''
        in if project = '''' then (Inl (MissingFlag ''project''), w)
           else change_store env (str_flag v ''dsn'') (SetQuota_pg (ce_op env) (ce_now env) project kind value)
             (cli_entry project ''quota.set'' kind [(''value'', format_int value)]) (QuotaSet project kind value) w)"

definition quotaList :: "cli_env \<Rightarrow> cli_command" where
  "quotaList env = with_flags [(''dsn'', VString ''''), (''project'', VString '''')]
     (\<lambda>v rest w.
        if str_flag v ''project'' = '''' then (Inl (MissingFlag ''project''), w)
        else read_store env (str_flag v ''dsn'')
          (\<lambda>db. map_sum (\<lambda>e. e)
             (\<lambda>qs. Rows ([''KIND'', ''VALUE'', ''UPDATED''] #
                map (\<lambda>q. [qt_Kind q, format_int (qt_Value q), ce_date env (qt_UpdatedAt q)]) qs))
             (ListQuotas_pg (ce_server env) (ce_op env) db (str_flag v ''project''))) w)"

definition auditTail :: "cli_env \<Rightarrow> cli_command" where
  "auditTail env = with_flags [(''dsn'', VString ''''), (''project'', VString ''''), (''limit'', VInt 50)]
     (\<lambda>v rest. read_store env (str_flag v ''dsn'')
        (\<lambda>db. map_sum (\<lambda>e. e)
           (\<lambda>es. Rows ([''TS'', ''PROJECT'', ''ACTOR'', ''ACTION'', ''TARGET''] #
              map (\<lambda>e. [ce_date env (ae_TS e), (if ae_Project e = '''' then ''-'' else ae_Project e), ae_Actor e, ae_Action e, ae_Target e]) es))
           (ListAudit_pg (ce_server env) (ce_op env) db (str_flag v ''project'') 0 (int_flag v ''limit''))))"

definition subcommand :: "(string list \<times> cli_command) list \<Rightarrow> cli_command" where
  "subcommand table args w =
     (case args of
        [] \<Rightarrow> (Inl ShowUsage, w)
      | a # rest \<Rightarrow>
          (case find (\<lambda>(names, _). a \<in> set names) table of
             None \<Rightarrow> (Inl (UnknownCommand a), w)
           | Some (_, run) \<Rightarrow> run rest w))"

definition projectCmd :: "cli_env \<Rightarrow> cli_command" where
  "projectCmd env = subcommand [([''create''], projectCreate env), ([''list''], projectList env), ([''delete''], projectDelete env)]"

definition keyCmd :: "cli_env \<Rightarrow> cli_command" where
  "keyCmd env = subcommand [([''create''], keyCreate env), ([''list''], keyList env), ([''revoke''], keyRevoke env)]"

definition quotaCmd :: "cli_env \<Rightarrow> cli_command" where
  "quotaCmd env = subcommand [([''set''], quotaSet env), ([''list''], quotaList env)]"

definition auditCmd :: "cli_env \<Rightarrow> cli_command" where
  "auditCmd env = subcommand [([''tail''], auditTail env)]"

subsection \<open>The cluster\<close>

definition clusterInit :: "cli_env \<Rightarrow> cli_command" where
  "clusterInit env = with_flags [(''dsn'', VString '''')]
     (\<lambda>v rest w.
        (case openStore env (str_flag v ''dsn'') w of
           (Some e, w) \<Rightarrow> (Inl e, w)
         | (None, w) \<Rightarrow> (Inr SchemaApplied, w)))"

definition or_none :: "string list list \<Rightarrow> string list list" where
  "or_none rows = (if rows = [] then [[''(none)'']] else rows)"

text \<open>An error of a listing is dropped: the table is empty then.\<close>

definition clusterStatus :: "cli_env \<Rightarrow> cli_command" where
  "clusterStatus env = with_flags [(''dsn'', VString '''')]
     (\<lambda>v rest. read_store env (str_flag v ''dsn'')
        (\<lambda>db.
           let fns = (case ListFunctions_pg (ce_server env) (ce_op env) db of Inl _ \<Rightarrow> [] | Inr fs \<Rightarrow> fs);
               crons = (case ListCronJobs_pg (ce_server env) (ce_op2 env) db of Inl _ \<Rightarrow> [] | Inr cs \<Rightarrow> cs)
           in Inr (Rows
             ([''FUNCTIONS'', ''BINARY'', ''MAX_CONCURRENCY'', ''UPDATED''] #
              or_none (map (\<lambda>f. [sf_Name f, sf_Binary f, format_int (sf_MaxConcurrency f), ce_date env (sf_UpdatedAt f)]) fns) @
              [[]] @
              [''CRON_JOBS'', ''SCHEDULE'', ''FUNCTION'', ''UPDATED''] #
              or_none (map (\<lambda>c. [cj_ID c, cj_Schedule c, cj_Function c, ce_date env (cj_UpdatedAt c)]) crons)))))"

definition clusterCmd :: "cli_env \<Rightarrow> cli_command" where
  "clusterCmd env = subcommand [([''init''], clusterInit env), ([''status''], clusterStatus env)]"

subsection \<open>Layers\<close>

definition storeRoot :: "cli_env \<Rightarrow> string" where
  "storeRoot env = (if ce_getenv env ''CFUNC_STORE'' \<noteq> '''' then ce_getenv env ''CFUNC_STORE'' else ''/var/lib/cfunc'')"

definition layersPath :: "cli_env \<Rightarrow> string" where
  "layersPath env = Join [storeRoot env, ''layers'']"

definition cronPath :: "cli_env \<Rightarrow> string" where
  "cronPath env = Join [storeRoot env, ''cron.json'']"

definition openLayers :: "cli_env \<Rightarrow> world \<Rightarrow> cli_error option \<times> world" where
  "openLayers env w =
     (case Open_store (ce_lib env) (layersPath env) (wd_host w) of
        (e, h) \<Rightarrow> (map_option OsFailed e, w\<lparr>wd_host := h\<rparr>))"

text \<open>\<open>openLayers().Add\<close>, on what the walk of the source directory reports then.\<close>

definition add_from :: "cli_env \<Rightarrow> string \<Rightarrow> string \<Rightarrow> string \<Rightarrow> string \<Rightarrow> string \<Rightarrow> world \<Rightarrow> (cli_error + LayerManifest) \<times> world" where
  "add_from env name version mount runtime src w =
     (case openLayers env w of
        (Some e, w) \<Rightarrow> (Inl e, w)
      | (None, w) \<Rightarrow>
          (case Add_layer (ce_lib env) (layersPath env) name version mount runtime
                  (ce_walk env (wd_host w) (Abs (wd_host w) src)) (wd_host w) of
             (Inl e, h) \<Rightarrow> (Inl (LayersFailed e), w\<lparr>wd_host := h\<rparr>)
           | (Inr m, h) \<Rightarrow> (Inr m, w\<lparr>wd_host := h\<rparr>)))"

definition layerAdd :: "cli_env \<Rightarrow> cli_command" where
  "layerAdd env = with_flags
     [(''name'', VString ''''), (''version'', VString ''''), (''mount'', VString ''''), (''from'', VString ''''), (''runtime'', VString ''any'')]
     (\<lambda>v rest w.
        let name = str_flag v ''name''; version = str_flag v ''version''; mount = str_flag v ''mount''; from_dir = str_flag v ''from''
        in if name = '''' \<or> version = '''' \<or> mount = '''' \<or> from_dir = '''' then (Inl (MissingFlag ''name''), w)
           else map_prod (map_sum (\<lambda>e. e) ManifestOut) (\<lambda>w. w)
             (add_from env name version mount (str_flag v ''runtime'') (Abs (wd_host w) from_dir) w))"

text \<open>The token of the literal flag, else of the file, else of the environment.\<close>

definition build_token :: "cli_env \<Rightarrow> string \<Rightarrow> string \<Rightarrow> host \<Rightarrow> os_error + string" where
  "build_token env tokenLit tokenFile h =
     (if tokenLit \<noteq> '''' then Inr tokenLit
      else if tokenFile \<noteq> '''' then map_sum (\<lambda>e. e) trim_space (ReadFile tokenFile h)
      else Inr (trim_space (ce_getenv env ''CFUNC_ADMIN_TOKEN'')))"

definition build_spec_json :: "string \<Rightarrow> string \<Rightarrow> string \<Rightarrow> string \<Rightarrow> string \<Rightarrow> string \<Rightarrow> string \<Rightarrow> string" where
  "build_spec_json name version runtime mount python requirements indexURL =
     encode_object
       [(''build'', encode_object [(''index_url'', json_quote indexURL), (''python'', json_quote python),
           (''requirements'', json_quote requirements), (''type'', json_quote ''python-pip'')]),
        (''mount_path'', json_quote mount), (''name'', json_quote name), (''runtime'', json_quote runtime),
        (''version'', json_quote version)]"

definition build_call :: "string \<Rightarrow> string \<Rightarrow> string \<Rightarrow> TriggerRequest" where
  "build_call gateway token spec =
     \<lparr>tr_Method = ''POST'', tr_URL = trim_slashes gateway @ ''/_/api/layers/build'',
      tr_Header = (''Content-Type'', ''application/json'') # (if token \<noteq> '''' then [(''Authorization'', ''Bearer '' @ token)] else []),
      tr_Body = spec\<rparr>"

text \<open>
  The reply: \<open>manifest\<close> is a map of any values, here by their texts, into which a second member
  merges; a number that no \<open>float64\<close> holds is a mismatch (\<open>ce_any_ok\<close>).
\<close>

record build_reply =
  rp_Manifest :: "(string, string) gomap"
  rp_TarGzBase64 :: string

definition reply_field :: "(string \<Rightarrow> bool) \<Rightarrow> string \<Rightarrow> string \<Rightarrow> build_reply \<Rightarrow> build_reply \<times> bool" where
  "reply_field any_ok k raw r =
     (if field_matches ''manifest'' k then
        (if json_null raw then (r\<lparr>rp_Manifest := []\<rparr>, True)
         else (case json_members raw of
             None \<Rightarrow> (r, False)
           | Some kvs \<Rightarrow> (r\<lparr>rp_Manifest := fold (\<lambda>(k, v). map_put k v) kvs (rp_Manifest r)\<rparr>, list_all (any_ok \<circ> snd) kvs)))
      else if field_matches ''tar_gz_base64'' k then
        (let (v, ok) = assign_string (rp_TarGzBase64 r) raw in (r\<lparr>rp_TarGzBase64 := v\<rparr>, ok))
      else (r, True))"

definition parse_reply :: "(string \<Rightarrow> bool) \<Rightarrow> string \<Rightarrow> build_reply option" where
  "parse_reply any_ok s =
     (let (r, ok) = unmarshal (reply_field any_ok) s \<lparr>rp_Manifest = [], rp_TarGzBase64 = ''''\<rparr> in if ok then Some r else None)"

text \<open>The answer of the gateway: its body when the status is 200.\<close>

definition call_gateway :: "cli_env \<Rightarrow> TriggerRequest \<Rightarrow> cli_error + string" where
  "call_gateway env req =
     (if \<not> ce_url_ok env (tr_URL req) then Inl NilRequest
      else (case ce_do env req of
          Inl e \<Rightarrow> Inl (CallGateway e)
        | Inr (status, body) \<Rightarrow> if status \<noteq> 200 then Inl (BuildFailed status body) else Inr body))"

text \<open>\<open>exit\<close> ends the process, so the deferred \<open>RemoveAll\<close> runs on success only.\<close>

definition store_built :: "cli_env \<Rightarrow> flags \<Rightarrow> build_reply \<Rightarrow> string \<Rightarrow> world \<Rightarrow> (cli_error + cli_output) \<times> world" where
  "store_built env v result tgz w =
     (case MkdirTemp '''' (''cfunc-build-out-'' @ ce_tmpname env) (wd_host w) of
        (Inl e, h) \<Rightarrow> (Inl (OsFailed e), w\<lparr>wd_host := h\<rparr>)
      | (Inr tmp, h) \<Rightarrow>
          (case Extract (ce_blib env) tgz tmp h of
             (Some e, h) \<Rightarrow> (Inl (ExtractFailed e), w\<lparr>wd_host := h\<rparr>)
           | (None, h) \<Rightarrow>
               (let mount = str_flag v ''mount''; rt = str_flag v ''runtime'';
                    mountPath = (if mount = '''' then ''/opt/layers/'' @ str_flag v ''name'' else mount);
                    runtime = (if rt = '''' then ''python-'' @ str_flag v ''python'' else rt)
                in case add_from env (str_flag v ''name'') (str_flag v ''version'') mountPath runtime tmp (w\<lparr>wd_host := h\<rparr>) of
                     (Inl e, w) \<Rightarrow> (Inl e, w)
                   | (Inr m, w) \<Rightarrow> (Inr (BuiltOut m (rp_Manifest result)), w\<lparr>wd_host := RemoveAll tmp (wd_host w)\<rparr>))))"

definition layerBuildPython :: "cli_env \<Rightarrow> cli_command" where
  "layerBuildPython env = with_flags
     [(''name'', VString ''''), (''version'', VString ''''), (''requirements'', VString ''''), (''python'', VString ''3.11''),
      (''mount'', VString ''''), (''runtime'', VString ''''), (''index-url'', VString ''''),
      (''gateway'', VString ''http://127.0.0.1:8081''), (''token-file'', VString ''''), (''token'', VString '''')]
     (\<lambda>v rest w.
        let name = str_flag v ''name''; version = str_flag v ''version''; req = str_flag v ''requirements''
        in if name = '''' \<or> version = '''' \<or> req = '''' then (Inl (MissingFlag ''name''), w)
           else (case ReadFile req (wd_host w) of
               Inl e \<Rightarrow> (Inl (OsFailed e), w)
             | Inr body \<Rightarrow>
                 (case build_token env (str_flag v ''token'') (str_flag v ''token-file'') (wd_host w) of
                    Inl e \<Rightarrow> (Inl (OsFailed e), w)
                  | Inr token \<Rightarrow>
                      (let spec = build_spec_json name version (str_flag v ''runtime'') (str_flag v ''mount'') (str_flag v ''python'')
                             body (str_flag v ''index-url'')
                       in case call_gateway env (build_call (str_flag v ''gateway'') token spec) of
                            Inl e \<Rightarrow> (Inl e, w)
                          | Inr respBody \<Rightarrow>
                              (case parse_reply (ce_any_ok env) respBody of
                                 None \<Rightarrow> (Inl BadReply, w)
                               | Some result \<Rightarrow>
                                   (case ce_unbase64 env (rp_TarGzBase64 result) of
                                      None \<Rightarrow> (Inl BadBase64, w)
                                    | Some tgz \<Rightarrow> store_built env v result tgz w))))))"

definition shortDigest :: "string \<Rightarrow> string" where
  "shortDigest d = (if length ''sha256:'' + 12 < length d then take (length ''sha256:'' + 12) d else d)"

definition layerList :: "cli_env \<Rightarrow> cli_command" where
  "layerList env args w =
     (case openLayers env w of
        (Some e, w) \<Rightarrow> (Inl e, w)
      | (None, w) \<Rightarrow>
          (case List_layers (ce_lib env) (layersPath env) (wd_host w) of
             Inl e \<Rightarrow> (Inl (LayersFailed e), w)
           | Inr ms \<Rightarrow>
               (Inr (Rows ([''NAME'', ''VERSION'', ''RUNTIME'', ''MOUNT'', ''DIGEST'', ''SIZE''] #
                  map (\<lambda>m. [lf_Name m, lf_Version m, lf_Runtime m, lf_MountPath m, shortDigest (lf_Digest m), decimal (lf_Size m)]) ms)), w)))"

definition layerShow :: "cli_env \<Rightarrow> cli_command" where
  "layerShow env args w =
     (case args of
        [arg] \<Rightarrow>
          (case ParseRef arg of
             Inl e \<Rightarrow> (Inl (LayersFailed e), w)
           | Inr ref \<Rightarrow>
               (case openLayers env w of
                  (Some e, w) \<Rightarrow> (Inl e, w)
                | (None, w) \<Rightarrow>
                    (case Resolve_layer (ce_lib env) (layersPath env) ref (wd_host w) of
                       Inl e \<Rightarrow> (Inl (LayersFailed e), w)
                     | Inr (m, path) \<Rightarrow> (Inr (ShowOut m path), w))))
      | _ \<Rightarrow> (Inl ShowUsage, w))"

definition layerCmd :: "cli_env \<Rightarrow> cli_command" where
  "layerCmd env = subcommand
     [([''add''], layerAdd env), ([''build-python''], layerBuildPython env), ([''list'', ''ls''], layerList env), ([''show''], layerShow env)]"

subsection \<open>Cron jobs\<close>

text \<open>Opening creates the file of an empty list.\<close>

definition openCron :: "cli_env \<Rightarrow> world \<Rightarrow> cli_error option \<times> world" where
  "openCron env w =
     (case OpenStore (wd_jobs_missing w) (wd_jobs w) of
        (Some e, f) \<Rightarrow> (Some (CronFailed e), w\<lparr>wd_jobs := f\<rparr>)
      | (None, f) \<Rightarrow> (None, w\<lparr>wd_jobs := f, wd_jobs_missing := False\<rparr>))"

definition cronAdd :: "cli_env \<Rightarrow> cli_command" where
  "cronAdd env = with_flags
     [(''id'', VString ''''), (''schedule'', VString ''''), (''function'', VString ''''), (''method'', VString ''POST''), (''body'', VString '''')]
     (\<lambda>v rest w.
        let jid = str_flag v ''id''; sched = str_flag v ''schedule''; fn = str_flag v ''function'';
            job = \<lparr>jb_ID = jid, jb_Schedule = sched, jb_Function = fn, jb_Method = str_flag v ''method'',
                    jb_Body = str_flag v ''body'', jb_Headers = []\<rparr>
        in if jid = '''' \<or> sched = '''' \<or> fn = '''' then (Inl (MissingFlag ''id''), w)
           else (case openCron env w of
               (Some e, w) \<Rightarrow> (Inl e, w)
             | (None, w) \<Rightarrow>
                 (case Add (\<lambda>s. if ce_cron_ok env s then Some s else None) (ce_jobs_enc env) (ce_jobs_dec env) job (wd_jobs w) of
                    (Some e, f) \<Rightarrow> (Inl (CronFailed e), w\<lparr>wd_jobs := f\<rparr>)
                  | (None, f) \<Rightarrow> (Inr (JobOut job), w\<lparr>wd_jobs := f\<rparr>))))"

definition cronList :: "cli_env \<Rightarrow> cli_command" where
  "cronList env args w =
     (case openCron env w of
        (Some e, w) \<Rightarrow> (Inl e, w)
      | (None, w) \<Rightarrow>
          (case List_jobs (ce_jobs_dec env) (wd_jobs w) of
             Inl e \<Rightarrow> (Inl (CronFailed e), w)
           | Inr jobs \<Rightarrow>
               (Inr (Rows ([''ID'', ''SCHEDULE'', ''FUNCTION'', ''METHOD''] #
                  map (\<lambda>j. [jb_ID j, jb_Schedule j, jb_Function j, (if jb_Method j = '''' then ''POST'' else jb_Method j)]) jobs)), w)))"

definition cronRm :: "cli_env \<Rightarrow> cli_command" where
  "cronRm env args w =
     (case args of
        [jid] \<Rightarrow>
          (case openCron env w of
             (Some e, w) \<Rightarrow> (Inl e, w)
           | (None, w) \<Rightarrow>
               (case Remove_job (ce_jobs_enc env) (ce_jobs_dec env) jid (wd_jobs w) of
                  (Some e, f) \<Rightarrow> (Inl (CronFailed e), w\<lparr>wd_jobs := f\<rparr>)
                | (None, f) \<Rightarrow> (Inr Silent, w\<lparr>wd_jobs := f\<rparr>)))
      | _ \<Rightarrow> (Inl ShowUsage, w))"

definition cronRun :: "cli_env \<Rightarrow> cli_command" where
  "cronRun env = with_flags [(''gateway'', VString ''http://127.0.0.1:8080'')]
     (\<lambda>v rest w.
        case rest of
          [jid] \<Rightarrow>
            (case openCron env w of
               (Some e, w) \<Rightarrow> (Inl e, w)
             | (None, w) \<Rightarrow>
                 (case FireNow (Fire_http (ce_url_ok env) (\<lambda>r. map_sum (\<lambda>e. e) fst (ce_do env r)) (str_flag v ''gateway''))
                         (ce_jobs_dec env) jid (wd_jobs w) of
                    Some e \<Rightarrow> (Inl (CronFailed e), w)
                  | None \<Rightarrow> (Inr Silent, w)))
        | _ \<Rightarrow> (Inl ShowUsage, w))"

definition cronCmd :: "cli_env \<Rightarrow> cli_command" where
  "cronCmd env = subcommand
     [([''add''], cronAdd env), ([''list'', ''ls''], cronList env), ([''rm'', ''remove'', ''delete''], cronRm env), ([''run''], cronRun env)]"

definition cfunc_main :: "cli_env \<Rightarrow> cli_command" where
  "cfunc_main env = subcommand
     [([''layer''], layerCmd env), ([''cron''], cronCmd env), ([''cluster''], clusterCmd env), ([''project''], projectCmd env),
      ([''key''], keyCmd env), ([''quota''], quotaCmd env), ([''audit''], auditCmd env),
      ([''-h'', ''--help'', ''help''], \<lambda>args w. (Inr UsageText, w))]"

subsection \<open>What a command leaves in the audit log\<close>

fun audited :: "cli_error + cli_output \<Rightarrow> (string \<times> string) list" where
  "audited (Inr (ProjectCreated n)) = [(''project.create'', n)]"
| "audited (Inr (ProjectDeleted n)) = [(''project.delete'', n)]"
| "audited (Inr (KeyCreated kid plain)) = [(''key.create'', kid)]"
| "audited (Inr (KeyRevoked kid)) = [(''key.revoke'', kid)]"
| "audited (Inr (QuotaSet project kind value)) = [(''quota.set'', kind)]"
| "audited r = []"

definition audit_log :: "pg_db \<Rightarrow> (string \<times> string \<times> string) list" where
  "audit_log db = map (\<lambda>r. (ar_actor r, ar_action r, ar_target r)) (db_audit db)"

definition audit_step :: "world \<Rightarrow> (cli_error + cli_output) \<times> world \<Rightarrow> bool" where
  "audit_step w res \<longleftrightarrow> db_wf (wd_db (snd res)) \<and>
     audit_log (wd_db (snd res)) = audit_log (wd_db w) @ map (\<lambda>(action, target). (''cli'', action, target)) (audited (fst res))"

text \<open>The server takes the metadata of the commands: nothing, or the value of a quota.\<close>

definition accepts_audit :: "pg_server \<Rightarrow> bool" where
  "accepts_audit sv \<longleftrightarrow> (\<forall>meta. meta = [] \<or> (\<exists>i. meta = [(''value'', format_int i)]) \<longrightarrow> sv_jsonb sv (encode_string_map meta) \<noteq> None)"

text \<open>A command that keeps the log: one entry for each change it reports, and none otherwise.\<close>

definition keeps_log :: "cli_command \<Rightarrow> bool" where
  "keeps_log c \<longleftrightarrow> (\<forall>args w. db_wf (wd_db w) \<longrightarrow> audit_step w (c args w))"

text \<open>An environment in which every service answers.\<close>

definition demo_cli :: cli_env where
  "demo_cli = \<lparr>ce_getenv = \<lambda>_. '''', ce_now = 9, ce_date = \<lambda>_. ''2026'', ce_server = demo_server, ce_dial = \<lambda>_. None, ce_open = Answered,
     ce_migrations = \<lambda>_. Answered, ce_op = Answered, ce_op2 = Answered, ce_rand_id = Some ''ab'', ce_rand_token = Some ''xyz'',
     ce_sha256 = \<lambda>s. ''h:'' @ s, ce_lib = demo_lib, ce_walk = \<lambda>_ _. NoSource, ce_blib = demo_build_lib, ce_any_ok = \<lambda>_. True,
     ce_unbase64 = Some, ce_tmpname = ''1'', ce_url_ok = \<lambda>u. u \<noteq> '''', ce_do = \<lambda>_. Inr (200, ''ok''), ce_cron_ok = \<lambda>s. s \<noteq> '''',
     ce_jobs_enc = \<lambda>_. ''[]'', ce_jobs_dec = \<lambda>_. Some [jobFromState demo_job]\<rparr>"

definition demo_world :: world where
  "demo_world = \<lparr>wd_db = demo_db, wd_host = demo_layers, wd_jobs = \<lparr>jf_bytes = Some ''[]'', jf_writable = True\<rparr>, wd_jobs_missing = False\<rparr>"

section \<open>Lemmas\<close>

declare map_of_eq_Some_iff [simp del] Some_eq_map_of_iff [simp del]

subsection \<open>Commands and the audit log\<close>

lemma audit_step_same: "db_wf (wd_db w) \<Longrightarrow> wd_db (snd res) = wd_db w \<Longrightarrow> audited (fst res) = [] \<Longrightarrow> audit_step w res"
  by (simp add: audit_step_def)

lemma find_in: "find P xs = Some x \<Longrightarrow> x \<in> set xs"
  by (auto simp: find_Some_iff)

lemma keeps_log_subcommand:
  assumes "\<forall>e \<in> set table. keeps_log (snd e)"
  shows "keeps_log (subcommand table)"
  unfolding keeps_log_def
proof (intro allI impI)
  fix args :: "string list" and w :: world
  assume wf: "db_wf (wd_db w)"
  show "audit_step w (subcommand table args w)"
  proof (cases args)
    case Nil
    then show ?thesis using wf by (simp add: subcommand_def audit_step_same)
  next
    case (Cons a rest)
    show ?thesis
    proof (cases "find (\<lambda>(names, _). a \<in> set names) table")
      case None
      then show ?thesis using wf Cons by (simp add: subcommand_def audit_step_same)
    next
      case (Some e)
      then have "keeps_log (snd e)" using assms find_in by fast
      then show ?thesis using wf Cons Some by (cases e) (simp add: subcommand_def keeps_log_def)
    qed
  qed
qed

lemma keeps_log_flags:
  assumes "\<And>v rest w. db_wf (wd_db w) \<Longrightarrow> audit_step w (run v rest w)"
  shows "keeps_log (with_flags spec run)"
  using assms by (auto simp: keeps_log_def with_flags_def intro: audit_step_same split: parsed.split)

lemma openStore_keeps: "db_wf (wd_db w) \<Longrightarrow> wd_db (snd (openStore env dsn w)) = wd_db w"
  using migrate_again [OF db_wfD(8,9), of "wd_db w" "ce_open env" "ce_migrations env" "ce_now env"]
  by (auto simp: openStore_def OpenPostgres_def split: option.splits prod.splits sum.splits)

lemma openStore_result: "db_wf (wd_db w) \<Longrightarrow> openStore env dsn w = (e, w') \<Longrightarrow> wd_db w' = wd_db w"
  using openStore_keeps [of w env dsn] by simp

lemma read_store_keeps:
  assumes "db_wf (wd_db w)" and "\<And>db out. query db = Inr out \<Longrightarrow> audited (Inr out) = []"
  shows "audit_step w (read_store env dsn query w)"
proof -
  obtain e w1 where o: "openStore env dsn w = (e, w1)" by fastforce
  have "wd_db w1 = wd_db w" by (rule openStore_result [OF assms(1) o])
  then show ?thesis using assms by (cases e; cases "query (wd_db w)") (simp_all add: read_store_def o audit_step_same)
qed

lemma append_audit_log:
  assumes "accepts_audit sv" and "meta = [] \<or> (\<exists>i. meta = [(''value'', format_int i)])"
  shows "audit_log (snd (AppendAudit_pg sv Answered now (cli_entry project action target meta) db)) =
    audit_log db @ [(''cli'', action, target)]"
proof -
  obtain m where "sv_jsonb sv (encode_string_map meta) = Some m" using assms unfolding accepts_audit_def by blast
  then show ?thesis by (simp add: AppendAudit_pg_def insert_audit_def exec_stmt_def audit_log_def cli_entry_def audit_values_def)
qed

text \<open>A change that keeps the database well formed and does not touch the log itself.\<close>

lemma change_store_keeps:
  assumes wf: "db_wf (wd_db w)" and a: "accepts_audit (ce_server env)" "ce_op2 env = Answered"
    and meta: "meta = [] \<or> (\<exists>i. meta = [(''value'', format_int i)])"
    and change: "\<And>db. db_wf db \<Longrightarrow> db_wf (snd (change db)) \<and> db_audit (snd (change db)) = db_audit db"
    and out: "audited (Inr out) = [(action, target)]"
  shows "audit_step w (change_store env dsn change (cli_entry project action target meta) out w)"
proof -
  obtain e w1 where o: "openStore env dsn w = (e, w1)" by fastforce
  have w1: "wd_db w1 = wd_db w" by (rule openStore_result [OF wf o])
  obtain x db where c: "change (wd_db w) = (x, db)" by fastforce
  have db: "db_wf db" "audit_log db = audit_log (wd_db w)" using change [OF wf] c by (simp_all add: audit_log_def)
  have "db_wf (snd (AppendAudit_pg (ce_server env) l now en db))" for l now en by (rule db_step_wf [OF db_step.append_audit db(1)])
  then show ?thesis using wf w1 c db out append_audit_log [OF a(1) meta, of "ce_now env" project action target db]
    by (cases e; cases x) (simp_all add: change_store_def o audit_step_def a(2))
qed

lemmas change_defs = CreateProject_pg_def insert_project_def DeleteProject_pg_def delete_project_row_def CreateAPIKey_pg_def insert_key_def
  DeleteAPIKey_pg_def SetQuota_pg_def upsert_quota_def exec_stmt_def

lemma changes_keep_audit:
  "db_audit (snd (CreateProject_pg l now p db)) = db_audit db" "db_audit (snd (DeleteProject_pg l name db)) = db_audit db"
  "db_audit (snd (CreateAPIKey_pg sv l now k db)) = db_audit db" "db_audit (snd (DeleteAPIKey_pg l kid db)) = db_audit db"
  "db_audit (snd (SetQuota_pg l now project kind value db)) = db_audit db"
  by (simp_all add: change_defs Let_def split: fate.split option.split)

lemmas change_steps = db_step.create_project db_step.delete_project db_step.create_key db_step.delete_key db_step.set_quota

lemma changes_keep:
  assumes "db_wf db"
  shows "db_wf (snd (CreateProject_pg l now p db))" "db_wf (snd (DeleteProject_pg l name db))"
    "db_wf (snd (CreateAPIKey_pg sv l now k db))" "db_wf (snd (DeleteAPIKey_pg l kid db))" "db_wf (snd (SetQuota_pg l now project kind value db))"
  using assms by (auto intro: db_step_wf change_steps)

text \<open>The tenancy commands.\<close>

lemma quota_meta: "\<exists>i. format_int x = format_int i"
  by (rule exI) (rule refl)

lemma keeps_log_changes:
  assumes "accepts_audit (ce_server env)" and "ce_op2 env = Answered"
  shows "keeps_log (projectCreate env)" "keeps_log (projectDelete env)" "keeps_log (keyCreate env)" "keeps_log (keyRevoke env)"
    "keeps_log (quotaSet env)"
  unfolding projectCreate_def projectDelete_def keyCreate_def keyRevoke_def quotaSet_def
  by (rule keeps_log_flags;
      simp add: Let_def audit_step_same assms change_store_keeps changes_keep changes_keep_audit quota_meta split: option.split)+

lemma map_sum_Inr: "map_sum f g x = Inr y \<longleftrightarrow> (\<exists>z. x = Inr z \<and> y = g z)"
  by (cases x) auto

lemma keeps_log_reads:
  "keeps_log (projectList env)" "keeps_log (keyList env)" "keeps_log (quotaList env)" "keeps_log (auditTail env)"
  "keeps_log (clusterStatus env)"
  unfolding projectList_def keyList_def quotaList_def auditTail_def clusterStatus_def
  by (rule keeps_log_flags; auto simp: map_sum_Inr Let_def intro!: audit_step_same read_store_keeps)+

lemma keeps_log_init: "keeps_log (clusterInit env)"
  unfolding clusterInit_def
  by (rule keeps_log_flags) (auto intro!: audit_step_same dest: openStore_result split: prod.split option.split)

text \<open>The commands of layers and of the job file leave the database alone.\<close>

lemma openLayers_db: "openLayers env w = (e, w') \<Longrightarrow> wd_db w' = wd_db w"
  by (auto simp: openLayers_def split: prod.splits)

lemma add_from_db: "add_from env name version mount runtime src w = (r, w') \<Longrightarrow> wd_db w' = wd_db w"
  by (auto simp: add_from_def dest: openLayers_db split: prod.splits option.splits sum.splits)

lemma openCron_db: "openCron env w = (e, w') \<Longrightarrow> wd_db w' = wd_db w"
  by (auto simp: openCron_def split: prod.splits option.splits)

lemma store_built_db: "store_built env v result tgz w = (r, w') \<Longrightarrow> wd_db w' = wd_db w \<and> audited r = []"
  by (auto simp: store_built_def Let_def dest!: add_from_db split: prod.splits option.splits sum.splits)

lemma add_from_res: "audited (map_sum (\<lambda>e. e) ManifestOut r) = []"
  by (cases r) auto

lemma keeps_log_layerAdd: "keeps_log (layerAdd env)"
  unfolding layerAdd_def
  by (rule keeps_log_flags) (auto simp: Let_def add_from_res map_prod_def intro!: audit_step_same dest: add_from_db split: prod.split)

lemma store_built_step: "db_wf (wd_db w) \<Longrightarrow> audit_step w (store_built env v result tgz w)"
  using store_built_db [OF prod.collapse [symmetric], of env v result tgz w] by (simp add: audit_step_same)

lemma keeps_log_layerBuild: "keeps_log (layerBuildPython env)"
  unfolding layerBuildPython_def
  by (rule keeps_log_flags) (auto simp: Let_def store_built_step intro!: audit_step_same split: sum.split option.split)

lemma keeps_log_layers: "keeps_log (layerList env)" "keeps_log (layerShow env)"
  by (auto simp: keeps_log_def layerList_def layerShow_def intro!: audit_step_same dest: openLayers_db
      split: list.split sum.split prod.split option.split)

lemma keeps_log_cron: "keeps_log (cronList env)" "keeps_log (cronRm env)"
  by (auto simp: keeps_log_def cronList_def cronRm_def intro!: audit_step_same dest: openCron_db
      split: list.split sum.split prod.split option.split)

lemma keeps_log_cron_flags: "keeps_log (cronAdd env)" "keeps_log (cronRun env)"
  unfolding cronAdd_def cronRun_def
  by (rule keeps_log_flags; auto simp: Let_def intro!: audit_step_same dest: openCron_db split: list.split sum.split prod.split option.split)+

lemma keeps_log_main:
  assumes "accepts_audit (ce_server env)" and "ce_op2 env = Answered"
  shows "keeps_log (cfunc_main env)"
proof -
  have usage_text: "keeps_log (\<lambda>args w. (Inr UsageText, w))" by (simp add: keeps_log_def audit_step_same)
  note leaves = keeps_log_changes [OF assms] keeps_log_reads keeps_log_init keeps_log_layerAdd keeps_log_layerBuild keeps_log_layers
    keeps_log_cron keeps_log_cron_flags usage_text
  show ?thesis
    unfolding cfunc_main_def layerCmd_def cronCmd_def clusterCmd_def projectCmd_def keyCmd_def quotaCmd_def auditCmd_def
    by (simp add: leaves keeps_log_subcommand)
qed

subsection \<open>Keys\<close>

lemma parse_three:
  "parse_flags [(''dsn'', VString ''''), (''project'', VString ''''), (''description'', VString ''''), (''scopes'', VString ''deploy,invoke'')]
     [''--dsn'', dsn, ''--project'', project, ''--scopes'', scopes] =
   Parsed [(''dsn'', VString dsn), (''project'', VString project), (''description'', VString ''''), (''scopes'', VString scopes)] []"
  by (simp add: classify_arg_def flag_parts_def set_flag_def)

lemma main_key_create: "cfunc_main env (''key'' # ''create'' # args) = keyCreate env args"
  by (simp add: fun_eq_iff cfunc_main_def keyCmd_def subcommand_def)

lemma main_cron_run: "cfunc_main env (''cron'' # ''run'' # args) = cronRun env args"
  by (simp add: fun_eq_iff cfunc_main_def cronCmd_def subcommand_def)

lemma change_store_Inr:
  assumes "db_wf (wd_db w)" and "change_store env dsn change entry out w = (Inr out', w')"
  obtains db where "change (wd_db w) = (None, db)" and "out' = out"
    and "wd_db w' = snd (AppendAudit_pg (ce_server env) (ce_op2 env) (ce_now env) entry db)"
proof -
  obtain e w1 where o: "openStore env dsn w = (e, w1)" by fastforce
  have w1: "wd_db w1 = wd_db w" by (rule openStore_result [OF assms(1) o])
  show thesis using assms(2) w1 that
    by (auto simp: change_store_def o split: option.splits prod.splits)
qed

lemma lookup_after_audit:
  "fst (LookupAPIKey_pg l now h (snd (AppendAudit_pg sv l' now' e db))) = fst (LookupAPIKey_pg l now h db)"
  by (simp add: LookupAPIKey_pg_def AppendAudit_pg_def exec_stmt_def insert_audit_def touch_key_def Let_def split: fate.split option.split prod.split)

subsection \<open>Properties\<close>


lemma demo_db_wf: "db_wf demo_db"
proof -
  have u: "untenanted empty_db" and f: "fst (migrate Answered (\<lambda>_. Answered) 3 empty_db) = None" by code_simp+
  have "migrate Answered (\<lambda>_. Answered) 3 empty_db = (None, demo_db)" unfolding demo_db_def using f by (metis prod.collapse)
  then show ?thesis by (rule migrate_wf(1) [OF u])
qed

lemma encode_string_map_ne: "encode_string_map m \<noteq> []"
  by (simp add: encode_string_map_def encode_object_def)

lemma demo_accepts: "accepts_audit demo_server"
  by (simp add: accepts_audit_def demo_server_def encode_string_map_ne)




lemma dash_not_first: "\<not> name_first CHR ''-''"
  by code_simp

lemma valid_id_positional: "IsValidFunctionName jid \<Longrightarrow> classify_arg jid = Positional"
  using dash_not_first by (cases jid) (auto simp: IsValidFunctionName_def classify_arg_def)

text \<open>
  (C37) The documented form \<open>cfunc cron run ID --gateway URL\<close> never runs a job: flags are parsed up to
  the first argument that is not a flag, so the flag after the id counts as a second argument, and the
  command prints its usage and exits with status 2 before it opens the job file. With the flag first, it
  runs the first job of the file with the id, and reports the outcome of its call.
\<close>

theorem cron_run_usage:
  assumes "IsValidFunctionName jid"
  shows "cfunc_main env [''cron'', ''run'', jid, ''--gateway'', url] w = (Inl ShowUsage, w) \<and>
    exit_status (fst (cfunc_main env [''cron'', ''run'', jid, ''--gateway'', url] w)) = 2 \<and>
    (wd_jobs_missing w \<or> cfunc_main env [''cron'', ''run'', ''--gateway'', url, jid] w =
      (case FireNow (Fire_http (ce_url_ok env) (\<lambda>r. map_sum (\<lambda>e. e) fst (ce_do env r)) url) (ce_jobs_dec env) jid (wd_jobs w) of
         Some e \<Rightarrow> (Inl (CronFailed e), w) | None \<Rightarrow> (Inr Silent, w)))"
proof -
  have pos: "classify_arg jid = Positional" by (rule valid_id_positional [OF assms])
  have gw: "classify_arg ''--gateway'' = FlagArg ''gateway'' None" by (simp add: classify_arg_def flag_parts_def)
  show ?thesis unfolding main_cron_run cronRun_def with_flags_def
    by (simp add: pos gw set_flag_def exit_status_def str_flag_def openCron_def OpenStore_def split: option.split)
qed

theorem cron_run_usage_witness:
  "exit_status (fst (cfunc_main demo_cli [''cron'', ''run'', ''nightly'', ''--gateway'', ''http://g''] demo_world)) = 2 \<and>
   exit_status (fst (cfunc_main demo_cli [''cron'', ''run'', ''--gateway'', ''http://g'', ''nightly''] demo_world)) = 0"
proof -
  have v: "IsValidFunctionName ''nightly''" by code_simp
  have d: "wd_jobs_missing demo_world = False"
    "FireNow (Fire_http (ce_url_ok demo_cli) (\<lambda>r. map_sum (\<lambda>e. e) fst (ce_do demo_cli r)) ''http://g'') (ce_jobs_dec demo_cli) ''nightly'' (wd_jobs demo_world) = None"
    by code_simp+
  show ?thesis using cron_run_usage [OF v, of demo_cli "''http://g''" demo_world] unfolding d by (simp add: exit_status_def)
qed

end
