(* ===== verification/Tls.thy ===== *)
theory Tls
  imports Auth
begin

text \<open>
  Packages \<open>internal/tls\<close> and \<open>internal/tls/providers\<close>: the registry of DNS providers, their
  configuration from the environment, and \<open>Setup\<close>, which decides how certificates are proved and
  acquires them. Certificate management is the package \<open>certmagic\<close>, which is not part of the program:
  acquiring certificates and answering challenges are arguments, and its default storage, a variable of
  that package which \<open>Setup\<close> sets, is passed along.
\<close>

section \<open>Definitions\<close>

definition Env_Required :: "(string \<Rightarrow> string) \<Rightarrow> string \<Rightarrow> string + string" where
  "Env_Required getenv name =
     (if getenv name \<noteq> '''' then Inr (getenv name) else Inl (''tls: required env var '' @ name @ '' is not set''))"

definition Env_Optional :: "(string \<Rightarrow> string) \<Rightarrow> string \<Rightarrow> string \<Rightarrow> string" where
  "Env_Optional getenv name dflt = (if getenv name \<noteq> '''' then getenv name else dflt)"

subsection \<open>Providers\<close>

datatype DNSProvider =
    Cloudflare string
  | DigitalOcean string
  | Hetzner string
  | Rfc2136 string string string string
  | Route53 string

type_synonym Factory = "(string \<Rightarrow> string) \<Rightarrow> string + DNSProvider"
type_synonym registry = "(string, Factory) gomap"

definition Register_provider :: "string \<Rightarrow> Factory \<Rightarrow> registry \<Rightarrow> registry" where
  "Register_provider name f reg = map_put name f reg"

definition Providers :: "registry \<Rightarrow> string list" where
  "Providers reg = sort (map fst reg)"

definition cloudflare :: Factory where
  "cloudflare getenv = (case Env_Required getenv ''CF_API_TOKEN'' of Inl e \<Rightarrow> Inl e | Inr token \<Rightarrow> Inr (Cloudflare token))"

definition digitalocean :: Factory where
  "digitalocean getenv = (case Env_Required getenv ''DO_AUTH_TOKEN'' of Inl e \<Rightarrow> Inl e | Inr token \<Rightarrow> Inr (DigitalOcean token))"

definition hetzner :: Factory where
  "hetzner getenv = (case Env_Required getenv ''HETZNER_DNS_API_TOKEN'' of Inl e \<Rightarrow> Inl e | Inr token \<Rightarrow> Inr (Hetzner token))"

definition rfc2136 :: Factory where
  "rfc2136 getenv =
     (case Env_Required getenv ''RFC2136_SERVER'' of
        Inl e \<Rightarrow> Inl e
      | Inr server \<Rightarrow>
          (case Env_Required getenv ''RFC2136_KEY_NAME'' of
             Inl e \<Rightarrow> Inl e
           | Inr keyName \<Rightarrow>
               (case Env_Required getenv ''RFC2136_KEY_ALG'' of
                  Inl e \<Rightarrow> Inl e
                | Inr keyAlg \<Rightarrow>
                    (case Env_Required getenv ''RFC2136_KEY'' of
                       Inl e \<Rightarrow> Inl e
                     | Inr key \<Rightarrow> Inr (Rfc2136 keyName keyAlg key server)))))"

definition route53 :: Factory where
  "route53 getenv = Inr (Route53 (Env_Optional getenv ''AWS_REGION'' ''us-east-1''))"

text \<open>The registry after the \<open>init\<close> functions of the package, which run in the order of its files.\<close>

definition providers_init :: registry where
  "providers_init =
     Register_provider ''route53'' route53 (Register_provider ''rfc2136'' rfc2136 (Register_provider ''hetzner'' hetzner
       (Register_provider ''digitalocean'' digitalocean (Register_provider ''cloudflare'' cloudflare []))))"

subsection \<open>Setup\<close>

record tls_Config =
  tc_Domains :: "string list"
  tc_Email :: string
  tc_Storage :: string
  tc_Provider :: string
  tc_Staging :: bool

datatype ca = LetsEncryptProductionCA | LetsEncryptStagingCA

record ACMEIssuer =
  ai_Email :: string
  ai_Agreed :: bool
  ai_CA :: ca
  ai_DNS01Solver :: "DNSProvider option"

record Manager =
  mg_storage :: "string option"
  mg_issuer :: ACMEIssuer
  mg_needsHTTP :: bool

datatype tls_error =
    NoDomain
  | NoEmail
  | UnknownProvider string "string list"
  | ProviderFailed string string
  | ManageSync string

definition dns_solver :: "registry \<Rightarrow> (string \<Rightarrow> string) \<Rightarrow> string \<Rightarrow> tls_error + DNSProvider option" where
  "dns_solver reg getenv provider =
     (if provider = '''' then Inr None
      else (case map_of reg provider of
          None \<Rightarrow> Inl (UnknownProvider provider (Providers reg))
        | Some factory \<Rightarrow>
            (case factory getenv of
               Inl e \<Rightarrow> Inl (ProviderFailed provider e)
             | Inr dns \<Rightarrow> Inr (Some dns))))"

text \<open>The library's default storage directory, its default when there is none, goes in and out.\<close>

definition Setup ::
  "registry \<Rightarrow> (string \<Rightarrow> string) \<Rightarrow> (string option \<Rightarrow> ACMEIssuer \<Rightarrow> string list \<Rightarrow> string option) \<Rightarrow> tls_Config \<Rightarrow>
   string option \<Rightarrow> (tls_error + Manager) \<times> string option" where
  "Setup reg getenv manage c storage =
     (if tc_Domains c = [] then (Inl NoDomain, storage)
      else if tc_Email c = '''' then (Inl NoEmail, storage)
      else
       (let storage = (if tc_Storage c \<noteq> '''' then Some (tc_Storage c) else storage);
            ca = (if tc_Staging c then LetsEncryptStagingCA else LetsEncryptProductionCA)
        in case dns_solver reg getenv (tc_Provider c) of
             Inl e \<Rightarrow> (Inl e, storage)
           | Inr solver \<Rightarrow>
               (let issuer = \<lparr>ai_Email = tc_Email c, ai_Agreed = True, ai_CA = ca, ai_DNS01Solver = solver\<rparr>
                in case manage storage issuer (tc_Domains c) of
                     Some e \<Rightarrow> (Inl (ManageSync e), storage)
                   | None \<Rightarrow> (Inr \<lparr>mg_storage = storage, mg_issuer = issuer, mg_needsHTTP = (tc_Provider c = '''')\<rparr>, storage))))"

definition NeedsHTTPChallenge :: "Manager \<Rightarrow> bool" where
  "NeedsHTTPChallenge m = mg_needsHTTP m"

definition HTTPChallengeHandler :: "(ACMEIssuer \<Rightarrow> 's handler_fn \<Rightarrow> 's handler_fn) \<Rightarrow> Manager \<Rightarrow> 's handler_fn \<Rightarrow> 's handler_fn" where
  "HTTPChallengeHandler challenge m handle = (if \<not> mg_needsHTTP m then handle else challenge (mg_issuer m) handle)"

text \<open>What a factory of the registry needs: the variables it names, none of them empty.\<close>

fun provider_vars :: "string \<Rightarrow> string list" where
  "provider_vars n =
     (if n = ''cloudflare'' then [''CF_API_TOKEN'']
      else if n = ''digitalocean'' then [''DO_AUTH_TOKEN'']
      else if n = ''hetzner'' then [''HETZNER_DNS_API_TOKEN'']
      else if n = ''rfc2136'' then [''RFC2136_SERVER'', ''RFC2136_KEY_NAME'', ''RFC2136_KEY_ALG'', ''RFC2136_KEY'']
      else [])"

section \<open>Lemmas\<close>

lemma registered_names: "Providers providers_init = [''cloudflare'', ''digitalocean'', ''hetzner'', ''rfc2136'', ''route53'']"
  by code_simp

lemma required_iff: "Env_Required getenv name = Inr v \<longleftrightarrow> v = getenv name \<and> v \<noteq> ''''"
  by (auto simp: Env_Required_def)

lemma factory_vars:
  assumes "map_of providers_init n = Some f"
  shows "(\<exists>dns. f getenv = Inr dns) \<longleftrightarrow> (\<forall>v \<in> set (provider_vars n). getenv v \<noteq> '''')"
proof -
  consider "n = ''cloudflare'' \<and> f = cloudflare" | "n = ''digitalocean'' \<and> f = digitalocean" | "n = ''hetzner'' \<and> f = hetzner"
    | "n = ''rfc2136'' \<and> f = rfc2136" | "n = ''route53'' \<and> f = route53"
    using assms by (auto simp: providers_init_def Register_provider_def split: if_splits)
  then show ?thesis
  proof cases
    case 4
    then show ?thesis by (simp add: rfc2136_def Env_Required_def)
  qed (simp_all add: cloudflare_def digitalocean_def hetzner_def route53_def Env_Required_def)
qed

lemma setup_ok:
  assumes "Setup reg getenv manage c storage = (Inr m, storage')"
  shows "tc_Domains c \<noteq> [] \<and> tc_Email c \<noteq> '''' \<and> storage' = (if tc_Storage c \<noteq> '''' then Some (tc_Storage c) else storage) \<and>
    mg_storage m = storage' \<and> mg_needsHTTP m = (tc_Provider c = '''') \<and> manage storage' (mg_issuer m) (tc_Domains c) = None \<and>
    ai_Email (mg_issuer m) = tc_Email c \<and> ai_CA (mg_issuer m) = (if tc_Staging c then LetsEncryptStagingCA else LetsEncryptProductionCA) \<and>
    dns_solver reg getenv (tc_Provider c) = Inr (ai_DNS01Solver (mg_issuer m))"
proof (cases "dns_solver reg getenv (tc_Provider c)")
  case (Inl e)
  then show ?thesis using assms by (simp add: Setup_def Let_def split: if_split_asm)
next
  case (Inr solver)
  define st ca iss where "st = (if tc_Storage c \<noteq> '''' then Some (tc_Storage c) else storage)"
    and "ca = (if tc_Staging c then LetsEncryptStagingCA else LetsEncryptProductionCA)"
    and "iss = \<lparr>ai_Email = tc_Email c, ai_Agreed = True, ai_CA = ca, ai_DNS01Solver = solver\<rparr>"
  have "(if tc_Domains c = [] then (Inl NoDomain, storage) else if tc_Email c = '''' then (Inl NoEmail, storage)
      else (case manage st iss (tc_Domains c) of Some e \<Rightarrow> (Inl (ManageSync e), st)
        | None \<Rightarrow> (Inr \<lparr>mg_storage = st, mg_issuer = iss, mg_needsHTTP = (tc_Provider c = '''')\<rparr>, st))) = (Inr m, storage')"
    using assms unfolding Setup_def Let_def Inr st_def ca_def iss_def sum.case .
  then have "tc_Domains c \<noteq> [] \<and> tc_Email c \<noteq> '''' \<and> manage st iss (tc_Domains c) = None \<and> storage' = st \<and>
      m = \<lparr>mg_storage = st, mg_issuer = iss, mg_needsHTTP = (tc_Provider c = '''')\<rparr>"
    by (auto split: if_split_asm option.splits)
  then show ?thesis using Inr by (simp add: st_def ca_def iss_def)
qed

lemma solver_some: "dns_solver reg getenv p = Inr s \<Longrightarrow> s = None \<longleftrightarrow> p = ''''"
  by (auto simp: dns_solver_def split: if_splits option.splits sum.splits)

end
