(* ===== verification/Addresses.thy ===== *)
theory Addresses
  imports Wire
begin

text \<open>
  What the gateway command uses of packages \<open>net\<close> and \<open>net/netip\<close>: splitting a listen address into host
  and port, parsing of IPv4 and IPv6 addresses, and loopback addresses. An address is its 16 bytes,
  an IPv4 address in its mapped form.
\<close>

section \<open>Definitions\<close>

definition SplitHostPort :: "string \<Rightarrow> (string \<times> string) option" where
  "SplitHostPort hp =
     (case last_index hp CHR '':'' of
        None \<Rightarrow> None
      | Some i \<Rightarrow>
          if hd hp = CHR ''['' then
            (if CHR '']'' \<notin> set hp then None
             else
              (let close = length (takeWhile (\<lambda>c. c \<noteq> CHR '']'') hp)
               in if Suc close \<noteq> i then None
                  else if CHR ''['' \<in> set (drop 1 hp) \<or> CHR '']'' \<in> set (drop (Suc close) hp) then None
                  else Some (take (close - 1) (drop 1 hp), drop (Suc i) hp)))
          else if CHR '':'' \<in> set (take i hp) then None
          else if CHR ''['' \<in> set hp \<or> CHR '']'' \<in> set hp then None
          else Some (take i hp, drop (Suc i) hp))"

definition octet :: "string \<Rightarrow> nat option" where
  "octet s =
     (if s = [] \<or> \<not> list_all is_digit s \<or> 1 < length s \<and> hd s = CHR ''0'' then None
      else (let n = digits_value s in if 255 < n then None else Some (nat n)))"

definition parseIPv4 :: "string \<Rightarrow> nat list option" where
  "parseIPv4 s =
     (case map octet (split_on CHR ''.'' s) of
        [Some a, Some b, Some c, Some d] \<Rightarrow> Some [a, b, c, d]
      | _ \<Rightarrow> None)"

definition hex_char :: "char \<Rightarrow> bool" where
  "hex_char c \<longleftrightarrow> is_digit c \<or> c \<in> set ''abcdefABCDEF''"

definition hex_nibble :: "char \<Rightarrow> nat" where
  "hex_nibble c = (if is_digit c then of_char c - 48 else if CHR ''a'' \<le> c then of_char c - 87 else of_char c - 55)"

definition hex_group :: "string \<Rightarrow> nat list" where
  "hex_group s = (let n = foldl (\<lambda>acc c. acc * 16 + hex_nibble c) 0 s in [n div 256, n mod 256])"

text \<open>
  The groups of an IPv6 address: at most \<open>n\<close> more, the bytes so far, the position of the ellipsis; the
  result has the text that is left.
\<close>

fun v6_groups :: "nat \<Rightarrow> nat list \<Rightarrow> nat option \<Rightarrow> string \<Rightarrow> (nat list \<times> nat option \<times> string) option" where
  "v6_groups 0 bs ell s = Some (bs, ell, s)"
| "v6_groups (Suc n) bs ell s =
     (let h = takeWhile hex_char s; bs' = bs @ hex_group h
      in if h = [] \<or> 4 < length h then None
         else (case drop (length h) s of
             [] \<Rightarrow> Some (bs', ell, [])
           | c # r \<Rightarrow>
               if c = CHR ''.'' then
                 (if ell = None \<and> length bs \<noteq> 12 \<or> 16 < length bs + 4 then None
                  else map_option (\<lambda>f. (bs @ f, ell, [])) (parseIPv4 s))
               else if c \<noteq> CHR '':'' \<or> r = [] then None
               else if hd r = CHR '':'' then
                 (if ell \<noteq> None then None
                  else if tl r = [] then Some (bs', Some (length bs'), [])
                  else v6_groups n bs' (Some (length bs')) (tl r))
               else v6_groups n bs' ell r))"

definition parseIPv6 :: "string \<Rightarrow> nat list option" where
  "parseIPv6 s =
     (let lead = (take 2 s = ''::''); s' = (if lead then drop 2 s else s)
      in if lead \<and> s' = [] then Some (replicate 16 0)
         else (case v6_groups 8 [] (if lead then Some 0 else None) s' of
             None \<Rightarrow> None
           | Some (bs, ell, rest) \<Rightarrow>
               if rest \<noteq> [] then None
               else if length bs < 16 then
                 map_option (\<lambda>e. take e bs @ replicate (16 - length bs) 0 @ drop e bs) ell
               else if ell \<noteq> None then None
               else Some bs))"

definition mapped :: "nat list \<Rightarrow> nat list" where
  "mapped v4 = replicate 10 0 @ [255, 255] @ v4"

text \<open>\<open>net.ParseIP\<close>, which refuses zones.\<close>

definition ParseIP :: "string \<Rightarrow> nat list option" where
  "ParseIP s =
     (if CHR ''%'' \<in> set s then None
      else (case dropWhile (\<lambda>c. c \<noteq> CHR ''.'' \<and> c \<noteq> CHR '':'') s of
          [] \<Rightarrow> None
        | c # _ \<Rightarrow> if c = CHR ''.'' then map_option mapped (parseIPv4 s) else parseIPv6 s))"

definition IsLoopback :: "nat list \<Rightarrow> bool" where
  "IsLoopback ip \<longleftrightarrow> (if take 12 ip = mapped [] then ip ! 12 = 127 else ip = replicate 15 0 @ [1])"

definition dotted :: "nat \<Rightarrow> nat \<Rightarrow> nat \<Rightarrow> nat \<Rightarrow> string" where
  "dotted a b c d = decimal a @ ''.'' @ decimal b @ ''.'' @ decimal c @ ''.'' @ decimal d"

section \<open>Lemmas\<close>

lemma octet_decimal:
  assumes "n < 256"
  shows "octet (decimal n) = Some n"
proof -
  have "\<not> (1 < length (decimal n) \<and> hd (decimal n) = CHR ''0'')" using decimal_head [of n] by (cases "decimal n") auto
  then show ?thesis using assms decimal_digits [of n] by (auto simp: octet_def digits_value_nat Let_def simp del: decimal.simps)
qed

lemma is_digit_consts: "\<not> is_digit CHR ''.''" "\<not> is_digit CHR '':''" "\<not> is_digit CHR ''%''" "\<not> is_digit CHR ''[''" "\<not> is_digit CHR '']''"
  by code_simp+

lemma no_octet_sep: "c \<in> set (decimal n) \<Longrightarrow> is_digit c"
  using decimal_digits [of n] by (simp add: list_all_iff del: decimal.simps)

lemma dotted_chars: "c \<in> set (dotted a b d e) \<Longrightarrow> is_digit c \<or> c = CHR ''.''"
  by (auto simp: dotted_def simp del: decimal.simps dest: no_octet_sep)

lemma split_on_digits: "list_all is_digit ds \<Longrightarrow> split_on CHR ''.'' (ds @ CHR ''.'' # s) = ds # split_on CHR ''.'' s"
  using is_digit_consts(1) by (induction ds) auto

lemma split_on_last: "list_all is_digit ds \<Longrightarrow> split_on CHR ''.'' ds = [ds]"
  using is_digit_consts(1) by (induction ds) auto

lemma parse_dotted:
  assumes "a < 256" "b < 256" "c < 256" "d < 256"
  shows "parseIPv4 (dotted a b c d) = Some [a, b, c, d]"
proof -
  have "split_on CHR ''.'' (dotted a b c d) = [decimal a, decimal b, decimal c, decimal d]"
    using decimal_digits by (simp add: dotted_def split_on_digits split_on_last del: decimal.simps)
  then show ?thesis using assms by (simp add: parseIPv4_def octet_decimal del: decimal.simps)
qed

lemma ParseIP_dotted:
  assumes "a < 256" "b < 256" "c < 256" "d < 256"
  shows "ParseIP (dotted a b c d) = Some (mapped [a, b, c, d])"
proof -
  have "CHR ''%'' \<notin> set (dotted a b c d)" using dotted_chars [of "CHR ''%''" a b c d] is_digit_consts by auto
  moreover have "\<forall>x \<in> set (decimal a). x \<noteq> CHR ''.'' \<and> x \<noteq> CHR '':''" using no_octet_sep [of _ a] is_digit_consts by metis
  then have "dropWhile (\<lambda>c. c \<noteq> CHR ''.'' \<and> c \<noteq> CHR '':'') (dotted a b c d) = CHR ''.'' # decimal b @ ''.'' @ decimal c @ ''.'' @ decimal d"
    unfolding dotted_def by (simp add: dropWhile_append2 del: decimal.simps)
  ultimately show ?thesis by (simp add: ParseIP_def parse_dotted [OF assms] del: decimal.simps)
qed

lemma mapped_loopback: "IsLoopback (mapped [a, b, c, d]) \<longleftrightarrow> a = 127"
  by (simp add: IsLoopback_def mapped_def numeral_eq_Suc)

lemma split_plain:
  assumes "CHR '':'' \<notin> set h" "CHR ''['' \<notin> set h" "CHR '']'' \<notin> set h" "CHR '':'' \<notin> set p" "CHR ''['' \<notin> set p" "CHR '']'' \<notin> set p"
  shows "SplitHostPort (h @ '':'' @ p) = Some (h, p)"
proof -
  have "hd (h @ CHR '':'' # p) \<noteq> CHR ''[''" using assms by (cases h) auto
  then show ?thesis using assms by (simp add: SplitHostPort_def last_index_append)
qed

lemma split_dotted:
  assumes "list_all is_digit port"
  shows "SplitHostPort (dotted a b c d @ '':'' @ port) = Some (dotted a b c d, port)"
proof -
  have "x \<notin> set (dotted a b c d)" "x \<notin> set port" if "x \<in> set '':[]''" for x
    using that dotted_chars [of x a b c d] is_digit_consts assms by (auto simp: list_all_iff)
  then show ?thesis by (intro split_plain) auto
qed

text \<open>Addresses in other notations.\<close>

lemma parse_examples:
  "ParseIP ''::1'' = Some (replicate 15 0 @ [1])" "ParseIP ''2001:DB8::1'' = Some ([32, 1, 13, 184] @ replicate 11 0 @ [1])"
  "ParseIP ''127.0.0.01'' = None" "ParseIP ''127.0.1'' = None" "ParseIP ''fe80::1%lo'' = None" "ParseIP ''1::2::3'' = None"
  "ParseIP ''1:2:3:4:5:6:7:8:9'' = None" "ParseIP ''::'' = Some (replicate 16 0)" "SplitHostPort ''[::1]:80'' = Some (''::1'', ''80'')"
  "SplitHostPort ''::1:80'' = None" "SplitHostPort '':8081'' = Some ([], ''8081'')"
  by code_simp+

end
