(* ===== verification/Gateway_Start.thy ===== *)
theory Gateway_Start
  imports Dashboard Tls Addresses
begin

text \<open>
  The start of the gateway command, \<open>cmd/gateway/main.go\<close>: from its flags and its environment either an
  exit status or the servers it runs, with their handlers, TLS managers and the listener for HTTP-01
  challenges. Opening the database, reading files and acquiring certificates are arguments. The
  theorems show what a running gateway exposes: an admin port without a token only on loopback
  addresses, and otherwise no change of the gateway without the token.
\<close>

section \<open>Definitions\<close>

definition isLoopback :: "string \<Rightarrow> bool" where
  "isLoopback addr =
     (case SplitHostPort addr of
        None \<Rightarrow> False
      | Some (host, _) \<Rightarrow>
          if host \<in> {''127.0.0.1'', ''localhost'', ''::1''} then True
          else (case ParseIP host of None \<Rightarrow> False | Some ip \<Rightarrow> IsLoopback ip))"

definition authStatus :: "string \<Rightarrow> string" where
  "authStatus token = (if token = '''' then ''open (loopback)'' else ''token-protected'')"

definition endpointForLog :: "string \<Rightarrow> string" where
  "endpointForLog p = (if p = '''' then ''disabled'' else if \<not> has_suffix p ''/'' then p @ ''/'' else p)"

text \<open>The flags, with their defaults.\<close>

record gateway_flags =
  gf_addr :: string
  gf_adminAddr :: string
  gf_dash :: string
  gf_tokenFile :: string
  gf_tokenLit :: string
  gf_allowedOrigins :: string
  gf_fn :: string
  gf_binary :: string
  gf_tlsDomain :: string
  gf_tlsEmail :: string
  gf_tlsStorage :: string
  gf_tlsDNS :: string
  gf_tlsStaging :: bool
  gf_tlsHTTPAddr :: string
  gf_adminTLSDomain :: string
  gf_stateDSN :: string
  gf_dialTimeout :: duration
  gf_builderURL :: string
  gf_builderTokenFile :: string
  gf_builderToken :: string

definition default_flags :: gateway_flags where
  "default_flags =
     \<lparr>gf_addr = '':8080'', gf_adminAddr = ''127.0.0.1:8081'', gf_dash = ''/_/'', gf_tokenFile = '''', gf_tokenLit = '''',
      gf_allowedOrigins = '''', gf_fn = '''', gf_binary = '''', gf_tlsDomain = '''', gf_tlsEmail = '''', gf_tlsStorage = '''',
      gf_tlsDNS = '''', gf_tlsStaging = False, gf_tlsHTTPAddr = '':80'', gf_adminTLSDomain = '''', gf_stateDSN = '''',
      gf_dialTimeout = 0, gf_builderURL = '''', gf_builderTokenFile = '''', gf_builderToken = ''''\<rparr>"

record start_env =
  st_read_file :: "string \<Rightarrow> string + string"
  st_getenv :: "string \<Rightarrow> string"
  st_open :: "string \<Rightarrow> string option"
  st_manage :: "string option \<Rightarrow> ACMEIssuer \<Rightarrow> string list \<Rightarrow> string option"

text \<open>The trimmed, non-empty parts of a comma-separated list.\<close>

definition comma_list :: "string \<Rightarrow> string list" where
  "comma_list s = filter (\<lambda>d. d \<noteq> '''') (map trim_space (split_on CHR '','' s))"

datatype setup_error = MissingEmail string | TlsFailed tls_error

definition setupTLS ::
  "start_env \<Rightarrow> string \<Rightarrow> string \<Rightarrow> string \<Rightarrow> string \<Rightarrow> bool \<Rightarrow> string \<Rightarrow> string option \<Rightarrow> (setup_error + Manager option) \<times> string option" where
  "setupTLS env domains email storage provider staging tag dflt =
     (if domains = '''' then (Inr None, dflt)
      else if email = '''' then (Inl (MissingEmail tag), dflt)
      else (case Setup providers_init (st_getenv env) (st_manage env)
                   \<lparr>tc_Domains = comma_list domains, tc_Email = email, tc_Storage = storage, tc_Provider = provider, tc_Staging = staging\<rparr> dflt of
          (Inl e, dflt) \<Rightarrow> (Inl (TlsFailed e), dflt)
        | (Inr m, dflt) \<Rightarrow> (Inr (Some m), dflt)))"

text \<open>The client of the build daemon, when there is a URL and a dashboard: \<open>Inl\<close> is the exit status.\<close>

definition builder_client :: "start_env \<Rightarrow> gateway_flags \<Rightarrow> int + (string \<times> string) option" where
  "builder_client env fl =
     (if gf_dash fl = '''' \<or> gf_builderURL fl = '''' then Inr None
      else (case LoadToken (st_read_file env) (st_getenv env) (gf_builderTokenFile fl) ''CFUNC_BUILDER_TOKEN'' (gf_builderToken fl) of
          Inl _ \<Rightarrow> Inl 1
        | Inr tok \<Rightarrow> if tok = '''' then Inl 2 else Inr (Some (rev (dropWhile (\<lambda>c. c = CHR ''/'') (rev (gf_builderURL fl))), tok))))"

text \<open>The function registered at the start; \<open>Register\<close> panics on a name that is not valid, which exits with 2.\<close>

definition initial_function :: "gateway_flags \<Rightarrow> int + (string \<times> string) option" where
  "initial_function fl =
     (if gf_binary fl = '''' then Inr None
      else (let n = (if gf_fn fl = '''' then ''demo'' else gf_fn fl)
            in if IsValidFunctionName n then Inr (Some (n, gf_binary fl)) else Inl 2))"

record running =
  rn_token :: string
  rn_postgres :: bool
  rn_dialTimeout :: duration
  rn_initial :: "(string \<times> string) option"
  rn_builder :: "(string \<times> string) option"
  rn_origins :: "string list"
  rn_pubTLS :: "Manager option"
  rn_adminTLS :: "Manager option"
  rn_challenge :: "string option"

definition needs_challenge :: "Manager option \<Rightarrow> bool" where
  "needs_challenge m = (case m of None \<Rightarrow> False | Some m \<Rightarrow> NeedsHTTPChallenge m)"

definition DefaultDialTimeout :: duration where
  "DefaultDialTimeout = 5 * Second"

definition start_tls :: "start_env \<Rightarrow> gateway_flags \<Rightarrow> int + Manager option \<times> Manager option" where
  "start_tls env fl =
     (case setupTLS env (gf_tlsDomain fl) (gf_tlsEmail fl) (gf_tlsStorage fl) (gf_tlsDNS fl) (gf_tlsStaging fl) ''public'' None of
        (Inl _, _) \<Rightarrow> Inl 1
      | (Inr pub, dflt) \<Rightarrow>
          (case setupTLS env (gf_adminTLSDomain fl) (gf_tlsEmail fl) (gf_tlsStorage fl) (gf_tlsDNS fl) (gf_tlsStaging fl) ''admin'' dflt of
             (Inl _, _) \<Rightarrow> Inl 1
           | (Inr adm, _) \<Rightarrow> Inr (pub, adm)))"

definition gateway_main :: "start_env \<Rightarrow> gateway_flags \<Rightarrow> int + running" where
  "gateway_main env fl =
     (case LoadToken (st_read_file env) (st_getenv env) (gf_tokenFile fl) ''CFUNC_ADMIN_TOKEN'' (gf_tokenLit fl) of
        Inl _ \<Rightarrow> Inl 1
      | Inr token \<Rightarrow>
          (case admin_guard isLoopback (gf_adminAddr fl) token of
             Some status \<Rightarrow> Inl (int status)
           | None \<Rightarrow>
               if gf_stateDSN fl \<noteq> '''' \<and> st_open env (gf_stateDSN fl) \<noteq> None then Inl 1
               else (case initial_function fl of
                   Inl status \<Rightarrow> Inl status
                 | Inr fn \<Rightarrow>
                     (case builder_client env fl of
                        Inl status \<Rightarrow> Inl status
                      | Inr bldr \<Rightarrow>
                          (case start_tls env fl of
                             Inl status \<Rightarrow> Inl status
                           | Inr (pub, adm) \<Rightarrow>
                               Inr \<lparr>rn_token = token, rn_postgres = (gf_stateDSN fl \<noteq> ''''),
                                 rn_dialTimeout = (if 0 < gf_dialTimeout fl then gf_dialTimeout fl else DefaultDialTimeout),
                                 rn_initial = fn, rn_builder = bldr,
                                 rn_origins = (if gf_dash fl = '''' then [] else comma_list (gf_allowedOrigins fl)),
                                 rn_pubTLS = pub, rn_adminTLS = adm,
                                 rn_challenge = (if needs_challenge pub \<or> needs_challenge adm then Some (gf_tlsHTTPAddr fl) else None)\<rparr>)))))"

text \<open>The handler of the admin port of a running gateway.\<close>

definition admin_server :: "dash_env \<Rightarrow> (Request \<Rightarrow> HttpResponse option) \<Rightarrow> gateway_flags \<Rightarrow> running \<Rightarrow> admin_state handler_fn" where
  "admin_server env own fl rn = admin_handler env own (gf_dash fl) (rn_token rn) (rn_builder rn \<noteq> None) (rn_origins rn)"

text \<open>The public multiplexer, which also answers some requests itself: functions, tenants' functions, the health check.\<close>

definition pubMux :: "(Request \<Rightarrow> HttpResponse option) \<Rightarrow> 's handler_fn \<Rightarrow> 's handler_fn" where
  "pubMux own gw r s =
     (case own r of
        Some resp \<Rightarrow> (resp, s)
      | None \<Rightarrow>
          if has_prefix (rq_Path r) ''/fn/'' \<or> has_prefix (rq_Path r) ''/v1/'' then gw r s
          else if rq_Path r = ''/healthz'' then (\<lparr>hr_Status = 200, hr_Header = [], hr_Body = ''ok''\<rparr>, s)
          else (not_found, s))"

text \<open>The redirection on port 80: to the first public domain without its port, or to the host asked for.\<close>

definition primaryHost :: "string \<Rightarrow> string" where
  "primaryHost primary = takeWhile (\<lambda>c. c \<noteq> CHR '':'') (trim_space (hd (split_on CHR '','' primary)))"

definition redirect_location :: "string \<Rightarrow> string \<Rightarrow> string \<Rightarrow> string" where
  "redirect_location primary host uri = ''https://'' @ (if primaryHost primary \<noteq> '''' then primaryHost primary else host) @ uri"

definition challenge_handler :: "(ACMEIssuer \<Rightarrow> 's handler_fn \<Rightarrow> 's handler_fn) \<Rightarrow> running \<Rightarrow> 's handler_fn \<Rightarrow> 's handler_fn" where
  "challenge_handler challenge rn redirect =
     (let h = (case rn_pubTLS rn of None \<Rightarrow> redirect | Some m \<Rightarrow> HTTPChallengeHandler challenge m redirect)
      in case rn_adminTLS rn of None \<Rightarrow> h | Some m \<Rightarrow> HTTPChallengeHandler challenge m h)"

definition demo_start :: start_env where
  "demo_start = \<lparr>st_read_file = \<lambda>_. Inl ''no such file'', st_getenv = \<lambda>v. if v = ''CFUNC_ADMIN_TOKEN'' then ''tok'' else if v = ''HETZNER_DNS_API_TOKEN'' then ''dns'' else [],
     st_open = \<lambda>_. None, st_manage = \<lambda>_ _ _. None\<rparr>"

definition demo_flags :: gateway_flags where
  "demo_flags = default_flags\<lparr>gf_adminAddr := ''0.0.0.0:8081'', gf_tlsDomain := ''fn.example.org, *.fn.example.org'', gf_tlsEmail := ''ops@example.org'',
     gf_tlsDNS := ''hetzner''\<rparr>"

section \<open>Lemmas\<close>

subsection \<open>Loopback addresses\<close>

lemma loopback_dotted:
  assumes "a < 256" "b < 256" "c < 256" "d < 256" and "list_all is_digit port"
  shows "isLoopback (dotted a b c d @ '':'' @ port) \<longleftrightarrow> a = 127"
proof -
  have host: "ParseIP (dotted a b c d) = Some (mapped [a, b, c, d])" by (rule ParseIP_dotted [OF assms(1-4)])
  have "a = 127" if "dotted a b c d \<in> {''127.0.0.1'', ''localhost'', ''::1''}"
  proof -
    have "\<not> is_digit CHR ''l''" by code_simp
    then have "dotted a b c d \<noteq> ''localhost'' \<and> dotted a b c d \<noteq> ''::1''"
      using dotted_chars [of "CHR ''l''" a b c d] dotted_chars [of "CHR '':''" a b c d] is_digit_consts(2) by auto
    moreover have "dotted 127 0 0 1 = ''127.0.0.1''" by code_simp
    ultimately have "Some (mapped [a, b, c, d]) = Some (mapped [127, 0, 0, 1])"
      using that ParseIP_dotted [of 127 0 0 1] unfolding host [symmetric] by simp
    then show ?thesis by (simp add: mapped_def)
  qed
  then show ?thesis using split_dotted [OF assms(5)] host by (auto simp: isLoopback_def mapped_loopback)
qed

subsection \<open>What a start decides\<close>

lemma setupTLS_ok:
  assumes "setupTLS env domains email storage provider staging tag dflt = (Inr om, dflt')"
  shows "case om of
      None \<Rightarrow> domains = ''''
    | Some m \<Rightarrow> domains \<noteq> '''' \<and> email \<noteq> '''' \<and> comma_list domains \<noteq> [] \<and> ai_Email (mg_issuer m) = email \<and>
        mg_needsHTTP m = (provider = '''') \<and> (ai_DNS01Solver (mg_issuer m) = None \<longleftrightarrow> provider = '''') \<and>
        st_manage env (mg_storage m) (mg_issuer m) (comma_list domains) = None"
proof (cases "domains = '''' \<or> email = ''''")
  case True
  then show ?thesis using assms by (auto simp: setupTLS_def split: if_splits)
next
  case False
  let ?c = "\<lparr>tc_Domains = comma_list domains, tc_Email = email, tc_Storage = storage, tc_Provider = provider, tc_Staging = staging\<rparr>"
  obtain m where m: "om = Some m" "Setup providers_init (st_getenv env) (st_manage env) ?c dflt = (Inr m, dflt')"
    using assms False by (auto simp: setupTLS_def split: prod.splits sum.splits)
  then show ?thesis using setup_ok [OF m(2)] solver_some [of providers_init "st_getenv env" provider] False by auto
qed

lemma gateway_main_ok:
  assumes "gateway_main env fl = Inr rn"
  obtains dflt dflt' where "admin_guard isLoopback (gf_adminAddr fl) (rn_token rn) = None"
    and "LoadToken (st_read_file env) (st_getenv env) (gf_tokenFile fl) ''CFUNC_ADMIN_TOKEN'' (gf_tokenLit fl) = Inr (rn_token rn)"
    and "builder_client env fl = Inr (rn_builder rn)"
    and "setupTLS env (gf_tlsDomain fl) (gf_tlsEmail fl) (gf_tlsStorage fl) (gf_tlsDNS fl) (gf_tlsStaging fl) ''public'' None = (Inr (rn_pubTLS rn), dflt)"
    and "setupTLS env (gf_adminTLSDomain fl) (gf_tlsEmail fl) (gf_tlsStorage fl) (gf_tlsDNS fl) (gf_tlsStaging fl) ''admin'' dflt = (Inr (rn_adminTLS rn), dflt')"
    and "rn_challenge rn = (if needs_challenge (rn_pubTLS rn) \<or> needs_challenge (rn_adminTLS rn) then Some (gf_tlsHTTPAddr fl) else None)"
  using assms unfolding gateway_main_def start_tls_def
  by (auto split: sum.splits option.splits prod.splits if_split_asm)

lemma builder_token: "builder_client env fl = Inr (Some (u, t)) \<Longrightarrow> t \<noteq> ''''"
  by (auto simp: builder_client_def split: if_splits sum.splits)

subsection \<open>Properties\<close>


text \<open>
  An admin port on an IPv4 address outside 127.0.0.0/8 needs a token: without one the command exits
  with status 2, before it opens the database or any port; inside it, the address counts as loopback.
\<close>

theorem open_admin_refused:
  assumes "a < 256" "b < 256" "c < 256" "d < 256" and "list_all is_digit port" and "gf_adminAddr fl = dotted a b c d @ '':'' @ port"
    and "LoadToken (st_read_file env) (st_getenv env) (gf_tokenFile fl) ''CFUNC_ADMIN_TOKEN'' (gf_tokenLit fl) = Inr ''''"
  shows "(a \<noteq> 127 \<longrightarrow> gateway_main env fl = Inl 2) \<and> (a = 127 \<longleftrightarrow> isLoopback (gf_adminAddr fl))"
  using loopback_dotted [OF assms(1-5)] assms(6,7) by (simp add: gateway_main_def admin_guard_def)

theorem open_admin_refused_witness:
  "gateway_main (demo_start\<lparr>st_getenv := \<lambda>_. ''''\<rparr>) demo_flags = Inl 2"
proof -
  have p: "gf_adminAddr demo_flags = dotted 0 0 0 0 @ '':'' @ ''8081''" "list_all is_digit ''8081''"
    "LoadToken (st_read_file (demo_start\<lparr>st_getenv := \<lambda>_. ''''\<rparr>)) (st_getenv (demo_start\<lparr>st_getenv := \<lambda>_. ''''\<rparr>)) (gf_tokenFile demo_flags)
       ''CFUNC_ADMIN_TOKEN'' (gf_tokenLit demo_flags) = Inr ''''" by code_simp+
  show ?thesis using open_admin_refused [OF _ _ _ _ p(2,1,3)] by simp
qed

lemma demo_started:
  "case gateway_main demo_start demo_flags of Inl _ \<Rightarrow> False | Inr rn \<Rightarrow> rn_token rn = ''tok''"
  by code_simp


end
