(* ===== verification/Layer_Distribution.thy ===== *)
theory Layer_Distribution
  imports Layer_Resolver
begin

text \<open>
  Package \<open>internal/layerstore\<close>: the store of layer archives that builders push to and gateways pull
  from, keyed by digest, with its two implementations, none (\<open>Noop\<close>) and an S3 bucket. The S3 client is
  a package outside the program: its calls are the argument \<open>minio\<close>, and \<open>minio_laws\<close> says what a
  bucket keeps. The lemmas show that what is put under a digest is what every spelling of the digest
  gets, and that a gateway's resolver accepts it.
\<close>

section \<open>Definitions\<close>

definition stripPrefix :: "string \<Rightarrow> string" where
  "stripPrefix digest =
     (if length ''sha256:'' < length digest \<and> take (length ''sha256:'') digest = ''sha256:''
      then drop (length ''sha256:'') digest else digest)"

datatype blob_error = ErrNotFound | ConfigRequired | ClientFailed string | BucketCheck string | NoBucket string | Failed string

subsection \<open>No store\<close>

definition Noop_Has :: "string \<Rightarrow> blob_error + bool" where "Noop_Has digest = Inr False"
definition Noop_Get :: "string \<Rightarrow> blob_error + reader" where "Noop_Get digest = Inl ErrNotFound"
definition Noop_Put :: "string \<Rightarrow> string \<Rightarrow> int \<Rightarrow> blob_error option" where "Noop_Put digest r sz = None"

subsection \<open>The S3 client\<close>

text \<open>An error of the client: a response of the service with its status and code, or another one.\<close>

datatype s3_error = ErrorResponse int string | OtherError string

record 'b minio =
  mn_new :: "string \<Rightarrow> string \<Rightarrow> string \<Rightarrow> bool \<Rightarrow> string \<Rightarrow> string option"
  mn_bucketExists :: "string \<Rightarrow> 'b \<Rightarrow> string + bool"
  mn_statObject :: "string \<Rightarrow> string \<Rightarrow> 'b \<Rightarrow> s3_error option"
  mn_getObject :: "string \<Rightarrow> string \<Rightarrow> 'b \<Rightarrow> s3_error + reader"
  mn_putObject :: "string \<Rightarrow> string \<Rightarrow> string \<Rightarrow> int \<Rightarrow> (string \<times> string) list \<Rightarrow> 'b \<Rightarrow> s3_error option \<times> 'b"

subsection \<open>The S3 store\<close>

record S3Config =
  s3_Endpoint :: string
  s3_Bucket :: string
  s3_Region :: string
  s3_AccessKey :: string
  s3_SecretKey :: string
  s3_UseSSL :: bool
  s3_Prefix :: string

fun s3_text :: "s3_error \<Rightarrow> string" where
  "s3_text (ErrorResponse status code) = code"
| "s3_text (OtherError msg) = msg"

definition NewS3 :: "'b minio \<Rightarrow> S3Config \<Rightarrow> 'b \<Rightarrow> blob_error + S3Config" where
  "NewS3 cli cfg b =
     (if s3_Endpoint cfg = '''' \<or> s3_Bucket cfg = '''' then Inl ConfigRequired
      else (case mn_new cli (s3_Endpoint cfg) (s3_AccessKey cfg) (s3_SecretKey cfg) (s3_UseSSL cfg) (s3_Region cfg) of
          Some e \<Rightarrow> Inl (ClientFailed e)
        | None \<Rightarrow>
            (case mn_bucketExists cli (s3_Bucket cfg) b of
               Inl e \<Rightarrow> Inl (BucketCheck e)
             | Inr ex \<Rightarrow> if \<not> ex then Inl (NoBucket (s3_Bucket cfg)) else Inr cfg)))"

definition keyFor :: "S3Config \<Rightarrow> string \<Rightarrow> string" where
  "keyFor cfg digest = s3_Prefix cfg @ stripPrefix digest"

fun isNotFound :: "s3_error \<Rightarrow> bool" where
  "isNotFound (ErrorResponse status code) \<longleftrightarrow> status = 404 \<or> code = ''NoSuchKey''"
| "isNotFound (OtherError msg) \<longleftrightarrow> False"

definition Has_s3 :: "'b minio \<Rightarrow> S3Config \<Rightarrow> string \<Rightarrow> 'b \<Rightarrow> blob_error + bool" where
  "Has_s3 cli cfg digest b =
     (case mn_statObject cli (s3_Bucket cfg) (keyFor cfg digest) b of
        Some e \<Rightarrow> if isNotFound e then Inr False else Inl (Failed (s3_text e))
      | None \<Rightarrow> Inr True)"

text \<open>\<open>GetObject\<close> is lazy, so a request for the object's state follows.\<close>

definition Get_s3 :: "'b minio \<Rightarrow> S3Config \<Rightarrow> string \<Rightarrow> 'b \<Rightarrow> blob_error + reader" where
  "Get_s3 cli cfg digest b =
     (case mn_getObject cli (s3_Bucket cfg) (keyFor cfg digest) b of
        Inl e \<Rightarrow> Inl (Failed (s3_text e))
      | Inr obj \<Rightarrow>
          (case mn_statObject cli (s3_Bucket cfg) (keyFor cfg digest) b of
             Some e \<Rightarrow> if isNotFound e then Inl ErrNotFound else Inl (Failed (s3_text e))
           | None \<Rightarrow> Inr obj))"

definition Put_s3 :: "'b minio \<Rightarrow> S3Config \<Rightarrow> string \<Rightarrow> string \<Rightarrow> int \<Rightarrow> 'b \<Rightarrow> blob_error option \<times> 'b" where
  "Put_s3 cli cfg digest r sz b =
     (case mn_putObject cli (s3_Bucket cfg) (keyFor cfg digest) r sz [(''cfunc-digest'', digest)] b of
        (Some e, b) \<Rightarrow> (Some (Failed (s3_text e)), b)
      | (None, b) \<Rightarrow> (None, b))"

subsection \<open>What a bucket keeps\<close>

text \<open>
  A put that succeeds makes its object readable with the bytes that were put; one that fails does so,
  or leaves the object as it was. Every other object stays.
\<close>

definition readable :: "'b minio \<Rightarrow> string \<Rightarrow> string \<Rightarrow> string \<Rightarrow> 'b \<Rightarrow> bool" where
  "readable cli bkt k r b \<longleftrightarrow> mn_statObject cli bkt k b = None \<and> mn_getObject cli bkt k b = Inr \<lparr>rd_bytes = r, rd_err = None\<rparr>"

definition same_object :: "'b minio \<Rightarrow> string \<Rightarrow> string \<Rightarrow> 'b \<Rightarrow> 'b \<Rightarrow> bool" where
  "same_object cli bkt k b b' \<longleftrightarrow>
     mn_statObject cli bkt k b' = mn_statObject cli bkt k b \<and> mn_getObject cli bkt k b' = mn_getObject cli bkt k b"

definition minio_laws :: "'b minio \<Rightarrow> bool" where
  "minio_laws cli \<longleftrightarrow>
     (\<forall>bkt k r meta b e b'. mn_putObject cli bkt k r (int (length r)) meta b = (e, b') \<longrightarrow>
        (readable cli bkt k r b' \<or> e \<noteq> None \<and> same_object cli bkt k b b') \<and>
        (\<forall>bkt' k'. (bkt', k') \<noteq> (bkt, k) \<longrightarrow> same_object cli bkt' k' b b'))"

text \<open>The puts of several builders, each a digest and its bytes; those that succeed, the latest first.\<close>

fun puts :: "'b minio \<Rightarrow> S3Config \<Rightarrow> (string \<times> string) list \<Rightarrow> 'b \<Rightarrow> (string, string) gomap \<times> 'b" where
  "puts cli cfg [] b = ([], b)"
| "puts cli cfg ((d, r) # ps) b =
     (case Put_s3 cli cfg d r (int (length r)) b of
        (e, b1) \<Rightarrow>
          (case puts cli cfg ps b1 of
             (done, b2) \<Rightarrow> (if e = None then done @ [(d, r)] else done, b2)))"

text \<open>The gateway's resolver on the bucket.\<close>

fun blob_text :: "blob_error \<Rightarrow> string" where
  "blob_text ErrNotFound = ''layerstore: not found''"
| "blob_text ConfigRequired = ''layerstore/s3: endpoint and bucket required''"
| "blob_text (ClientFailed e) = ''layerstore/s3: client: '' @ e"
| "blob_text (BucketCheck e) = ''layerstore/s3: bucket check: '' @ e"
| "blob_text (NoBucket n) = ''layerstore/s3: bucket does not exist: '' @ n"
| "blob_text (Failed e) = e"

definition s3_resolver :: "'b minio \<Rightarrow> S3Config \<Rightarrow> 'b \<Rightarrow> StoreResolver \<Rightarrow> StoreResolver" where
  "s3_resolver cli cfg b r = r\<lparr>sr_Get := \<lambda>d. map_sum blob_text (\<lambda>x. x) (Get_s3 cli cfg d b)\<rparr>"

text \<open>A digest in hexadecimal, with or without its prefix.\<close>

definition spells :: "string \<Rightarrow> string \<Rightarrow> bool" where
  "spells hex d \<longleftrightarrow> hex \<noteq> '''' \<and> CHR '':'' \<notin> set hex \<and> (d = hex \<or> d = ''sha256:'' @ hex)"

text \<open>Puts under the digest of their bytes, and the digest of an object that is readable with such bytes.\<close>

definition addressed :: "(string \<Rightarrow> string) \<Rightarrow> string \<times> string \<Rightarrow> bool" where
  "addressed sha p \<longleftrightarrow> spells (sha (snd p)) (fst p)"

definition held :: "(string \<Rightarrow> string) \<Rightarrow> 'b minio \<Rightarrow> S3Config \<Rightarrow> string \<Rightarrow> 'b \<Rightarrow> bool" where
  "held sha cli cfg hex b \<longleftrightarrow> (\<exists>r. sha r = hex \<and> readable cli (s3_Bucket cfg) (s3_Prefix cfg @ hex) r b)"

text \<open>A bucket held as a map from bucket and key to bytes.\<close>

definition demo_minio :: "(string \<times> string, string) gomap minio" where
  "demo_minio =
     \<lparr>mn_new = \<lambda>_ _ _ _ _. None, mn_bucketExists = \<lambda>_ _. Inr True,
      mn_statObject = \<lambda>bkt k b. if map_of b (bkt, k) = None then Some (ErrorResponse 404 ''NoSuchKey'') else None,
      mn_getObject = \<lambda>bkt k b. Inr \<lparr>rd_bytes = map_get '''' b (bkt, k), rd_err = None\<rparr>,
      mn_putObject = \<lambda>bkt k r sz meta b. if sz = int (length r) then (None, map_put (bkt, k) r b) else (Some (OtherError ''size''), b)\<rparr>"

definition demo_s3 :: S3Config where
  "demo_s3 = \<lparr>s3_Endpoint = ''s3'', s3_Bucket = ''layers'', s3_Region = '''', s3_AccessKey = ''a'', s3_SecretKey = ''s'', s3_UseSSL = True,
     s3_Prefix = ''cfunc/''\<rparr>"

text \<open>Errors of an extraction are neither of the store nor of the digest.\<close>

fun unpack_error :: "layer_error \<Rightarrow> bool" where
  "unpack_error (StoreFailed m) = False"
| "unpack_error (DigestMismatch x y) = False"
| "unpack_error e = True"

section \<open>Lemmas\<close>

declare map_of_eq_Some_iff [simp del] Some_eq_map_of_iff [simp del]

lemma strip_spelling:
  assumes "spells hex d"
  shows "stripPrefix d = hex"
proof -
  have "take (length ''sha256:'') hex \<noteq> ''sha256:''" using assms in_set_takeD [of "CHR '':''" "length ''sha256:''" hex]
    by (auto simp: spells_def)
  then show ?thesis using assms by (auto simp: spells_def stripPrefix_def)
qed

lemma put_object:
  assumes "Put_s3 cli cfg d r (int (length r)) b = (e, b')"
  obtains e' where "mn_putObject cli (s3_Bucket cfg) (s3_Prefix cfg @ stripPrefix d) r (int (length r)) [(''cfunc-digest'', d)] b = (e', b')"
    and "e = None \<longleftrightarrow> e' = None"
  using assms by (auto simp: Put_s3_def keyFor_def split: prod.splits option.splits)

text \<open>One put under the digest of its bytes.\<close>

lemma put_held:
  assumes laws: "minio_laws cli" and p: "Put_s3 cli cfg d r (int (length r)) b = (e, b')" and a: "addressed sha (d, r)"
  shows "e = None \<Longrightarrow> held sha cli cfg (stripPrefix d) b'" and "held sha cli cfg hex b \<Longrightarrow> held sha cli cfg hex b'"
proof -
  obtain e' where o: "mn_putObject cli (s3_Bucket cfg) (s3_Prefix cfg @ stripPrefix d) r (int (length r)) [(''cfunc-digest'', d)] b = (e', b')"
      "e = None \<longleftrightarrow> e' = None"
    using p by (rule put_object)
  let ?k = "s3_Prefix cfg @ stripPrefix d"
  have l: "readable cli (s3_Bucket cfg) ?k r b' \<or> e' \<noteq> None \<and> same_object cli (s3_Bucket cfg) ?k b b'"
      "k' \<noteq> ?k \<Longrightarrow> same_object cli (s3_Bucket cfg) k' b b'" for k'
    using laws o(1) unfolding minio_laws_def by blast+
  have d: "stripPrefix d = sha r" using a strip_spelling by (simp add: addressed_def)
  then have new: "readable cli (s3_Bucket cfg) ?k r b' \<Longrightarrow> held sha cli cfg (stripPrefix d) b'" by (auto simp: held_def)
  then show "e = None \<Longrightarrow> held sha cli cfg (stripPrefix d) b'" using l(1) o(2) by blast
  show "held sha cli cfg hex b'" if h: "held sha cli cfg hex b"
  proof (cases "same_object cli (s3_Bucket cfg) (s3_Prefix cfg @ hex) b b'")
    case True
    then show ?thesis using h by (auto simp: held_def readable_def same_object_def)
  next
    case False
    then have "hex = stripPrefix d" using l(2) by blast
    then show ?thesis using False l(1) new by blast
  qed
qed

lemma puts_keep:
  assumes "minio_laws cli" and "list_all (addressed sha) ps" and "held sha cli cfg hex b"
  shows "held sha cli cfg hex (snd (puts cli cfg ps b))"
  using assms(2,3)
proof (induction ps arbitrary: b)
  case (Cons p ps)
  obtain d r where p: "p = (d, r)" by (cases p)
  obtain e b1 where put: "Put_s3 cli cfg d r (int (length r)) b = (e, b1)" by fastforce
  have "held sha cli cfg hex b1" using put_held(2) [OF assms(1) put] Cons.prems by (simp add: p)
  then show ?case using Cons.IH [of b1] Cons.prems by (simp add: p put case_prod_unfold)
qed simp

lemma puts_held:
  assumes "minio_laws cli" and "list_all (addressed sha) ps" and "(d, r) \<in> set (fst (puts cli cfg ps b))"
  shows "held sha cli cfg (stripPrefix d) (snd (puts cli cfg ps b)) \<and> addressed sha (d, r)"
  using assms(2,3)
proof (induction ps arbitrary: b)
  case (Cons p ps)
  obtain d1 r1 where p: "p = (d1, r1)" by (cases p)
  obtain e b1 where put: "Put_s3 cli cfg d1 r1 (int (length r1)) b = (e, b1)" by fastforce
  have last: "snd (puts cli cfg (p # ps) b) = snd (puts cli cfg ps b1)" by (simp add: p put case_prod_unfold)
  show ?case
  proof (cases "(d, r) \<in> set (fst (puts cli cfg ps b1))")
    case True
    then show ?thesis using Cons.IH [of b1] Cons.prems unfolding last by simp
  next
    case False
    then have "e = None" "d = d1" "r = r1" using Cons.prems(2) by (auto simp: p put split: prod.splits if_splits)
    then have "held sha cli cfg (stripPrefix d) b1" "addressed sha (d, r)" using put_held(1) [OF assms(1) put] Cons.prems(1) by (simp_all add: p)
    then show ?thesis using puts_keep [OF assms(1), of sha ps cfg] Cons.prems(1) unfolding last by simp
  qed
qed simp

lemma held_reads:
  assumes "held sha cli cfg hex b" and "stripPrefix d = hex"
  obtains r where "sha r = hex" and "Has_s3 cli cfg d b = Inr True" and "Get_s3 cli cfg d b = Inr \<lparr>rd_bytes = r, rd_err = None\<rparr>"
  using assms by (auto simp: held_def readable_def Has_s3_def Get_s3_def keyFor_def)

lemma trim_hex: "CHR '':'' \<notin> set hex \<Longrightarrow> trim_prefix hex ''sha256:'' = hex"
  by (auto simp: trim_prefix_def has_prefix_iff)

lemma trim_tag: "trim_prefix (CHR ''s'' # CHR ''h'' # CHR ''a'' # CHR ''2'' # CHR ''5'' # CHR ''6'' # CHR '':'' # hex) ''sha256:'' = hex"
  by (simp add: trim_prefix_def has_prefix_def)

lemma spelled_matches: "spells hex d \<Longrightarrow> digestMatches d (''sha256:'' @ hex)"
  by (auto simp: spells_def digestMatches_def digest_norm_def trim_hex trim_tag)

subsection \<open>The resolver on a bucket\<close>

lemma writeEntry_error: "writeEntry dst e h = (Some x, h') \<Longrightarrow> unpack_error x"
  by (auto simp: writeEntry_def split: sum.splits typeflag.splits prod.splits option.splits if_splits)

lemma extract_entries_error: "extract_entries dst es h = (Some x, h') \<Longrightarrow> unpack_error x"
  by (induction es arbitrary: h) (auto dest: writeEntry_error split: prod.splits option.splits)

lemma extract_result:
  assumes "extractTarGz rs rc dst h = (res, h')"
  shows "case res of Inl x \<Rightarrow> unpack_error x | Inr got \<Rightarrow> got = ''sha256:'' @ sr_sha256 rs (rd_bytes rc)"
  using assms by (auto simp: extractTarGz_def dest: extract_entries_error split: sum.splits prod.splits option.splits if_splits)

lemma pull_accepts:
  assumes get: "sr_Get rs d = Inr rc" and m: "digestMatches d (''sha256:'' @ sr_sha256 rs (rd_bytes rc))"
    and r: "pull rs rnd d h = (Inl x, h')"
  shows "unpack_error x"
proof (cases "MkdirTemp (sr_CacheDir rs) (pull_base rnd) h")
  case (Pair t h1)
  show ?thesis
  proof (cases t)
    case (Inl e)
    then show ?thesis using r get Pair by (auto simp: pull_def Let_def split: if_splits)
  next
    case (Inr tmp)
    obtain res h2 where ex: "extractTarGz rs rc tmp h1 = (res, h2)" by fastforce
    show ?thesis using extract_result [OF ex] r get Pair Inr m ex
      by (cases res) (auto simp: pull_def Let_def split: if_splits prod.splits option.splits)
  qed
qed

lemma pull_target:
  assumes r: "pull rs rnd d h = (Inr t, h')"
  shows "t = layer_target rs d"
proof (cases "sr_Get rs d")
  case (Inl e)
  then show ?thesis using r by (auto simp: pull_def Let_def split: if_splits)
next
  case get: (Inr rc)
  obtain a h1 where tmp: "MkdirTemp (sr_CacheDir rs) (pull_base rnd) h = (a, h1)" by fastforce
  show ?thesis
  proof (cases a)
    case (Inl e)
    then show ?thesis using r get tmp by (auto simp: pull_def Let_def split: if_splits)
  next
    case (Inr p)
    obtain res h2 where ex: "extractTarGz rs rc p h1 = (res, h2)" by fastforce
    show ?thesis using r get tmp Inr ex by (cases res) (auto simp: pull_def Let_def split: if_splits prod.splits option.splits)
  qed
qed

subsection \<open>Properties\<close>

text \<open>
  (C39) Layers reach gateways through the bucket: after any sequence of pushes by any builders, each under
  the digest of its bytes and each with or without success, a layer whose push succeeded is there under
  every spelling of its digest, with bytes of that digest, and a gateway that resolves it through the
  bucket fails neither at the store nor at the check of the digest.
\<close>

theorem pushed_layer_accepted:
  assumes "minio_laws cli" and "list_all (addressed (sr_sha256 rs)) ps" and "puts cli cfg ps b = (stored, b')"
    and "(d, r) \<in> set stored" and "spells (sr_sha256 rs r) d'"
  shows "\<exists>bytes. sr_sha256 rs bytes = sr_sha256 rs r \<and> Has_s3 cli cfg d' b' = Inr True \<and>
    Get_s3 cli cfg d' b' = Inr \<lparr>rd_bytes = bytes, rd_err = None\<rparr> \<and>
    (case ensureLocal (s3_resolver cli cfg b' rs) rnd d' h of
       (Inl e, _) \<Rightarrow> unpack_error e | (Inr t, _) \<Rightarrow> t = layer_target rs d')"
proof -
  have a: "held (sr_sha256 rs) cli cfg (stripPrefix d) b'" "spells (sr_sha256 rs r) d"
    using puts_held [OF assms(1,2), of d r cfg b] assms(3,4) by (simp_all add: addressed_def)
  have "stripPrefix d' = stripPrefix d" "stripPrefix d = sr_sha256 rs r" using strip_spelling assms(5) a(2) by auto
  then obtain bytes where g: "sr_sha256 rs bytes = sr_sha256 rs r" "Has_s3 cli cfg d' b' = Inr True"
      "Get_s3 cli cfg d' b' = Inr \<lparr>rd_bytes = bytes, rd_err = None\<rparr>"
    using held_reads [OF a(1)] by metis
  let ?rs = "s3_resolver cli cfg b' rs"
  have get: "sr_Get ?rs d' = Inr \<lparr>rd_bytes = bytes, rd_err = None\<rparr>" "sr_sha256 ?rs = sr_sha256 rs" "layer_target ?rs = layer_target rs"
    by (simp_all add: s3_resolver_def g(3) layer_target_def fun_eq_iff)
  have "digestMatches d' (''sha256:'' @ sr_sha256 ?rs bytes)" using spelled_matches [OF assms(5)] by (simp add: get(2) g(1))
  then have err: "pull ?rs rnd d' h = (Inl x, h') \<Longrightarrow> unpack_error x" for x h' using pull_accepts [OF get(1)] by simp
  have tgt: "pull ?rs rnd d' h = (Inr t, h') \<Longrightarrow> t = layer_target rs d'" for t h'
    using pull_target [of ?rs] by (simp add: get(3))
  obtain res h1 where p: "pull ?rs rnd d' h = (res, h1)" by fastforce
  have "case (res, h1) of (Inl e, _) \<Rightarrow> unpack_error e | (Inr t, _) \<Rightarrow> t = layer_target rs d'"
    using err tgt p by (cases res) simp_all
  then have "case ensureLocal ?rs rnd d' h of (Inl e, _) \<Rightarrow> unpack_error e | (Inr t, _) \<Rightarrow> t = layer_target rs d'"
    by (cases "Stat h (layer_target rs d')") (simp_all only: ensureLocal_def get(3) p if_True if_False prod.case sum.case)
  then show ?thesis by (intro exI [of _ bytes] conjI g)
qed

lemma demo_minio_laws: "minio_laws demo_minio"
  by (auto simp: minio_laws_def demo_minio_def readable_def same_object_def map_get_def)

theorem pushed_layer_accepted_witness:
  "\<exists>bytes. Has_s3 demo_minio demo_s3 ''ab'' (snd (puts demo_minio demo_s3 [(''sha256:ab'', ''tgz'')] [])) = Inr True \<and>
     Get_s3 demo_minio demo_s3 ''ab'' (snd (puts demo_minio demo_s3 [(''sha256:ab'', ''tgz'')] [])) = Inr \<lparr>rd_bytes = bytes, rd_err = None\<rparr> \<and>
     fst (ensureLocal (s3_resolver demo_minio demo_s3 (snd (puts demo_minio demo_s3 [(''sha256:ab'', ''tgz'')] [])) demo_resolver) 7 ''ab'' demo_host) =
       Inr ''/cache/ab''"
proof -
  let ?p = "puts demo_minio demo_s3 [(''sha256:ab'', ''tgz'')] []"
  have e: "fst ?p = [(''sha256:ab'', ''tgz'')]" "spells (sr_sha256 demo_resolver ''tgz'') ''ab''"
    "list_all (addressed (sr_sha256 demo_resolver)) [(''sha256:ab'', ''tgz'')]"
    "fst (ensureLocal (s3_resolver demo_minio demo_s3 (snd ?p) demo_resolver) 7 ''ab'' demo_host) = Inr ''/cache/ab''" by code_simp+
  have p: "?p = ([(''sha256:ab'', ''tgz'')], snd ?p)" using e(1) by (metis prod.collapse)
  show ?thesis using pushed_layer_accepted [OF demo_minio_laws e(3) p _ e(2), of "''sha256:ab''" 7 demo_host] e(4) by auto
qed

end
