(* ===== verification/Scheduler_Command.thy ===== *)
theory Scheduler_Command
  imports Scheduler Layer_Store
begin

text \<open>
  The life of the cron daemon, \<open>cmd/scheduler/main.go\<close> with \<open>New\<close>, \<open>Start\<close>, \<open>Stop\<close> and \<open>run\<close> of the
  scheduler of the job file, and the function manifest of package \<open>internal/manifest\<close>. Signals come
  with the job file and the time at which they are handled. YAML is an argument.
\<close>

section \<open>Definitions\<close>

subsection \<open>The daemon\<close>

definition New_scheduler :: "'c \<Rightarrow> 'c Scheduler" where
  "New_scheduler cron = \<lparr>sc_cron = cron, sc_entries = []\<rparr>"

text \<open>The engine ticks (\<open>dm_ticking\<close>) from a successful \<open>Start\<close> until \<open>Stop\<close>.\<close>

record 'c daemon =
  dm_sched :: "'c Scheduler"
  dm_ticking :: bool

definition Start_scheduler ::
  "(string \<Rightarrow> 'p option) \<Rightarrow> ('p \<Rightarrow> time \<Rightarrow> time) \<Rightarrow> ('c, Job) cron_ops \<Rightarrow> (string \<Rightarrow> Job list option) \<Rightarrow> time \<Rightarrow>
   job_file \<Rightarrow> 'c Scheduler \<Rightarrow> sched_error option \<times> 'c daemon" where
  "Start_scheduler parse nextf ops dec now f s =
     (case Reload parse nextf ops dec now f s of
        (Some e, s) \<Rightarrow> (Some e, \<lparr>dm_sched = s, dm_ticking = False\<rparr>)
      | (None, s) \<Rightarrow> (None, \<lparr>dm_sched = s, dm_ticking = True\<rparr>))"

definition Stop_scheduler :: "'c daemon \<Rightarrow> 'c daemon" where
  "Stop_scheduler d = d\<lparr>dm_ticking := False\<rparr>"

text \<open>What a tick of a job logs: the error of the call, if it failed.\<close>

definition run_job :: "(Job \<Rightarrow> sched_error option) \<Rightarrow> Job \<Rightarrow> string \<times> string \<times> sched_error option" where
  "run_job trigger j = (jb_ID j, jb_Function j, trigger j)"

definition defaultStorePath :: "(string \<Rightarrow> string) \<Rightarrow> string" where
  "defaultStorePath getenv =
     Join [if getenv ''CFUNC_STORE'' = '''' then ''/var/lib/cfunc'' else getenv ''CFUNC_STORE'', ''cron.json'']"

datatype signal = SIGHUP | SIGINT | SIGTERM

text \<open>The signal loop; an error of a reload is only logged.\<close>

fun signal_loop ::
  "(string \<Rightarrow> 'p option) \<Rightarrow> ('p \<Rightarrow> time \<Rightarrow> time) \<Rightarrow> ('c, Job) cron_ops \<Rightarrow> (string \<Rightarrow> Job list option) \<Rightarrow>
   (signal \<times> job_file \<times> time) list \<Rightarrow> 'c daemon \<Rightarrow> 'c daemon" where
  "signal_loop parse nextf ops dec [] d = d"
| "signal_loop parse nextf ops dec ((sig, f, now) # sigs) d =
     (if sig = SIGHUP then signal_loop parse nextf ops dec sigs (d\<lparr>dm_sched := snd (Reload parse nextf ops dec now f (dm_sched d))\<rparr>)
      else Stop_scheduler d)"

text \<open>The exit status when the start fails, or the daemon after the signals.\<close>

definition scheduler_main ::
  "(string \<Rightarrow> 'p option) \<Rightarrow> ('p \<Rightarrow> time \<Rightarrow> time) \<Rightarrow> ('c, Job) cron_ops \<Rightarrow> (string \<Rightarrow> Job list option) \<Rightarrow> time \<Rightarrow> 'c \<Rightarrow>
   bool \<Rightarrow> job_file \<Rightarrow> (signal \<times> job_file \<times> time) list \<Rightarrow> int + 'c daemon" where
  "scheduler_main parse nextf ops dec now cron missing f sigs =
     (case OpenStore missing f of
        (Some e, f) \<Rightarrow> Inl 1
      | (None, f) \<Rightarrow>
          (case Start_scheduler parse nextf ops dec now f (New_scheduler cron) of
             (Some e, d) \<Rightarrow> Inl 1
           | (None, d) \<Rightarrow> Inr (signal_loop parse nextf ops dec sigs d)))"

text \<open>A job file whose schedules the engine accepts, with its jobs.\<close>

definition good_file :: "(string \<Rightarrow> 'p option) \<Rightarrow> (string \<Rightarrow> Job list option) \<Rightarrow> job_file \<Rightarrow> Job list \<Rightarrow> bool" where
  "good_file parse dec f jobs \<longleftrightarrow> load dec f = Inr jobs \<and> list_all (\<lambda>j. parse (jb_Schedule j) \<noteq> None) jobs"

subsection \<open>The manifest of a function\<close>

record manifest_Function =
  mf_Name :: string
  mf_Runtime :: string
  mf_Binary :: string
  mf_Layers :: "string list"

datatype manifest_error = ManifestRead os_error | ManifestParse string | NameRequired | RuntimeRequired | BinaryRequired

definition Validate_manifest :: "manifest_Function \<Rightarrow> manifest_error option" where
  "Validate_manifest f =
     (if mf_Name f = '''' then Some NameRequired
      else if mf_Runtime f = '''' then Some RuntimeRequired
      else if mf_Binary f = '''' then Some BinaryRequired
      else None)"

definition Load_manifest :: "(string \<Rightarrow> string + manifest_Function) \<Rightarrow> string \<Rightarrow> host \<Rightarrow> manifest_error + manifest_Function" where
  "Load_manifest yaml path h =
     (case ReadFile path h of
        Inl e \<Rightarrow> Inl (ManifestRead e)
      | Inr b \<Rightarrow>
          (case yaml b of
             Inl e \<Rightarrow> Inl (ManifestParse e)
           | Inr f \<Rightarrow>
               (case Validate_manifest f of
                  Some e \<Rightarrow> Inl e
                | None \<Rightarrow> Inr (if \<not> IsAbs (mf_Binary f) then f\<lparr>mf_Binary := Join [Dir_of path, mf_Binary f]\<rparr> else f))))"

section \<open>Lemmas\<close>

declare map_of_eq_Some_iff [simp del] Some_eq_map_of_iff [simp del]

subsection \<open>Reloading\<close>

lemma reload_drop_ids:
  "map_of (sc_entries (fold (reload_drop parse nextf ops now want) es s)) jid \<noteq> None \<Longrightarrow>
   map_of (sc_entries s) jid \<noteq> None \<and> (jid \<in> fst ` set es \<longrightarrow> map_of want jid \<noteq> None)"
proof (induction es arbitrary: s)
  case (Cons e es)
  show ?case using Cons.IH [of "reload_drop parse nextf ops now want e s"] Cons.prems
    by (auto simp: reload_drop_def split: option.splits if_splits)
qed simp

lemma reload_add_ids:
  "reload_add ops want s = (None, s') \<Longrightarrow> map_of (sc_entries s') jid \<noteq> None \<longleftrightarrow> map_of (sc_entries s) jid \<noteq> None \<or> jid \<in> fst ` set want"
proof (induction ops want s rule: reload_add.induct)
  case (2 ops i j js s)
  show ?case
  proof (cases "map_of (sc_entries s) i")
    case None
    then show ?thesis using 2 by (auto split: prod.splits option.splits if_splits)
  next
    case (Some eid)
    then show ?thesis using 2 by (auto simp: image_iff split: prod.splits option.splits)
  qed
qed simp

lemma desired_ids: "fst ` set (desired key jobs) = key ` set jobs"
proof -
  have "fst ` set (fold (\<lambda>j. map_put (key j) j) jobs m) = key ` set jobs \<union> fst ` set m" for m
    by (induction jobs arbitrary: m) (auto simp: dom_map_of_conv_image_fst [symmetric])
  then show ?thesis by (simp add: desired_def)
qed

text \<open>After a reload without an error the engine has entries for exactly the jobs of the file.\<close>

lemma reload_exact:
  assumes "Reload parse nextf ops dec now f s = (None, s')" and "load dec f = Inr jobs"
  shows "map_of (sc_entries s') jid \<noteq> None \<longleftrightarrow> jid \<in> jb_ID ` set jobs"
proof -
  let ?want = "desired jb_ID jobs"
  let ?t = "fold (reload_drop parse nextf ops now ?want) (sc_entries s) s"
  have r: "reload_add ops ?want ?t = (None, s')" using assms by (simp add: Reload_def List_jobs_def Let_def)
  have "map_of (sc_entries ?t) jid \<noteq> None \<Longrightarrow> jid \<in> fst ` set ?want"
    using reload_drop_ids [of parse nextf ops now ?want "sc_entries s" s jid] by (auto simp: dom_map_of_conv_image_fst [symmetric])
  then show ?thesis using reload_add_ids [OF r, of jid] desired_ids [of jb_ID jobs] by auto
qed

lemma reload_add_succeeds:
  assumes "cron_laws parse ops" and "\<forall>(i, j) \<in> set want. parse (jb_Schedule j) \<noteq> None"
  shows "\<exists>s'. reload_add ops want s = (None, s')"
  using assms(2)
proof (induction want arbitrary: s)
  case (Cons e es)
  obtain i j where e: "e = (i, j)" by (cases e)
  obtain a c where add: "ce_add ops (jb_Schedule j) j (sc_cron s) = (a, c)" by fastforce
  have "case ce_add ops (jb_Schedule j) j (sc_cron s) of
      (None, c') \<Rightarrow> parse (jb_Schedule j) = None \<and> ce_entries ops c' = ce_entries ops (sc_cron s)
    | (Some eid, c') \<Rightarrow> parse (jb_Schedule j) \<noteq> None \<and> ce_entries ops (sc_cron s) eid = None \<and>
        ce_entries ops c' = (ce_entries ops (sc_cron s))(eid \<mapsto> (jb_Schedule j, j))"
    by (rule assms(1) [unfolded cron_laws_def, THEN conjunct1, THEN spec, THEN spec, THEN spec])
  moreover have "parse (jb_Schedule j) \<noteq> None" using Cons.prems e by auto
  ultimately have "a \<noteq> None" using add by (auto split: option.splits)
  then show ?case using Cons.IH Cons.prems e add by (auto split: option.splits)
qed simp

lemma reload_succeeds:
  assumes "cron_laws parse ops" and "good_file parse dec f jobs"
  shows "\<exists>s'. Reload parse nextf ops dec now f s = (None, s')"
proof -
  have "\<forall>(i, j) \<in> set (desired jb_ID jobs). parse (jb_Schedule j) \<noteq> None"
    using desired_wf(2) [of jb_ID jobs] assms(2) by (auto simp: good_file_def list_all_iff)
  then show ?thesis using reload_add_succeeds [OF assms(1)] assms(2) by (simp add: Reload_def List_jobs_def Let_def good_file_def)
qed

lemma signal_loop_append:
  "list_all (\<lambda>x. fst x = SIGHUP) sigs \<Longrightarrow>
   signal_loop parse nextf ops dec (sigs @ rest) d = signal_loop parse nextf ops dec rest (signal_loop parse nextf ops dec sigs d)"
  by (induction sigs arbitrary: d) auto

lemma hups_tick: "list_all (\<lambda>x. fst x = SIGHUP) sigs \<Longrightarrow> dm_ticking (signal_loop parse nextf ops dec sigs d) = dm_ticking d"
proof (induction sigs arbitrary: d)
  case (Cons x sigs)
  then show ?case by (cases x) simp
qed simp

subsection \<open>The manifest\<close>

lemma IsAbs_dir: "IsAbs (Dir_of path) \<longleftrightarrow> IsAbs path"
proof (cases "last_index path CHR ''/''")
  case None
  then have "\<not> IsAbs path" by (auto simp: IsAbs_def has_prefix_iff)
  moreover have "\<not> IsAbs ''''" by (simp add: IsAbs_def has_prefix_def)
  ultimately show ?thesis by (simp only: Dir_of_def None option.case Clean_split(1))
next
  case (Some i)
  have "IsAbs (take (Suc i) path) = IsAbs path" by (cases path) (auto simp: IsAbs_def has_prefix_def)
  then show ?thesis by (simp add: Dir_of_def Some Clean_split(1))
qed

lemma Clean_ne: "Clean p \<noteq> ''''"
proof (cases "clean_parts p")
  case (Cons c cs)
  then have "c \<noteq> ''''" using clean_parts_step(1) [of p] by auto
  then show ?thesis using Cons by (cases cs) (auto simp: Clean_def)
qed (auto simp: Clean_def)

text \<open>The binary of a loaded manifest is absolute only if it or the path of the manifest was.\<close>

lemma manifest_binary:
  assumes "Load_manifest yaml path h = Inr f"
  shows "\<exists>b g. ReadFile path h = Inr b \<and> yaml b = Inr g \<and> mf_Name f = mf_Name g \<and> mf_Name g \<noteq> '''' \<and> mf_Runtime f \<noteq> '''' \<and>
    (IsAbs (mf_Binary f) \<longleftrightarrow> IsAbs path \<or> IsAbs (mf_Binary g))"
proof -
  obtain b g where g: "ReadFile path h = Inr b" "yaml b = Inr g" "Validate_manifest g = None"
      "f = (if \<not> IsAbs (mf_Binary g) then g\<lparr>mf_Binary := Join [Dir_of path, mf_Binary g]\<rparr> else g)"
    using assms by (auto simp: Load_manifest_def split: sum.splits option.splits)
  have d: "Dir_of path \<noteq> ''''" by (simp add: Dir_of_def Clean_ne)
  then have "IsAbs (Join [Dir_of path, mf_Binary g]) \<longleftrightarrow> IsAbs path" by (simp add: Clean_split(1) IsAbs_dir)
  then show ?thesis using g by (auto simp: Validate_manifest_def split: if_splits)
qed

subsection \<open>Properties\<close>



end
