(* ===== verification/Spec2Isabelle.thy ===== *)
theory Spec2Isabelle
  imports Request_Path Stats Leadership Command_Line Gateway_Start Layer_Distribution Scheduler_Command
begin

text \<open>
  A verification library for cfunc, a function-as-a-service gateway written in Go.

  \<^bold>\<open>The program.\<close> Clients call functions over HTTP. The gateway (\<open>internal/gateway\<close>) routes a request to
  a registered function, checks project and quota, takes an idle instance from the function's pool or
  spawns one (\<open>internal/spawn\<close>, as a subprocess or, through \<open>internal/oci\<close> and \<open>internal/runc\<close>, in a
  container), sends it one frame over a Unix socket (\<open>internal/wire\<close>) and turns the reply frame of the
  SDK (\<open>sdks/go\<close>) into the HTTP response. Functions, cron jobs, projects, API keys, quotas and the audit
  log live in a store (\<open>internal/state\<close>, in memory or in Postgres) whose events keep the gateways'
  caches current. Operators use a command line client (\<open>cmd/cfunc\<close>) and an admin port (\<open>cmd/gateway\<close>, \<open>internal/dashboard\<close>) guarded by a token (\<open>internal/auth\<close>). Dependency
  layers are built by a daemon (\<open>cmd/builder\<close>, \<open>internal/builder\<close>), kept in a content-addressed store
  (\<open>internal/layers\<close>), shared through a bucket (\<open>internal/layerstore\<close>) and pulled by the gateway when a
  function needs them (\<open>internal/gateway/layers.go\<close>). A scheduler (\<open>internal/scheduler\<close>, \<open>cmd/scheduler\<close>)
  calls functions at set times; of several, the one that holds a lock of the database does.

  \<^bold>\<open>The theories\<close>, each importing those it uses:

  \<^item> \<open>Prelude\<close>: Go's strings, decimal numbers, \<open>int64\<close> wrap-around, times and maps (association lists with
    distinct keys), and the lemmas on them that all components share.
  \<^item> \<open>Json\<close>, \<open>Wire\<close>: JSON quoting, scanning and objects as \<open>encoding/json\<close> treats them; the frames of
    \<open>wire.go\<close> with their limits, the SDK's serve loop and \<open>Instance.Invoke\<close>. Round trips of frames, the
    size limits, and that a served stream of invocations gets exactly one reply each, in order.
  \<^item> \<open>State_Store\<close>, \<open>Tenancy\<close>: \<open>InMemStore\<close> with its watch channels, functions, cron jobs, projects, keys,
    quotas, usage and audit log. Refinement of finite maps, the invariant of the whole store over all
    operations, exact key look-up, usage accounting and the append-only log.
  \<^item> \<open>Quota_Limiter\<close>: the limiter and the interleavings of concurrent \<open>Allow\<close> calls: admissions never exceed
    the limit by more than the calls under way, and flushing loses no count.
  \<^item> \<open>Auth\<close>: what a request must present to pass the token and the API-key middleware.
  \<^item> \<open>Gateway\<close>, \<open>Gateway_Laws\<close>, \<open>Gateway_Serving\<close>: routes, registration, pools, acquiring, serving, reaping.
    A well-formedness invariant every operation keeps, isolation of projects, what registration and
    reaping do exactly, and every refusal of a request.
  \<^item> \<open>Watch_Mirror\<close>: the cache of a gateway against a store that other replicas also write; it converges
    to the store once its events are drained.
  \<^item> \<open>Request_Path\<close>: one HTTP request through gateway, wire and SDK handler to the HTTP response.
  \<^item> \<open>Stats\<close>: the statistics snapshot, and that reaping does not change its totals.
  \<^item> \<open>Scheduler\<close>: job file, HTTP trigger, both schedulers, leadership.
  \<^item> \<open>Paths\<close>: \<open>filepath\<close> and the host's file tree with the \<open>os\<close> calls the program uses; lemmas on changes
    that stay below a directory.
  \<^item> \<open>Layer_Resolver\<close>: both resolvers behind a locale for their contract, archive extraction, the pull
    protocol and its concurrent callers as a step relation.
  \<^item> \<open>Layer_Store\<close>: adding, resolving and listing layers on disk.
  \<^item> \<open>Build_Spec\<close>, \<open>Builder\<close>: validation of build requests with the hash requirement; the build in its work
    directory, size limit, digest, archive; unpacking gives back what was packed.
  \<^item> \<open>Spawn\<close>: runtime specifications, the runc client, both spawners and the end of an instance: confinement,
    the environment of a process, and that nothing is left in the file tree.
  \<^item> \<open>Dashboard\<close>: log capture, admin API, the token split of the admin port.
  \<^item> \<open>Build_Service\<close>: the daemon's handler, the gateway's client and the path of a build between them.
  \<^item> \<open>Json_Arrays\<close>, \<open>Postgres_Store\<close>, \<open>Postgres_Tenancy\<close>: JSON arrays and maps as columns; the tables of
    \<open>migrations/\<close> with their constraints and triggers, every statement of \<open>postgres.go\<close> and
    \<open>postgres_tenancy.go\<close>, watch channels and the listening connection. A contract of stores whose
    operations can fail (\<open>fallible_kv\<close>, and with notifications \<open>announced_kv\<close>), which the Postgres tables
    and, without failures, the contract of the in-memory store satisfy; refinement of finite maps,
    delivery of events, and referential integrity in every state any replicas reach.
  \<^item> \<open>Leadership\<close>: the advisory lock with its 64-bit key and several schedulers on one server: a single
    leader as long as no session is lost, and two after one was.
  \<^item> \<open>Flags\<close>, \<open>Command_Line\<close>: package \<open>flag\<close>, and every command of \<open>cmd/cfunc\<close> on the database, the file
    tree and the job file: what each run leaves in the audit log, and that a key printed is a key found.
  \<^item> \<open>Layer_Distribution\<close>: the layer stores; pushed layers are accepted by the gateways that pull them.
  \<^item> \<open>Addresses\<close>, \<open>Tls\<close>, \<open>Gateway_Start\<close>: listen addresses, TLS set-up with its DNS providers, and the
    start of the gateway command: what a running gateway exposes, and which starts are refused.
  \<^item> \<open>Scheduler_Command\<close>: the cron daemon with its signals, which follows its job file, and the manifest of
    a function.

  \<^bold>\<open>Modelling.\<close> Structs are records with the source's field names behind a prefix, enumerations are
  datatypes, errors are values. Stateful code passes its state; a section under a mutex is one step. Where
  goroutines interleave, the theory has a step relation and the theorem quantifies over all runs
  (\<open>allow_step\<close>, \<open>pull_step\<close>, \<open>mirror_step\<close>, \<open>db_step\<close>, \<open>cluster_step\<close>). Pools, channels and instances are addresses into heaps,
  so aliasing is explicit. Integers that can overflow are wrapped (\<open>wrap64\<close>, \<open>wrapu64\<close>).

  \<^bold>\<open>Loops and fuel.\<close> Loops over data are structural recursion. \<open>Serve_turns\<close> takes the number of turns; the
  length of the input suffices, since every turn consumes a frame. \<open>wait_turns\<close> is a partial function
  with a proof that it returns. Waiting for a free instance is the value \<open>Blocked\<close>.

  \<^bold>\<open>Parameters.\<close> Code outside the repository, and what only the environment decides, are arguments: SHA-256,
  gzip and tar, base64, the cron engine, pip, YAML, the S3 client, certificate management, process start,
  HTTP calls, random names, clocks, and the JSON text of some files. A statement for the database has a
  \<open>fate\<close>: answered, refused before it has an effect, or executed with its answer lost; the text a JSON
  column gives back, collation and the order of equal timestamps belong to the server (\<open>pg_server\<close>). Their
  laws are named hypotheses (\<open>lib_ok\<close>, \<open>cron_laws\<close>, \<open>jsonb_laws\<close>, \<open>minio_laws\<close>, the reading back of an
  archive), each satisfied by an instance a witness uses.

  \<^bold>\<open>Not modelled.\<close> Listening sockets and server timeouts, logging, the web front end, the example
  functions and the Node and Python SDKs. The gateway is modelled on the in-memory store, and the
  Postgres store against the same contract of a map with events; the background loop of the limiter is
  the sequence of its flushes. The two \<open>LISTEN\<close> statements of a listener see the same state, and gaps that
  aborted statements leave in the audit ids are not represented. The file tree has no symbolic links and
  file modes are those given at creation.
\<close>

end
